(* ===== verification/Prelude.thy ===== *)
theory Prelude
  imports Main "HOL-Library.Word"
begin

text \<open>
  Shared vocabulary of the development: the machine integer types of the C++ sources, the
  correspondence between C++ character strings and byte vectors, and the generic list and word
  facts that the component theories use.

  \<^item> \<open>u8\<close>, \<open>u16\<close>, \<open>u32\<close>, \<open>u64\<close> are \<open>std::uint8_t\<close> to \<open>std::uint64_t\<close>; arithmetic on them wraps.
  \<^item> \<open>i64\<close> is \<open>std::int64_t\<close> by its bit pattern; \<open>sint\<close> is its value.
  \<^item> \<open>std::size_t\<close> is \<open>nat\<close>: every size the modelled code computes is bounded by the size of a
    buffer it holds, and subtractions are guarded in the sources.
  \<^item> \<open>std::string\<close> and \<open>std::string_view\<close> are \<open>string\<close>: a \<open>char\<close> of HOL is one byte.
  \<^item> \<open>std::chrono\<close> time points and durations are \<open>int\<close> (nanoseconds unless said otherwise).
\<close>

unbundle bit_operations_syntax

type_synonym u8 = "8 word"
type_synonym u16 = "16 word"
type_synonym u32 = "32 word"
type_synonym u64 = "64 word"
type_synonym i64 = "64 word"
type_synonym byte = "8 word"
type_synonym bytes = "8 word list"
type_synonym time_point = int

named_theorems wire_simps \<open>layout of encoded fields and results of reading them back\<close>
named_theorems failure_simps \<open>results that are failures\<close>

section \<open>Strings as byte vectors\<close>

definition byte_of_char :: "char \<Rightarrow> byte" where
  "byte_of_char c = word_of_nat (of_char c)"

definition char_of_byte :: "byte \<Rightarrow> char" where
  "char_of_byte b = char_of (unat b)"

definition bytes_of_string :: "string \<Rightarrow> bytes" where
  "bytes_of_string s = map byte_of_char s"

definition string_of_bytes :: "bytes \<Rightarrow> string" where
  "string_of_bytes bs = map char_of_byte bs"

definition char_between :: "char \<Rightarrow> char \<Rightarrow> char \<Rightarrow> bool" where
  "char_between lo hi c \<longleftrightarrow>
     (of_char lo :: nat) \<le> of_char c \<and> (of_char c :: nat) \<le> of_char hi"

lemma char_of_byte_of_char [simp]: "char_of_byte (byte_of_char c) = c"
proof -
  have "(of_char c :: nat) mod 256 = of_char c" by (rule of_char_mod_256)
  then have "unat (word_of_nat (of_char c) :: byte) = of_char c"
    by (simp add: unat_of_nat)
  then show ?thesis by (simp add: char_of_byte_def byte_of_char_def)
qed

lemma byte_of_char_of_byte [simp]: "byte_of_char (char_of_byte b) = b"
proof -
  have "unat b mod 256 = unat b"
    using unsigned_less [of b, where ?'a = nat] by simp
  then show ?thesis by (simp add: char_of_byte_def byte_of_char_def)
qed

lemma byte_of_char_eq_iff [simp]: "byte_of_char c = byte_of_char d \<longleftrightarrow> c = d"
  by (metis char_of_byte_of_char)

lemma string_of_bytes_of_string [simp]: "string_of_bytes (bytes_of_string s) = s"
  by (simp add: string_of_bytes_def bytes_of_string_def comp_def)

lemma bytes_of_string_of_bytes [simp]: "bytes_of_string (string_of_bytes bs) = bs"
  by (simp add: string_of_bytes_def bytes_of_string_def comp_def)

lemma length_bytes_of_string [simp]: "length (bytes_of_string s) = length s"
  by (simp add: bytes_of_string_def)

lemma length_string_of_bytes [simp]: "length (string_of_bytes bs) = length bs"
  by (simp add: string_of_bytes_def)

lemma bytes_of_string_append [simp]:
  "bytes_of_string (s @ t) = bytes_of_string s @ bytes_of_string t"
  by (simp add: bytes_of_string_def)

lemma bytes_of_string_eq_iff [simp]: "bytes_of_string s = bytes_of_string t \<longleftrightarrow> s = t"
  by (metis string_of_bytes_of_string)

lemma string_of_bytes_eq_iff: "string_of_bytes bs = s \<longleftrightarrow> bs = bytes_of_string s"
  by auto

section \<open>Sizes and buffers\<close>

text \<open>
  \<open>size_sub\<close> is the subtraction of \<open>std::size_t\<close>, which wraps; \<open>overwrite\<close> is \<open>std::copy_n\<close> into
  an array from an index on.
\<close>

definition size_sub :: "nat \<Rightarrow> nat \<Rightarrow> nat" where
  "size_sub a b = (if b \<le> a then a - b else 2 ^ 64 - (b - a) mod 2 ^ 64)"

definition overwrite :: "'a list \<Rightarrow> nat \<Rightarrow> 'a list \<Rightarrow> 'a list" where
  "overwrite xs n ys = take n xs @ ys @ drop (n + length ys) xs"

lemma size_sub_eq_0_iff: "size_sub a b = 0 \<longleftrightarrow> a = b"
  using mod_less_divisor [of "2 ^ 64" "b - a"] by (auto simp: size_sub_def)

lemma size_sub_le [simp]: "b \<le> a \<Longrightarrow> size_sub a b = a - b"
  by (simp add: size_sub_def)

lemma length_overwrite [simp]:
  "n + length ys \<le> length xs \<Longrightarrow> length (overwrite xs n ys) = length xs"
  by (simp add: overwrite_def)

lemma take_overwrite:
  "n + length ys \<le> length xs \<Longrightarrow> take (n + length ys) (overwrite xs n ys) = take n xs @ ys"
  by (simp add: overwrite_def)

section \<open>Lists\<close>

lemma append_eq_append_take_drop:
  "xs = ys @ zs \<longleftrightarrow> take (length ys) xs = ys \<and> drop (length ys) xs = zs"
  by (metis append_eq_conv_conj)

lemma take_eq_prefix_ex: "length ys = n \<Longrightarrow> take n xs = ys \<longleftrightarrow> (\<exists>zs. xs = ys @ zs)"
  by (metis append_eq_conv_conj append_take_drop_id)

lemma apfst_eq_Pair: "apfst f p = (a, b) \<longleftrightarrow> (\<exists>x. p = (x, b) \<and> a = f x)"
  by (cases p) auto

lemma length_2_ex: "length xs = 2 \<longleftrightarrow> (\<exists>a b. xs = [a, b])"
  by (auto simp: length_Suc_conv numeral_2_eq_2)

lemma length_4_ex: "length xs = 4 \<longleftrightarrow> (\<exists>a b c d. xs = [a, b, c, d])"
  by (auto simp: length_Suc_conv numeral_eq_Suc)

lemma length_8_ex:
  "length xs = 8 \<longleftrightarrow> (\<exists>a b c d e f g h. xs = [a, b, c, d, e, f, g, h])"
  by (auto simp: length_Suc_conv numeral_eq_Suc)

lemma split_first:
  "x \<in> set s \<Longrightarrow>
   s = takeWhile (\<lambda>y. y \<noteq> x) s @ x # drop (Suc (length (takeWhile (\<lambda>y. y \<noteq> x) s))) s"
  by (induction s) auto

lemma takeWhile_first [simp]:
  "x \<notin> set s \<Longrightarrow> takeWhile (\<lambda>y. y \<noteq> x) (s @ x # t) = s"
  by (induction s) auto

section \<open>Words\<close>

lemma unat_less_exp: "unat (w :: 'a :: len word) < 2 ^ LENGTH('a)"
  by (rule unsigned_less)

lemma card_word_interval:
  fixes a b :: "'a :: len word"
  shows "card {a .. b} = unat b + 1 - unat a"
proof -
  have "unat ` {a .. b} = {unat a .. unat b}"
  proof (intro equalityI subsetI)
    fix n assume n: "n \<in> {unat a .. unat b}"
    then have "n < 2 ^ LENGTH('a)" by (auto intro: le_less_trans [OF _ unat_less_exp])
    then have "unat (word_of_nat n :: 'a word) = n" by (simp add: unat_of_nat)
    with n show "n \<in> unat ` {a .. b}"
      by (intro image_eqI [of _ _ "word_of_nat n"]) (simp_all add: word_le_nat_alt)
  qed (auto simp: word_le_nat_alt)
  then have "card {unat a .. unat b} = card {a .. b}"
    by (metis card_image inj_onI word_unat_eq_iff)
  then show ?thesis by simp
qed

end
