(* ===== verification/Error_Result.thy ===== *)
theory Error_Result
  imports Prelude
begin

text \<open>
  \<open>include/minitun/common/error.hpp\<close>, \<open>src/common/error.cpp\<close> and
  \<open>include/minitun/common/result.hpp\<close>: the error codes, their stable spelling, the \<open>Error\<close> value
  and \<open>Result\<close>.  \<open>Result<T>\<close> is the sum type \<open>Error + 'a\<close>: \<open>Inl\<close> is the error, \<open>Inr\<close> the value;
  \<open>Result<void>\<close> is \<open>Error + unit\<close>.  Message texts are kept as the sources write them.

  The locale \<open>enum_text\<close> is the contract of every enumeration the program prints and parses; it
  is interpreted here for \<open>ErrorCode\<close> and in \<open>Storage_Models\<close> for the persisted states.
\<close>

section \<open>Error codes\<close>

datatype ErrorCode =
  EC_ok |
  EC_invalid_argument |
  EC_not_found |
  EC_already_exists |
  EC_permission_denied |
  EC_not_authenticated |
  EC_authentication_failed |
  EC_connection_failed |
  EC_connection_timeout |
  EC_remote_port_in_use |
  EC_local_connect_failed |
  EC_protocol_error |
  EC_frame_too_large |
  EC_unsupported_version |
  EC_resource_exhausted |
  EC_database_error |
  EC_tls_error |
  EC_ipc_error |
  EC_internal_error

fun error_code_to_string :: "ErrorCode \<Rightarrow> string" where
  "error_code_to_string EC_ok = ''ok''"
| "error_code_to_string EC_invalid_argument = ''invalid_argument''"
| "error_code_to_string EC_not_found = ''not_found''"
| "error_code_to_string EC_already_exists = ''already_exists''"
| "error_code_to_string EC_permission_denied = ''permission_denied''"
| "error_code_to_string EC_not_authenticated = ''not_authenticated''"
| "error_code_to_string EC_authentication_failed = ''authentication_failed''"
| "error_code_to_string EC_connection_failed = ''connection_failed''"
| "error_code_to_string EC_connection_timeout = ''connection_timeout''"
| "error_code_to_string EC_remote_port_in_use = ''remote_port_in_use''"
| "error_code_to_string EC_local_connect_failed = ''local_connect_failed''"
| "error_code_to_string EC_protocol_error = ''protocol_error''"
| "error_code_to_string EC_frame_too_large = ''frame_too_large''"
| "error_code_to_string EC_unsupported_version = ''unsupported_version''"
| "error_code_to_string EC_resource_exhausted = ''resource_exhausted''"
| "error_code_to_string EC_database_error = ''database_error''"
| "error_code_to_string EC_tls_error = ''tls_error''"
| "error_code_to_string EC_ipc_error = ''ipc_error''"
| "error_code_to_string EC_internal_error = ''internal_error''"

definition error_code_from_string :: "string \<Rightarrow> ErrorCode option" where
  "error_code_from_string value =
     (if value = ''ok'' then Some EC_ok
      else if value = ''invalid_argument'' then Some EC_invalid_argument
      else if value = ''not_found'' then Some EC_not_found
      else if value = ''already_exists'' then Some EC_already_exists
      else if value = ''permission_denied'' then Some EC_permission_denied
      else if value = ''not_authenticated'' then Some EC_not_authenticated
      else if value = ''authentication_failed'' then Some EC_authentication_failed
      else if value = ''connection_failed'' then Some EC_connection_failed
      else if value = ''connection_timeout'' then Some EC_connection_timeout
      else if value = ''remote_port_in_use'' then Some EC_remote_port_in_use
      else if value = ''local_connect_failed'' then Some EC_local_connect_failed
      else if value = ''protocol_error'' then Some EC_protocol_error
      else if value = ''frame_too_large'' then Some EC_frame_too_large
      else if value = ''unsupported_version'' then Some EC_unsupported_version
      else if value = ''resource_exhausted'' then Some EC_resource_exhausted
      else if value = ''database_error'' then Some EC_database_error
      else if value = ''tls_error'' then Some EC_tls_error
      else if value = ''ipc_error'' then Some EC_ipc_error
      else if value = ''internal_error'' then Some EC_internal_error
      else None)"

section \<open>Errors and results\<close>

datatype Error = Error (code: ErrorCode) (message: string)

type_synonym 'a Result = "Error + 'a"

definition failure :: "ErrorCode \<Rightarrow> string \<Rightarrow> 'a Result" where
  "failure c m = Inl (Error c m)"

fun has_value :: "'a Result \<Rightarrow> bool" where
  "has_value (Inl e) = False"
| "has_value (Inr v) = True"

fun value_or :: "'a Result \<Rightarrow> 'a \<Rightarrow> 'a" where
  "value_or (Inl e) fallback = fallback"
| "value_or (Inr v) fallback = v"

fun error_of :: "'a Result \<Rightarrow> Error option" where
  "error_of (Inl e) = Some e"
| "error_of (Inr v) = None"

text \<open>
  Two shapes of the sources' early return on failure: \<open>and_then\<close> passes the value of a result on,
  \<open>run_step\<close> runs an operation on an object and passes on its value and the object after it.
\<close>

definition and_then :: "'a Result \<Rightarrow> ('a \<Rightarrow> 'b Result) \<Rightarrow> 'b Result" where
  "and_then r k = (case r of Inl e \<Rightarrow> Inl e | Inr v \<Rightarrow> k v)"

definition run_step :: "('s \<Rightarrow> 'a Result \<times> 's) \<Rightarrow> ('a \<Rightarrow> 's \<Rightarrow> 'b Result) \<Rightarrow> 's \<Rightarrow> 'b Result" where
  "run_step f k s = (case f s of (Inl e, s') \<Rightarrow> Inl e | (Inr v, s') \<Rightarrow> k v s')"

definition with_context :: "Error \<Rightarrow> string \<Rightarrow> Error" where
  "with_context e context_text =
     (if context_text = [] then e
      else Error (code e)
        (context_text @ (if message e \<noteq> [] then '': '' @ message e else [])))"

definition print_error :: "Error \<Rightarrow> string" where
  "print_error e =
     error_code_to_string (code e) @ (if message e \<noteq> [] then '': '' @ message e else [])"

text \<open>
  Failures are data: the simplifier decides a result by its shape and never looks into a
  message.
\<close>

lemma Error_weak_cong [cong]: "c = c' \<Longrightarrow> Error c m = Error c' m"
  by simp

lemma failure_weak_cong [cong]: "c = c' \<Longrightarrow> failure c m = failure c' m"
  by simp

lemma failure_neq_Inr [simp]: "failure c m \<noteq> Inr v" "Inr v \<noteq> failure c m"
  by (simp_all add: failure_def)

lemma failure_eq_Inl [simp]: "failure c m = Inl e \<longleftrightarrow> e = Error c m"
  by (auto simp: failure_def)

lemma has_value_failure [simp]: "\<not> has_value (failure c m)"
  by (simp add: failure_def)

lemma case_failure [simp]: "(case failure c m of Inl e \<Rightarrow> f e | Inr v \<Rightarrow> g v) = f (Error c m)"
  by (simp add: failure_def)

lemma error_of_failure [simp]: "error_of (failure c m) = Some (Error c m)"
  by (simp add: failure_def)

lemma and_then_Inr_iff: "and_then r k = Inr w \<longleftrightarrow> (\<exists>v. r = Inr v \<and> k v = Inr w)"
  by (cases r) (simp_all add: and_then_def)

lemma and_then_simps [simp]: "and_then (Inr v) k = k v" "and_then (Inl e) k = Inl e"
  by (simp_all add: and_then_def)

lemma run_step_Inr_iff:
  "run_step f k s = Inr w \<longleftrightarrow> (\<exists>v s'. f s = (Inr v, s') \<and> k v s' = Inr w)"
  by (auto simp: run_step_def split: prod.splits sum.splits)

lemma run_step_ok: "f s = (Inr v, s') \<Longrightarrow> run_step f k s = k v s'"
  by (simp add: run_step_def)

lemma has_value_iff: "has_value r \<longleftrightarrow> (\<exists>v. r = Inr v)"
  by (cases r) simp_all

lemma Inl_iff_not_has_value: "(\<exists>e. r = Inl e) \<longleftrightarrow> \<not> has_value r"
  by (cases r) simp_all

section \<open>Enumerations with a stable spelling\<close>

locale enum_text =
  fixes to_text :: "'e \<Rightarrow> string"
    and from_text :: "string \<Rightarrow> 'e option"
  assumes from_to: "from_text (to_text e) = Some e"
    and to_from: "from_text s = Some e \<Longrightarrow> to_text e = s"
begin

lemma from_text_iff: "from_text s = Some e \<longleftrightarrow> s = to_text e"
  using from_to to_from by auto

lemma to_text_inject: "to_text a = to_text b \<longleftrightarrow> a = b"
  by (metis from_to option.inject)

lemma from_text_None_iff: "from_text s = None \<longleftrightarrow> s \<notin> range to_text"
  by (cases "from_text s") (auto simp: from_to dest: to_from)

end

lemma error_code_from_to: "error_code_from_string (error_code_to_string e) = Some e"
  by (cases e) (simp_all add: error_code_from_string_def)

lemma error_code_to_from: "error_code_from_string s = Some e \<Longrightarrow> error_code_to_string e = s"
  unfolding error_code_from_string_def by (auto split: if_split_asm)

interpretation error_code: enum_text error_code_to_string error_code_from_string
  by unfold_locales (rule error_code_from_to, erule error_code_to_from)

lemma error_code_text_length: "length (error_code_to_string e) \<le> 64"
  by (cases e) simp_all

section \<open>Context prefixes\<close>

lemma with_context_code [simp]: "code (with_context e c) = code e"
  by (simp add: with_context_def)

lemma with_context_append:
  "c \<noteq> [] \<Longrightarrow> d \<noteq> [] \<Longrightarrow> with_context (with_context e c) d = with_context e (d @ '': '' @ c)"
  by (simp add: with_context_def)

end
