(* ===== verification/Clock.thy ===== *)
theory Clock
  imports Error_Result
begin

text \<open>
  \<open>include/minitun/common/time.hpp\<close> and \<open>src/common/time.cpp\<close>.  A system-clock time point is the
  number of nanoseconds since the epoch; timestamps are \<open>std::int64_t\<close>.  Reading the clocks and the
  formatting of timestamps by \<open>gmtime_r\<close> and \<open>strftime\<close> are not modelled.
\<close>

definition seconds :: "int \<Rightarrow> int" where
  "seconds n = n * 1000000000"

definition milliseconds :: "int \<Rightarrow> int" where
  "milliseconds n = n * 1000000"

definition to_unix_seconds :: "time_point \<Rightarrow> int" where
  "to_unix_seconds t = t div seconds 1"

definition to_unix_milliseconds :: "time_point \<Rightarrow> int" where
  "to_unix_milliseconds t = t div milliseconds 1"

definition absolute_clock_skew_seconds :: "i64 \<Rightarrow> i64 \<Rightarrow> u64" where
  "absolute_clock_skew_seconds first second =
     (if sint second \<le> sint first then first - second else second - first)"

definition is_clock_skew_within :: "i64 \<Rightarrow> i64 \<Rightarrow> i64 \<Rightarrow> bool Result" where
  "is_clock_skew_within timestamp reference allowed_skew =
     (if sint allowed_skew < 0
      then failure EC_invalid_argument ''allowed clock skew must not be negative''
      else Inr (absolute_clock_skew_seconds timestamp reference \<le> allowed_skew))"

lemma uint_diff_signed:
  fixes a b :: i64
  assumes "sint b \<le> sint a"
  shows "uint (a - b) = sint a - sint b"
proof -
  have "a - b = word_of_int (sint a - sint b)" by simp
  then have "uint (a - b) = (sint a - sint b) mod 2 ^ 64"
    by (simp only: uint_word_of_int) simp
  also have "\<dots> = sint a - sint b"
    using assms sint_range_size [of a] sint_range_size [of b]
    by (intro mod_pos_pos_trivial) (simp_all add: word_size)
  finally show ?thesis .
qed

lemma uint_nonneg_signed:
  fixes a :: i64
  assumes "0 \<le> sint a"
  shows "uint a = sint a"
  using uint_diff_signed [of 0 a] assms by simp

lemma to_unix_floor:
  "seconds (to_unix_seconds t) \<le> t \<and> t < seconds (to_unix_seconds t + 1)"
  "milliseconds (to_unix_milliseconds t) \<le> t \<and> t < milliseconds (to_unix_milliseconds t + 1)"
  by (simp_all add: to_unix_seconds_def to_unix_milliseconds_def seconds_def milliseconds_def)
     presburger+

text \<open>
  Clock skew over the whole range of \<open>std::int64_t\<close>.  The skew that the code computes with
  unsigned arithmetic is the absolute difference of the two signed timestamps, whatever they are,
  and the window check accepts a timestamp exactly when that difference is at most the allowed
  skew; only a negative allowed skew is an error.
\<close>

theorem clock_skew_exact:
  "uint (absolute_clock_skew_seconds a b) = \<bar>sint a - sint b\<bar> \<and>
   is_clock_skew_within a b w =
     (if sint w < 0 then failure EC_invalid_argument ''allowed clock skew must not be negative''
      else Inr (\<bar>sint a - sint b\<bar> \<le> sint w))"
proof (intro conjI)
  show skew: "uint (absolute_clock_skew_seconds a b) = \<bar>sint a - sint b\<bar>"
    by (simp add: absolute_clock_skew_seconds_def uint_diff_signed)
  show "is_clock_skew_within a b w =
     (if sint w < 0 then failure EC_invalid_argument ''allowed clock skew must not be negative''
      else Inr (\<bar>sint a - sint b\<bar> \<le> sint w))"
    by (simp add: is_clock_skew_within_def word_le_def skew uint_nonneg_signed)
qed

end
