(* ===== verification/Accept_Recovery.thy ===== *)
theory Accept_Recovery
  imports Clock
begin

text \<open>
  \<open>include/minitun/server/accept_recovery.hpp\<close> and \<open>src/server/accept_recovery.cpp\<close>: how the listeners
  of the server pace retries after a failed accept, and the descriptor they keep in reserve for the
  case that the process has no descriptor left.  The system calls of \<open>ReservedFileDescriptor\<close> are
  parameters, and each operation returns the calls it makes.
\<close>

section \<open>Retry policy\<close>

definition kInitialRetryDelay :: int where
  "kInitialRetryDelay = 10"

definition kMaximumRetryDelay :: int where
  "kMaximumRetryDelay = 1000"

definition kLogInterval :: int where
  "kLogInterval = seconds 5"

record AcceptRetryPolicy =
  arp_failure_count :: nat
  arp_last_log :: time_point
  arp_logged :: bool

definition new_accept_retry_policy :: AcceptRetryPolicy where
  "new_accept_retry_policy = \<lparr>arp_failure_count = 0, arp_last_log = 0, arp_logged = False\<rparr>"

text \<open>In milliseconds.\<close>

definition accept_next_delay :: "AcceptRetryPolicy \<Rightarrow> int \<times> AcceptRetryPolicy" where
  "accept_next_delay p =
     (let kMaximumShift = 7;
          shift = min (arp_failure_count p) kMaximumShift
      in (min (kInitialRetryDelay * 2 ^ shift) kMaximumRetryDelay,
          if arp_failure_count p < kMaximumShift
          then p\<lparr>arp_failure_count := arp_failure_count p + 1\<rparr> else p))"

definition accept_reset :: "AcceptRetryPolicy \<Rightarrow> AcceptRetryPolicy" where
  "accept_reset p = p\<lparr>arp_failure_count := 0, arp_logged := False, arp_last_log := 0\<rparr>"

definition accept_should_log :: "time_point \<Rightarrow> AcceptRetryPolicy \<Rightarrow> bool \<times> AcceptRetryPolicy" where
  "accept_should_log now p =
     (if \<not> arp_logged p \<or> kLogInterval \<le> now - arp_last_log p
      then (True, p\<lparr>arp_logged := True, arp_last_log := now\<rparr>)
      else (False, p))"

text \<open>The error codes of asio that the policy tells apart; \<open>AE_enfile\<close> is the system error ENFILE.\<close>

datatype AcceptError =
  AE_none | AE_no_descriptors | AE_enfile | AE_no_buffer_space | AE_no_memory |
  AE_operation_aborted | AE_bad_descriptor | AE_other

definition descriptor_exhausted :: "AcceptError \<Rightarrow> bool" where
  "descriptor_exhausted e \<longleftrightarrow> e = AE_no_descriptors \<or> e = AE_enfile"

definition resource_exhausted :: "AcceptError \<Rightarrow> bool" where
  "resource_exhausted e \<longleftrightarrow> descriptor_exhausted e \<or> e = AE_no_buffer_space \<or> e = AE_no_memory"

definition retryable :: "AcceptError \<Rightarrow> bool" where
  "retryable e \<longleftrightarrow> e \<noteq> AE_none \<and> e \<noteq> AE_operation_aborted \<and> e \<noteq> AE_bad_descriptor"

section \<open>Reserved descriptor\<close>

datatype DescriptorCall =
  OpenedNull int | Closed int | SetFlags int | Accepted int

text \<open>\<open>opened\<close> is what opening the null device returns; negative when it fails.\<close>

definition reserve_reopen :: "int \<Rightarrow> int \<Rightarrow> DescriptorCall list \<times> int" where
  "reserve_reopen opened descriptor =
     (if 0 \<le> descriptor then ([], descriptor) else ([OpenedNull opened], opened))"

definition reserve_close :: "int \<Rightarrow> DescriptorCall list \<times> int" where
  "reserve_close descriptor = (if descriptor < 0 then ([], descriptor) else ([Closed descriptor], -1))"

text \<open>
  One call of \<open>accept\<close>: a signal interrupted it, it failed otherwise, or it returned a descriptor.
  The loop repeats interrupted calls; \<open>accepts n\<close> is the outcome of the \<open>n\<close>-th call.
\<close>

datatype AcceptOutcome = AO_interrupted | AO_failed | AO_connection nat

partial_function (option) accept_loop :: "(nat \<Rightarrow> AcceptOutcome) \<Rightarrow> nat \<Rightarrow> int option" where
  [code]: "accept_loop accepts n =
     (case accepts n of
        AO_interrupted \<Rightarrow> accept_loop accepts (n + 1)
      | AO_failed \<Rightarrow> Some (-1)
      | AO_connection fd \<Rightarrow> Some (int fd))"

definition is_blocking :: "int \<Rightarrow> bool" where
  "is_blocking flags \<longleftrightarrow> 0 \<le> flags \<and> \<not> bit flags 11"

text \<open>
  \<open>flags\<close> are the flags of the listener, negative when they cannot be read; \<open>O_NONBLOCK\<close> is bit 11.
\<close>

definition reserve_recover ::
  "int \<Rightarrow> (nat \<Rightarrow> AcceptOutcome) \<Rightarrow> int \<Rightarrow> int \<Rightarrow> (DescriptorCall list \<times> int) option" where
  "reserve_recover flags accepts opened descriptor =
     (case accept_loop accepts 0 of
        None \<Rightarrow> None
      | Some dropped \<Rightarrow>
          (let (closed, descriptor1) = reserve_close descriptor;
               nonblocking = (if is_blocking flags then [SetFlags (set_bit 11 flags)] else []);
               drop_calls = (if 0 \<le> dropped then [Accepted dropped, Closed dropped] else []);
               restored = (if is_blocking flags then [SetFlags flags] else []);
               (reopened, descriptor2) = reserve_reopen opened descriptor1
           in Some (closed @ nonblocking @ drop_calls @ restored @ reopened, descriptor2)))"

definition reserve_available :: "int \<Rightarrow> bool" where
  "reserve_available descriptor \<longleftrightarrow> 0 \<le> descriptor"

section \<open>Delays and log entries\<close>

datatype AcceptEvent = AcceptFailed time_point | AcceptOk

text \<open>
  The calls a listener makes: a failure asks whether to log and for the delay, a success resets.
  Each failure reports its delay and whether it was logged.
\<close>

fun accept_run :: "AcceptEvent list \<Rightarrow> AcceptRetryPolicy \<Rightarrow> (int \<times> bool) list \<times> AcceptRetryPolicy" where
  "accept_run [] p = ([], p)"
| "accept_run (AcceptFailed now # es) p =
     (let (logged, p1) = accept_should_log now p; (delay, p2) = accept_next_delay p1
      in apfst (Cons (delay, logged)) (accept_run es p2))"
| "accept_run (AcceptOk # es) p = accept_run es (accept_reset p)"

text \<open>Failures in a row at the given times.\<close>

definition failures :: "time_point list \<Rightarrow> AcceptRetryPolicy \<Rightarrow> (int \<times> bool) list" where
  "failures ts p = fst (accept_run (map AcceptFailed ts) p)"

lemma failures_Cons:
  "failures (t # ts) p =
     (let (logged, p1) = accept_should_log t p; (delay, p2) = accept_next_delay p1
      in (delay, logged) # failures ts p2)"
  by (simp add: failures_def Let_def case_prod_beta')

lemma failures_Nil [simp]: "failures [] p = []"
  by (simp add: failures_def)

lemma should_log_count [simp]:
  "arp_failure_count (snd (accept_should_log t p)) = arp_failure_count p"
  by (simp add: accept_should_log_def)

lemma next_delay_log [simp]:
  "arp_last_log (snd (accept_next_delay p)) = arp_last_log p"
  "arp_logged (snd (accept_next_delay p)) = arp_logged p"
  by (simp_all add: accept_next_delay_def Let_def)

lemma length_failures [simp]: "length (failures ts p) = length ts"
  by (induction ts arbitrary: p) (auto simp: failures_Cons Let_def case_prod_beta')

lemma min_power_saturated:
  assumes "(7 :: nat) \<le> n"
  shows "min (10 * 2 ^ n) 1000 = (1000 :: int)"
proof -
  have "(2 :: int) ^ 7 \<le> 2 ^ n" using assms by (rule power_increasing) simp
  then show ?thesis by simp
qed

lemma next_delay_value:
  assumes "arp_failure_count p \<le> 7" "min 7 n = arp_failure_count p"
  shows "fst (accept_next_delay p) = min (10 * 2 ^ n) 1000"
    "arp_failure_count (snd (accept_next_delay p)) \<le> 7"
    "min 7 (Suc n) = arp_failure_count (snd (accept_next_delay p))"
  using assms min_power_saturated [of n]
  by (auto simp: accept_next_delay_def Let_def kInitialRetryDelay_def kMaximumRetryDelay_def
      min_def split: if_splits)

lemma failure_delays:
  assumes "arp_failure_count p \<le> 7" "min 7 n = arp_failure_count p" "i < length ts"
  shows "fst (failures ts p ! i) = min (10 * 2 ^ (n + i)) 1000"
  using assms
proof (induction ts arbitrary: p n i)
  case (Cons t ts)
  let ?p1 = "snd (accept_should_log t p)"
  have p1: "arp_failure_count ?p1 \<le> 7" "min 7 n = arp_failure_count ?p1" using Cons.prems by simp_all
  show ?case
    using Cons.prems(3) Cons.IH [OF next_delay_value(2,3) [OF p1], of "i - 1"] next_delay_value(1) [OF p1]
    by (cases i) (simp_all add: failures_Cons Let_def case_prod_beta')
qed simp

text \<open>The times at which failures were logged.\<close>

definition logged_times :: "time_point list \<Rightarrow> AcceptRetryPolicy \<Rightarrow> time_point list" where
  "logged_times ts p = map fst (filter (snd \<circ> snd) (zip ts (failures ts p)))"

lemma logged_times_Cons:
  "logged_times (t # ts) p =
     (if fst (accept_should_log t p) then [t] else []) @
     logged_times ts (snd (accept_next_delay (snd (accept_should_log t p))))"
  by (simp add: logged_times_def failures_Cons Let_def case_prod_beta')

lemma logged_times_spaced:
  assumes "arp_logged p"
  shows "(\<forall>t \<in> set (logged_times ts p). kLogInterval \<le> t - arp_last_log p) \<and>
    sorted_wrt (\<lambda>a b. kLogInterval \<le> b - a) (logged_times ts p)"
  using assms
proof (induction ts arbitrary: p)
  case Nil
  show ?case by (simp add: logged_times_def)
next
  case (Cons t ts)
  let ?p = "snd (accept_next_delay (snd (accept_should_log t p)))"
  have "arp_logged ?p" using Cons.prems by (simp add: accept_should_log_def)
  note rest = Cons.IH [OF this]
  have pos: "0 < kLogInterval" by (simp add: kLogInterval_def seconds_def)
  show ?case
  proof (cases "fst (accept_should_log t p)")
    case True
    then have "arp_last_log ?p = t" "kLogInterval \<le> t - arp_last_log p"
      using Cons.prems by (auto simp: accept_should_log_def split: if_splits)
    then show ?thesis using rest True pos by (fastforce simp: logged_times_Cons)
  next
    case False
    then have "arp_last_log ?p = arp_last_log p" by (auto simp: accept_should_log_def split: if_splits)
    then show ?thesis using rest False by (simp add: logged_times_Cons)
  qed
qed

text \<open>
  Retries after failed accepts are paced.  While accepts keep failing after a successful one,
  the delays double from 10 milliseconds to one second and stay there, the first failure is logged,
  and log entries are at least five seconds apart.
\<close>

theorem accept_retries_paced:
  "let p = accept_reset p0
   in map fst (failures ts p) = map (\<lambda>i. min (10 * 2 ^ i) 1000) [0..<length ts] \<and>
      sorted_wrt (\<lambda>a b. seconds 5 \<le> b - a) (logged_times ts p) \<and>
      take 1 (logged_times ts p) = take 1 ts"
proof -
  let ?p = "accept_reset p0"
  have "fst (failures ts ?p ! i) = min (10 * 2 ^ i) 1000" if "i < length ts" for i
    using failure_delays [of ?p 0, OF _ _ that] by (simp add: accept_reset_def)
  then have "map fst (failures ts ?p) = map (\<lambda>i. min (10 * 2 ^ i) 1000) [0..<length ts]"
    by (intro nth_equalityI) simp_all
  moreover have "sorted_wrt (\<lambda>a b. kLogInterval \<le> b - a) (logged_times ts ?p) \<and>
      take 1 (logged_times ts ?p) = take 1 ts"
  proof (cases ts)
    case Nil
    then show ?thesis by (simp add: logged_times_def)
  next
    case (Cons t ts')
    let ?p1 = "snd (accept_next_delay (snd (accept_should_log t ?p)))"
    have log: "fst (accept_should_log t ?p)" "arp_logged ?p1" "arp_last_log ?p1 = t"
      by (simp_all add: accept_should_log_def accept_reset_def)
    have pos: "0 < kLogInterval" by (simp add: kLogInterval_def seconds_def)
    show ?thesis
      using logged_times_spaced [OF log(2), of ts'] log pos
      by (simp add: Cons logged_times_Cons)
  qed
  ultimately show ?thesis by (simp add: Let_def kLogInterval_def)
qed

section \<open>The reserve after a recovery\<close>

lemma accept_loop_returns:
  assumes "accepts (n + k) \<noteq> AO_interrupted"
  shows "\<exists>fd. accept_loop accepts n = Some fd"
  using assms
proof (induction k arbitrary: n)
  case 0
  then show ?case by (subst accept_loop.simps) (auto split: AcceptOutcome.splits)
next
  case (Suc k)
  from Suc.IH [of "Suc n"] Suc.prems show ?case
    by (subst accept_loop.simps) (auto split: AcceptOutcome.splits)
qed

text \<open>Descriptors the calls leave open, starting from \<open>held\<close>.\<close>

fun held_after :: "DescriptorCall list \<Rightarrow> int list \<Rightarrow> int list" where
  "held_after [] fds = fds"
| "held_after (OpenedNull fd # cs) fds = held_after cs (if 0 \<le> fd then fd # fds else fds)"
| "held_after (Accepted fd # cs) fds = held_after cs (fd # fds)"
| "held_after (Closed fd # cs) fds = held_after cs (remove1 fd fds)"
| "held_after (SetFlags _ # cs) fds = held_after cs fds"

lemma held_after_append: "held_after (cs @ cs') fds = held_after cs' (held_after cs fds)"
  by (induction cs fds rule: held_after.induct) auto

text \<open>
  The recovery ends once \<open>accept\<close> is not interrupted, closes the dropped connection, restores the
  listener's flags, and holds at most the new reserve.
\<close>

lemma reserve_recover_closes:
  assumes "accepts k \<noteq> AO_interrupted"
  shows "\<exists>calls descriptor'. reserve_recover flags accepts opened descriptor = Some (calls, descriptor') \<and>
    descriptor' = opened \<and>
    held_after calls (if 0 \<le> descriptor then [descriptor] else []) = (if 0 \<le> opened then [opened] else [])"
proof -
  obtain fd where "accept_loop accepts 0 = Some fd" using accept_loop_returns [of accepts 0 k] assms by auto
  then show ?thesis
    by (auto simp: reserve_recover_def Let_def reserve_close_def reserve_reopen_def held_after_append)
qed

end
