(* ===== verification/Streams.thy ===== *)
theory Streams
  imports Error_Result "HOL-Library.Sublist"
begin

text \<open>
  The specification of a length-prefixed byte stream, shared by the remote protocol
  (\<open>src/protocol/frame.cpp\<close>) and the local control channel (\<open>src/ipc/frame.cpp\<close>).

  A frame is a header of \<open>h\<close> bytes, from which \<open>parse\<close> reads the frame's description and the
  length of its payload, and the payload.  \<open>parse_stream\<close> cuts the frames off a whole buffer.  The
  locale \<open>stream_decoder\<close> is the contract of an incremental decoder: it behaves as if it kept the
  undecoded bytes and ran \<open>parse_stream\<close> on them and the new ones.  What the clients rely on
  (independence of how the stream is cut into chunks, round trip with the encoder) follows from
  that contract alone.
\<close>

section \<open>Cutting a buffer into frames\<close>

datatype 'f next_frame = Need_More | Bad Error | Got 'f bytes

definition next_frame ::
  "nat \<Rightarrow> (bytes \<Rightarrow> ('h \<times> nat) Result) \<Rightarrow> ('h \<Rightarrow> bytes \<Rightarrow> 'f) \<Rightarrow> bytes \<Rightarrow> 'f next_frame" where
  "next_frame h parse build buf =
     (if length buf < h then Need_More
      else case parse (take h buf) of
             Inl e \<Rightarrow> Bad e
           | Inr (d, n) \<Rightarrow>
               if length buf < h + n then Need_More
               else Got (build d (take n (drop h buf))) (drop (h + n) buf))"

datatype stream_end = Pending bytes | Broken Error

function parse_stream ::
  "nat \<Rightarrow> (bytes \<Rightarrow> ('h \<times> nat) Result) \<Rightarrow> ('h \<Rightarrow> bytes \<Rightarrow> 'f) \<Rightarrow> bytes \<Rightarrow>
   'f list \<times> stream_end" where
  "parse_stream h parse build buf =
     (case next_frame h parse build buf of
        Need_More \<Rightarrow> ([], Pending buf)
      | Bad e \<Rightarrow> ([], Broken e)
      | Got f rest \<Rightarrow>
          if length rest < length buf
          then apfst ((#) f) (parse_stream h parse build rest)
          else ([], Pending buf))"
  by pat_completeness auto

termination
  by (relation "measure (\<lambda>(h, parse, build, buf). length buf)") auto

declare parse_stream.simps [simp del]

fun feed_all ::
  "('s \<Rightarrow> bytes \<Rightarrow> 'f list Result \<times> 's) \<Rightarrow> 's \<Rightarrow> bytes list \<Rightarrow> 'f list Result \<times> 's" where
  "feed_all feed d [] = (Inr [], d)"
| "feed_all feed d (c # cs) =
     (case feed d c of
        (Inl e, d') \<Rightarrow> (Inl e, d')
      | (Inr fs, d') \<Rightarrow> (case feed_all feed d' cs of
                          (Inl e, d'') \<Rightarrow> (Inl e, d'')
                        | (Inr gs, d'') \<Rightarrow> (Inr (fs @ gs), d'')))"

text \<open>
  \<open>feed_all\<close> is a caller that wants all the frames of a stream or none.  \<open>deliver\<close> is one that acts
  on the frames of every chunk as it comes and stops at the first error, as the connections do: the
  frames it got before the error stay delivered.
\<close>

fun deliver ::
  "('s \<Rightarrow> bytes \<Rightarrow> 'f list Result \<times> 's) \<Rightarrow> 's \<Rightarrow> bytes list \<Rightarrow> 'f list \<times> Error option \<times> 's" where
  "deliver feed d [] = ([], None, d)"
| "deliver feed d (c # cs) =
     (case feed d c of
        (Inl e, d') \<Rightarrow> ([], Some e, d')
      | (Inr fs, d') \<Rightarrow> (case deliver feed d' cs of (gs, r, d'') \<Rightarrow> (fs @ gs, r, d'')))"

section \<open>Facts about the specification\<close>

lemma next_frame_Got_append:
  "next_frame h parse build buf = Got f rest \<Longrightarrow>
   next_frame h parse build (buf @ more) = Got f (rest @ more)"
  by (auto simp: next_frame_def split: if_splits sum.splits)

lemma next_frame_Bad_append:
  "next_frame h parse build buf = Bad e \<Longrightarrow> next_frame h parse build (buf @ more) = Bad e"
  by (auto simp: next_frame_def split: if_splits sum.splits)

lemma next_frame_Got_shorter:
  "0 < h \<Longrightarrow> next_frame h parse build buf = Got f rest \<Longrightarrow> length rest < length buf"
  by (auto simp: next_frame_def split: if_splits sum.splits)

lemma parse_stream_Got:
  "0 < h \<Longrightarrow> next_frame h parse build buf = Got f rest \<Longrightarrow>
   parse_stream h parse build buf = apfst ((#) f) (parse_stream h parse build rest)"
  by (subst parse_stream.simps) (simp add: next_frame_Got_shorter)

lemma parse_stream_Need_More:
  "next_frame h parse build buf = Need_More \<Longrightarrow>
   parse_stream h parse build buf = ([], Pending buf)"
  by (subst parse_stream.simps) simp

lemma parse_stream_Bad:
  "next_frame h parse build buf = Bad e \<Longrightarrow> parse_stream h parse build buf = ([], Broken e)"
  by (subst parse_stream.simps) simp

lemma parse_stream_Nil: "0 < h \<Longrightarrow> parse_stream h parse build [] = ([], Pending [])"
  by (rule parse_stream_Need_More) (simp add: next_frame_def)

text \<open>More input continues the parse of what was left over, and cannot repair a broken stream.\<close>

lemma parse_stream_append:
  assumes "0 < h"
  shows "parse_stream h parse build buf = (fs, en) \<Longrightarrow>
    parse_stream h parse build (buf @ more) =
      (case en of Pending q \<Rightarrow> apfst ((@) fs) (parse_stream h parse build (q @ more))
                | Broken e \<Rightarrow> (fs, Broken e))"
proof (induction "length buf" arbitrary: buf fs rule: less_induct)
  case less
  show ?case
  proof (cases "next_frame h parse build buf")
    case Need_More
    with less.prems show ?thesis
      by (auto simp: parse_stream_Need_More apfst_def map_prod_def)
  next
    case (Bad e)
    with less.prems show ?thesis
      by (auto simp: parse_stream_Bad next_frame_Bad_append)
  next
    case (Got f rest)
    then obtain gs where gs: "parse_stream h parse build rest = (gs, en)" "fs = f # gs"
      using less.prems assms by (auto simp: parse_stream_Got apfst_eq_Pair)
    have "length rest < length buf" using Got assms by (rule next_frame_Got_shorter [rotated])
    from less.hyps [OF this gs(1)] show ?thesis
      using assms next_frame_Got_append [OF Got, of more]
      by (cases en) (auto simp: parse_stream_Got gs(2) apfst_def map_prod_def split: prod.splits)
  qed
qed

section \<open>The contract of an incremental decoder\<close>

locale stream_decoder =
  fixes h :: nat
    and parse :: "bytes \<Rightarrow> ('h \<times> nat) Result"
    and build :: "'h \<Rightarrow> bytes \<Rightarrow> 'f"
    and feed :: "'s \<Rightarrow> bytes \<Rightarrow> 'f list Result \<times> 's"
    and inv :: "'s \<Rightarrow> bool"
    and pending :: "'s \<Rightarrow> bytes option"
  assumes header_nonempty: "0 < h"
    and feed_pending: "inv d \<Longrightarrow> pending d = Some p \<Longrightarrow>
      parse_stream h parse build (p @ bs) = (fs, Pending q) \<Longrightarrow>
      \<exists>d'. feed d bs = (Inr fs, d') \<and> inv d' \<and> pending d' = Some q"
    and feed_broken: "inv d \<Longrightarrow> pending d = Some p \<Longrightarrow>
      parse_stream h parse build (p @ bs) = (fs, Broken e) \<Longrightarrow>
      \<exists>d'. feed d bs = (Inl e, d') \<and> inv d' \<and> pending d' = None"
    and feed_failed: "inv d \<Longrightarrow> pending d = None \<Longrightarrow> \<exists>e. feed d bs = (Inl e, d)"
begin

lemma feed_inv: "inv d \<Longrightarrow> inv (snd (feed d bs))"
proof (cases "pending d")
  case None
  moreover assume "inv d"
  ultimately show ?thesis using feed_failed [of d bs] by auto
next
  case (Some p)
  moreover assume "inv d"
  moreover obtain fs en where "parse_stream h parse build (p @ bs) = (fs, en)"
    by fastforce
  ultimately show ?thesis
    using feed_pending [of d p bs fs] feed_broken [of d p bs fs] by (cases en) auto
qed

lemma feed_all_inv: "inv d \<Longrightarrow> inv (snd (feed_all feed d cs))"
proof (induction cs arbitrary: d)
  case (Cons c cs)
  obtain r d' where "feed d c = (r, d')" by fastforce
  moreover have "inv d'" using feed_inv [OF Cons.prems, of c] calculation by simp
  moreover note Cons.IH [of d']
  ultimately show ?case by (auto split: sum.splits prod.splits)
qed simp

lemma feed_all_pending:
  "inv d \<Longrightarrow> pending d = Some p \<Longrightarrow>
   parse_stream h parse build p = ([], Pending p) \<Longrightarrow>
   parse_stream h parse build (p @ concat cs) = (fs, Pending q) \<Longrightarrow>
   \<exists>d'. feed_all feed d cs = (Inr fs, d') \<and> inv d' \<and> pending d' = Some q"
proof (induction cs arbitrary: d p fs)
  case (Cons c cs)
  obtain gs en where c: "parse_stream h parse build (p @ c) = (gs, en)"
    by fastforce
  from parse_stream_append [OF header_nonempty this, of "concat cs"] Cons.prems
  obtain r hs where en: "en = Pending r"
    and rest: "parse_stream h parse build (r @ concat cs) = (hs, Pending q)" "fs = gs @ hs"
    by (cases en) (auto simp: apfst_def map_prod_def split: prod.splits)
  from Cons.prems(1,2) c [unfolded en]
  obtain d' where d': "feed d c = (Inr gs, d')" "inv d'" "pending d' = Some r"
    using feed_pending by blast
  have "parse_stream h parse build r = ([], Pending r)"
    using parse_stream_append [OF header_nonempty c, of "[]"] c en
    by (auto simp: apfst_def map_prod_def split: prod.splits)
  from Cons.IH [OF d'(2,3) this rest(1)] d'(1) rest(2) show ?case by auto
qed auto

lemma feed_all_broken:
  "inv d \<Longrightarrow> pending d = Some p \<Longrightarrow>
   parse_stream h parse build p = ([], Pending p) \<Longrightarrow>
   parse_stream h parse build (p @ concat cs) = (fs, Broken e) \<Longrightarrow>
   \<exists>d'. feed_all feed d cs = (Inl e, d') \<and> inv d' \<and> pending d' = None"
proof (induction cs arbitrary: d p fs)
  case (Cons c cs)
  obtain gs en where c: "parse_stream h parse build (p @ c) = (gs, en)"
    by fastforce
  show ?case
  proof (cases en)
    case (Broken e')
    with parse_stream_append [OF header_nonempty c, of "concat cs"] Cons.prems(4)
    have "e' = e" by simp
    with feed_broken [OF Cons.prems(1,2)] c Broken show ?thesis by fastforce
  next
    case (Pending r)
    with parse_stream_append [OF header_nonempty c, of "concat cs"] Cons.prems(4)
    obtain hs where rest: "parse_stream h parse build (r @ concat cs) = (hs, Broken e)"
      by (auto simp: apfst_def map_prod_def split: prod.splits)
    from Cons.prems(1,2) c [unfolded Pending]
    obtain d' where d': "feed d c = (Inr gs, d')" "inv d'" "pending d' = Some r"
      using feed_pending by blast
    have "parse_stream h parse build r = ([], Pending r)"
      using parse_stream_append [OF header_nonempty c, of "[]"] c Pending
      by (auto simp: apfst_def map_prod_def split: prod.splits)
    from Cons.IH [OF d'(2,3) this rest] d'(1) show ?thesis by auto
  qed
qed simp

text \<open>
  How the stream is cut into chunks does not matter to the error, nor to the frames where there is
  none; with an error, the frames of the chunk that broke are not returned, and what was delivered
  before is a beginning of the frames in front of the error.
\<close>

lemma deliver_spec:
  assumes "inv d" "pending d = Some p" "parse_stream h parse build p = ([], Pending p)"
    and "parse_stream h parse build (p @ concat cs) = (fs, en)"
  shows "\<exists>gs r d'. deliver feed d cs = (gs, r, d') \<and> inv d' \<and> prefix gs fs \<and>
    (case en of Pending q \<Rightarrow> r = None \<and> gs = fs \<and> pending d' = Some q
              | Broken e \<Rightarrow> r = Some e \<and> pending d' = None)"
  using assms
proof (induction cs arbitrary: d p fs)
  case (Cons c cs)
  obtain gs en1 where c: "parse_stream h parse build (p @ c) = (gs, en1)"
    by fastforce
  note more = parse_stream_append [OF header_nonempty c, of "concat cs"]
  show ?case
  proof (cases en1)
    case (Broken e)
    with more Cons.prems(4) have en: "en = Broken e" by simp
    obtain d' where "feed d c = (Inl e, d')" "inv d'" "pending d' = None"
      using feed_broken [OF Cons.prems(1,2)] c Broken by blast
    then show ?thesis using en by auto
  next
    case (Pending r)
    then obtain hs where rest: "parse_stream h parse build (r @ concat cs) = (hs, en)" "fs = gs @ hs"
      using more Cons.prems(4) by (auto simp: apfst_def map_prod_def split: prod.splits)
    obtain d' where d': "feed d c = (Inr gs, d')" "inv d'" "pending d' = Some r"
      using feed_pending [OF Cons.prems(1,2)] c Pending by blast
    have "parse_stream h parse build r = ([], Pending r)"
      using parse_stream_append [OF header_nonempty c, of "[]"] c Pending
      by (auto simp: apfst_def map_prod_def split: prod.splits)
    from Cons.IH [OF d'(2,3) this rest(1)] d'(1) rest(2) show ?thesis
      by (cases en) auto
  qed
qed auto

lemma chunk_independent:
  assumes "inv d" "pending d = Some p" "parse_stream h parse build p = ([], Pending p)"
    and same: "concat cs = concat cs'"
    and runs: "deliver feed d cs = (fs, r, e)" "deliver feed d cs' = (fs', r', e')"
  shows "r' = r \<and> (r = None \<longrightarrow> fs' = fs) \<and> (prefix fs fs' \<or> prefix fs' fs) \<and> pending e' = pending e \<and> inv e \<and> inv e'"
proof -
  obtain gs en where all: "parse_stream h parse build (p @ concat cs) = (gs, en)" by fastforce
  have all': "parse_stream h parse build (p @ concat cs') = (gs, en)" using all same by simp
  show ?thesis
    using deliver_spec [OF assms(1-3) all] deliver_spec [OF assms(1-3) all'] runs
    by (cases en) (auto dest: prefix_same_cases)
qed

end

section \<open>A decoder and its encoder\<close>

locale frame_codec = stream_decoder h parse build feed inv pending
  for h :: nat
    and parse :: "bytes \<Rightarrow> ('h \<times> nat) Result"
    and build :: "'h \<Rightarrow> bytes \<Rightarrow> 'f"
    and feed :: "'s \<Rightarrow> bytes \<Rightarrow> 'f list Result \<times> 's"
    and inv :: "'s \<Rightarrow> bool"
    and pending :: "'s \<Rightarrow> bytes option" +
  fixes enc :: "'f \<Rightarrow> bytes Result"
  assumes next_frame_enc: "next_frame h parse build buf = Got f rest \<longleftrightarrow>
      (\<exists>bs. enc f = Inr bs \<and> buf = bs @ rest)"
begin

lemma parse_stream_enc:
  "list_all2 (\<lambda>f bs. enc f = Inr bs) fs bss \<Longrightarrow>
   parse_stream h parse build (concat bss) = (fs, Pending [])"
proof (induction rule: list_all2_induct)
  case Nil
  then show ?case by (simp add: parse_stream_Nil header_nonempty)
next
  case (Cons f fs bs bss)
  then have "next_frame h parse build (bs @ concat bss) = Got f (concat bss)"
    by (simp add: next_frame_enc)
  with Cons show ?case by (simp add: parse_stream_Got header_nonempty)
qed

lemma parse_stream_enc_conv:
  "parse_stream h parse build buf = (fs, Pending q) \<Longrightarrow>
   \<exists>bss. list_all2 (\<lambda>f bs. enc f = Inr bs) fs bss \<and> buf = concat bss @ q"
proof (induction "length buf" arbitrary: buf fs rule: less_induct)
  case less
  show ?case
  proof (cases "next_frame h parse build buf")
    case (Got f rest)
    then obtain gs where gs: "parse_stream h parse build rest = (gs, Pending q)" "fs = f # gs"
      using less.prems header_nonempty by (auto simp: parse_stream_Got apfst_eq_Pair)
    have "length rest < length buf" using Got header_nonempty by (simp add: next_frame_Got_shorter)
    from less.hyps [OF this gs(1)]
    obtain bss where bss: "list_all2 (\<lambda>f bs. enc f = Inr bs) gs bss" "rest = concat bss @ q"
      by auto
    from Got obtain bs where "enc f = Inr bs" "buf = bs @ rest" by (auto simp: next_frame_enc)
    with bss gs(2) show ?thesis by (intro exI [of _ "bs # bss"]) simp
  qed (use less.prems in \<open>auto simp: parse_stream_Need_More parse_stream_Bad\<close>)
qed

text \<open>
  The frames that were encoded come out in order whatever the chunks; and what comes out of a
  decoder that holds nothing back is what some sequence of encoded frames put in.
\<close>

lemma decode_encoded:
  "inv d \<Longrightarrow> pending d = Some [] \<Longrightarrow> list_all2 (\<lambda>f bs. enc f = Inr bs) fs bss \<Longrightarrow>
   concat cs = concat bss \<Longrightarrow>
   \<exists>d'. feed_all feed d cs = (Inr fs, d') \<and> inv d' \<and> pending d' = Some []"
  using feed_all_pending [of d "[]" cs fs "[]"] parse_stream_enc
  by (simp add: parse_stream_Nil header_nonempty)

lemma decoded_was_encoded:
  assumes "inv d" "pending d = Some []" "feed_all feed d cs = (Inr fs, d')"
  shows "\<exists>bss q. list_all2 (\<lambda>f bs. enc f = Inr bs) fs bss \<and> pending d' = Some q \<and>
           concat cs = concat bss @ q"
proof (cases "parse_stream h parse build (concat cs)")
  case (Pair gs en)
  have nil: "parse_stream h parse build [] = ([], Pending [])"
    by (simp add: parse_stream_Nil header_nonempty)
  show ?thesis
  proof (cases en)
    case (Pending q)
    with Pair have ps: "parse_stream h parse build (concat cs) = (gs, Pending q)" by simp
    from feed_all_pending [OF assms(1,2) nil, of cs gs q] ps assms(3)
    have "gs = fs" "pending d' = Some q" by auto
    with parse_stream_enc_conv [OF ps] show ?thesis by blast
  next
    case (Broken e)
    with feed_all_broken [OF assms(1,2) nil, of cs gs e] Pair assms(3) show ?thesis by auto
  qed
qed

end

end
