(* ===== verification/Wire_Words.thy ===== *)
theory Wire_Words
  imports Prelude
begin

text \<open>
  Network byte order: the integer readers and writers of \<open>src/protocol/frame.cpp\<close>, which
  \<open>src/protocol/codec.cpp\<close>, \<open>src/protocol/datagram.cpp\<close> and \<open>src/ipc/frame.cpp\<close> repeat in place.
  Each writer lists the bytes it stores; each reader takes the bytes from its pointer on.  The
  lemmas show that the two are inverse, in both directions, at every width.
\<close>

unbundle bit_operations_syntax

definition write_u16 :: "u16 \<Rightarrow> bytes" where
  "write_u16 v = [ucast (drop_bit 8 v AND 0xff), ucast (v AND 0xff)]"

definition write_u32 :: "u32 \<Rightarrow> bytes" where
  "write_u32 v = [ucast (drop_bit 24 v AND 0xff), ucast (drop_bit 16 v AND 0xff),
             ucast (drop_bit 8 v AND 0xff), ucast (v AND 0xff)]"

definition write_u64 :: "u64 \<Rightarrow> bytes" where
  "write_u64 v = [ucast (drop_bit 56 v AND 0xff), ucast (drop_bit 48 v AND 0xff),
             ucast (drop_bit 40 v AND 0xff), ucast (drop_bit 32 v AND 0xff),
             ucast (drop_bit 24 v AND 0xff), ucast (drop_bit 16 v AND 0xff),
             ucast (drop_bit 8 v AND 0xff), ucast (v AND 0xff)]"

definition read_u16 :: "bytes \<Rightarrow> u16" where
  "read_u16 bs = push_bit 8 (ucast (bs ! 0)) OR ucast (bs ! 1)"

definition read_u32 :: "bytes \<Rightarrow> u32" where
  "read_u32 bs = push_bit 24 (ucast (bs ! 0)) OR push_bit 16 (ucast (bs ! 1)) OR
              push_bit 8 (ucast (bs ! 2)) OR ucast (bs ! 3)"

definition read_u64 :: "bytes \<Rightarrow> u64" where
  "read_u64 bs = push_bit 56 (ucast (bs ! 0)) OR push_bit 48 (ucast (bs ! 1)) OR
              push_bit 40 (ucast (bs ! 2)) OR push_bit 32 (ucast (bs ! 3)) OR
              push_bit 24 (ucast (bs ! 4)) OR push_bit 16 (ucast (bs ! 5)) OR
              push_bit 8 (ucast (bs ! 6)) OR ucast (bs ! 7)"

section \<open>Bytes of a word\<close>

lemma ucast_and_ff:
  "8 \<le> LENGTH('a) \<Longrightarrow> (ucast ((x :: 'a::len word) AND 0xff) :: byte) = ucast x"
proof -
  have "(0xff :: 'a word) = mask 8" by (simp add: mask_eq_exp_minus_1)
  then have "x AND 0xff = take_bit 8 x" by (simp only: take_bit_eq_mask)
  then show "(ucast (x AND 0xff) :: byte) = ucast x"
    by (simp only:) (rule bit_word_eqI, auto simp: bit_simps dest: bit_imp_le_length)
qed

lemma bit_byte_ge [simp]: "8 \<le> n \<Longrightarrow> \<not> bit (b :: byte) n"
  by (auto dest: bit_imp_le_length)

lemma write_u16_alt: "write_u16 v = [ucast (drop_bit 8 v), ucast v]"
  by (simp add: write_u16_def ucast_and_ff)

lemma write_u32_alt:
  "write_u32 v = [ucast (drop_bit 24 v), ucast (drop_bit 16 v), ucast (drop_bit 8 v), ucast v]"
  by (simp add: write_u32_def ucast_and_ff)

lemma write_u64_alt:
  "write_u64 v = [ucast (drop_bit 56 v), ucast (drop_bit 48 v), ucast (drop_bit 40 v),
     ucast (drop_bit 32 v), ucast (drop_bit 24 v), ucast (drop_bit 16 v), ucast (drop_bit 8 v),
     ucast v]"
  by (simp add: write_u64_def ucast_and_ff)

lemma length_be [simp, wire_simps]:
  "length (write_u16 v) = 2" "length (write_u32 w) = 4" "length (write_u64 x) = 8"
  by (simp_all add: write_u16_def write_u32_def write_u64_def)

section \<open>Reading back what was written\<close>

lemma read_u16_write_u16 [simp, wire_simps]: "read_u16 (write_u16 v @ r) = v"
proof (rule bit_word_eqI)
  fix n assume "n < LENGTH(16)"
  then consider "n < 8" | "8 \<le> n" "n < 16" by fastforce
  then show "bit (read_u16 (write_u16 v @ r)) n = bit v n"
    by cases (simp_all add: read_u16_def write_u16_alt bit_simps less_diff_conv2)
qed

lemma read_u32_write_u32 [simp, wire_simps]: "read_u32 (write_u32 v @ r) = v"
proof (rule bit_word_eqI)
  fix n assume "n < LENGTH(32)"
  then consider "n < 8" | "8 \<le> n" "n < 16" | "16 \<le> n" "n < 24" | "24 \<le> n" "n < 32"
    by fastforce
  then show "bit (read_u32 (write_u32 v @ r)) n = bit v n"
    by cases (simp_all add: read_u32_def write_u32_alt bit_simps less_diff_conv2)
qed

lemma read_u64_write_u64 [simp, wire_simps]: "read_u64 (write_u64 v @ r) = v"
proof (rule bit_word_eqI)
  fix n assume "n < LENGTH(64)"
  then consider "n < 8" | "8 \<le> n" "n < 16" | "16 \<le> n" "n < 24" | "24 \<le> n" "n < 32"
    | "32 \<le> n" "n < 40" | "40 \<le> n" "n < 48" | "48 \<le> n" "n < 56" | "56 \<le> n" "n < 64"
    by fastforce
  then show "bit (read_u64 (write_u64 v @ r)) n = bit v n"
    by cases (simp_all add: read_u64_def write_u64_alt bit_simps less_diff_conv2)
qed

lemmas get_be_nil [simp, wire_simps] =
  read_u16_write_u16 [where r = "[]", simplified] read_u32_write_u32 [where r = "[]", simplified]
  read_u64_write_u64 [where r = "[]", simplified]

section \<open>Writing back what was read\<close>

lemma write_u16_read_u16_list: "write_u16 (read_u16 (a # b # r)) = [a, b]"
  unfolding write_u16_alt list.inject
  by (intro conjI refl; rule bit_word_eqI) (simp_all add: read_u16_def bit_simps)

lemma write_u32_read_u32_list: "write_u32 (read_u32 (a # b # c # d # r)) = [a, b, c, d]"
  unfolding write_u32_alt list.inject
  by (intro conjI refl; rule bit_word_eqI) (simp_all add: read_u32_def bit_simps)

lemma write_u64_read_u64_list:
  "write_u64 (read_u64 (a # b # c # d # e # f # g # h # r)) = [a, b, c, d, e, f, g, h]"
  unfolding write_u64_alt list.inject
  by (intro conjI refl; rule bit_word_eqI) (simp_all add: read_u64_def bit_simps)

lemma write_u16_read_u16: "2 \<le> length bs \<Longrightarrow> write_u16 (read_u16 bs) = take 2 bs"
  by (auto simp: write_u16_read_u16_list numeral_2_eq_2 Suc_le_length_iff)

lemma write_u32_read_u32: "4 \<le> length bs \<Longrightarrow> write_u32 (read_u32 bs) = take 4 bs"
  by (auto simp: write_u32_read_u32_list numeral_eq_Suc Suc_le_length_iff)

lemma write_u64_read_u64: "8 \<le> length bs \<Longrightarrow> write_u64 (read_u64 bs) = take 8 bs"
  by (auto simp: write_u64_read_u64_list numeral_eq_Suc Suc_le_length_iff)

lemma be_inject [simp]:
  "write_u16 v = write_u16 v' \<longleftrightarrow> v = v'" "write_u32 w = write_u32 w' \<longleftrightarrow> w = w'" "write_u64 x = write_u64 x' \<longleftrightarrow> x = x'"
  by (metis get_be_nil(1), metis get_be_nil(2), metis get_be_nil(3))

lemma write_u16_append_inject [simp]: "write_u16 v @ r = write_u16 v' @ r' \<longleftrightarrow> v = v' \<and> r = r'"
  by (simp add: append_eq_append_conv)

lemma write_u32_append_inject [simp]: "write_u32 v @ r = write_u32 v' @ r' \<longleftrightarrow> v = v' \<and> r = r'"
  by (simp add: append_eq_append_conv)

lemma write_u64_append_inject [simp]: "write_u64 v @ r = write_u64 v' @ r' \<longleftrightarrow> v = v' \<and> r = r'"
  by (simp add: append_eq_append_conv)

lemma be_not_Nil [simp]: "write_u16 v \<noteq> []" "write_u32 w \<noteq> []" "write_u64 x \<noteq> []"
  by (simp_all add: write_u16_def write_u32_def write_u64_def)

section \<open>Lengths as words\<close>

lemma unat_of_nat_u16 [simp]: "n < 65536 \<Longrightarrow> unat (word_of_nat n :: u16) = n"
  by (simp add: unat_of_nat)

lemma unat_of_nat_u32 [simp]: "n < 4294967296 \<Longrightarrow> unat (word_of_nat n :: u32) = n"
  by (simp add: unat_of_nat)

lemma unat_u8_bound: "unat (b :: u8) < 256"
  using unsigned_less [of b, where ?'a = nat] by simp

lemma unat_u16_bound: "unat (v :: u16) < 65536"
  using unsigned_less [of v, where ?'a = nat] by simp

lemma unat_u32_bound: "unat (v :: u32) < 4294967296"
  using unsigned_less [of v, where ?'a = nat] by simp

end
