(* ===== verification/Frames.thy ===== *)
theory Frames
  imports Streams Wire_Words
begin

text \<open>
  \<open>include/minitun/protocol/frame.hpp\<close> and \<open>src/protocol/frame.cpp\<close>: message types, the frame
  encoder and the incremental \<open>FrameDecoder\<close> of the remote protocol.

  The decoder keeps the fields of the C++ class, the fixed \<open>header_\<close> array included; \<open>feed_loop\<close> is
  the loop of \<open>feed\<close>, \<open>copy_header\<close> and \<open>copy_payload\<close> its two halves.  \<open>secure_erase_memory\<close> wipes
  storage that is cleared or released right after and has no effect on the values modelled;
  allocation failure is not modelled.  The decoder is shown to refine the stream specification of
  \<open>Streams\<close>, of which the locales \<open>stream_decoder\<close> and \<open>frame_codec\<close> are interpreted here.
\<close>

section \<open>Message types\<close>

datatype MessageType =
  MT_hello | MT_hello_ack | MT_auth | MT_auth_ok | MT_auth_error |
  MT_register_tunnel | MT_register_tunnel_ok | MT_register_tunnel_error |
  MT_unregister_tunnel | MT_unregister_tunnel_ok | MT_request_workers |
  MT_ping | MT_pong | MT_goaway | MT_error |
  MT_worker_hello | MT_worker_accepted | MT_start_relay |
  MT_local_connect_ok | MT_local_connect_error

fun message_type_wire :: "MessageType \<Rightarrow> u16" where
  "message_type_wire MT_hello = 1"
| "message_type_wire MT_hello_ack = 2"
| "message_type_wire MT_auth = 3"
| "message_type_wire MT_auth_ok = 4"
| "message_type_wire MT_auth_error = 5"
| "message_type_wire MT_register_tunnel = 6"
| "message_type_wire MT_register_tunnel_ok = 7"
| "message_type_wire MT_register_tunnel_error = 8"
| "message_type_wire MT_unregister_tunnel = 9"
| "message_type_wire MT_unregister_tunnel_ok = 10"
| "message_type_wire MT_request_workers = 11"
| "message_type_wire MT_ping = 12"
| "message_type_wire MT_pong = 13"
| "message_type_wire MT_goaway = 14"
| "message_type_wire MT_error = 15"
| "message_type_wire MT_worker_hello = 0x0100"
| "message_type_wire MT_worker_accepted = 0x0101"
| "message_type_wire MT_start_relay = 0x0102"
| "message_type_wire MT_local_connect_ok = 0x0103"
| "message_type_wire MT_local_connect_error = 0x0104"

fun message_type_to_string :: "MessageType \<Rightarrow> string" where
  "message_type_to_string MT_hello = ''HELLO''"
| "message_type_to_string MT_hello_ack = ''HELLO_ACK''"
| "message_type_to_string MT_auth = ''AUTH''"
| "message_type_to_string MT_auth_ok = ''AUTH_OK''"
| "message_type_to_string MT_auth_error = ''AUTH_ERROR''"
| "message_type_to_string MT_register_tunnel = ''REGISTER_TUNNEL''"
| "message_type_to_string MT_register_tunnel_ok = ''REGISTER_TUNNEL_OK''"
| "message_type_to_string MT_register_tunnel_error = ''REGISTER_TUNNEL_ERROR''"
| "message_type_to_string MT_unregister_tunnel = ''UNREGISTER_TUNNEL''"
| "message_type_to_string MT_unregister_tunnel_ok = ''UNREGISTER_TUNNEL_OK''"
| "message_type_to_string MT_request_workers = ''REQUEST_WORKERS''"
| "message_type_to_string MT_ping = ''PING''"
| "message_type_to_string MT_pong = ''PONG''"
| "message_type_to_string MT_goaway = ''GOAWAY''"
| "message_type_to_string MT_error = ''ERROR''"
| "message_type_to_string MT_worker_hello = ''WORKER_HELLO''"
| "message_type_to_string MT_worker_accepted = ''WORKER_ACCEPTED''"
| "message_type_to_string MT_start_relay = ''START_RELAY''"
| "message_type_to_string MT_local_connect_ok = ''LOCAL_CONNECT_OK''"
| "message_type_to_string MT_local_connect_error = ''LOCAL_CONNECT_ERROR''"

definition message_type_from_wire :: "u16 \<Rightarrow> MessageType option" where
  "message_type_from_wire v =
     (if v = message_type_wire MT_hello then Some MT_hello
      else if v = message_type_wire MT_hello_ack then Some MT_hello_ack
      else if v = message_type_wire MT_auth then Some MT_auth
      else if v = message_type_wire MT_auth_ok then Some MT_auth_ok
      else if v = message_type_wire MT_auth_error then Some MT_auth_error
      else if v = message_type_wire MT_register_tunnel then Some MT_register_tunnel
      else if v = message_type_wire MT_register_tunnel_ok then Some MT_register_tunnel_ok
      else if v = message_type_wire MT_register_tunnel_error then Some MT_register_tunnel_error
      else if v = message_type_wire MT_unregister_tunnel then Some MT_unregister_tunnel
      else if v = message_type_wire MT_unregister_tunnel_ok then Some MT_unregister_tunnel_ok
      else if v = message_type_wire MT_request_workers then Some MT_request_workers
      else if v = message_type_wire MT_ping then Some MT_ping
      else if v = message_type_wire MT_pong then Some MT_pong
      else if v = message_type_wire MT_goaway then Some MT_goaway
      else if v = message_type_wire MT_error then Some MT_error
      else if v = message_type_wire MT_worker_hello then Some MT_worker_hello
      else if v = message_type_wire MT_worker_accepted then Some MT_worker_accepted
      else if v = message_type_wire MT_start_relay then Some MT_start_relay
      else if v = message_type_wire MT_local_connect_ok then Some MT_local_connect_ok
      else if v = message_type_wire MT_local_connect_error then Some MT_local_connect_error
      else None)"

definition is_control_message :: "MessageType \<Rightarrow> bool" where
  "is_control_message type \<longleftrightarrow>
     message_type_wire MT_hello \<le> message_type_wire type \<and>
     message_type_wire type \<le> message_type_wire MT_error"

definition is_worker_message :: "MessageType \<Rightarrow> bool" where
  "is_worker_message type \<longleftrightarrow>
     message_type_wire MT_worker_hello \<le> message_type_wire type \<and>
     message_type_wire type \<le> message_type_wire MT_local_connect_error"

section \<open>Frames and their encoding\<close>

definition kFrameMagic :: u32 where
  "kFrameMagic = 0x4D54554E"

definition kProtocolVersion :: u16 where
  "kProtocolVersion = 2"

definition kFrameHeaderSize :: nat where
  "kFrameHeaderSize = 24"

definition kMaxFrameSize :: nat where
  "kMaxFrameSize = 64 * 1024"

definition kMaxPayloadSize :: nat where
  "kMaxPayloadSize = kMaxFrameSize - kFrameHeaderSize"

record Frame =
  frame_type :: MessageType
  frame_flags :: u32
  frame_request_id :: u64
  frame_payload :: bytes

definition effective_frame_limit :: "nat \<Rightarrow> nat" where
  "effective_frame_limit requested =
     (if requested < kFrameHeaderSize then kFrameHeaderSize
      else if kMaxFrameSize < requested then kMaxFrameSize else requested)"

definition encode_frame :: "Frame \<Rightarrow> nat \<Rightarrow> bytes Result" where
  "encode_frame frame max_frame_size =
     (let wire_type = message_type_wire (frame_type frame);
          limit = effective_frame_limit max_frame_size;
          size = length (frame_payload frame)
      in if message_type_from_wire wire_type = None
         then failure EC_protocol_error ''remote frame message type is invalid''
         else if frame_flags frame \<noteq> 0
         then failure EC_protocol_error ''remote frame contains unsupported flags''
         else if limit - kFrameHeaderSize < size \<or> 4294967295 < size
         then failure EC_frame_too_large ''remote frame exceeds the configured size limit''
         else Inr (write_u32 kFrameMagic @ write_u16 kProtocolVersion @ write_u16 wire_type @
                   write_u32 (frame_flags frame) @ write_u32 (word_of_nat size) @
                   write_u64 (frame_request_id frame) @ frame_payload frame))"

section \<open>The incremental decoder\<close>

record FrameDecoder =
  fd_max_frame_size :: nat
  fd_header :: bytes
  fd_header_size :: nat
  fd_expected_payload_size :: u32
  fd_current_type :: MessageType
  fd_current_flags :: u32
  fd_current_request_id :: u64
  fd_payload :: bytes
  fd_reading_payload :: bool
  fd_failed :: bool
  fd_failure_code :: ErrorCode

definition new_frame_decoder :: "nat \<Rightarrow> FrameDecoder" where
  "new_frame_decoder max_frame_size =
     \<lparr>fd_max_frame_size = effective_frame_limit max_frame_size,
      fd_header = replicate kFrameHeaderSize 0, fd_header_size = 0,
      fd_expected_payload_size = 0, fd_current_type = MT_hello, fd_current_flags = 0,
      fd_current_request_id = 0, fd_payload = [], fd_reading_payload = False,
      fd_failed = False, fd_failure_code = EC_protocol_error\<rparr>"

definition decoder_error :: "ErrorCode \<Rightarrow> Error" where
  "decoder_error c =
     (case c of
        EC_frame_too_large \<Rightarrow> Error c ''remote frame exceeds the configured size limit''
      | EC_unsupported_version \<Rightarrow> Error c ''remote protocol version is unsupported''
      | EC_resource_exhausted \<Rightarrow> Error c ''insufficient memory while decoding a remote frame''
      | _ \<Rightarrow> Error EC_protocol_error ''remote frame decoder is in a failed state'')"

definition reset_current_frame :: "FrameDecoder \<Rightarrow> FrameDecoder" where
  "reset_current_frame d =
     d\<lparr>fd_payload := [], fd_expected_payload_size := 0, fd_current_type := MT_hello,
       fd_current_flags := 0, fd_current_request_id := 0, fd_reading_payload := False\<rparr>"

definition decoder_fail :: "ErrorCode \<Rightarrow> FrameDecoder \<Rightarrow> FrameDecoder" where
  "decoder_fail c d =
     (reset_current_frame (d\<lparr>fd_header := replicate kFrameHeaderSize 0, fd_header_size := 0\<rparr>))
       \<lparr>fd_failed := True, fd_failure_code := c\<rparr>"

definition decoder_reset :: "FrameDecoder \<Rightarrow> FrameDecoder" where
  "decoder_reset d =
     reset_current_frame (d\<lparr>fd_header := replicate kFrameHeaderSize 0, fd_header_size := 0,
       fd_failed := False, fd_failure_code := EC_protocol_error\<rparr>)"

definition decoder_finish :: "FrameDecoder \<Rightarrow> unit Result" where
  "decoder_finish d =
     (if fd_failed d then Inl (decoder_error (fd_failure_code d))
      else if fd_header_size d \<noteq> 0 \<or> fd_reading_payload d
      then failure EC_protocol_error ''remote stream ended in the middle of a frame''
      else Inr ())"

definition buffered_size :: "FrameDecoder \<Rightarrow> nat" where
  "buffered_size d = fd_header_size d + length (fd_payload d)"

definition parse_header :: "FrameDecoder \<Rightarrow> unit Result \<times> FrameDecoder" where
  "parse_header d =
     (let header = fd_header d
      in if read_u32 header \<noteq> kFrameMagic
         then (failure EC_protocol_error ''remote frame magic is invalid'',
               decoder_fail EC_protocol_error d)
         else if read_u16 (drop 4 header) \<noteq> kProtocolVersion
         then (failure EC_unsupported_version ''remote protocol version is unsupported'',
               decoder_fail EC_unsupported_version d)
         else (case message_type_from_wire (read_u16 (drop 6 header)) of
                 None \<Rightarrow> (failure EC_protocol_error ''remote frame message type is invalid'',
                          decoder_fail EC_protocol_error d)
               | Some type \<Rightarrow>
                   (let flags = read_u32 (drop 8 header); payload_size = read_u32 (drop 12 header)
                    in if flags \<noteq> 0
                       then (failure EC_protocol_error
                               ''remote frame contains unsupported flags'',
                             decoder_fail EC_protocol_error d)
                       else if fd_max_frame_size d - kFrameHeaderSize < unat payload_size
                       then (failure EC_frame_too_large
                               ''remote frame exceeds the configured size limit'',
                             decoder_fail EC_frame_too_large d)
                       else (Inr (), d\<lparr>fd_current_type := type, fd_current_flags := flags,
                                      fd_current_request_id := read_u64 (drop 16 header),
                                      fd_expected_payload_size := payload_size\<rparr>))))"

definition current_frame :: "FrameDecoder \<Rightarrow> bytes \<Rightarrow> Frame" where
  "current_frame d bs =
     \<lparr>frame_type = fd_current_type d, frame_flags = fd_current_flags d,
      frame_request_id = fd_current_request_id d, frame_payload = bs\<rparr>"

definition copy_header :: "FrameDecoder \<Rightarrow> bytes \<Rightarrow> FrameDecoder \<times> bytes" where
  "copy_header d bs =
     (let count = min (length bs) (size_sub kFrameHeaderSize (fd_header_size d))
      in (d\<lparr>fd_header := overwrite (fd_header d) (fd_header_size d) (take count bs),
            fd_header_size := fd_header_size d + count\<rparr>,
          drop count bs))"

definition copy_payload :: "FrameDecoder \<Rightarrow> bytes \<Rightarrow> Frame list \<times> FrameDecoder \<times> bytes" where
  "copy_payload d bs =
     (let needed = size_sub (unat (fd_expected_payload_size d)) (length (fd_payload d));
          count = min (length bs) needed;
          filled = d\<lparr>fd_payload := fd_payload d @ take count bs\<rparr>
      in if length (fd_payload filled) = unat (fd_expected_payload_size d)
         then ([current_frame filled (fd_payload filled)],
               reset_current_frame (filled\<lparr>fd_payload := []\<rparr>), drop count bs)
         else ([], filled, drop count bs))"

text \<open>
  One call of \<open>feed\<close> runs the loop until the chunk is used up.  The second component of the
  measure counts the rounds that use no byte, which only states outside the invariant have.
\<close>

function feed_loop ::
  "FrameDecoder \<Rightarrow> bytes \<Rightarrow> Frame list \<Rightarrow> Frame list Result \<times> FrameDecoder" where
  "feed_loop d bs frames =
     (if bs = [] then (Inr frames, d)
      else if fd_reading_payload d
      then (case copy_payload d bs of
              (fs, d', rest) \<Rightarrow> feed_loop d' rest (frames @ fs))
      else (case copy_header d bs of
              (d1, rest) \<Rightarrow>
                if fd_header_size d1 \<noteq> kFrameHeaderSize then feed_loop d1 rest frames
                else (case parse_header d1 of
                        (Inl e, d2) \<Rightarrow> (Inl e, d2\<lparr>fd_header_size := 0\<rparr>)
                      | (Inr _, d2) \<Rightarrow>
                          if fd_expected_payload_size d2 = 0
                          then feed_loop (reset_current_frame (d2\<lparr>fd_header_size := 0\<rparr>)) rest
                                 (frames @ [current_frame d2 []])
                          else (case copy_payload (d2\<lparr>fd_header_size := 0, fd_payload := [],
                                                    fd_reading_payload := True\<rparr>) rest of
                                  (fs, d3, rest') \<Rightarrow> feed_loop d3 rest' (frames @ fs)))))"
  by pat_completeness auto

lemma copy_header_progress:
  "copy_header d bs = (d1, rest) \<Longrightarrow> bs \<noteq> [] \<Longrightarrow> fd_header_size d \<noteq> kFrameHeaderSize \<Longrightarrow>
   length rest < length bs"
  using size_sub_eq_0_iff [of kFrameHeaderSize "fd_header_size d"]
  by (auto simp: copy_header_def Let_def)

lemma copy_header_same:
  "copy_header d bs = (d1, rest) \<Longrightarrow> fd_header_size d = kFrameHeaderSize \<Longrightarrow>
   rest = bs \<and> fd_header_size d1 = kFrameHeaderSize"
  by (auto simp: copy_header_def Let_def)

lemma copy_header_length: "copy_header d bs = (d1, rest) \<Longrightarrow> length rest \<le> length bs"
  by (auto simp: copy_header_def Let_def)

lemma copy_payload_progress:
  "copy_payload d bs = (fs, d1, rest) \<Longrightarrow> bs \<noteq> [] \<Longrightarrow>
   length (fd_payload d) \<noteq> unat (fd_expected_payload_size d) \<Longrightarrow> length rest < length bs"
  using size_sub_eq_0_iff [of "unat (fd_expected_payload_size d)" "length (fd_payload d)"]
  by (auto simp: copy_payload_def Let_def split: if_splits)

lemma copy_payload_same:
  "copy_payload d bs = (fs, d1, rest) \<Longrightarrow>
   length (fd_payload d) = unat (fd_expected_payload_size d) \<Longrightarrow>
   rest = bs \<and> \<not> fd_reading_payload d1 \<and> fd_header_size d1 = fd_header_size d"
  by (auto simp: copy_payload_def Let_def reset_current_frame_def split: if_splits)

lemma copy_payload_length: "copy_payload d bs = (fs, d1, rest) \<Longrightarrow> length rest \<le> length bs"
  by (auto simp: copy_payload_def Let_def split: if_splits)

definition idle_rounds :: "FrameDecoder \<Rightarrow> nat" where
  "idle_rounds d =
     (if fd_reading_payload d then 2 else 0) + (if fd_header_size d = kFrameHeaderSize then 1 else 0)"

lemma feed_loop_payload_decreases:
  assumes "copy_payload d bs = (fs, d1, rest)" "bs \<noteq> []" "fd_reading_payload d"
  shows "length rest < length bs \<or> length rest = length bs \<and> idle_rounds d1 < idle_rounds d"
  using copy_payload_progress [OF assms(1,2)] copy_payload_same [OF assms(1)] assms(3)
  by (cases "length (fd_payload d) = unat (fd_expected_payload_size d)")
     (auto simp: idle_rounds_def)

lemma kFrameHeaderSize_pos [simp]: "0 < kFrameHeaderSize"
  by (simp add: kFrameHeaderSize_def)

lemma feed_loop_header_decreases:
  assumes "copy_header d bs = (d1, rest)" "bs \<noteq> []" "\<not> fd_reading_payload d"
    and "fd_header_size d2 = 0" "\<not> fd_reading_payload d2"
  shows "length rest < length bs \<or> length rest = length bs \<and> idle_rounds d2 < idle_rounds d"
  using copy_header_progress [OF assms(1,2)] copy_header_same [OF assms(1)] assms(3-)
    kFrameHeaderSize_pos
  by (cases "fd_header_size d = kFrameHeaderSize") (auto simp: idle_rounds_def)

lemma feed_loop_both_decrease:
  assumes "copy_header d bs = (d1, rest)" "bs \<noteq> []"
    and "copy_payload d2 rest = (fs, d3, rest')"
    and "fd_payload d2 = []" "fd_expected_payload_size d2 \<noteq> 0"
  shows "length rest' < length bs"
proof (cases "fd_header_size d = kFrameHeaderSize")
  case True
  then have "rest = bs" using assms(1) by (simp add: copy_header_same)
  moreover have "unat (fd_expected_payload_size d2) \<noteq> 0" using assms(5) by (simp add: unat_eq_0)
  ultimately show ?thesis using copy_payload_progress [OF assms(3)] assms(2,4) by simp
next
  case False
  then show ?thesis
    using copy_header_progress [OF assms(1,2)] copy_payload_length [OF assms(3)] by simp
qed

lemma copy_header_incomplete_decreases:
  assumes "copy_header d bs = (d1, rest)" "bs \<noteq> []" "fd_header_size d1 \<noteq> kFrameHeaderSize"
  shows "length rest < length bs"
  using copy_header_progress [OF assms(1,2)] copy_header_same [OF assms(1)] assms(3) by blast

lemma parse_header_keeps:
  "parse_header d = (Inr u, d') \<Longrightarrow>
   fd_header_size d' = fd_header_size d \<and> fd_reading_payload d' = fd_reading_payload d"
  by (auto simp: parse_header_def Let_def split: if_splits option.splits)

termination feed_loop
proof (relation "measures [\<lambda>(d, bs, frames). length bs, \<lambda>(d, bs, frames). idle_rounds d]",
    goal_cases)
  case (2 d bs frames fs y d' rest)
  then have "copy_payload d bs = (fs, d', rest)" by simp
  with 2 show ?case using feed_loop_payload_decreases by fastforce
next
  case (3 d bs frames d1 rest)
  then show ?case using copy_header_incomplete_decreases [of d bs d1 rest] by auto
next
  case (4 d bs frames d1 rest r d2 u)
  then show ?case
    using feed_loop_header_decreases [of d bs d1 rest
        "reset_current_frame (d2\<lparr>fd_header_size := 0\<rparr>)"]
    by (auto simp: reset_current_frame_def)
next
  case (5 d bs frames d1 rest r d2 u fs y d3 rest')
  then show ?case
    using feed_loop_both_decrease [of d bs d1 rest
        "d2\<lparr>fd_header_size := 0, fd_payload := [], fd_reading_payload := True\<rparr>" fs d3 rest']
    by auto
qed simp

declare feed_loop.simps [simp del]

definition decoder_feed :: "FrameDecoder \<Rightarrow> bytes \<Rightarrow> Frame list Result \<times> FrameDecoder" where
  "decoder_feed d bs =
     (if fd_failed d then (Inl (decoder_error (fd_failure_code d)), d) else feed_loop d bs [])"

section \<open>Message type tables\<close>

lemma message_type_from_wire_wire [simp]:
  "message_type_from_wire (message_type_wire type) = Some type"
  by (cases type) (simp_all add: message_type_from_wire_def)

lemma message_type_from_wire_Some:
  "message_type_from_wire v = Some type \<longleftrightarrow> v = message_type_wire type"
proof
  assume "message_type_from_wire v = Some type"
  then show "v = message_type_wire type"
    unfolding message_type_from_wire_def by (simp split: if_splits)
qed simp

lemma message_type_wire_inject [simp]: "message_type_wire s = message_type_wire t \<longleftrightarrow> s = t"
  by (metis message_type_from_wire_wire option.inject)

lemma is_control_message_simps [simp]:
  "is_control_message MT_hello"
  "is_control_message MT_hello_ack"
  "is_control_message MT_auth"
  "is_control_message MT_auth_ok"
  "is_control_message MT_auth_error"
  "is_control_message MT_register_tunnel"
  "is_control_message MT_register_tunnel_ok"
  "is_control_message MT_register_tunnel_error"
  "is_control_message MT_unregister_tunnel"
  "is_control_message MT_unregister_tunnel_ok"
  "is_control_message MT_request_workers"
  "is_control_message MT_ping"
  "is_control_message MT_pong"
  "is_control_message MT_goaway"
  "is_control_message MT_error"
  "\<not> is_control_message MT_worker_hello"
  "\<not> is_control_message MT_worker_accepted"
  "\<not> is_control_message MT_start_relay"
  "\<not> is_control_message MT_local_connect_ok"
  "\<not> is_control_message MT_local_connect_error"
  by (simp_all add: is_control_message_def word_le_nat_alt)

lemma control_or_worker: "is_worker_message type \<longleftrightarrow> \<not> is_control_message type"
  by (cases type) (simp_all add: is_worker_message_def word_le_nat_alt)

section \<open>The decoder refines the stream specification\<close>

lemma effective_frame_limit_bounds:
  "kFrameHeaderSize \<le> effective_frame_limit m" "effective_frame_limit m \<le> kMaxFrameSize"
  by (simp_all add: effective_frame_limit_def kFrameHeaderSize_def kMaxFrameSize_def)

definition header_fields :: "nat \<Rightarrow> bytes \<Rightarrow> ((MessageType \<times> u64) \<times> nat) Result" where
  "header_fields limit header =
     (if read_u32 header \<noteq> kFrameMagic
      then failure EC_protocol_error ''remote frame magic is invalid''
      else if read_u16 (drop 4 header) \<noteq> kProtocolVersion
      then failure EC_unsupported_version ''remote protocol version is unsupported''
      else (case message_type_from_wire (read_u16 (drop 6 header)) of
              None \<Rightarrow> failure EC_protocol_error ''remote frame message type is invalid''
            | Some type \<Rightarrow>
                if read_u32 (drop 8 header) \<noteq> 0
                then failure EC_protocol_error ''remote frame contains unsupported flags''
                else if limit - kFrameHeaderSize < unat (read_u32 (drop 12 header))
                then failure EC_frame_too_large ''remote frame exceeds the configured size limit''
                else Inr ((type, read_u64 (drop 16 header)), unat (read_u32 (drop 12 header)))))"

definition frame_of :: "MessageType \<times> u64 \<Rightarrow> bytes \<Rightarrow> Frame" where
  "frame_of h bs =
     \<lparr>frame_type = fst h, frame_flags = 0, frame_request_id = snd h, frame_payload = bs\<rparr>"

definition decoder_inv :: "nat \<Rightarrow> FrameDecoder \<Rightarrow> bool" where
  "decoder_inv limit d \<longleftrightarrow>
     length (fd_header d) = kFrameHeaderSize \<and> fd_max_frame_size d = limit \<and>
     kFrameHeaderSize \<le> limit \<and>
     (if fd_reading_payload d
      then \<not> fd_failed d \<and> fd_header_size d = 0 \<and> fd_current_flags d = 0 \<and>
           length (fd_payload d) < unat (fd_expected_payload_size d) \<and>
           header_fields limit (fd_header d) =
             Inr ((fd_current_type d, fd_current_request_id d), unat (fd_expected_payload_size d))
      else fd_header_size d < kFrameHeaderSize \<and> fd_payload d = [])"

definition decoder_pending :: "FrameDecoder \<Rightarrow> bytes option" where
  "decoder_pending d =
     (if fd_failed d then None
      else Some (if fd_reading_payload d then fd_header d @ fd_payload d
                 else take (fd_header_size d) (fd_header d)))"

abbreviation cut_frame :: "nat \<Rightarrow> bytes \<Rightarrow> Frame next_frame" where
  "cut_frame limit \<equiv> next_frame kFrameHeaderSize (header_fields limit) frame_of"

abbreviation cut_stream :: "nat \<Rightarrow> bytes \<Rightarrow> Frame list \<times> stream_end" where
  "cut_stream limit \<equiv> parse_stream kFrameHeaderSize (header_fields limit) frame_of"

lemma decoder_fail_inv:
  "decoder_inv limit d \<or> length (fd_header d) = kFrameHeaderSize \<and> fd_max_frame_size d = limit \<and>
     kFrameHeaderSize \<le> limit \<Longrightarrow>
   decoder_inv limit ((decoder_fail c d)\<lparr>fd_header_size := 0\<rparr>) \<and>
   decoder_pending ((decoder_fail c d)\<lparr>fd_header_size := 0\<rparr>) = None"
  by (auto simp: decoder_inv_def decoder_fail_def reset_current_frame_def decoder_pending_def)

lemma parse_header_fields:
  "parse_header d =
     (case header_fields (fd_max_frame_size d) (fd_header d) of
        Inl e \<Rightarrow> (Inl e, decoder_fail (code e) d)
      | Inr ((type, rid), n) \<Rightarrow>
          (Inr (), d\<lparr>fd_current_type := type, fd_current_flags := 0,
                    fd_current_request_id := rid, fd_expected_payload_size := word_of_nat n\<rparr>))"
  by (auto simp: parse_header_def header_fields_def Let_def failure_def split: option.splits)

lemma header_fields_size:
  "header_fields limit hdr = Inr (h, n) \<Longrightarrow> unat (word_of_nat n :: u32) = n \<and> n \<le> limit - kFrameHeaderSize"
  by (auto simp: header_fields_def split: if_splits option.splits)

lemma copy_payload_refines:
  assumes inv: "decoder_inv limit d" and reading: "fd_reading_payload d"
    and copy: "copy_payload d bs = (fs, d', rest)"
  defines "p \<equiv> fd_header d @ fd_payload d"
  shows "decoder_inv limit d' \<and> \<not> fd_failed d' \<and>
    (fs = [] \<and> rest = [] \<and> decoder_pending d' = Some (p @ bs) \<and>
       cut_frame limit (p @ bs) = Need_More \<or>
     (\<exists>f. fs = [f] \<and> decoder_pending d' = Some [] \<and> cut_frame limit (p @ bs) = Got f rest))"
proof -
  define n where "n = unat (fd_expected_payload_size d)"
  have hdr: "length (fd_header d) = kFrameHeaderSize" "length (fd_payload d) < n"
    "header_fields limit (fd_header d) = Inr ((fd_current_type d, fd_current_request_id d), n)"
    "\<not> fd_failed d" "fd_current_flags d = 0"
    using inv reading by (simp_all add: decoder_inv_def n_def)
  show ?thesis
  proof (cases "length bs < n - length (fd_payload d)")
    case True
    with copy hdr(2) have "fs = []" "rest = []" "d' = d\<lparr>fd_payload := fd_payload d @ bs\<rparr>"
      by (auto simp: copy_payload_def Let_def min_def simp flip: n_def split: if_splits)
    moreover have "cut_frame limit (p @ bs) = Need_More"
      using True hdr by (simp add: next_frame_def p_def)
    ultimately show ?thesis
      using inv reading True hdr by (simp add: decoder_inv_def decoder_pending_def p_def flip: n_def)
  next
    case False
    with copy hdr(2)
    have fs: "fs = [current_frame d (fd_payload d @ take (n - length (fd_payload d)) bs)]"
      and rest: "rest = drop (n - length (fd_payload d)) bs"
      and d': "d' = reset_current_frame d"
      by (auto simp: copy_payload_def Let_def current_frame_def reset_current_frame_def min_def
          simp flip: n_def split: if_splits)
    have "cut_frame limit (p @ bs) =
        Got (current_frame d (fd_payload d @ take (n - length (fd_payload d)) bs)) rest"
      using False hdr rest
      by (simp add: next_frame_def p_def frame_of_def current_frame_def take_append drop_append)
    with fs d' show ?thesis
      using inv reading hdr
      by (auto simp: decoder_inv_def decoder_pending_def reset_current_frame_def)
  qed
qed

lemma copy_header_refines:
  assumes inv: "decoder_inv limit d" and idle: "\<not> fd_reading_payload d" "\<not> fd_failed d"
    and copy: "copy_header d bs = (d1, rest)"
  defines "p \<equiv> take (fd_header_size d) (fd_header d)"
  shows "if fd_header_size d1 = kFrameHeaderSize
         then kFrameHeaderSize \<le> length (p @ bs) \<and> fd_header d1 = take kFrameHeaderSize (p @ bs) \<and>
              rest = drop kFrameHeaderSize (p @ bs) \<and>
              d1 = d\<lparr>fd_header := fd_header d1, fd_header_size := kFrameHeaderSize\<rparr>
         else rest = [] \<and> decoder_inv limit d1 \<and> decoder_pending d1 = Some (p @ bs) \<and>
              length (p @ bs) < kFrameHeaderSize"
proof -
  define k where "k = kFrameHeaderSize - fd_header_size d"
  have hdr: "length (fd_header d) = kFrameHeaderSize" "fd_header_size d < kFrameHeaderSize"
    using inv idle by (simp_all add: decoder_inv_def)
  then have p: "length p = fd_header_size d" "size_sub kFrameHeaderSize (fd_header_size d) = k"
    by (simp_all add: p_def k_def)
  show ?thesis
  proof (cases "length bs < k")
    case True
    then have d1: "d1 = d\<lparr>fd_header := overwrite (fd_header d) (fd_header_size d) bs,
        fd_header_size := fd_header_size d + length bs\<rparr>" and "rest = []"
      using copy p by (auto simp: copy_header_def Let_def)
    moreover have "take (fd_header_size d + length bs) (fd_header d1) = p @ bs"
      using take_overwrite [of "fd_header_size d" bs "fd_header d"] True hdr
      by (simp add: d1 p_def k_def)
    moreover have "fd_header_size d + length bs < kFrameHeaderSize"
      using True by (simp add: k_def)
    ultimately show ?thesis
      using hdr inv idle p by (auto simp: decoder_inv_def decoder_pending_def)
  next
    case False
    then have d1: "d1 = d\<lparr>fd_header := overwrite (fd_header d) (fd_header_size d) (take k bs),
        fd_header_size := fd_header_size d + k\<rparr>" and "rest = drop k bs"
      using copy p by (auto simp: copy_header_def Let_def)
    moreover have "fd_header d1 = p @ take k bs"
      using False hdr by (simp add: d1 overwrite_def p_def k_def)
    ultimately show ?thesis
      using False hdr p by (simp add: k_def)
  qed
qed

lemma header_complete_refines:
  assumes inv: "decoder_inv limit d" and idle: "\<not> fd_reading_payload d" "\<not> fd_failed d"
    and copy: "copy_header d bs = (d1, rest)" and full: "fd_header_size d1 = kFrameHeaderSize"
  defines "buf \<equiv> take (fd_header_size d) (fd_header d) @ bs"
  shows "(\<exists>e d2. parse_header d1 = (Inl e, d2) \<and> cut_frame limit buf = Bad e \<and>
            decoder_inv limit (d2\<lparr>fd_header_size := 0\<rparr>) \<and>
            decoder_pending (d2\<lparr>fd_header_size := 0\<rparr>) = None) \<or>
    (\<exists>d2. parse_header d1 = (Inr (), d2) \<and> fd_expected_payload_size d2 = 0 \<and>
            cut_frame limit buf = Got (current_frame d2 []) rest \<and>
            decoder_inv limit (reset_current_frame (d2\<lparr>fd_header_size := 0\<rparr>)) \<and>
            decoder_pending (reset_current_frame (d2\<lparr>fd_header_size := 0\<rparr>)) = Some []) \<or>
    (\<exists>d2 d3. parse_header d1 = (Inr (), d2) \<and> fd_expected_payload_size d2 \<noteq> 0 \<and>
            d3 = d2\<lparr>fd_header_size := 0, fd_payload := [], fd_reading_payload := True\<rparr> \<and>
            decoder_inv limit d3 \<and> fd_header d3 @ rest = buf)"
proof -
  have d1: "kFrameHeaderSize \<le> length buf" "fd_header d1 = take kFrameHeaderSize buf"
    "rest = drop kFrameHeaderSize buf" "\<not> fd_reading_payload d1" "\<not> fd_failed d1"
    "fd_max_frame_size d1 = limit" "kFrameHeaderSize \<le> limit" "fd_payload d1 = []"
    using copy_header_refines [OF inv idle copy] full inv idle
    by (auto simp: buf_def decoder_inv_def)
  show ?thesis
  proof (cases "header_fields limit (fd_header d1)")
    case (Inl e)
    then show ?thesis
      using d1 decoder_fail_inv [of limit d1 "code e"]
      by (simp add: parse_header_fields next_frame_def)
  next
    case (Inr hn)
    then obtain type rid n where hn: "header_fields limit (fd_header d1) = Inr ((type, rid), n)"
      by (cases hn) auto
    then have n: "unat (word_of_nat n :: u32) = n" by (simp add: header_fields_size)
    show ?thesis
    proof (cases "n = 0")
      case True
      with hn d1 show ?thesis
        by (simp add: parse_header_fields next_frame_def frame_of_def current_frame_def
            decoder_inv_def decoder_pending_def reset_current_frame_def)
    next
      case False
      with n have "(word_of_nat n :: u32) \<noteq> 0" by (metis unat_0)
      with hn d1 n False show ?thesis
        by (simp add: parse_header_fields decoder_inv_def)
    qed
  qed
qed

text \<open>What the loop returns when the rest of the stream holds \<open>fs\<close> and ends in \<open>en\<close>.\<close>

definition loop_result ::
  "nat \<Rightarrow> Frame list Result \<times> FrameDecoder \<Rightarrow> Frame list \<Rightarrow> stream_end \<Rightarrow> bool" where
  "loop_result limit r fs en \<longleftrightarrow>
     decoder_inv limit (snd r) \<and>
     (case en of Pending q \<Rightarrow> fst r = Inr fs \<and> decoder_pending (snd r) = Some q
               | Broken e \<Rightarrow> fst r = Inl e \<and> decoder_pending (snd r) = None)"

lemma pending_incomplete:
  "decoder_inv limit d \<Longrightarrow> decoder_pending d = Some p \<Longrightarrow> cut_frame limit p = Need_More"
  by (auto simp: decoder_inv_def decoder_pending_def next_frame_def split: if_splits)

lemma copy_payload_continues:
  assumes inv: "decoder_inv limit d" "fd_reading_payload d"
    and copy: "copy_payload d bs = (gs, d', rest)"
    and cut: "cut_stream limit (fd_header d @ fd_payload d @ bs) = (fs, en)"
    and continue: "\<And>p fs'. decoder_inv limit d' \<Longrightarrow> decoder_pending d' = Some p \<Longrightarrow>
      cut_stream limit (p @ rest) = (fs', en) \<Longrightarrow> loop_result limit r (frames @ gs @ fs') en"
  shows "loop_result limit r (frames @ fs) en"
proof -
  consider "gs = []" "rest = []" "decoder_pending d' = Some (fd_header d @ fd_payload d @ bs)"
      "decoder_inv limit d'"
    | f where "gs = [f]" "decoder_pending d' = Some []" "decoder_inv limit d'"
      "cut_frame limit (fd_header d @ fd_payload d @ bs) = Got f rest"
    using copy_payload_refines [OF inv copy] by auto
  then show ?thesis
  proof cases
    case 1
    then show ?thesis using continue [OF 1(4,3)] cut by simp
  next
    case (2 f)
    then obtain fs' where "cut_stream limit rest = (fs', en)" "fs = f # fs'"
      using cut by (auto simp: parse_stream_Got apfst_eq_Pair)
    then show ?thesis using continue [OF 2(3,2)] 2(1) by simp
  qed
qed

lemma feed_loop_refines:
  assumes "decoder_inv limit d" "decoder_pending d = Some p" "cut_stream limit (p @ bs) = (fs, en)"
  shows "loop_result limit (feed_loop d bs frames) (frames @ fs) en"
  using assms
proof (induction d bs frames arbitrary: p fs rule: feed_loop.induct)
  case (1 d bs frames)
  note inv = "1.prems"(1) and pend = "1.prems"(2) and cut = "1.prems"(3)
  have live: "\<not> fd_failed d" using pend by (simp add: decoder_pending_def split: if_splits)
  show ?case
  proof (cases "bs = []")
    case True
    then have "fs = []" "en = Pending p"
      using cut pending_incomplete [OF inv pend] by (simp_all add: parse_stream_Need_More)
    with True inv pend show ?thesis by (simp add: feed_loop.simps loop_result_def)
  next
    case bs: False
    show ?thesis
    proof (cases "fd_reading_payload d")
      case True
      then have p: "p = fd_header d @ fd_payload d" using pend live by (simp add: decoder_pending_def)
      obtain gs d' rest where copy: "copy_payload d bs = (gs, d', rest)" by (metis prod_cases3)
      have "loop_result limit (feed_loop d' rest (frames @ gs)) (frames @ fs) en"
        using copy_payload_continues [OF inv True copy, of fs en] cut p
          "1.IH"(1) [OF bs True copy [symmetric] refl] by simp
      then show ?thesis using bs True copy by (subst feed_loop.simps) simp
    next
      case idle: False
      then have p: "p = take (fd_header_size d) (fd_header d)"
        using pend live by (simp add: decoder_pending_def)
      obtain d1 rest where copy: "copy_header d bs = (d1, rest)" by fastforce
      show ?thesis
      proof (cases "fd_header_size d1 = kFrameHeaderSize")
        case False
        then have "rest = []" "decoder_inv limit d1" "decoder_pending d1 = Some (p @ bs)"
          using copy_header_refines [OF inv idle live copy] p by auto
        then have "loop_result limit (feed_loop d1 rest frames) (frames @ fs) en"
          using "1.IH"(2) [OF bs idle copy [symmetric] False] cut by simp
        then show ?thesis using bs idle copy False by (subst feed_loop.simps) simp
      next
        case full: True
        from header_complete_refines [OF inv idle live copy full] p
        consider e d2 where "parse_header d1 = (Inl e, d2)" "cut_frame limit (p @ bs) = Bad e"
            "decoder_inv limit (d2\<lparr>fd_header_size := 0\<rparr>)"
            "decoder_pending (d2\<lparr>fd_header_size := 0\<rparr>) = None"
          | d2 where "parse_header d1 = (Inr (), d2)" "fd_expected_payload_size d2 = 0"
            "cut_frame limit (p @ bs) = Got (current_frame d2 []) rest"
            "decoder_inv limit (reset_current_frame (d2\<lparr>fd_header_size := 0\<rparr>))"
            "decoder_pending (reset_current_frame (d2\<lparr>fd_header_size := 0\<rparr>)) = Some []"
          | d2 d3 where "parse_header d1 = (Inr (), d2)" "fd_expected_payload_size d2 \<noteq> 0"
            "d3 = d2\<lparr>fd_header_size := 0, fd_payload := [], fd_reading_payload := True\<rparr>"
            "decoder_inv limit d3" "fd_header d3 @ rest = p @ bs"
          by auto
        then show ?thesis
        proof cases
          case (1 e d2)
          then have "fs = []" "en = Broken e" using cut by (simp_all add: parse_stream_Bad)
          with 1 show ?thesis using bs idle copy full
            by (subst feed_loop.simps) (simp add: loop_result_def)
        next
          case (2 d2)
          then obtain fs' where fs': "cut_stream limit rest = (fs', en)" "fs = current_frame d2 [] # fs'"
            using cut by (auto simp: parse_stream_Got apfst_eq_Pair)
          with "1.IH"(3) [OF bs idle copy [symmetric] _ 2(1) [symmetric] refl 2(2), of "[]" fs'] full 2
          have "loop_result limit (feed_loop (reset_current_frame (d2\<lparr>fd_header_size := 0\<rparr>)) rest
              (frames @ [current_frame d2 []])) (frames @ fs) en"
            by simp
          with 2 show ?thesis using bs idle copy full by (subst feed_loop.simps) simp
        next
          case (3 d2 d3)
          obtain gs d4 rest' where copy': "copy_payload d3 rest = (gs, d4, rest')" by (metis prod_cases3)
          have "loop_result limit (feed_loop d4 rest' (frames @ gs)) (frames @ fs) en"
          proof (rule copy_payload_continues [OF 3(4) _ copy'])
            show "fd_reading_payload d3" by (simp add: 3(3))
            show "cut_stream limit (fd_header d3 @ fd_payload d3 @ rest) = (fs, en)"
              using cut 3(5) by (simp add: 3(3))
          next
            fix p' fs'
            assume "decoder_inv limit d4" "decoder_pending d4 = Some p'"
              "cut_stream limit (p' @ rest') = (fs', en)"
            then show "loop_result limit (feed_loop d4 rest' (frames @ gs)) (frames @ gs @ fs') en"
              using "1.IH"(4) [OF bs idle copy [symmetric] _ 3(1) [symmetric] refl 3(2)
                  copy' [unfolded 3(3), symmetric] refl] full by simp
          qed
          with 3 copy' show ?thesis using bs idle copy full by (subst feed_loop.simps) simp
        qed
      qed
    qed
  qed
qed

lemma decoder_feed_refines:
  assumes "decoder_inv limit d" "decoder_pending d = Some p" "cut_stream limit (p @ bs) = (fs, en)"
  shows "loop_result limit (decoder_feed d bs) fs en"
proof -
  have "\<not> fd_failed d" using assms(2) by (simp add: decoder_pending_def split: if_splits)
  then show ?thesis
    using feed_loop_refines [OF assms, of "[]"] by (simp add: decoder_feed_def)
qed

section \<open>The encoder's layout\<close>

definition frame_header :: "MessageType \<Rightarrow> u64 \<Rightarrow> nat \<Rightarrow> bytes" where
  "frame_header type rid n =
     write_u32 kFrameMagic @ write_u16 kProtocolVersion @ write_u16 (message_type_wire type) @
     write_u32 0 @ write_u32 (word_of_nat n) @ write_u64 rid"

lemma length_frame_header [simp]: "length (frame_header type rid n) = kFrameHeaderSize"
  by (simp add: frame_header_def kFrameHeaderSize_def)

lemma header_split:
  assumes "length hdr = kFrameHeaderSize"
  shows "hdr = write_u32 (read_u32 hdr) @ write_u16 (read_u16 (drop 4 hdr)) @
    write_u16 (read_u16 (drop 6 hdr)) @ write_u32 (read_u32 (drop 8 hdr)) @
    write_u32 (read_u32 (drop 12 hdr)) @ write_u64 (read_u64 (drop 16 hdr))"
proof -
  have "hdr = take 4 hdr @ take 2 (drop 4 hdr) @ take 2 (drop 6 hdr) @ take 4 (drop 8 hdr) @
      take 4 (drop 12 hdr) @ take 8 (drop 16 hdr)"
    using assms append_take_drop_id [of 4 hdr] append_take_drop_id [of 2 "drop 4 hdr"]
      append_take_drop_id [of 2 "drop 6 hdr"] append_take_drop_id [of 4 "drop 8 hdr"]
      append_take_drop_id [of 4 "drop 12 hdr"]
    by (simp add: kFrameHeaderSize_def)
  then show ?thesis
    using assms
    by (simp add: write_u16_read_u16 write_u32_read_u32 write_u64_read_u64 kFrameHeaderSize_def)
qed

lemma header_fields_frame_header:
  "n \<le> limit - kFrameHeaderSize \<Longrightarrow> n < 4294967296 \<Longrightarrow>
   header_fields limit (frame_header type rid n) = Inr ((type, rid), n)"
  by (simp add: header_fields_def frame_header_def)

lemma header_fields_Inr:
  assumes "length hdr = kFrameHeaderSize" "header_fields limit hdr = Inr ((type, rid), n)"
  shows "hdr = frame_header type rid n \<and> n \<le> limit - kFrameHeaderSize"
  using header_split [OF assms(1)] assms(2)
  by (auto simp: header_fields_def frame_header_def message_type_from_wire_Some
      split: if_splits option.splits)

lemma encode_frame_Inr_iff:
  "encode_frame f m = Inr bs \<longleftrightarrow>
     frame_flags f = 0 \<and> length (frame_payload f) \<le> effective_frame_limit m - kFrameHeaderSize \<and>
     bs = frame_header (frame_type f) (frame_request_id f) (length (frame_payload f)) @ frame_payload f"
  using effective_frame_limit_bounds(2) [of m]
  by (auto simp: encode_frame_def Let_def frame_header_def kMaxFrameSize_def)

lemma next_frame_encode:
  "cut_frame (effective_frame_limit m) buf = Got f rest \<longleftrightarrow>
     (\<exists>bs. encode_frame f m = Inr bs \<and> buf = bs @ rest)"
proof
  assume got: "cut_frame (effective_frame_limit m) buf = Got f rest"
  then obtain type rid n
    where buf: "kFrameHeaderSize + n \<le> length buf"
      and hdr: "header_fields (effective_frame_limit m) (take kFrameHeaderSize buf) = Inr ((type, rid), n)"
      and f: "f = frame_of (type, rid) (take n (drop kFrameHeaderSize buf))"
      and rest: "rest = drop (kFrameHeaderSize + n) buf"
    by (auto simp: next_frame_def split: if_splits sum.splits)
  have "length (take kFrameHeaderSize buf) = kFrameHeaderSize" using buf by simp
  from header_fields_Inr [OF this hdr] have
    "take kFrameHeaderSize buf = frame_header type rid n" "n \<le> effective_frame_limit m - kFrameHeaderSize"
    by auto
  moreover have "buf = take kFrameHeaderSize buf @ take n (drop kFrameHeaderSize buf) @ rest"
    using rest by (metis append_take_drop_id drop_drop add.commute)
  ultimately show "\<exists>bs. encode_frame f m = Inr bs \<and> buf = bs @ rest"
    using f buf by (auto simp: encode_frame_Inr_iff frame_of_def)
next
  assume "\<exists>bs. encode_frame f m = Inr bs \<and> buf = bs @ rest"
  moreover have "effective_frame_limit m < 4294967296"
    using effective_frame_limit_bounds(2) [of m] by (simp add: kMaxFrameSize_def)
  ultimately show "cut_frame (effective_frame_limit m) buf = Got f rest"
    by (auto simp: next_frame_def encode_frame_Inr_iff header_fields_frame_header frame_of_def)
qed

section \<open>Interpretation of the decoder contract\<close>

interpretation remote_frames: frame_codec kFrameHeaderSize
  "header_fields (effective_frame_limit m)" frame_of decoder_feed
  "decoder_inv (effective_frame_limit m)" decoder_pending "\<lambda>f. encode_frame f m" for m :: nat
proof
  fix d p bs fs q
  assume "decoder_inv (effective_frame_limit m) d" "decoder_pending d = Some p"
    "cut_stream (effective_frame_limit m) (p @ bs) = (fs, Pending q)"
  from decoder_feed_refines [OF this]
  show "\<exists>d'. decoder_feed d bs = (Inr fs, d') \<and> decoder_inv (effective_frame_limit m) d' \<and>
      decoder_pending d' = Some q"
    by (cases "decoder_feed d bs") (auto simp: loop_result_def)
next
  fix d p bs fs e
  assume "decoder_inv (effective_frame_limit m) d" "decoder_pending d = Some p"
    "cut_stream (effective_frame_limit m) (p @ bs) = (fs, Broken e)"
  from decoder_feed_refines [OF this]
  show "\<exists>d'. decoder_feed d bs = (Inl e, d') \<and> decoder_inv (effective_frame_limit m) d' \<and>
      decoder_pending d' = None"
    by (cases "decoder_feed d bs") (auto simp: loop_result_def)
next
  fix d :: FrameDecoder and bs
  assume "decoder_pending d = None"
  then show "\<exists>e. decoder_feed d bs = (Inl e, d)"
    by (simp add: decoder_pending_def decoder_feed_def split: if_splits)
qed (simp_all add: next_frame_encode)

lemma new_frame_decoder_inv:
  "decoder_inv (effective_frame_limit m) (new_frame_decoder m)"
  "decoder_pending (new_frame_decoder m) = Some []"
  using effective_frame_limit_bounds(1) [of m]
  by (simp_all add: decoder_inv_def decoder_pending_def new_frame_decoder_def)

lemma decoder_reset_inv:
  "decoder_inv limit d \<Longrightarrow> decoder_inv limit (decoder_reset d) \<and> decoder_pending (decoder_reset d) = Some []"
  by (auto simp: decoder_inv_def decoder_reset_def reset_current_frame_def decoder_pending_def)

lemma decoder_finish_iff:
  "decoder_inv limit d \<Longrightarrow> decoder_finish d = Inr () \<longleftrightarrow> decoder_pending d = Some []"
  using kFrameHeaderSize_pos
  by (auto simp: decoder_inv_def decoder_finish_def decoder_pending_def simp del: kFrameHeaderSize_pos)

lemma buffered_size_bound:
  "decoder_inv limit d \<Longrightarrow> buffered_size d < limit"
  by (auto simp: decoder_inv_def buffered_size_def split: if_splits dest!: header_fields_size)

inductive decoder_reachable :: "nat \<Rightarrow> FrameDecoder \<Rightarrow> bool" for m :: nat where
  reach_new: "decoder_reachable m (new_frame_decoder m)"
| reach_feed: "decoder_reachable m d \<Longrightarrow> decoder_reachable m (snd (decoder_feed d bs))"
| reach_reset: "decoder_reachable m d \<Longrightarrow> decoder_reachable m (decoder_reset d)"

lemma decoder_reachable_inv:
  "decoder_reachable m d \<Longrightarrow> decoder_inv (effective_frame_limit m) d"
  by (induction rule: decoder_reachable.induct)
     (simp_all add: new_frame_decoder_inv remote_frames.feed_inv decoder_reset_inv)

lemma cut_stream_Nil [simp]: "cut_stream limit [] = ([], Pending [])"
  by (simp add: parse_stream_Nil)

text \<open>Two decoders that hold nothing back return the same results.\<close>

lemma empty_decoders_agree:
  assumes "decoder_inv (effective_frame_limit m) d" "decoder_pending d = Some []"
    and "decoder_inv (effective_frame_limit m) d'" "decoder_pending d' = Some []"
  shows "fst (feed_all decoder_feed d cs) = fst (feed_all decoder_feed d' cs)"
proof (cases "cut_stream (effective_frame_limit m) (concat cs)")
  case (Pair fs en)
  then show ?thesis
    using remote_frames.feed_all_pending [OF assms(1,2), of cs fs]
      remote_frames.feed_all_pending [OF assms(3,4), of cs fs]
      remote_frames.feed_all_broken [OF assms(1,2), of cs fs]
      remote_frames.feed_all_broken [OF assms(3,4), of cs fs]
    by (cases en) fastforce+
qed

section \<open>Properties\<close>

text \<open>
  C1: frames that \<open>encode_frame\<close> accepted come out of a fresh \<open>FrameDecoder\<close> with the same limit
  complete and in order, however the byte stream is cut into chunks, and the decoder ends between
  frames.
\<close>

theorem frame_stream_roundtrip:
  assumes "list_all2 (\<lambda>f bs. encode_frame f m = Inr bs) fs bss"
    and "concat chunks = concat bss"
  shows "\<exists>d. feed_all decoder_feed (new_frame_decoder m) chunks = (Inr fs, d) \<and>
             decoder_finish d = Inr ()"
  using remote_frames.decode_encoded [OF new_frame_decoder_inv assms] decoder_finish_iff by blast

theorem frame_stream_roundtrip_witness:
  "\<exists>d. feed_all decoder_feed (new_frame_decoder 64)
      [frame_header MT_ping 7 2, [1], [2]] =
        (Inr [\<lparr>frame_type = MT_ping, frame_flags = 0, frame_request_id = 7, frame_payload = [1, 2]\<rparr>], d)"
proof -
  let ?f = "\<lparr>frame_type = MT_ping, frame_flags = 0, frame_request_id = 7, frame_payload = [1, 2]\<rparr>"
  have "list_all2 (\<lambda>f bs. encode_frame f 64 = Inr bs) [?f] [frame_header MT_ping 7 2 @ [1, 2]]"
    by (simp add: encode_frame_Inr_iff effective_frame_limit_def kFrameHeaderSize_def kMaxFrameSize_def
        numeral_2_eq_2)
  from frame_stream_roundtrip [OF this, of "[frame_header MT_ping 7 2, [1], [2]]"]
  show ?thesis by auto
qed

text \<open>
  C12: the decoder emits nothing else: the frames it returned are frames that \<open>encode_frame\<close>
  accepts, and their encodings followed by the unfinished rest are exactly the bytes it was fed;
  \<open>finish\<close> succeeds exactly when no rest is left.
\<close>

theorem frame_decoder_canonical:
  assumes "feed_all decoder_feed (new_frame_decoder m) chunks = (Inr fs, d)"
  shows "\<exists>bss rest. list_all2 (\<lambda>f bs. encode_frame f m = Inr bs) fs bss \<and>
           concat chunks = concat bss @ rest \<and> (decoder_finish d = Inr () \<longleftrightarrow> rest = [])"
proof -
  obtain bss q where q: "list_all2 (\<lambda>f bs. encode_frame f m = Inr bs) fs bss"
    "decoder_pending d = Some q" "concat chunks = concat bss @ q"
    using remote_frames.decoded_was_encoded [OF new_frame_decoder_inv assms] by blast
  have "decoder_inv (effective_frame_limit m) d"
    using remote_frames.feed_all_inv [OF new_frame_decoder_inv(1), of m chunks] assms by simp
  with q show ?thesis using decoder_finish_iff by fastforce
qed

theorem frame_decoder_canonical_witness:
  "\<exists>bss rest. list_all2 (\<lambda>f bs. encode_frame f 64 = Inr bs) [] bss \<and>
     concat [[0x4d], [0x54]] = concat bss @ rest \<and>
     (decoder_finish (snd (feed_all decoder_feed (new_frame_decoder 64) [[0x4d], [0x54]])) = Inr () \<longleftrightarrow>
      rest = [])"
proof -
  have "fst (feed_all decoder_feed (new_frame_decoder 64) [[0x4d], [0x54]]) = Inr []"
    by (simp add: decoder_feed_def feed_loop.simps new_frame_decoder_def copy_header_def
        kFrameHeaderSize_def)
  then have "feed_all decoder_feed (new_frame_decoder 64) [[0x4d], [0x54]] =
      (Inr [], snd (feed_all decoder_feed (new_frame_decoder 64) [[0x4d], [0x54]]))"
    by (metis prod.collapse)
  from frame_decoder_canonical [OF this] show ?thesis .
qed

text \<open>
  C3: How a stream is cut into chunks decides neither the error a decoder ends with, nor whether it
  stops between frames, nor, where there is no error, the frames it delivers.  Where there is one,
  the frames two cuts deliver before it agree as far as both go: \<open>feed\<close> drops the frames of the
  chunk in which it fails, so the cut decides how many of them are delivered.
\<close>

theorem frame_chunk_independence:
  assumes "decoder_reachable m d" "\<not> fd_failed d" "concat chunks = concat chunks'"
    and "deliver decoder_feed d chunks = (fs, r, e)" "deliver decoder_feed d chunks' = (fs', r', e')"
  shows "r' = r \<and> (r = None \<longrightarrow> fs' = fs) \<and> (prefix fs fs' \<or> prefix fs' fs) \<and>
    (decoder_finish e = Inr () \<longleftrightarrow> decoder_finish e' = Inr ())"
proof -
  have inv: "decoder_inv (effective_frame_limit m) d" using assms(1) by (rule decoder_reachable_inv)
  obtain p where p: "decoder_pending d = Some p" using assms(2) by (simp add: decoder_pending_def)
  have "cut_stream (effective_frame_limit m) p = ([], Pending p)"
    using pending_incomplete [OF inv p] by (rule parse_stream_Need_More)
  note same = remote_frames.chunk_independent [OF inv p this assms(3-5)]
  then have "decoder_finish e = Inr () \<longleftrightarrow> decoder_finish e' = Inr ()"
    using decoder_finish_iff [of "effective_frame_limit m" e] decoder_finish_iff [of "effective_frame_limit m" e']
    by simp
  with same show ?thesis by blast
qed

theorem frame_chunk_independence_witness:
  "fst (snd (deliver decoder_feed (new_frame_decoder 64) [replicate 20 0, [3]])) =
   fst (snd (deliver decoder_feed (new_frame_decoder 64) [[0], replicate 19 0, [3]]))"
proof -
  have d: "decoder_reachable 64 (new_frame_decoder 64)" "\<not> fd_failed (new_frame_decoder 64)"
    by (rule reach_new) (simp add: new_frame_decoder_def)
  have same: "concat [replicate 20 0, [3]] = concat [[0], replicate 19 0, [3]]"
    by (simp add: numeral_eq_Suc)
  obtain fs r e fs' r' e' where runs: "deliver decoder_feed (new_frame_decoder 64) [replicate 20 0, [3]] = (fs, r, e)"
    "deliver decoder_feed (new_frame_decoder 64) [[0], replicate 19 0, [3]] = (fs', r', e')"
    by (metis prod_cases3)
  from frame_chunk_independence [OF d same runs] runs show ?thesis by simp
qed

text \<open>
  C13: whatever was fed, the decoder holds back less than one frame of the configured limit; once
  it has failed it returns an error and does not change until \<open>reset\<close>; after \<open>reset\<close> it answers
  every input as a fresh decoder does.
\<close>

theorem frame_decoder_safe:
  assumes "decoder_reachable m d"
  shows "buffered_size d < effective_frame_limit m \<and>
    (fd_failed d \<longrightarrow> decoder_feed d bs = (Inl (decoder_error (fd_failure_code d)), d)) \<and>
    fst (feed_all decoder_feed (decoder_reset d) chunks) =
      fst (feed_all decoder_feed (new_frame_decoder m) chunks)"
  using buffered_size_bound decoder_reset_inv decoder_reachable_inv [OF assms]
    empty_decoders_agree [OF _ _ new_frame_decoder_inv]
  by (auto simp: decoder_feed_def)

theorem frame_decoder_safe_witness:
  "buffered_size (snd (decoder_feed (new_frame_decoder 64) [1])) < effective_frame_limit 64"
  using frame_decoder_safe [OF reach_feed [OF reach_new]] by blast

end
