(* ===== verification/Utf8.thy ===== *)
theory Utf8
  imports Wire_Words
begin

text \<open>
  \<open>is_valid_utf8\<close> of \<open>src/protocol/codec.cpp\<close>, which guards every text field of the remote
  protocol, and its agreement with the definition of UTF-8: a byte string is accepted exactly when
  it is the encoding of a sequence of Unicode scalar values.
\<close>

unbundle bit_operations_syntax

section \<open>UTF-8 validation\<close>

definition utf8_lead :: "byte \<Rightarrow> (nat \<times> u32 \<times> u32) option" where
  "utf8_lead first =
     (if first AND 0xe0 = 0xc0 then Some (1, ucast (first AND 0x1f), 0x80)
      else if first AND 0xf0 = 0xe0 then Some (2, ucast (first AND 0x0f), 0x800)
      else if first AND 0xf8 = 0xf0 then Some (3, ucast (first AND 0x07), 0x10000)
      else None)"

fun utf8_continuation :: "u32 \<Rightarrow> bytes \<Rightarrow> u32 option" where
  "utf8_continuation code_point [] = Some code_point"
| "utf8_continuation code_point (c # cs) =
     (if c AND 0xc0 \<noteq> 0x80 then None
      else utf8_continuation (push_bit 6 code_point OR ucast (c AND 0x3f)) cs)"

function utf8_loop :: "bytes \<Rightarrow> bool" where
  "utf8_loop [] = True"
| "utf8_loop (first # rest) =
     (if first \<le> 0x7f then utf8_loop rest
      else (case utf8_lead first of
              None \<Rightarrow> False
            | Some (continuation_count, code_point, minimum) \<Rightarrow>
                if length rest < continuation_count then False
                else (case utf8_continuation code_point (take continuation_count rest) of
                        None \<Rightarrow> False
                      | Some code_point \<Rightarrow>
                          if code_point < minimum \<or> 0x10ffff < code_point \<or>
                             (0xd800 \<le> code_point \<and> code_point \<le> 0xdfff)
                          then False
                          else utf8_loop (drop continuation_count rest))))"
  by pat_completeness auto

termination
  by (relation "measure length") auto

definition is_valid_utf8 :: "string \<Rightarrow> bool" where
  "is_valid_utf8 value = utf8_loop (bytes_of_string value)"

section \<open>The definition of UTF-8\<close>

definition scalar :: "nat \<Rightarrow> bool" where
  "scalar cp \<longleftrightarrow> cp \<le> 0x10ffff \<and> \<not> (0xd800 \<le> cp \<and> cp \<le> 0xdfff)"

definition utf8_encode :: "nat \<Rightarrow> bytes" where
  "utf8_encode cp =
     (if cp < 0x80 then [word_of_nat cp]
      else if cp < 0x800
      then [word_of_nat (0xc0 + cp div 64), word_of_nat (0x80 + cp mod 64)]
      else if cp < 0x10000
      then [word_of_nat (0xe0 + cp div 4096), word_of_nat (0x80 + cp div 64 mod 64),
            word_of_nat (0x80 + cp mod 64)]
      else [word_of_nat (0xf0 + cp div 262144), word_of_nat (0x80 + cp div 4096 mod 64),
            word_of_nat (0x80 + cp div 64 mod 64), word_of_nat (0x80 + cp mod 64)])"

section \<open>Bytes by their value\<close>

definition byte_word :: "nat \<Rightarrow> byte" where
  "byte_word n = word_of_nat n"

lemma unat_byte_word: "n < 256 \<Longrightarrow> unat (byte_word n) = n"
  by (simp add: byte_word_def unat_of_nat)

lemma byte_word_unat: "byte_word (unat b) = b"
  by (simp add: byte_word_def)

definition code_word :: "nat \<Rightarrow> u32" where
  "code_word a = word_of_nat a"

lemma unat_code_word: "a < 4294967296 \<Longrightarrow> unat (code_word a) = a"
  by (simp add: code_word_def)

lemma all_bytes: "(\<forall>n \<in> set [0..<256]. P (word_of_nat n :: byte)) \<Longrightarrow> P b"
proof -
  assume all: "\<forall>n \<in> set [0..<256]. P (word_of_nat n :: byte)"
  have "unat b \<in> set [0..<256]" using unat_u8_bound [of b] by simp
  with all have "P (word_of_nat (unat b))" by blast
  then show "P b" by simp
qed

lemma lead_value:
  "utf8_lead b =
     (if 192 \<le> unat b \<and> unat b < 224 then Some (1, code_word (unat b - 192), 0x80)
      else if 224 \<le> unat b \<and> unat b < 240 then Some (2, code_word (unat b - 224), 0x800)
      else if 240 \<le> unat b \<and> unat b < 248 then Some (3, code_word (unat b - 240), 0x10000)
      else None)"
  by (rule all_bytes [of _ b]) code_simp

lemma continuation_value:
  "c AND 0xc0 = 0x80 \<longleftrightarrow> 128 \<le> unat (c :: byte) \<and> unat c < 192"
  by (rule all_bytes [of _ c]) code_simp

lemma continuation_bits:
  "128 \<le> unat (c :: byte) \<and> unat c < 192 \<longrightarrow> (ucast (c AND 0x3f) :: u32) = code_word (unat c - 128)"
  by (rule all_bytes [of _ c]) code_simp

lemma shift_in:
  assumes "a < 67108864" "x < 64"
  shows "push_bit 6 (word_of_nat a :: u32) OR word_of_nat x = word_of_nat (a * 64 + x)"
proof -
  have x: "(word_of_nat x :: u32) = take_bit 6 (word_of_nat x)"
    using assms(2) by (simp add: take_bit_of_nat take_bit_nat_eq_self)
  have "push_bit 6 (word_of_nat a :: u32) OR word_of_nat x = push_bit 6 (word_of_nat a) + word_of_nat x"
    by (subst x, subst (2) x, rule disjunctive_add [symmetric]) (simp add: bit_simps)
  then show ?thesis by (simp add: push_bit_eq_mult)
qed

lemma continuation_Cons:
  assumes "a < 67108864"
  shows "utf8_continuation (code_word a) (c # cs) =
    (if 128 \<le> unat c \<and> unat c < 192
     then utf8_continuation (code_word (a * 64 + (unat c - 128))) cs else None)"
proof (cases "128 \<le> unat c \<and> unat c < 192")
  case True
  then have "push_bit 6 (code_word a) OR ucast (c AND 0x3f) = code_word (a * 64 + (unat c - 128))"
    using shift_in [OF assms, of "unat c - 128"] continuation_bits [of c] by (simp only: code_word_def) linarith
  with True show ?thesis by (simp add: continuation_value)
qed (auto simp: continuation_value)

text \<open>The range checks on the assembled code point.\<close>

lemma code_point_checks:
  assumes "a < 4294967296"
  shows "code_word a < 0x80 \<longleftrightarrow> a < 0x80" "code_word a < 0x800 \<longleftrightarrow> a < 0x800"
    "code_word a < 0x10000 \<longleftrightarrow> a < 0x10000"
    "0x10ffff < code_word a \<or> 0xd800 \<le> code_word a \<and> code_word a \<le> 0xdfff \<longleftrightarrow> \<not> scalar a"
  using assms by (auto simp: word_less_nat_alt word_le_nat_alt unat_code_word scalar_def)

declare utf8_continuation.simps [simp del]

lemma continuation_Nil: "utf8_continuation a [] = Some a"
  by (simp add: utf8_continuation.simps)

definition tail_byte :: "byte \<Rightarrow> bool" where
  "tail_byte c \<longleftrightarrow> 128 \<le> unat c \<and> unat c < 192"

definition tail_value :: "byte \<Rightarrow> nat" where
  "tail_value c = unat c - 128"

lemma tail_value_bound: "tail_byte c \<Longrightarrow> tail_value c < 64"
  by (auto simp: tail_byte_def tail_value_def)

lemma continuation_tail:
  "a < 67108864 \<Longrightarrow> utf8_continuation (code_word a) (c # cs) =
    (if tail_byte c then utf8_continuation (code_word (a * 64 + tail_value c)) cs else None)"
  by (simp only: continuation_Cons tail_byte_def tail_value_def)

lemma loop_1: "unat b < 128 \<Longrightarrow> utf8_loop (b # rest) = utf8_loop rest"
  by (simp add: word_le_nat_alt)

declare utf8_loop.simps(2) [simp del]

lemma loop_2:
  assumes "192 \<le> unat b" "unat b < 224"
  shows "utf8_loop (b # c # rest) \<longleftrightarrow>
    tail_byte c \<and>
    0x80 \<le> ((unat b - 192) * 64 + tail_value c) \<and>
    scalar ((unat b - 192) * 64 + tail_value c) \<and> utf8_loop rest"
proof -
  define a where "a = unat b - 192"
  have a: "a < 32" "a < 67108864" using assms by (simp_all add: a_def)
  have "utf8_lead b = Some (1, code_word a, 0x80)"
    using assms by (simp add: lead_value a_def)
  moreover have "(a * 64 + tail_value c) < 4294967296" if "tail_byte c"
    using a that [THEN tail_value_bound] by (simp add: distrib_right)
  moreover have "\<not> b \<le> 0x7f" using assms by (simp add: word_le_nat_alt)
  ultimately show ?thesis
    using a
    by (simp add: utf8_loop.simps(2) [of b] continuation_tail continuation_Nil code_point_checks
        not_less flip: a_def)
qed

lemma loop_3:
  assumes "224 \<le> unat b" "unat b < 240"
  shows "utf8_loop (b # c # c2 # rest) \<longleftrightarrow>
    tail_byte c \<and> tail_byte c2 \<and>
    0x800 \<le> (((unat b - 224) * 64 + tail_value c) * 64 + tail_value c2) \<and>
    scalar (((unat b - 224) * 64 + tail_value c) * 64 + tail_value c2) \<and> utf8_loop rest"
proof -
  define a where "a = unat b - 224"
  have a: "a < 16" "a < 67108864" using assms by (simp_all add: a_def)
  have "utf8_lead b = Some (2, code_word a, 0x800)"
    using assms by (simp add: lead_value a_def)
  moreover have "((a * 64 + tail_value c) * 64 + tail_value c2) < 4294967296" if "tail_byte c" "tail_byte c2"
    using a that [THEN tail_value_bound] by (simp add: distrib_right)
  moreover have "\<not> b \<le> 0x7f" using assms by (simp add: word_le_nat_alt)
  moreover have "(a * 64 + tail_value c) < 67108864" if "tail_byte c"
    using a that [THEN tail_value_bound] by (simp add: distrib_right)
  ultimately show ?thesis
    using a
    by (simp add: utf8_loop.simps(2) [of b] continuation_tail continuation_Nil code_point_checks
        not_less flip: a_def)
qed

lemma loop_4:
  assumes "240 \<le> unat b" "unat b < 248"
  shows "utf8_loop (b # c # c2 # c3 # rest) \<longleftrightarrow>
    tail_byte c \<and> tail_byte c2 \<and> tail_byte c3 \<and>
    0x10000 \<le> ((((unat b - 240) * 64 + tail_value c) * 64 + tail_value c2) * 64 + tail_value c3) \<and>
    scalar ((((unat b - 240) * 64 + tail_value c) * 64 + tail_value c2) * 64 + tail_value c3) \<and> utf8_loop rest"
proof -
  define a where "a = unat b - 240"
  have a: "a < 8" "a < 67108864" using assms by (simp_all add: a_def)
  have "utf8_lead b = Some (3, code_word a, 0x10000)"
    using assms by (simp add: lead_value a_def)
  moreover have "(((a * 64 + tail_value c) * 64 + tail_value c2) * 64 + tail_value c3) < 4294967296" if "tail_byte c" "tail_byte c2" "tail_byte c3"
    using a that [THEN tail_value_bound] by (simp add: distrib_right)
  moreover have "\<not> b \<le> 0x7f" using assms by (simp add: word_le_nat_alt)
  moreover have "(a * 64 + tail_value c) < 67108864" if "tail_byte c"
    using a that [THEN tail_value_bound] by (simp add: distrib_right)
  moreover have "((a * 64 + tail_value c) * 64 + tail_value c2) < 67108864" if "tail_byte c" "tail_byte c2"
    using a that [THEN tail_value_bound] by (simp add: distrib_right)
  ultimately show ?thesis
    using a
    by (simp add: utf8_loop.simps(2) [of b] continuation_tail continuation_Nil code_point_checks
        not_less flip: a_def)
qed

lemma not_short:
  "\<not> length rest < 1 \<Longrightarrow> \<exists>c r. rest = c # r"
  "\<not> length rest < 2 \<Longrightarrow> \<exists>c c2 r. rest = c # c2 # r"
  "\<not> length rest < 3 \<Longrightarrow> \<exists>c c2 c3 r. rest = c # c2 # c3 # r"
  by (metis One_nat_def length_0_conv less_Suc0 neq_Nil_conv)
     (metis Suc_le_length_iff not_less numeral_2_eq_2, metis Suc_le_length_iff not_less numeral_3_eq_3)

lemma loop_short:
  assumes "128 \<le> unat b" "utf8_loop (b # rest)"
  shows "(192 \<le> unat b \<and> unat b < 224 \<and> \<not> length rest < 1) \<or>
     (224 \<le> unat b \<and> unat b < 240 \<and> \<not> length rest < 2) \<or>
     (240 \<le> unat b \<and> unat b < 248 \<and> \<not> length rest < 3)"
proof -
  have "\<not> b \<le> 0x7f" using assms(1) by (simp add: word_le_nat_alt)
  then show ?thesis using assms(2)
    by (simp add: utf8_loop.simps(2) [of b] lead_value split: if_splits)
qed

lemma digits:
  "cp div 64 * 64 + cp mod 64 = (cp :: nat)"
  "cp div 4096 * 64 + cp div 64 mod 64 = cp div 64"
  "cp div 262144 * 64 + cp div 4096 mod 64 = cp div 4096"
proof -
  have d: "cp div 4096 = cp div 64 div 64" "cp div 262144 = cp div 4096 div 64"
    by (simp_all add: div_mult2_eq [symmetric])
  show "cp div 64 * 64 + cp mod 64 = cp" by (rule div_mult_mod_eq)
  show "cp div 4096 * 64 + cp div 64 mod 64 = cp div 64" unfolding d(1) by (rule div_mult_mod_eq)
  show "cp div 262144 * 64 + cp div 4096 mod 64 = cp div 4096" unfolding d(2) by (rule div_mult_mod_eq)
qed

section \<open>Agreement\<close>

lemma utf8_encode_byte_word:
  "utf8_encode cp =
     (if cp < 0x80 then [byte_word cp]
      else if cp < 0x800 then [byte_word (0xc0 + cp div 64), byte_word (0x80 + cp mod 64)]
      else if cp < 0x10000
      then [byte_word (0xe0 + cp div 4096), byte_word (0x80 + cp div 64 mod 64),
            byte_word (0x80 + cp mod 64)]
      else [byte_word (0xf0 + cp div 262144), byte_word (0x80 + cp div 4096 mod 64),
            byte_word (0x80 + cp div 64 mod 64), byte_word (0x80 + cp mod 64)])"
  by (simp only: utf8_encode_def byte_word_def)

lemma tail_byte_word [simp]:
  "x < 64 \<Longrightarrow> tail_byte (byte_word (128 + x))" "x < 64 \<Longrightarrow> tail_value (byte_word (128 + x)) = x"
  by (simp_all add: tail_byte_def tail_value_def unat_byte_word)

lemma byte_word_tail: "tail_byte c \<Longrightarrow> byte_word (128 + tail_value c) = c"
  by (simp add: tail_byte_def tail_value_def byte_word_unat)

lemma encode_accepted:
  assumes "scalar cp"
  shows "utf8_loop (utf8_encode cp @ rest) = utf8_loop rest"
proof -
  consider "cp < 0x80" | "0x80 \<le> cp" "cp < 0x800" | "0x800 \<le> cp" "cp < 0x10000"
    | "0x10000 \<le> cp" "cp < 2097152"
    using assms unfolding scalar_def by linarith
  then show ?thesis
  proof cases
    case 1
    then show ?thesis by (simp add: utf8_encode_byte_word loop_1 unat_byte_word)
  next
    case 2
    then have "cp div 64 < 32" by auto
    then show ?thesis
      using 2 assms loop_2 [of "byte_word (192 + cp div 64)" "byte_word (128 + cp mod 64)" rest]
      by (simp add: utf8_encode_byte_word unat_byte_word digits)
  next
    case 3
    then have "cp div 4096 < 16" by auto
    then show ?thesis
      using 3 assms loop_3 [of "byte_word (224 + cp div 4096)" "byte_word (128 + cp div 64 mod 64)"
          "byte_word (128 + cp mod 64)" rest]
      by (simp add: utf8_encode_byte_word unat_byte_word digits)
  next
    case 4
    then have "cp div 262144 < 8" by auto
    then show ?thesis
      using 4 assms loop_4 [of "byte_word (240 + cp div 262144)" "byte_word (128 + cp div 4096 mod 64)"
          "byte_word (128 + cp div 64 mod 64)" "byte_word (128 + cp mod 64)" rest]
      by (simp add: utf8_encode_byte_word unat_byte_word digits)
  qed
qed

lemma digit_split: "t < 64 \<Longrightarrow> (a * 64 + t) div 64 = (a :: nat) \<and> (a * 64 + t) mod 64 = t"
  by simp

lemma div_4096: "(cp :: nat) div 4096 = cp div 64 div 64" "(cp :: nat) div 262144 = cp div 64 div 64 div 64"
  by (simp_all add: div_mult2_eq [symmetric])

lemma utf8_encode_assembled:
  "a < 32 \<Longrightarrow> t < 64 \<Longrightarrow> 0x80 \<le> a * 64 + t \<Longrightarrow>
     utf8_encode (a * 64 + t) = [byte_word (192 + a), byte_word (128 + t)]"
  "a < 16 \<Longrightarrow> t < 64 \<Longrightarrow> u < 64 \<Longrightarrow> 0x800 \<le> (a * 64 + t) * 64 + u \<Longrightarrow>
     utf8_encode ((a * 64 + t) * 64 + u) = [byte_word (224 + a), byte_word (128 + t), byte_word (128 + u)]"
  "t < 64 \<Longrightarrow> u < 64 \<Longrightarrow> v < 64 \<Longrightarrow> 0x10000 \<le> ((a * 64 + t) * 64 + u) * 64 + v \<Longrightarrow>
     utf8_encode (((a * 64 + t) * 64 + u) * 64 + v) =
       [byte_word (240 + a), byte_word (128 + t), byte_word (128 + u), byte_word (128 + v)]"
proof goal_cases
  case 1
  then have "a * 64 + t < 0x800" by simp
  with 1 show ?case by (simp add: utf8_encode_byte_word)
next
  case 2
  then have "(a * 64 + t) * 64 + u < 0x10000" by (simp add: distrib_right)
  with 2 digit_split [of u "a * 64 + t"] digit_split [of t a] show ?case
    by (simp only: utf8_encode_byte_word div_4096) simp
next
  case 3
  with digit_split [of v "(a * 64 + t) * 64 + u"] digit_split [of u "a * 64 + t"] digit_split [of t a]
  show ?case by (simp only: utf8_encode_byte_word div_4096) simp
qed

lemma loop_first:
  assumes "utf8_loop (b # rest)"
  shows "\<exists>cp r. scalar cp \<and> b # rest = utf8_encode cp @ r \<and> utf8_loop r"
proof (cases "unat b < 128")
  case True
  with assms have "utf8_loop rest" "scalar (unat b)" "utf8_encode (unat b) = [b]"
    by (simp_all add: loop_1 scalar_def utf8_encode_byte_word byte_word_unat)
  then show ?thesis by (intro exI [of _ "unat b"] exI [of _ rest]) simp
next
  case False
  then have "128 \<le> unat b" by simp
  from loop_short [OF this assms]
  consider c r where "192 \<le> unat b" "unat b < 224" "rest = c # r"
    | c c2 r where "224 \<le> unat b" "unat b < 240" "rest = c # c2 # r"
    | c c2 c3 r where "240 \<le> unat b" "unat b < 248" "rest = c # c2 # c3 # r"
    using not_short by metis
  then show ?thesis
  proof cases
    case (1 c r)
    with assms loop_2 [OF 1(1,2)] show ?thesis
      using utf8_encode_assembled(1) [of "unat b - 192" "tail_value c"] tail_value_bound [of c]
      by (intro exI [of _ "(unat b - 192) * 64 + tail_value c"] exI [of _ r])
         (simp add: byte_word_unat byte_word_tail)
  next
    case (2 c c2 r)
    with assms loop_3 [OF 2(1,2)] show ?thesis
      using utf8_encode_assembled(2) [of "unat b - 224" "tail_value c" "tail_value c2"]
        tail_value_bound [of c] tail_value_bound [of c2]
      by (intro exI [of _ "((unat b - 224) * 64 + tail_value c) * 64 + tail_value c2"] exI [of _ r])
         (simp add: byte_word_unat byte_word_tail)
  next
    case (3 c c2 c3 r)
    with assms loop_4 [OF 3(1,2)] show ?thesis
      using utf8_encode_assembled(3) [of "tail_value c" "tail_value c2" "tail_value c3" "unat b - 240"]
        tail_value_bound [of c] tail_value_bound [of c2] tail_value_bound [of c3]
      by (intro exI [of _ "(((unat b - 240) * 64 + tail_value c) * 64 + tail_value c2) * 64 + tail_value c3"]
          exI [of _ r])
         (simp add: byte_word_unat byte_word_tail)
  qed
qed

lemma loop_decodes:
  "utf8_loop bs \<Longrightarrow> \<exists>cps. list_all scalar cps \<and> bs = concat (map utf8_encode cps)"
proof (induction "length bs" arbitrary: bs rule: less_induct)
  case less
  show ?case
  proof (cases bs)
    case Nil
    then show ?thesis by (intro exI [of _ "[]"]) simp
  next
    case (Cons b rest)
    then obtain cp r where cp: "scalar cp" "bs = utf8_encode cp @ r" "utf8_loop r"
      using loop_first less.prems by metis
    moreover have "length r < length bs" using cp(2) by (simp add: utf8_encode_def)
    ultimately obtain cps where "list_all scalar cps" "r = concat (map utf8_encode cps)"
      using less.hyps by blast
    with cp show ?thesis by (intro exI [of _ "cp # cps"]) simp
  qed
qed

section \<open>Properties\<close>

text \<open>
  C14: \<open>is_valid_utf8\<close> accepts a string exactly when its bytes are the UTF-8 encoding of a sequence
  of Unicode scalar values: overlong forms, surrogates, values above U+10FFFF, stray and missing
  continuation bytes are all refused, and everything else is accepted.
\<close>

theorem is_valid_utf8_iff:
  "is_valid_utf8 s \<longleftrightarrow>
     (\<exists>cps. list_all scalar cps \<and> bytes_of_string s = concat (map utf8_encode cps))"
proof
  assume "is_valid_utf8 s"
  then show "\<exists>cps. list_all scalar cps \<and> bytes_of_string s = concat (map utf8_encode cps)"
    unfolding is_valid_utf8_def by (rule loop_decodes)
next
  have "list_all scalar cps \<Longrightarrow> utf8_loop (concat (map utf8_encode cps))" for cps
    by (induction cps) (simp_all add: encode_accepted)
  moreover assume "\<exists>cps. list_all scalar cps \<and> bytes_of_string s = concat (map utf8_encode cps)"
  ultimately show "is_valid_utf8 s" unfolding is_valid_utf8_def by auto
qed

end
