(* ===== verification/Codec.thy ===== *)
theory Codec
  imports Frames Utf8
begin

text \<open>
  \<open>include/minitun/protocol/codec.hpp\<close> and \<open>src/protocol/codec.cpp\<close>: \<open>PayloadWriter\<close> and
  \<open>PayloadReader\<close>; \<open>is_valid_utf8\<close> of the same file is in \<open>Utf8\<close>.

  Operations take the object and return their result with the object after the call.  The locale
  \<open>field_codec\<close> is the contract between a field's writer and its reader that the message codecs of
  \<open>Messages\<close> use; it is interpreted for each pair of operations.
\<close>

section \<open>The payload writer\<close>

record PayloadWriter =
  w_max_payload_size :: nat
  w_bytes :: bytes
  w_failure :: "Error option"

definition new_writer :: "nat \<Rightarrow> PayloadWriter" where
  "new_writer max_payload_size =
     \<lparr>w_max_payload_size = min max_payload_size kMaxPayloadSize, w_bytes = [], w_failure = None\<rparr>"

definition writer_fail ::
  "ErrorCode \<Rightarrow> string \<Rightarrow> PayloadWriter \<Rightarrow> unit Result \<times> PayloadWriter" where
  "writer_fail c m w =
     (case w_failure w of
        Some e \<Rightarrow> (Inl e, w)
      | None \<Rightarrow> (Inl (Error c m), w\<lparr>w_failure := Some (Error c m)\<rparr>))"

definition writer_append :: "bytes \<Rightarrow> PayloadWriter \<Rightarrow> unit Result \<times> PayloadWriter" where
  "writer_append value w =
     (case w_failure w of
        Some e \<Rightarrow> (Inl e, w)
      | None \<Rightarrow>
          if w_max_payload_size w - min (length (w_bytes w)) (w_max_payload_size w) < length value
          then writer_fail EC_frame_too_large
                 ''remote message payload exceeds the configured size limit'' w
          else (Inr (), w\<lparr>w_bytes := w_bytes w @ value\<rparr>))"

definition writer_write_u8 :: "u8 \<Rightarrow> PayloadWriter \<Rightarrow> unit Result \<times> PayloadWriter" where
  "writer_write_u8 value w = writer_append [value] w"

definition writer_write_u16 :: "u16 \<Rightarrow> PayloadWriter \<Rightarrow> unit Result \<times> PayloadWriter" where
  "writer_write_u16 value w = writer_append (write_u16 value) w"

definition writer_write_u32 :: "u32 \<Rightarrow> PayloadWriter \<Rightarrow> unit Result \<times> PayloadWriter" where
  "writer_write_u32 value w = writer_append (write_u32 value) w"

definition writer_write_u64 :: "u64 \<Rightarrow> PayloadWriter \<Rightarrow> unit Result \<times> PayloadWriter" where
  "writer_write_u64 value w = writer_append (write_u64 value) w"

definition writer_write_bytes :: "bytes \<Rightarrow> PayloadWriter \<Rightarrow> unit Result \<times> PayloadWriter" where
  "writer_write_bytes value w =
     (if 65535 < length value
      then writer_fail EC_invalid_argument
             ''remote message byte field exceeds the protocol limit'' w
      else (case writer_write_u16 (word_of_nat (length value)) w of
              (Inl e, w') \<Rightarrow> (Inl e, w')
            | (Inr u, w') \<Rightarrow> writer_append value w'))"

definition writer_write_string :: "string \<Rightarrow> PayloadWriter \<Rightarrow> unit Result \<times> PayloadWriter" where
  "writer_write_string value w =
     (if \<not> is_valid_utf8 value \<or> char_of (0 :: nat) \<in> set value
      then writer_fail EC_invalid_argument
             ''remote message string field is not valid UTF-8 text'' w
      else writer_write_bytes (bytes_of_string value) w)"

definition writer_finish :: "PayloadWriter \<Rightarrow> bytes Result" where
  "writer_finish w = (case w_failure w of Some e \<Rightarrow> Inl e | None \<Rightarrow> Inr (w_bytes w))"

definition writer_size :: "PayloadWriter \<Rightarrow> nat" where
  "writer_size w = length (w_bytes w)"

section \<open>The payload reader\<close>

record PayloadReader =
  r_bytes :: bytes
  r_offset :: nat

definition truncated_payload_error :: Error where
  "truncated_payload_error =
     Error EC_protocol_error ''remote message payload ended before a field was complete''"

definition new_reader :: "bytes \<Rightarrow> PayloadReader" where
  "new_reader bs = \<lparr>r_bytes = bs, r_offset = 0\<rparr>"

definition remaining :: "PayloadReader \<Rightarrow> nat" where
  "remaining r = size_sub (length (r_bytes r)) (r_offset r)"

definition reader_read_u8 :: "PayloadReader \<Rightarrow> u8 Result \<times> PayloadReader" where
  "reader_read_u8 r =
     (if remaining r < 1 then (Inl truncated_payload_error, r)
      else (Inr (r_bytes r ! r_offset r), r\<lparr>r_offset := r_offset r + 1\<rparr>))"

definition reader_read_u16 :: "PayloadReader \<Rightarrow> u16 Result \<times> PayloadReader" where
  "reader_read_u16 r =
     (if remaining r < 2 then (Inl truncated_payload_error, r)
      else (Inr (read_u16 (drop (r_offset r) (r_bytes r))), r\<lparr>r_offset := r_offset r + 2\<rparr>))"

definition reader_read_u32 :: "PayloadReader \<Rightarrow> u32 Result \<times> PayloadReader" where
  "reader_read_u32 r =
     (if remaining r < 4 then (Inl truncated_payload_error, r)
      else (Inr (read_u32 (drop (r_offset r) (r_bytes r))), r\<lparr>r_offset := r_offset r + 4\<rparr>))"

definition reader_read_u64 :: "PayloadReader \<Rightarrow> u64 Result \<times> PayloadReader" where
  "reader_read_u64 r =
     (if remaining r < 8 then (Inl truncated_payload_error, r)
      else (Inr (read_u64 (drop (r_offset r) (r_bytes r))), r\<lparr>r_offset := r_offset r + 8\<rparr>))"

definition reader_read_bytes :: "nat \<Rightarrow> PayloadReader \<Rightarrow> bytes Result \<times> PayloadReader" where
  "reader_read_bytes max_length r =
     (if remaining r < 2 then (Inl truncated_payload_error, r)
      else (let len = unat (read_u16 (drop (r_offset r) (r_bytes r)))
            in if max_length < len
               then (failure EC_protocol_error
                       ''remote message byte field exceeds the permitted length'', r)
               else if remaining r - 2 < len then (Inl truncated_payload_error, r)
               else (Inr (take len (drop (r_offset r + 2) (r_bytes r))),
                     r\<lparr>r_offset := r_offset r + 2 + len\<rparr>)))"

definition reader_read_string :: "nat \<Rightarrow> PayloadReader \<Rightarrow> string Result \<times> PayloadReader" where
  "reader_read_string max_length r =
     (case reader_read_bytes max_length r of
        (Inl e, r') \<Rightarrow> (Inl e, r')
      | (Inr value, r') \<Rightarrow>
          (let text = string_of_bytes value
           in if \<not> is_valid_utf8 text \<or> char_of (0 :: nat) \<in> set text
              then (failure EC_protocol_error
                      ''remote message string field is not valid UTF-8 text'', r')
              else (Inr text, r')))"

definition require_end :: "PayloadReader \<Rightarrow> unit Result" where
  "require_end r =
     (if remaining r \<noteq> 0
      then failure EC_protocol_error ''remote message payload contains trailing bytes''
      else Inr ())"

section \<open>Where a writer and a reader stand\<close>

definition written :: "bytes \<Rightarrow> PayloadWriter" where
  "written bs = \<lparr>w_max_payload_size = kMaxPayloadSize, w_bytes = bs, w_failure = None\<rparr>"

definition reader_at :: "bytes \<Rightarrow> bytes \<Rightarrow> PayloadReader" where
  "reader_at before after = \<lparr>r_bytes = before @ after, r_offset = length before\<rparr>"

lemma new_writer_written: "new_writer kMaxPayloadSize = written []"
  by (simp add: new_writer_def written_def)

lemma new_reader_at: "new_reader bs = reader_at [] bs"
  by (simp add: new_reader_def reader_at_def)

lemma writer_finish_written [simp]: "writer_finish (written bs) = Inr bs"
  by (simp add: writer_finish_def written_def)

lemma remaining_at [simp]: "remaining (reader_at before after) = length after"
  by (simp add: remaining_def reader_at_def)

lemma require_end_at [simp]: "require_end (reader_at before after) = Inr () \<longleftrightarrow> after = []"
  by (simp add: require_end_def)

lemma reader_at_inject [simp]:
  "reader_at before after = reader_at before' after' \<longleftrightarrow> before = before' \<and> after = after'"
  by (auto simp: reader_at_def)

lemma writer_append_written:
  "writer_append value (written bs) = (Inr (), w) \<longleftrightarrow>
     length bs + length value \<le> kMaxPayloadSize \<and> w = written (bs @ value) \<or>
     value = [] \<and> w = written bs"
  by (auto simp: writer_append_def written_def writer_fail_def min_def)

section \<open>The contract of a field\<close>

locale field_codec =
  fixes wr :: "'a \<Rightarrow> PayloadWriter \<Rightarrow> unit Result \<times> PayloadWriter"
    and rd :: "PayloadReader \<Rightarrow> 'a Result \<times> PayloadReader"
    and enc :: "'a \<Rightarrow> bytes"
    and ok :: "'a \<Rightarrow> bool"
  assumes wr_written: "ok v \<Longrightarrow> length bs + length (enc v) \<le> kMaxPayloadSize \<Longrightarrow>
      wr v (written bs) = (Inr (), written (bs @ enc v))"
    and rd_at: "rd (reader_at before after) = (Inr v, r) \<longleftrightarrow>
      ok v \<and> (\<exists>rest. after = enc v @ rest \<and> r = reader_at (before @ enc v) rest)"
begin

lemma rd_enc: "ok v \<Longrightarrow> rd (reader_at before (enc v @ rest)) = (Inr v, reader_at (before @ enc v) rest)"
  by (simp add: rd_at)

text \<open>A read at the head of a larger decoder: what it needs, and what it does on an encoded value.\<close>

lemma run_at:
  "run_step rd k (reader_at before after) = Inr m \<longleftrightarrow>
     (\<exists>v rest. ok v \<and> after = enc v @ rest \<and> k v (reader_at (before @ enc v) rest) = Inr m)"
  by (auto simp: run_step_Inr_iff rd_at)

lemma run_enc:
  "ok v \<Longrightarrow> run_step rd k (reader_at before (enc v @ rest)) = k v (reader_at (before @ enc v) rest)"
  by (simp add: run_step_def rd_enc)

lemma run_enc_last:
  "ok v \<Longrightarrow> run_step rd k (reader_at before (enc v)) = k v (reader_at (before @ enc v) [])"
  using run_enc [of v k before "[]"] by simp

text \<open>Encodings are self-delimiting: no encoding is a proper prefix of another.\<close>

lemma enc_append_inject:
  assumes "ok v" "ok v'"
  shows "enc v @ x = enc v' @ y \<longleftrightarrow> v = v' \<and> x = y"
proof
  assume "enc v @ x = enc v' @ y"
  then have "rd (reader_at [] (enc v @ x)) = rd (reader_at [] (enc v' @ y))" by simp
  with assms show "v = v' \<and> x = y" by (simp add: rd_enc)
qed simp

lemma write_then_read:
  assumes "ok v" "length bs + length (enc v) \<le> kMaxPayloadSize"
  shows "\<exists>w. wr v (written bs) = (Inr (), w) \<and>
    rd (reader_at bs (drop (length bs) (w_bytes w))) = (Inr v, reader_at (w_bytes w) [])"
  using assms rd_enc [of v bs "[]"] by (simp add: wr_written) (simp add: written_def)

end

definition enc_u8 :: "u8 \<Rightarrow> bytes" where
  "enc_u8 v = [v]"

definition enc_bytes :: "bytes \<Rightarrow> bytes" where
  "enc_bytes b = write_u16 (word_of_nat (length b)) @ b"

definition enc_text :: "string \<Rightarrow> bytes" where
  "enc_text t = enc_bytes (bytes_of_string t)"

definition plain_text :: "string \<Rightarrow> bool" where
  "plain_text t \<longleftrightarrow> is_valid_utf8 t \<and> char_of (0 :: nat) \<notin> set t"

definition short_bytes :: "nat \<Rightarrow> bytes \<Rightarrow> bool" where
  "short_bytes n b \<longleftrightarrow> length b \<le> n \<and> length b \<le> 65535"

definition short_text :: "nat \<Rightarrow> string \<Rightarrow> bool" where
  "short_text n t \<longleftrightarrow> length t \<le> n \<and> length t \<le> 65535 \<and> plain_text t"

lemma length_enc [simp]:
  "length (enc_u8 v) = 1" "length (enc_bytes b) = 2 + length b" "length (enc_text t) = 2 + length t"
  by (simp_all add: enc_u8_def enc_bytes_def enc_text_def)

lemma length_ge_split: "n \<le> length xs \<longleftrightarrow> (\<exists>ys zs. xs = ys @ zs \<and> length ys = n)"
  by (metis append_take_drop_id length_append length_take min.absorb2 le_add1)

interpretation field_u8: field_codec writer_write_u8 reader_read_u8 enc_u8 "\<lambda>_. True"
proof
  fix bs v
  show "length bs + length (enc_u8 v) \<le> kMaxPayloadSize \<Longrightarrow>
      writer_write_u8 v (written bs) = (Inr (), written (bs @ enc_u8 v))"
    by (simp add: writer_write_u8_def writer_append_written enc_u8_def)
next
  fix before after v r
  show "reader_read_u8 (reader_at before after) = (Inr v, r) \<longleftrightarrow>
      True \<and> (\<exists>rest. after = enc_u8 v @ rest \<and> r = reader_at (before @ enc_u8 v) rest)"
    by (cases after) (auto simp: reader_read_u8_def enc_u8_def reader_at_def remaining_def)
qed

text \<open>The three wider integers read and write a block of fixed size.\<close>

lemma fixed_block_at:
  assumes inverse: "\<And>v rest. get (put v @ rest) = v" "\<And>bs. n \<le> length bs \<Longrightarrow> put (get bs) = take n bs"
    and size: "\<And>v. length (put v) = n"
    and rd: "\<And>r. rd r = (if remaining r < n then (Inl truncated_payload_error, r)
      else (Inr (get (drop (r_offset r) (r_bytes r))), r\<lparr>r_offset := r_offset r + n\<rparr>))"
  shows "rd (reader_at before after) = (Inr v, r) \<longleftrightarrow>
    (\<exists>rest. after = put v @ rest \<and> r = reader_at (before @ put v) rest)"
proof (cases "length after < n")
  case True
  then show ?thesis using size by (auto simp: rd)
next
  case False
  then have after: "after = put (get after) @ drop n after"
    by (simp add: inverse(2))
  have "rd (reader_at before after) = (Inr (get after), reader_at (before @ put (get after)) (drop n after))"
    using False after by (simp add: rd) (simp add: reader_at_def size)
  then show ?thesis
    using after inverse(1) by (metis Pair_inject append_eq_conv_conj size sum.inject(2))
qed

interpretation field_u16: field_codec writer_write_u16 reader_read_u16 write_u16 "\<lambda>_. True"
  using fixed_block_at [where rd = reader_read_u16 and put = write_u16 and get = read_u16 and n = 2]
  by unfold_locales
     (simp_all add: writer_write_u16_def writer_append_written reader_read_u16_def write_u16_read_u16)

interpretation field_u32: field_codec writer_write_u32 reader_read_u32 write_u32 "\<lambda>_. True"
  using fixed_block_at [where rd = reader_read_u32 and put = write_u32 and get = read_u32 and n = 4]
  by unfold_locales
     (simp_all add: writer_write_u32_def writer_append_written reader_read_u32_def write_u32_read_u32)

interpretation field_u64: field_codec writer_write_u64 reader_read_u64 write_u64 "\<lambda>_. True"
  using fixed_block_at [where rd = reader_read_u64 and put = write_u64 and get = read_u64 and n = 8]
  by unfold_locales
     (simp_all add: writer_write_u64_def writer_append_written reader_read_u64_def write_u64_read_u64)

lemma writer_write_bytes_written:
  assumes "length v \<le> 65535" "length bs + length (enc_bytes v) \<le> kMaxPayloadSize"
  shows "writer_write_bytes v (written bs) = (Inr (), written (bs @ enc_bytes v))"
proof -
  have "writer_write_u16 (word_of_nat (length v)) (written bs) =
      (Inr (), written (bs @ write_u16 (word_of_nat (length v))))"
    using assms by (simp add: field_u16.wr_written)
  moreover have "writer_append v (written (bs @ write_u16 (word_of_nat (length v)))) =
      (Inr (), written (bs @ enc_bytes v))"
    using assms by (simp add: writer_append_written enc_bytes_def)
  ultimately show ?thesis using assms(1) by (simp add: writer_write_bytes_def)
qed

lemma reader_read_bytes_enc:
  assumes "short_bytes n v"
  shows "reader_read_bytes n (reader_at before (enc_bytes v @ rest)) =
    (Inr v, reader_at (before @ enc_bytes v) rest)"
proof -
  have "length v < 65536" "length v \<le> n" using assms by (simp_all add: short_bytes_def)
  then show ?thesis
    by (simp add: reader_read_bytes_def Let_def) (simp add: reader_at_def enc_bytes_def)
qed

lemma reader_read_bytes_Inr:
  assumes "reader_read_bytes n (reader_at before after) = (Inr v, r)"
  shows "short_bytes n v \<and> (\<exists>rest. after = enc_bytes v @ rest)"
proof -
  define len where "len = unat (read_u16 after)"
  have "r_bytes (reader_at before after) = before @ after" "r_offset (reader_at before after) = length before"
    by (simp_all add: reader_at_def)
  with assms have bounds: "2 \<le> length after" "len \<le> n" "len \<le> length after - 2"
    and v: "v = take len (drop 2 after)"
    by (auto simp: reader_read_bytes_def Let_def len_def split: if_splits)
  have "write_u16 (word_of_nat len) = take 2 after"
    using bounds(1) by (simp add: len_def write_u16_read_u16)
  moreover have len: "length v = len" using bounds v by simp
  moreover have "after = take 2 after @ v @ drop (2 + len) after"
    unfolding v by (metis append_take_drop_id drop_drop add.commute)
  ultimately have "after = enc_bytes v @ drop (2 + len) after"
    by (simp add: enc_bytes_def)
  moreover have "len < 65536" by (simp add: len_def unat_u16_bound)
  ultimately show ?thesis
    using bounds len by (auto simp: short_bytes_def)
qed

lemma reader_read_bytes_at:
  "reader_read_bytes n (reader_at before after) = (Inr v, r) \<longleftrightarrow>
     short_bytes n v \<and> (\<exists>rest. after = enc_bytes v @ rest \<and> r = reader_at (before @ enc_bytes v) rest)"
  using reader_read_bytes_Inr [of n before after v r] reader_read_bytes_enc [of n v before]
  by auto

interpretation field_bytes: field_codec writer_write_bytes "reader_read_bytes n" enc_bytes "short_bytes n"
  for n :: nat
  by unfold_locales (simp_all add: reader_read_bytes_at writer_write_bytes_written short_bytes_def)

lemma reader_read_string_at:
  "reader_read_string n (reader_at before after) = (Inr v, r) \<longleftrightarrow>
     short_text n v \<and> (\<exists>rest. after = enc_text v @ rest \<and> r = reader_at (before @ enc_text v) rest)"
proof -
  have "reader_read_string n (reader_at before after) = (Inr v, r) \<longleftrightarrow>
      (\<exists>b. reader_read_bytes n (reader_at before after) = (Inr b, r) \<and> string_of_bytes b = v \<and> plain_text v)"
    by (auto simp: reader_read_string_def Let_def plain_text_def split: prod.splits sum.splits)
  also have "\<dots> \<longleftrightarrow> (\<exists>b. b = bytes_of_string v \<and> plain_text v \<and> short_bytes n b \<and>
      (\<exists>rest. after = enc_bytes b @ rest \<and> r = reader_at (before @ enc_bytes b) rest))"
    by (auto simp: reader_read_bytes_at string_of_bytes_eq_iff)
  finally show ?thesis by (auto simp: short_text_def short_bytes_def enc_text_def)
qed

interpretation field_text: field_codec writer_write_string "reader_read_string n" enc_text "short_text n"
  for n :: nat
  by unfold_locales
     (simp_all add: reader_read_string_at writer_write_string_def writer_write_bytes_written
        short_text_def plain_text_def enc_text_def)

section \<open>ASCII text\<close>

definition ascii :: "char \<Rightarrow> bool" where
  "ascii c \<longleftrightarrow> (0 :: nat) < of_char c \<and> (of_char c :: nat) < 128"

lemma byte_of_char_ascii: "ascii c \<Longrightarrow> unat (byte_of_char c) < 128"
  by (simp add: ascii_def byte_of_char_def unat_of_nat)

lemma ascii_plain_text: "list_all ascii t \<Longrightarrow> plain_text t"
proof -
  assume ascii: "list_all ascii t"
  then have "utf8_loop (bytes_of_string t)"
    by (induction t) (simp_all add: bytes_of_string_def byte_of_char_ascii loop_1)
  moreover have "char_of (0 :: nat) \<notin> set t"
    using ascii by (auto simp: list_all_iff ascii_def)
  ultimately show ?thesis by (simp add: plain_text_def is_valid_utf8_def)
qed

end
