(* ===== verification/Ids.thy ===== *)
theory Ids
  imports Error_Result Wire_Words
begin

text \<open>
  \<open>include/minitun/common/id.hpp\<close> and \<open>src/common/id.cpp\<close>: typed identifiers, a prefix that
  names the kind followed by 32 lowercase hexadecimal digits.  \<open>RAND_bytes\<close> of OpenSSL is the
  argument \<open>random\<close> of \<open>generate\<close>: the 16 bytes it stored, or \<open>None\<close> when it did not return 1.
\<close>

unbundle bit_operations_syntax

datatype IdKind = IK_server | IK_tunnel | IK_request | IK_client | IK_connection

definition kIdRandomBytes :: nat where
  "kIdRandomBytes = 16"

definition kIdHexCharacters :: nat where
  "kIdHexCharacters = kIdRandomBytes * 2"

record IdKindInfo =
  info_kind :: IdKind
  info_name :: string
  info_prefix :: string

definition kIdKinds :: "IdKindInfo list" where
  "kIdKinds =
     [\<lparr>info_kind = IK_server, info_name = ''server'', info_prefix = ''srv_''\<rparr>,
      \<lparr>info_kind = IK_tunnel, info_name = ''tunnel'', info_prefix = ''tun_''\<rparr>,
      \<lparr>info_kind = IK_request, info_name = ''request'', info_prefix = ''req_''\<rparr>,
      \<lparr>info_kind = IK_client, info_name = ''client'', info_prefix = ''client_''\<rparr>,
      \<lparr>info_kind = IK_connection, info_name = ''connection'', info_prefix = ''conn_''\<rparr>]"

definition kHexDigits :: string where
  "kHexDigits = ''0123456789abcdef''"

definition starts_with :: "string \<Rightarrow> string \<Rightarrow> bool" where
  "starts_with text p \<longleftrightarrow> take (length p) text = p"

definition find_kind :: "IdKind \<Rightarrow> IdKindInfo option" where
  "find_kind k = find (\<lambda>info. info_kind info = k) kIdKinds"

definition find_kind_of_text :: "string \<Rightarrow> IdKindInfo option" where
  "find_kind_of_text text = find (\<lambda>info. starts_with text (info_prefix info)) kIdKinds"

definition is_lowercase_hex :: "char \<Rightarrow> bool" where
  "is_lowercase_hex c \<longleftrightarrow>
     char_between (CHR ''0'') (CHR ''9'') c \<or> char_between (CHR ''a'') (CHR ''f'') c"

definition id_kind_to_string :: "IdKind \<Rightarrow> string" where
  "id_kind_to_string k =
     (case find_kind k of None \<Rightarrow> ''unknown'' | Some info \<Rightarrow> info_name info)"

definition id_prefix :: "IdKind \<Rightarrow> string" where
  "id_prefix k = (case find_kind k of None \<Rightarrow> [] | Some info \<Rightarrow> info_prefix info)"

record Id =
  id_kind :: IdKind
  id_text :: string

definition hex_of_byte :: "byte \<Rightarrow> string" where
  "hex_of_byte b = [kHexDigits ! unat (drop_bit 4 b), kHexDigits ! unat (b AND 0x0f)]"

definition id_generate :: "bytes option \<Rightarrow> IdKind \<Rightarrow> Id Result" where
  "id_generate random k =
     (let p = id_prefix k
      in if p = [] then failure EC_invalid_argument ''unknown ID kind''
         else (case random of
                 None \<Rightarrow> failure EC_internal_error ''cryptographically secure ID generation failed''
               | Some random_bytes \<Rightarrow>
                   Inr \<lparr>id_kind = k, id_text = p @ concat (map hex_of_byte random_bytes)\<rparr>))"

definition id_parse :: "string \<Rightarrow> Id Result" where
  "id_parse text =
     (if text = [] then failure EC_invalid_argument ''ID must not be empty''
      else (case find_kind_of_text text of
              None \<Rightarrow> failure EC_invalid_argument ''ID has an unknown prefix''
            | Some info \<Rightarrow>
                (let encoded_random = drop (length (info_prefix info)) text
                 in if length encoded_random \<noteq> kIdHexCharacters
                    then failure EC_invalid_argument
                      ''ID must have exactly 32 lowercase hexadecimal characters after its prefix''
                    else if \<not> list_all is_lowercase_hex encoded_random
                    then failure EC_invalid_argument
                      ''ID contains a non-lowercase-hexadecimal character''
                    else Inr \<lparr>id_kind = info_kind info, id_text = text\<rparr>)))"

definition id_parse_kind :: "string \<Rightarrow> IdKind \<Rightarrow> Id Result" where
  "id_parse_kind text expected_kind =
     (if id_prefix expected_kind = []
      then failure EC_invalid_argument ''unknown expected ID kind''
      else (case id_parse text of
              Inl e \<Rightarrow> Inl e
            | Inr parsed \<Rightarrow>
                if id_kind parsed \<noteq> expected_kind
                then failure EC_invalid_argument ''ID kind does not match the expected kind''
                else Inr parsed))"

definition id_suffix :: "Id \<Rightarrow> string" where
  "id_suffix i = drop (length (id_prefix (id_kind i))) (id_text i)"

section \<open>Prefixes\<close>

lemma id_prefix_simps [simp]:
  "id_prefix IK_server = ''srv_''" "id_prefix IK_tunnel = ''tun_''"
  "id_prefix IK_request = ''req_''" "id_prefix IK_client = ''client_''"
  "id_prefix IK_connection = ''conn_''"
  by (simp_all add: id_prefix_def find_kind_def kIdKinds_def)

lemma id_prefix_not_Nil [simp]: "id_prefix k \<noteq> []"
  by (cases k) simp_all

lemma id_prefix_length: "length (id_prefix k) \<le> 7"
  by (cases k) simp_all

lemma kIdHexCharacters_32 [simp]: "kIdHexCharacters = 32"
  by (simp add: kIdHexCharacters_def kIdRandomBytes_def)

text \<open>No prefix is a prefix of another, so the kind found is the only possible one.\<close>

lemma find_kind_of_text_prefix:
  "find_kind_of_text (id_prefix k @ h) = find_kind k"
  by (cases k) (simp_all add: find_kind_of_text_def find_kind_def kIdKinds_def starts_with_def)

lemma kIdKinds_member:
  "info \<in> set kIdKinds \<Longrightarrow> info_prefix info = id_prefix (info_kind info)"
  by (auto simp: kIdKinds_def)

lemma find_kind_of_text_Some:
  assumes "find_kind_of_text text = Some info"
  shows "\<exists>h. text = id_prefix (info_kind info) @ h"
proof -
  have "info \<in> set kIdKinds" and "starts_with text (info_prefix info)"
    using assms by (auto simp: find_kind_of_text_def find_Some_iff)
  then show ?thesis
    by (simp add: kIdKinds_member starts_with_def take_eq_prefix_ex)
qed

lemma find_kind_props [simp]:
  "\<exists>info. find_kind k = Some info \<and> info_kind info = k \<and> info_prefix info = id_prefix k"
  by (cases k) (simp_all add: find_kind_def kIdKinds_def)

section \<open>Parsing\<close>

definition valid_id_text :: "IdKind \<Rightarrow> string \<Rightarrow> bool" where
  "valid_id_text k text \<longleftrightarrow>
     take (length (id_prefix k)) text = id_prefix k \<and>
     length (drop (length (id_prefix k)) text) = 32 \<and>
     list_all is_lowercase_hex (drop (length (id_prefix k)) text)"

lemma valid_id_text_iff:
  "valid_id_text k text \<longleftrightarrow>
     (\<exists>h. text = id_prefix k @ h \<and> length h = 32 \<and> list_all is_lowercase_hex h)"
  unfolding valid_id_text_def
  by (metis append_eq_conv_conj append_take_drop_id)

lemma valid_id_text_replicate:
  "is_lowercase_hex c \<Longrightarrow> valid_id_text k (id_prefix k @ replicate 32 c)"
  by (auto simp: valid_id_text_iff list_all_iff)

text \<open>An identifier of each kind, for concrete instances.\<close>

definition sample_id :: "IdKind \<Rightarrow> string" where
  "sample_id k = id_prefix k @ replicate 32 CHR ''a''"

lemma valid_sample_id [simp]: "valid_id_text k (sample_id k)"
  by (simp add: sample_id_def valid_id_text_replicate is_lowercase_hex_def char_between_def)

lemma id_parse_prefix:
  "id_parse (id_prefix k @ h) =
     (if length h \<noteq> 32
      then failure EC_invalid_argument
        ''ID must have exactly 32 lowercase hexadecimal characters after its prefix''
      else if \<not> list_all is_lowercase_hex h
      then failure EC_invalid_argument ''ID contains a non-lowercase-hexadecimal character''
      else Inr \<lparr>id_kind = k, id_text = id_prefix k @ h\<rparr>)"
proof -
  obtain info where "find_kind k = Some info" "info_kind info = k" "info_prefix info = id_prefix k"
    using find_kind_props by blast
  then show ?thesis
    by (simp add: id_parse_def find_kind_of_text_prefix Let_def)
qed

lemma id_parse_Inr_iff:
  "id_parse text = Inr i \<longleftrightarrow> id_text i = text \<and> valid_id_text (id_kind i) text"
proof
  assume parsed: "id_parse text = Inr i"
  then obtain info where info: "find_kind_of_text text = Some info"
    by (auto simp: id_parse_def split: if_splits option.splits)
  then obtain h where "text = id_prefix (info_kind info) @ h"
    using find_kind_of_text_Some by metis
  with parsed show "id_text i = text \<and> valid_id_text (id_kind i) text"
    by (auto simp: id_parse_prefix valid_id_text_iff split: if_splits)
next
  assume "id_text i = text \<and> valid_id_text (id_kind i) text"
  then show "id_parse text = Inr i"
    by (auto simp: valid_id_text_iff id_parse_prefix)
qed

lemma id_parse_kind_Inr_iff:
  "id_parse_kind text k = Inr i \<longleftrightarrow>
     i = \<lparr>id_kind = k, id_text = text\<rparr> \<and> valid_id_text k text"
proof
  assume "id_parse_kind text k = Inr i"
  then show "i = \<lparr>id_kind = k, id_text = text\<rparr> \<and> valid_id_text k text"
    by (auto simp: id_parse_kind_def id_parse_Inr_iff split: sum.splits if_splits)
next
  assume i: "i = \<lparr>id_kind = k, id_text = text\<rparr> \<and> valid_id_text k text"
  then have "id_parse text = Inr i" by (simp add: id_parse_Inr_iff)
  with i show "id_parse_kind text k = Inr i" by (simp add: id_parse_kind_def)
qed

lemma has_value_id_parse_kind [simp]:
  "has_value (id_parse_kind text k) \<longleftrightarrow> valid_id_text k text"
  by (simp add: has_value_iff id_parse_kind_Inr_iff)

lemma valid_id_text_unique:
  assumes "valid_id_text k text" and "valid_id_text k' text"
  shows "k = k'"
proof -
  have "id_parse text = Inr \<lparr>id_kind = k, id_text = text\<rparr>"
    and "id_parse text = Inr \<lparr>id_kind = k', id_text = text\<rparr>"
    using assms by (simp_all add: id_parse_Inr_iff)
  then show ?thesis by simp
qed

lemma valid_id_text_length: "valid_id_text k text \<Longrightarrow> length text \<le> 39"
  using id_prefix_length [of k] by (auto simp: valid_id_text_iff)

section \<open>Generation\<close>

lemma nibble_digit: "n < 16 \<Longrightarrow> is_lowercase_hex (kHexDigits ! n)"
proof -
  have "list_all is_lowercase_hex kHexDigits"
    by (simp add: kHexDigits_def is_lowercase_hex_def char_between_def)
  moreover assume "n < 16"
  ultimately show ?thesis by (simp add: list_all_length kHexDigits_def)
qed

lemma nibble_bounds: "unat (drop_bit 4 (b :: byte)) < 16" "unat (b AND 0x0f) < 16"
proof -
  show "unat (drop_bit 4 b) < 16"
    using unat_u8_bound [of b] by (simp add: unat_drop_bit_eq drop_bit_nat_def)
  have "unat (b AND 0x0f) \<le> unat (0x0f :: byte)"
    by (rule word_and_le1 [THEN word_le_nat_alt [THEN iffD1]])
  then show "unat (b AND 0x0f) < 16" by simp
qed

lemma hex_of_byte_valid: "list_all is_lowercase_hex (hex_of_byte b)"
  by (simp add: hex_of_byte_def nibble_digit nibble_bounds)

lemma length_hex_of_byte: "length (hex_of_byte b) = 2"
  by (simp add: hex_of_byte_def)

lemma hex_of_byte_not_Nil: "hex_of_byte b \<noteq> []"
  by (simp add: hex_of_byte_def)

lemma length_hex_of_bytes: "length (concat (map hex_of_byte bs)) = 2 * length bs"
  by (induction bs) (simp_all add: hex_of_byte_def)

lemma hex_of_bytes_valid: "list_all is_lowercase_hex (concat (map hex_of_byte bs))"
  by (induction bs) (simp_all add: hex_of_byte_valid)

lemma kHexDigits_inject: "m < 16 \<Longrightarrow> n < 16 \<Longrightarrow> kHexDigits ! m = kHexDigits ! n \<longleftrightarrow> m = n"
  by (rule nth_eq_iff_index_eq) (simp_all add: kHexDigits_def)

lemma hex_of_byte_inject: "hex_of_byte a = hex_of_byte b \<longleftrightarrow> a = b"
proof
  assume "hex_of_byte a = hex_of_byte b"
  then have "drop_bit 4 a = drop_bit 4 b" and low: "a AND 0x0f = b AND 0x0f"
    by (simp_all add: hex_of_byte_def kHexDigits_inject nibble_bounds word_unat_eq_iff)
  moreover have "x = push_bit 4 (drop_bit 4 x) OR (x AND 0x0f)" for x :: byte
  proof -
    have "(0x0f :: byte) = mask 4" by (simp add: mask_eq_exp_minus_1)
    then have "x AND 0x0f = take_bit 4 x" by (simp only: take_bit_eq_mask)
    then show ?thesis
      by (simp only:) (rule bit_word_eqI, auto simp: bit_simps)
  qed
  ultimately show "a = b" by metis
qed simp

lemma hex_of_bytes_inject:
  "concat (map hex_of_byte as) = concat (map hex_of_byte bs) \<longleftrightarrow> as = bs"
proof (induction as arbitrary: bs)
  case Nil
  then show ?case by (cases bs) (simp_all add: hex_of_byte_def)
next
  case (Cons a as)
  then show ?case
    by (cases bs) (simp_all add: append_eq_append_conv length_hex_of_byte hex_of_byte_inject
        hex_of_byte_not_Nil)
qed

lemma id_generate_Some:
  "id_generate (Some bs) k =
     Inr \<lparr>id_kind = k, id_text = id_prefix k @ concat (map hex_of_byte bs)\<rparr>"
  by (simp add: id_generate_def Let_def)

lemma id_generate_valid:
  "length bs = kIdRandomBytes \<Longrightarrow>
   id_generate (Some bs) k = Inr i \<Longrightarrow> id_kind i = k \<and> valid_id_text k (id_text i)"
  by (auto simp: id_generate_Some valid_id_text_iff length_hex_of_bytes hex_of_bytes_valid
      kIdRandomBytes_def)

section \<open>Properties\<close>

text \<open>
  \<open>Id::parse\<close> with an expected kind accepts exactly the prefix of that kind followed by 32
  lowercase hexadecimal digits, and returns the kind and the unchanged text.
\<close>

theorem id_parse_kind_accepts:
  "id_parse_kind text k = Inr i \<longleftrightarrow>
     i = \<lparr>id_kind = k, id_text = text\<rparr> \<and>
     (\<exists>h. text = id_prefix k @ h \<and> length h = kIdHexCharacters \<and> list_all is_lowercase_hex h)"
  by (simp add: id_parse_kind_Inr_iff valid_id_text_iff)

text \<open>
  C15: whenever the random source delivers its 16 bytes, \<open>Id::generate\<close> succeeds, the text it
  made parses back to the same identifier, and no other random bytes give that identifier.
\<close>

theorem id_generate_parse:
  assumes "length bs = kIdRandomBytes"
  shows "\<exists>i. id_generate (Some bs) k = Inr i \<and> id_parse (id_text i) = Inr i \<and>
             id_parse_kind (id_text i) k = Inr i \<and> id_suffix i = concat (map hex_of_byte bs) \<and>
             (\<forall>bs'. id_generate (Some bs') k = Inr i \<longrightarrow> bs' = bs)"
proof -
  obtain i where gen: "id_generate (Some bs) k = Inr i"
    and i: "i = \<lparr>id_kind = k, id_text = id_prefix k @ concat (map hex_of_byte bs)\<rparr>"
    by (simp add: id_generate_Some)
  have "valid_id_text k (id_text i)" and "id_kind i = k"
    using id_generate_valid [OF assms gen] by auto
  with gen i show ?thesis
    by (auto simp: id_parse_Inr_iff id_parse_kind_Inr_iff id_generate_Some hex_of_bytes_inject
        id_suffix_def)
qed

theorem id_generate_parse_witness:
  "\<exists>i. id_generate (Some (replicate 16 0xa5)) IK_tunnel = Inr i \<and> id_parse (id_text i) = Inr i"
proof -
  have "length (replicate 16 (0xa5 :: byte)) = kIdRandomBytes"
    by (simp add: kIdRandomBytes_def)
  from id_generate_parse [OF this, of IK_tunnel] show ?thesis by blast
qed

end
