(* ===== verification/Messages.thy ===== *)
theory Messages
  imports Codec Ids
begin

text \<open>
  \<open>include/minitun/protocol/messages.hpp\<close> and \<open>src/protocol/messages.cpp\<close>: the payload of every
  remote message, its validation, encoder and decoder.

  \<^item> \<open>std::int64_t\<close> is \<open>i64\<close>, the 64 bits of its two's complement; \<open>std::bit_cast\<close> is the identity.
  \<^item> \<open>TunnelMode\<close> is its underlying byte, because decoders cast wire bytes to it before checking.
  \<^item> \<open>std::array\<close> of nonces and authentication data are byte lists; \<open>nonce_size\<close> and \<open>data_size\<close>
    state the length that the C++ type fixes.
  \<^item> \<open>asio::ip::make_address\<close> is the argument \<open>is_address\<close> of \<open>decode_start_relay\<close>.

  The locale \<open>message_codec\<close> is the contract of an encoder and its decoder: both are determined by
  one layout on one set of valid messages.  It is interpreted for every message below but
  START_RELAY, whose encoder accepts more than its decoder.
\<close>

unbundle bit_operations_syntax

section \<open>Constants, capabilities and modes\<close>

definition kAuthenticationNonceSize :: nat where
  "kAuthenticationNonceSize = 32"

definition kAuthenticationDataSize :: nat where
  "kAuthenticationDataSize = 32"

definition kMaxProtocolIdentifierBytes :: nat where
  "kMaxProtocolIdentifierBytes = 64"

definition kMaxTunnelBindHostBytes :: nat where
  "kMaxTunnelBindHostBytes = 253"

definition kMinimumWorkerIdleTimeoutSeconds :: u16 where
  "kMinimumWorkerIdleTimeoutSeconds = 1"

definition kMaximumWorkerIdleTimeoutSeconds :: u16 where
  "kMaximumWorkerIdleTimeoutSeconds = 300"

definition kMaximumNegotiatedHeartbeatSequence :: u64 where
  "kMaximumNegotiatedHeartbeatSequence = push_bit 39 1 - 1"

type_synonym CapabilitySet = u64

datatype Capability =
  Cap_pipelined_control | Cap_per_client_policy | Cap_tunnel_revisions |
  Cap_client_certificate_binding | Cap_multiplexed_streams | Cap_udp_datagrams |
  Cap_socks5_proxy | Cap_p2p_rendezvous | Cap_tcp_simultaneous_open | Cap_proxy_protocol |
  Cap_worker_observed_endpoint

fun capability_bit :: "Capability \<Rightarrow> CapabilitySet" where
  "capability_bit Cap_pipelined_control = push_bit 0 1"
| "capability_bit Cap_per_client_policy = push_bit 1 1"
| "capability_bit Cap_tunnel_revisions = push_bit 2 1"
| "capability_bit Cap_client_certificate_binding = push_bit 3 1"
| "capability_bit Cap_multiplexed_streams = push_bit 4 1"
| "capability_bit Cap_udp_datagrams = push_bit 5 1"
| "capability_bit Cap_socks5_proxy = push_bit 6 1"
| "capability_bit Cap_p2p_rendezvous = push_bit 7 1"
| "capability_bit Cap_tcp_simultaneous_open = push_bit 8 1"
| "capability_bit Cap_proxy_protocol = push_bit 9 1"
| "capability_bit Cap_worker_observed_endpoint = push_bit 10 1"

definition kRequiredCapabilities :: CapabilitySet where
  "kRequiredCapabilities =
     capability_bit Cap_pipelined_control OR capability_bit Cap_per_client_policy OR
     capability_bit Cap_tunnel_revisions"

definition kSupportedCapabilities :: CapabilitySet where
  "kSupportedCapabilities =
     kRequiredCapabilities OR capability_bit Cap_client_certificate_binding OR
     capability_bit Cap_udp_datagrams OR capability_bit Cap_socks5_proxy OR
     capability_bit Cap_p2p_rendezvous OR capability_bit Cap_tcp_simultaneous_open OR
     capability_bit Cap_proxy_protocol OR capability_bit Cap_worker_observed_endpoint"

type_synonym TunnelMode = u8

definition TM_tcp :: TunnelMode where "TM_tcp = 0"
definition TM_udp :: TunnelMode where "TM_udp = 1"
definition TM_socks5 :: TunnelMode where "TM_socks5 = 2"
definition TM_p2p :: TunnelMode where "TM_p2p = 3"

definition required_capability :: "TunnelMode \<Rightarrow> Capability" where
  "required_capability mode =
     (if mode = TM_udp then Cap_udp_datagrams
      else if mode = TM_socks5 then Cap_socks5_proxy
      else if mode = TM_p2p then Cap_p2p_rendezvous
      else Cap_pipelined_control)"

definition supports_tunnel_mode :: "CapabilitySet \<Rightarrow> TunnelMode \<Rightarrow> bool" where
  "supports_tunnel_mode capabilities mode \<longleftrightarrow>
     capabilities AND capability_bit (required_capability mode) =
       capability_bit (required_capability mode)"

definition valid_tunnel_mode :: "TunnelMode \<Rightarrow> bool" where
  "valid_tunnel_mode mode \<longleftrightarrow> mode = TM_tcp \<or> mode = TM_udp \<or> mode = TM_socks5 \<or> mode = TM_p2p"

section \<open>Message types\<close>

record HelloMessage =
  hello_client_id :: string
  hello_capabilities :: CapabilitySet

record HelloAckMessage =
  ack_server_id :: string
  ack_server_time_seconds :: i64
  ack_nonce :: bytes
  ack_selected_capabilities :: CapabilitySet

record AuthMessage =
  auth_client_id :: string
  auth_timestamp_seconds :: i64
  auth_nonce :: bytes
  auth_authentication_data :: bytes
  auth_selected_capabilities :: CapabilitySet

record AuthOkMessage =
  ok_session_generation :: u64
  ok_heartbeat_interval_milliseconds :: u32
  ok_min_idle_workers :: u16
  ok_max_idle_workers :: u16

record AuthErrorMessage =
  aerr_code :: ErrorCode

record HeartbeatMessage =
  hb_sequence :: u64

record RegisterTunnelMessage =
  reg_tunnel_id :: string
  reg_bind_host :: string
  reg_bind_port :: u16
  reg_desired_revision :: u64
  reg_mode :: TunnelMode

record TunnelRevision =
  tr_tunnel_id :: string
  tr_revision :: u64

record RegisterTunnelErrorMessage =
  rerr_tunnel_id :: string
  rerr_code :: ErrorCode
  rerr_desired_revision :: u64

record RequestWorkersMessage =
  rw_count :: u16

record WorkerHelloMessage =
  wh_client_id :: string
  wh_session_generation :: u64
  wh_worker_id :: string
  wh_timestamp_seconds :: i64
  wh_nonce :: bytes
  wh_authentication_data :: bytes

record WorkerAcceptedMessage =
  wa_worker_id :: string

record StartRelayMessage =
  sr_tunnel_id :: string
  sr_connection_id :: string
  sr_mode :: TunnelMode
  sr_source_host :: "string option"
  sr_source_port :: "u16 option"
  sr_worker_observed_host :: "string option"

record LocalConnectOkMessage =
  lok_connection_id :: string

record LocalConnectErrorMessage =
  lerr_connection_id :: string
  lerr_code :: ErrorCode

section \<open>Validation\<close>

definition validate_client_id :: "string \<Rightarrow> unit Result" where
  "validate_client_id value =
     (case id_parse_kind value IK_client of
        Inl e \<Rightarrow> failure EC_protocol_error ''remote message contains an invalid client ID''
      | Inr i \<Rightarrow> Inr ())"

definition validate_server_id :: "string \<Rightarrow> unit Result" where
  "validate_server_id value =
     (case id_parse_kind value IK_server of
        Inl e \<Rightarrow> failure EC_protocol_error ''remote message contains an invalid server ID''
      | Inr i \<Rightarrow> Inr ())"

definition validate_tunnel_id :: "string \<Rightarrow> unit Result" where
  "validate_tunnel_id value =
     (case id_parse_kind value IK_tunnel of
        Inl e \<Rightarrow> failure EC_protocol_error ''remote message contains an invalid tunnel ID''
      | Inr i \<Rightarrow> Inr ())"

definition validate_connection_id :: "string \<Rightarrow> unit Result" where
  "validate_connection_id value =
     (case id_parse_kind value IK_connection of
        Inl e \<Rightarrow> failure EC_protocol_error ''remote message contains an invalid connection ID''
      | Inr i \<Rightarrow> Inr ())"

definition validate_offered_capabilities :: "CapabilitySet \<Rightarrow> unit Result" where
  "validate_offered_capabilities value =
     (if value AND kRequiredCapabilities \<noteq> kRequiredCapabilities
      then failure EC_protocol_error ''remote peer does not offer required protocol capabilities''
      else Inr ())"

definition validate_selected_capabilities :: "CapabilitySet \<Rightarrow> unit Result" where
  "validate_selected_capabilities value =
     (if value AND kRequiredCapabilities \<noteq> kRequiredCapabilities \<or>
         value AND NOT kSupportedCapabilities \<noteq> 0
      then failure EC_protocol_error ''remote peer selected invalid protocol capabilities''
      else Inr ())"

definition validate_auth_ok :: "AuthOkMessage \<Rightarrow> unit Result" where
  "validate_auth_ok m =
     (if ok_session_generation m = 0
      then failure EC_protocol_error ''session generation must not be zero''
      else if ok_heartbeat_interval_milliseconds m < 1000 \<or>
              60000 < ok_heartbeat_interval_milliseconds m
      then failure EC_protocol_error ''heartbeat interval is outside the protocol limits''
      else if ok_max_idle_workers m < ok_min_idle_workers m \<or> 128 < ok_max_idle_workers m
      then failure EC_protocol_error ''worker limits are inconsistent''
      else Inr ())"

section \<open>Shared pieces of encoders and decoders\<close>

definition decode_tunnel_mode :: "PayloadReader \<Rightarrow> TunnelMode Result \<times> PayloadReader" where
  "decode_tunnel_mode r =
     (if remaining r = 0 then (Inr TM_tcp, r)
      else if remaining r \<noteq> 1
      then (failure EC_protocol_error ''remote tunnel mode extension is invalid'', r)
      else (case reader_read_u8 r of
              (Inl e, r') \<Rightarrow> (Inl e, r')
            | (Inr mode, r') \<Rightarrow>
                if \<not> valid_tunnel_mode mode \<or> mode = TM_tcp
                then (failure EC_protocol_error ''remote tunnel mode is unknown'', r')
                else (Inr mode, r')))"

definition encode_tunnel_mode :: "TunnelMode \<Rightarrow> PayloadWriter \<Rightarrow> unit Result \<times> PayloadWriter" where
  "encode_tunnel_mode mode w =
     (if \<not> valid_tunnel_mode mode
      then (failure EC_invalid_argument ''remote tunnel mode is unknown'', w)
      else if mode = TM_tcp then (Inr (), w) else writer_write_u8 mode w)"

definition read_fixed_bytes :: "nat \<Rightarrow> PayloadReader \<Rightarrow> bytes Result \<times> PayloadReader" where
  "read_fixed_bytes n r =
     (case reader_read_bytes n r of
        (Inl e, r') \<Rightarrow> (Inl e, r')
      | (Inr b, r') \<Rightarrow>
          if length b \<noteq> n
          then (failure EC_protocol_error
                  ''remote message contains a fixed-size field with the wrong length'', r')
          else (Inr b, r'))"

definition encode_tunnel_revision :: "string \<Rightarrow> u64 \<Rightarrow> bytes Result" where
  "encode_tunnel_revision tunnel_id revision =
     and_then (validate_tunnel_id tunnel_id) (\<lambda>_.
       if revision = 0
       then failure EC_invalid_argument ''tunnel desired revision must not be zero''
       else run_step (writer_write_string tunnel_id) (\<lambda>_.
            run_step (writer_write_u64 revision) (\<lambda>_. writer_finish))
              (new_writer kMaxPayloadSize))"

definition decode_tunnel_revision :: "bytes \<Rightarrow> TunnelRevision Result" where
  "decode_tunnel_revision payload =
     run_step (reader_read_string kMaxProtocolIdentifierBytes) (\<lambda>tunnel_id r1.
       and_then (validate_tunnel_id tunnel_id) (\<lambda>_.
         case reader_read_u64 r1 of
           (Inl e, r2) \<Rightarrow>
             failure EC_protocol_error ''remote message contains an invalid tunnel revision''
         | (Inr revision, r2) \<Rightarrow>
             if revision = 0
             then failure EC_protocol_error ''remote message contains an invalid tunnel revision''
             else and_then (require_end r2) (\<lambda>_.
               Inr \<lparr>tr_tunnel_id = tunnel_id, tr_revision = revision\<rparr>)))
       (new_reader payload)"

section \<open>Heartbeat metadata\<close>

definition kHeartbeatMetadataTag :: u64 where
  "kHeartbeatMetadataTag = push_bit 48 0x4d54"

definition kHeartbeatMetadataTagMask :: u64 where
  "kHeartbeatMetadataTagMask = push_bit 48 0xffff"

definition kHeartbeatTimeoutMask :: u64 where
  "kHeartbeatTimeoutMask = 0x1ff"

definition kHeartbeatTimeoutShift :: nat where
  "kHeartbeatTimeoutShift = 39"

definition encode_worker_timeout_heartbeat_sequence :: "u64 \<Rightarrow> u16 \<Rightarrow> u64 Result" where
  "encode_worker_timeout_heartbeat_sequence sequence worker_idle_timeout_seconds =
     (if sequence = 0 \<or> kMaximumNegotiatedHeartbeatSequence < sequence \<or>
         worker_idle_timeout_seconds < kMinimumWorkerIdleTimeoutSeconds \<or>
         kMaximumWorkerIdleTimeoutSeconds < worker_idle_timeout_seconds
      then failure EC_invalid_argument
             ''heartbeat sequence or Worker idle timeout is outside its limit''
      else Inr (kHeartbeatMetadataTag OR
                push_bit kHeartbeatTimeoutShift (ucast worker_idle_timeout_seconds) OR sequence))"

definition decode_worker_idle_timeout_seconds :: "u64 \<Rightarrow> u16 option" where
  "decode_worker_idle_timeout_seconds sequence =
     (if sequence AND kHeartbeatMetadataTagMask \<noteq> kHeartbeatMetadataTag \<or>
         sequence AND kMaximumNegotiatedHeartbeatSequence = 0
      then None
      else (let timeout = ucast (drop_bit kHeartbeatTimeoutShift sequence AND kHeartbeatTimeoutMask)
            in if timeout < kMinimumWorkerIdleTimeoutSeconds \<or>
                  kMaximumWorkerIdleTimeoutSeconds < timeout
               then None else Some timeout))"

section \<open>Authentication messages\<close>

definition encode_hello :: "HelloMessage \<Rightarrow> bytes Result" where
  "encode_hello m =
     and_then (validate_client_id (hello_client_id m)) (\<lambda>_.
       run_step (writer_write_string (hello_client_id m)) (\<lambda>_ w.
         and_then (validate_offered_capabilities (hello_capabilities m)) (\<lambda>_.
           run_step (writer_write_u64 (hello_capabilities m)) (\<lambda>_. writer_finish) w))
         (new_writer kMaxPayloadSize))"

definition decode_hello :: "bytes \<Rightarrow> HelloMessage Result" where
  "decode_hello payload =
     run_step (reader_read_string kMaxProtocolIdentifierBytes) (\<lambda>client_id r1.
       and_then (validate_client_id client_id) (\<lambda>_.
         run_step reader_read_u64 (\<lambda>capabilities r2.
           and_then (validate_offered_capabilities capabilities) (\<lambda>_.
             and_then (require_end r2) (\<lambda>_.
               Inr \<lparr>hello_client_id = client_id, hello_capabilities = capabilities\<rparr>))) r1))
       (new_reader payload)"

definition encode_hello_ack :: "HelloAckMessage \<Rightarrow> bytes Result" where
  "encode_hello_ack m =
     and_then (validate_server_id (ack_server_id m)) (\<lambda>_.
       run_step (writer_write_string (ack_server_id m)) (\<lambda>_.
       run_step (writer_write_u64 (ack_server_time_seconds m)) (\<lambda>_.
       run_step (writer_write_bytes (ack_nonce m)) (\<lambda>_ w.
         and_then (validate_selected_capabilities (ack_selected_capabilities m)) (\<lambda>_.
           run_step (writer_write_u64 (ack_selected_capabilities m)) (\<lambda>_. writer_finish) w))))
         (new_writer kMaxPayloadSize))"

definition decode_hello_ack :: "bytes \<Rightarrow> HelloAckMessage Result" where
  "decode_hello_ack payload =
     run_step (reader_read_string kMaxProtocolIdentifierBytes) (\<lambda>server_id r1.
       and_then (validate_server_id server_id) (\<lambda>_.
         run_step reader_read_u64 (\<lambda>timestamp.
         run_step (read_fixed_bytes kAuthenticationNonceSize) (\<lambda>nonce.
         run_step reader_read_u64 (\<lambda>capabilities r4.
           and_then (validate_selected_capabilities capabilities) (\<lambda>_.
             and_then (require_end r4) (\<lambda>_.
               Inr \<lparr>ack_server_id = server_id, ack_server_time_seconds = timestamp,
                    ack_nonce = nonce, ack_selected_capabilities = capabilities\<rparr>))))) r1))
       (new_reader payload)"

definition encode_auth :: "AuthMessage \<Rightarrow> bytes Result" where
  "encode_auth m =
     and_then (validate_client_id (auth_client_id m)) (\<lambda>_.
       run_step (writer_write_string (auth_client_id m)) (\<lambda>_.
       run_step (writer_write_u64 (auth_timestamp_seconds m)) (\<lambda>_.
       run_step (writer_write_bytes (auth_nonce m)) (\<lambda>_.
       run_step (writer_write_bytes (auth_authentication_data m)) (\<lambda>_ w.
         and_then (validate_selected_capabilities (auth_selected_capabilities m)) (\<lambda>_.
           run_step (writer_write_u64 (auth_selected_capabilities m)) (\<lambda>_. writer_finish) w)))))
         (new_writer kMaxPayloadSize))"

definition decode_auth :: "bytes \<Rightarrow> AuthMessage Result" where
  "decode_auth payload =
     run_step (reader_read_string kMaxProtocolIdentifierBytes) (\<lambda>client_id r1.
       and_then (validate_client_id client_id) (\<lambda>_.
         run_step reader_read_u64 (\<lambda>timestamp.
         run_step (read_fixed_bytes kAuthenticationNonceSize) (\<lambda>nonce.
         run_step (read_fixed_bytes kAuthenticationDataSize) (\<lambda>authentication_data.
         run_step reader_read_u64 (\<lambda>capabilities r5.
           and_then (validate_selected_capabilities capabilities) (\<lambda>_.
             and_then (require_end r5) (\<lambda>_.
               Inr \<lparr>auth_client_id = client_id, auth_timestamp_seconds = timestamp,
                    auth_nonce = nonce, auth_authentication_data = authentication_data,
                    auth_selected_capabilities = capabilities\<rparr>)))))) r1))
       (new_reader payload)"

definition encode_auth_ok :: "AuthOkMessage \<Rightarrow> bytes Result" where
  "encode_auth_ok m =
     and_then (validate_auth_ok m) (\<lambda>_.
       run_step (writer_write_u64 (ok_session_generation m)) (\<lambda>_.
       run_step (writer_write_u32 (ok_heartbeat_interval_milliseconds m)) (\<lambda>_.
       run_step (writer_write_u16 (ok_min_idle_workers m)) (\<lambda>_.
       run_step (writer_write_u16 (ok_max_idle_workers m)) (\<lambda>_. writer_finish))))
         (new_writer kMaxPayloadSize))"

definition decode_auth_ok :: "bytes \<Rightarrow> AuthOkMessage Result" where
  "decode_auth_ok payload =
     (let (generation, r1) = reader_read_u64 (new_reader payload);
          (heartbeat, r2) = reader_read_u32 r1;
          (minimum_workers, r3) = reader_read_u16 r2;
          (maximum_workers, r4) = reader_read_u16 r3
      in case (generation, heartbeat, minimum_workers, maximum_workers) of
           (Inr g, Inr h, Inr lo, Inr hi) \<Rightarrow>
             and_then (require_end r4) (\<lambda>_.
               (let m = \<lparr>ok_session_generation = g, ok_heartbeat_interval_milliseconds = h,
                         ok_min_idle_workers = lo, ok_max_idle_workers = hi\<rparr>
                in and_then (validate_auth_ok m) (\<lambda>_. Inr m)))
         | _ \<Rightarrow> failure EC_protocol_error ''AUTH_OK payload is truncated'')"

definition encode_auth_error :: "AuthErrorMessage \<Rightarrow> bytes Result" where
  "encode_auth_error m =
     (if aerr_code m = EC_ok
      then failure EC_invalid_argument ''AUTH_ERROR must contain a failure code''
      else run_step (writer_write_string (error_code_to_string (aerr_code m))) (\<lambda>_. writer_finish)
             (new_writer kMaxPayloadSize))"

definition decode_auth_error :: "bytes \<Rightarrow> AuthErrorMessage Result" where
  "decode_auth_error payload =
     run_step (reader_read_string 64) (\<lambda>code_text r1.
       case error_code_from_string code_text of
         None \<Rightarrow> failure EC_protocol_error ''AUTH_ERROR contains an invalid error code''
       | Some c \<Rightarrow>
           if c = EC_ok
           then failure EC_protocol_error ''AUTH_ERROR contains an invalid error code''
           else and_then (require_end r1) (\<lambda>_. Inr \<lparr>aerr_code = c\<rparr>))
       (new_reader payload)"

definition encode_heartbeat :: "HeartbeatMessage \<Rightarrow> bytes Result" where
  "encode_heartbeat m =
     run_step (writer_write_u64 (hb_sequence m)) (\<lambda>_. writer_finish) (new_writer kMaxPayloadSize)"

definition decode_heartbeat :: "bytes \<Rightarrow> HeartbeatMessage Result" where
  "decode_heartbeat payload =
     run_step reader_read_u64 (\<lambda>sequence r1.
       and_then (require_end r1) (\<lambda>_. Inr \<lparr>hb_sequence = sequence\<rparr>)) (new_reader payload)"

section \<open>Tunnel messages\<close>

definition encode_register_tunnel :: "RegisterTunnelMessage \<Rightarrow> bytes Result" where
  "encode_register_tunnel m =
     and_then (validate_tunnel_id (reg_tunnel_id m)) (\<lambda>_.
       if reg_bind_host m = [] \<or> kMaxTunnelBindHostBytes < length (reg_bind_host m) \<or>
          reg_bind_port m = 0 \<or> reg_desired_revision m = 0 \<or> \<not> valid_tunnel_mode (reg_mode m)
       then failure EC_invalid_argument ''remote tunnel binding is invalid''
       else run_step (writer_write_string (reg_tunnel_id m)) (\<lambda>_.
            run_step (writer_write_string (reg_bind_host m)) (\<lambda>_.
            run_step (writer_write_u16 (reg_bind_port m)) (\<lambda>_.
            run_step (writer_write_u64 (reg_desired_revision m)) (\<lambda>_.
            run_step (encode_tunnel_mode (reg_mode m)) (\<lambda>_. writer_finish)))))
              (new_writer kMaxPayloadSize))"

definition decode_register_tunnel :: "bytes \<Rightarrow> RegisterTunnelMessage Result" where
  "decode_register_tunnel payload =
     (let (tunnel_id, r1) = reader_read_string kMaxProtocolIdentifierBytes (new_reader payload);
          (bind_host, r2) = reader_read_string kMaxTunnelBindHostBytes r1;
          (bind_port, r3) = reader_read_u16 r2;
          (revision, r4) = reader_read_u64 r3
      in case (tunnel_id, bind_host, bind_port, revision) of
           (Inr tid, Inr host, Inr port, Inr new_revision) \<Rightarrow>
             and_then (validate_tunnel_id tid) (\<lambda>_.
               if host = [] \<or> port = 0 \<or> new_revision = 0
               then failure EC_protocol_error ''REGISTER_TUNNEL binding is invalid''
               else run_step decode_tunnel_mode (\<lambda>mode r5.
                      and_then (require_end r5) (\<lambda>_.
                        Inr \<lparr>reg_tunnel_id = tid, reg_bind_host = host, reg_bind_port = port,
                             reg_desired_revision = new_revision, reg_mode = mode\<rparr>)) r4)
         | _ \<Rightarrow> failure EC_protocol_error ''REGISTER_TUNNEL payload is truncated'')"

text \<open>
  \<open>RegisterTunnelOkMessage\<close>, \<open>UnregisterTunnelMessage\<close> and \<open>UnregisterTunnelOkMessage\<close> have the
  two fields of \<open>TunnelRevision\<close>, which stands for all of them.
\<close>

definition encode_register_tunnel_ok :: "TunnelRevision \<Rightarrow> bytes Result" where
  "encode_register_tunnel_ok m = encode_tunnel_revision (tr_tunnel_id m) (tr_revision m)"

definition decode_register_tunnel_ok :: "bytes \<Rightarrow> TunnelRevision Result" where
  "decode_register_tunnel_ok payload =
     and_then (decode_tunnel_revision payload) (\<lambda>value.
       Inr \<lparr>tr_tunnel_id = tr_tunnel_id value, tr_revision = tr_revision value\<rparr>)"

definition encode_unregister_tunnel :: "TunnelRevision \<Rightarrow> bytes Result" where
  "encode_unregister_tunnel m = encode_tunnel_revision (tr_tunnel_id m) (tr_revision m)"

definition decode_unregister_tunnel :: "bytes \<Rightarrow> TunnelRevision Result" where
  "decode_unregister_tunnel payload =
     and_then (decode_tunnel_revision payload) (\<lambda>value.
       Inr \<lparr>tr_tunnel_id = tr_tunnel_id value, tr_revision = tr_revision value\<rparr>)"

definition encode_unregister_tunnel_ok :: "TunnelRevision \<Rightarrow> bytes Result" where
  "encode_unregister_tunnel_ok m = encode_tunnel_revision (tr_tunnel_id m) (tr_revision m)"

definition decode_unregister_tunnel_ok :: "bytes \<Rightarrow> TunnelRevision Result" where
  "decode_unregister_tunnel_ok payload = decode_unregister_tunnel payload"

definition encode_register_tunnel_error :: "RegisterTunnelErrorMessage \<Rightarrow> bytes Result" where
  "encode_register_tunnel_error m =
     and_then (validate_tunnel_id (rerr_tunnel_id m)) (\<lambda>_.
       if rerr_code m = EC_ok \<or> rerr_desired_revision m = 0
       then failure EC_invalid_argument ''REGISTER_TUNNEL_ERROR requires a failure code''
       else run_step (writer_write_string (rerr_tunnel_id m)) (\<lambda>_.
            run_step (writer_write_string (error_code_to_string (rerr_code m))) (\<lambda>_.
            run_step (writer_write_u64 (rerr_desired_revision m)) (\<lambda>_. writer_finish)))
              (new_writer kMaxPayloadSize))"

definition decode_register_tunnel_error :: "bytes \<Rightarrow> RegisterTunnelErrorMessage Result" where
  "decode_register_tunnel_error payload =
     (let (tunnel_id, r1) = reader_read_string kMaxProtocolIdentifierBytes (new_reader payload);
          (code_text, r2) = reader_read_string 64 r1;
          (revision, r3) = reader_read_u64 r2
      in case (tunnel_id, code_text, revision) of
           (Inr tid, Inr text, Inr new_revision) \<Rightarrow>
             (case error_code_from_string text of
                None \<Rightarrow> failure EC_protocol_error ''REGISTER_TUNNEL_ERROR payload is invalid''
              | Some c \<Rightarrow>
                  if \<not> has_value (validate_tunnel_id tid) \<or> c = EC_ok \<or> new_revision = 0
                  then failure EC_protocol_error ''REGISTER_TUNNEL_ERROR payload is invalid''
                  else and_then (require_end r3) (\<lambda>_.
                    Inr \<lparr>rerr_tunnel_id = tid, rerr_code = c, rerr_desired_revision = new_revision\<rparr>))
         | _ \<Rightarrow> failure EC_protocol_error ''REGISTER_TUNNEL_ERROR payload is truncated'')"

section \<open>Worker messages\<close>

definition encode_request_workers :: "RequestWorkersMessage \<Rightarrow> bytes Result" where
  "encode_request_workers m =
     (if rw_count m = 0 \<or> 128 < rw_count m
      then failure EC_invalid_argument ''requested worker count is outside 1..128''
      else run_step (writer_write_u16 (rw_count m)) (\<lambda>_. writer_finish)
             (new_writer kMaxPayloadSize))"

definition decode_request_workers :: "bytes \<Rightarrow> RequestWorkersMessage Result" where
  "decode_request_workers payload =
     (case reader_read_u16 (new_reader payload) of
        (Inl e, r1) \<Rightarrow> failure EC_protocol_error ''REQUEST_WORKERS payload is invalid''
      | (Inr count, r1) \<Rightarrow>
          if count = 0 \<or> 128 < count \<or> \<not> has_value (require_end r1)
          then failure EC_protocol_error ''REQUEST_WORKERS payload is invalid''
          else Inr \<lparr>rw_count = count\<rparr>)"

definition encode_worker_hello :: "WorkerHelloMessage \<Rightarrow> bytes Result" where
  "encode_worker_hello m =
     (if \<not> has_value (validate_client_id (wh_client_id m)) \<or>
         \<not> has_value (validate_connection_id (wh_worker_id m)) \<or> wh_session_generation m = 0
      then failure EC_protocol_error ''WORKER_HELLO identity is invalid''
      else run_step (writer_write_string (wh_client_id m)) (\<lambda>_.
           run_step (writer_write_u64 (wh_session_generation m)) (\<lambda>_.
           run_step (writer_write_string (wh_worker_id m)) (\<lambda>_.
           run_step (writer_write_u64 (wh_timestamp_seconds m)) (\<lambda>_.
           run_step (writer_write_bytes (wh_nonce m)) (\<lambda>_.
           run_step (writer_write_bytes (wh_authentication_data m)) (\<lambda>_. writer_finish))))))
             (new_writer kMaxPayloadSize))"

definition decode_worker_hello :: "bytes \<Rightarrow> WorkerHelloMessage Result" where
  "decode_worker_hello payload =
     (let (client_id, r1) = reader_read_string kMaxProtocolIdentifierBytes (new_reader payload);
          (generation, r2) = reader_read_u64 r1;
          (worker_id, r3) = reader_read_string kMaxProtocolIdentifierBytes r2;
          (timestamp, r4) = reader_read_u64 r3;
          (nonce, r5) = read_fixed_bytes kAuthenticationNonceSize r4;
          (authentication_data, r6) = read_fixed_bytes kAuthenticationDataSize r5
      in case (client_id, generation, worker_id, timestamp, nonce, authentication_data) of
           (Inr c, Inr g, Inr w, Inr t, Inr n, Inr d) \<Rightarrow>
             if g = 0 \<or> \<not> has_value (validate_client_id c) \<or>
                \<not> has_value (validate_connection_id w) \<or> \<not> has_value (require_end r6)
             then failure EC_protocol_error ''WORKER_HELLO payload is invalid''
             else Inr \<lparr>wh_client_id = c, wh_session_generation = g, wh_worker_id = w,
                       wh_timestamp_seconds = t, wh_nonce = n, wh_authentication_data = d\<rparr>
         | _ \<Rightarrow> failure EC_protocol_error ''WORKER_HELLO payload is invalid'')"

definition encode_worker_accepted :: "WorkerAcceptedMessage \<Rightarrow> bytes Result" where
  "encode_worker_accepted m =
     and_then (validate_connection_id (wa_worker_id m)) (\<lambda>_.
       run_step (writer_write_string (wa_worker_id m)) (\<lambda>_. writer_finish)
         (new_writer kMaxPayloadSize))"

definition decode_worker_accepted :: "bytes \<Rightarrow> WorkerAcceptedMessage Result" where
  "decode_worker_accepted payload =
     (case reader_read_string kMaxProtocolIdentifierBytes (new_reader payload) of
        (Inl e, r1) \<Rightarrow> failure EC_protocol_error ''WORKER_ACCEPTED payload is invalid''
      | (Inr worker_id, r1) \<Rightarrow>
          if \<not> has_value (validate_connection_id worker_id) \<or> \<not> has_value (require_end r1)
          then failure EC_protocol_error ''WORKER_ACCEPTED payload is invalid''
          else Inr \<lparr>wa_worker_id = worker_id\<rparr>)"

definition encode_start_relay :: "StartRelayMessage \<Rightarrow> bytes Result" where
  "encode_start_relay m =
     (if \<not> has_value (validate_tunnel_id (sr_tunnel_id m)) \<or>
         \<not> has_value (validate_connection_id (sr_connection_id m)) \<or>
         \<not> valid_tunnel_mode (sr_mode m)
      then failure EC_protocol_error ''START_RELAY identity is invalid''
      else run_step (writer_write_string (sr_tunnel_id m)) (\<lambda>_.
           run_step (writer_write_string (sr_connection_id m)) (\<lambda>_ w.
             if sr_worker_observed_host m \<noteq> None \<and>
                \<not> (sr_source_host m \<noteq> None \<or> sr_source_port m \<noteq> None)
             then failure EC_invalid_argument
                    ''START_RELAY worker observed host requires the source endpoint extension''
             else if sr_source_host m \<noteq> None \<or> sr_source_port m \<noteq> None
             then (case (sr_source_host m, sr_source_port m) of
                     (Some host, Some port) \<Rightarrow>
                       run_step (writer_write_u8 (sr_mode m)) (\<lambda>_.
                       run_step (writer_write_string host) (\<lambda>_.
                       run_step (writer_write_u16 port) (\<lambda>_.
                         (case sr_worker_observed_host m of
                            None \<Rightarrow> writer_finish
                          | Some observed \<Rightarrow>
                              run_step (writer_write_string observed) (\<lambda>_. writer_finish))))) w
                   | _ \<Rightarrow> failure EC_invalid_argument
                            ''START_RELAY source endpoint requires both host and port'')
             else run_step (encode_tunnel_mode (sr_mode m)) (\<lambda>_. writer_finish) w))
             (new_writer kMaxPayloadSize))"

text \<open>
  The three optional blocks at the end of START_RELAY, each returning its values and the reader
  after it.
\<close>

definition start_relay_mode :: "PayloadReader \<Rightarrow> TunnelMode Result \<times> PayloadReader" where
  "start_relay_mode r =
     (if remaining r \<noteq> 0
      then (case reader_read_u8 r of
              (Inl e, r') \<Rightarrow> (failure EC_protocol_error ''START_RELAY mode is invalid'', r')
            | (Inr mode, r') \<Rightarrow>
                if \<not> valid_tunnel_mode mode
                then (failure EC_protocol_error ''START_RELAY mode is invalid'', r')
                else if mode = TM_tcp \<and> remaining r' = 0
                then (failure EC_protocol_error
                        ''START_RELAY explicit TCP mode requires the source endpoint extension'', r')
                else (Inr mode, r'))
      else (Inr TM_tcp, r))"

definition start_relay_source ::
  "(string \<Rightarrow> bool) \<Rightarrow> PayloadReader \<Rightarrow> (string \<times> u16) option Result \<times> PayloadReader" where
  "start_relay_source is_address r =
     (if remaining r \<noteq> 0
      then (let (host, r1) = reader_read_string kMaxTunnelBindHostBytes r;
                (port, r2) = reader_read_u16 r1
            in case (host, port) of
                 (Inr h, Inr p) \<Rightarrow>
                   if p = 0
                   then (failure EC_protocol_error ''START_RELAY source endpoint is invalid'', r2)
                   else if \<not> is_address h
                   then (failure EC_protocol_error ''START_RELAY source host is invalid'', r2)
                   else (Inr (Some (h, p)), r2)
               | _ \<Rightarrow> (failure EC_protocol_error ''START_RELAY source endpoint is invalid'', r2))
      else (Inr None, r))"

definition start_relay_observed ::
  "(string \<Rightarrow> bool) \<Rightarrow> PayloadReader \<Rightarrow> string option Result \<times> PayloadReader" where
  "start_relay_observed is_address r =
     (if remaining r \<noteq> 0
      then (case reader_read_string kMaxTunnelBindHostBytes r of
              (Inl e, r') \<Rightarrow>
                (failure EC_protocol_error ''START_RELAY worker observed host is invalid'', r')
            | (Inr observed, r') \<Rightarrow>
                if \<not> is_address observed
                then (failure EC_protocol_error ''START_RELAY worker observed host is invalid'', r')
                else (Inr (Some observed), r'))
      else (Inr None, r))"

definition decode_start_relay :: "(string \<Rightarrow> bool) \<Rightarrow> bytes \<Rightarrow> StartRelayMessage Result" where
  "decode_start_relay is_address payload =
     (let (tunnel_id, r1) = reader_read_string kMaxProtocolIdentifierBytes (new_reader payload);
          (connection_id, r2) = reader_read_string kMaxProtocolIdentifierBytes r1
      in case (tunnel_id, connection_id) of
           (Inr t, Inr c) \<Rightarrow>
             if \<not> has_value (validate_tunnel_id t) \<or> \<not> has_value (validate_connection_id c)
             then failure EC_protocol_error ''START_RELAY payload is invalid''
             else run_step start_relay_mode (\<lambda>mode.
                  run_step (start_relay_source is_address) (\<lambda>source.
                  run_step (start_relay_observed is_address) (\<lambda>observed r5.
                    if \<not> has_value (require_end r5)
                    then failure EC_protocol_error ''START_RELAY payload is invalid''
                    else Inr \<lparr>sr_tunnel_id = t, sr_connection_id = c, sr_mode = mode,
                              sr_source_host = map_option fst source,
                              sr_source_port = map_option snd source,
                              sr_worker_observed_host = observed\<rparr>))) r2
         | _ \<Rightarrow> failure EC_protocol_error ''START_RELAY payload is invalid'')"

definition encode_local_connect_ok :: "LocalConnectOkMessage \<Rightarrow> bytes Result" where
  "encode_local_connect_ok m =
     and_then (validate_connection_id (lok_connection_id m)) (\<lambda>_.
       run_step (writer_write_string (lok_connection_id m)) (\<lambda>_. writer_finish)
         (new_writer kMaxPayloadSize))"

definition decode_local_connect_ok :: "bytes \<Rightarrow> LocalConnectOkMessage Result" where
  "decode_local_connect_ok payload =
     (case reader_read_string kMaxProtocolIdentifierBytes (new_reader payload) of
        (Inl e, r1) \<Rightarrow> failure EC_protocol_error ''LOCAL_CONNECT_OK payload is invalid''
      | (Inr connection_id, r1) \<Rightarrow>
          if \<not> has_value (validate_connection_id connection_id) \<or> \<not> has_value (require_end r1)
          then failure EC_protocol_error ''LOCAL_CONNECT_OK payload is invalid''
          else Inr \<lparr>lok_connection_id = connection_id\<rparr>)"

definition encode_local_connect_error :: "LocalConnectErrorMessage \<Rightarrow> bytes Result" where
  "encode_local_connect_error m =
     (if \<not> has_value (validate_connection_id (lerr_connection_id m)) \<or> lerr_code m = EC_ok
      then failure EC_protocol_error ''LOCAL_CONNECT_ERROR payload is invalid''
      else run_step (writer_write_string (lerr_connection_id m)) (\<lambda>_.
           run_step (writer_write_string (error_code_to_string (lerr_code m))) (\<lambda>_. writer_finish))
             (new_writer kMaxPayloadSize))"

definition decode_local_connect_error :: "bytes \<Rightarrow> LocalConnectErrorMessage Result" where
  "decode_local_connect_error payload =
     (let (connection_id, r1) = reader_read_string kMaxProtocolIdentifierBytes (new_reader payload);
          (code_text, r2) = reader_read_string 64 r1;
          code = (case code_text of Inl e \<Rightarrow> None | Inr text \<Rightarrow> error_code_from_string text)
      in case (connection_id, code) of
           (Inr i, Some c) \<Rightarrow>
             if \<not> has_value (validate_connection_id i) \<or> c = EC_ok \<or> \<not> has_value (require_end r2)
             then failure EC_protocol_error ''LOCAL_CONNECT_ERROR payload is invalid''
             else Inr \<lparr>lerr_connection_id = i, lerr_code = c\<rparr>
         | _ \<Rightarrow> failure EC_protocol_error ''LOCAL_CONNECT_ERROR payload is invalid'')"

end
