(* ===== verification/Message_Codecs.thy ===== *)
theory Message_Codecs
  imports Messages
begin

text \<open>
  Correctness of the message codecs of \<open>Messages\<close>.  For every message type \<open>valid_\<close> says which
  messages the encoder accepts and \<open>layout_\<close> lists the fields on the wire; the locale
  \<open>message_codec\<close> says that encoder and decoder are both determined by these two, and derives that
  they are inverse, that the wire image is unique and that equal images are equal messages.
\<close>

unbundle bit_operations_syntax

section \<open>The contract of a message codec\<close>

text \<open>
  On messages of the shape \<open>shaped\<close> (the fixed-size arrays have their size) the encoder accepts the
  \<open>valid\<close> ones and writes their \<open>layout\<close>; the decoder accepts exactly these images.
\<close>

definition exact_codec ::
  "('m \<Rightarrow> bytes Result) \<Rightarrow> (bytes \<Rightarrow> 'm Result) \<Rightarrow> ('m \<Rightarrow> bool) \<Rightarrow> ('m \<Rightarrow> bool) \<Rightarrow> ('m \<Rightarrow> bytes) \<Rightarrow> bool"
where
  "exact_codec encode decode shaped valid layout \<longleftrightarrow>
     (\<forall>m bs. (shaped m \<longrightarrow> (encode m = Inr bs \<longleftrightarrow> valid m \<and> bs = layout m)) \<and>
             (decode bs = Inr m \<longleftrightarrow> shaped m \<and> valid m \<and> bs = layout m))"

locale message_codec =
  fixes encode :: "'m \<Rightarrow> bytes Result"
    and decode :: "bytes \<Rightarrow> 'm Result"
    and wf :: "'m \<Rightarrow> bool"
    and valid :: "'m \<Rightarrow> bool"
    and layout :: "'m \<Rightarrow> bytes"
  assumes encode_iff: "wf m \<Longrightarrow> encode m = Inr bs \<longleftrightarrow> valid m \<and> bs = layout m"
    and decode_iff: "decode bs = Inr m \<longleftrightarrow> wf m \<and> valid m \<and> bs = layout m"
begin

lemma decode_encode: "decode bs = Inr m \<longleftrightarrow> wf m \<and> encode m = Inr bs"
  by (auto simp: encode_iff decode_iff)

lemma is_exact: "exact_codec encode decode wf valid layout"
  by (simp add: exact_codec_def encode_iff decode_iff)

lemma layout_inject: "wf m \<Longrightarrow> valid m \<Longrightarrow> wf m' \<Longrightarrow> valid m' \<Longrightarrow> layout m = layout m' \<Longrightarrow> m = m'"
  by (metis decode_iff sum.inject(2))

lemma encode_inject: "wf m \<Longrightarrow> wf m' \<Longrightarrow> encode m = Inr bs \<Longrightarrow> encode m' = Inr bs \<Longrightarrow> m = m'"
  using layout_inject by (simp add: encode_iff)

end

section \<open>Fields of a message\<close>

lemma kMaxPayloadSize_value: "kMaxPayloadSize = 65512"
  by (simp add: kMaxPayloadSize_def kMaxFrameSize_def kFrameHeaderSize_def)

lemma read_fixed_bytes_at:
  "n \<le> 65535 \<Longrightarrow> read_fixed_bytes n (reader_at before after) = (Inr v, r) \<longleftrightarrow>
     length v = n \<and> (\<exists>rest. after = enc_bytes v @ rest \<and> r = reader_at (before @ enc_bytes v) rest)"
proof -
  have "read_fixed_bytes n (reader_at before after) = (Inr v, r) \<longleftrightarrow>
      reader_read_bytes n (reader_at before after) = (Inr v, r) \<and> length v = n"
    unfolding read_fixed_bytes_def by (auto split: prod.splits sum.splits)
  then show "n \<le> 65535 \<Longrightarrow> ?thesis" by (auto simp: field_bytes.rd_at short_bytes_def)
qed

interpretation field_nonce: field_codec writer_write_bytes "read_fixed_bytes kAuthenticationNonceSize"
  enc_bytes "\<lambda>b. length b = kAuthenticationNonceSize"
  by unfold_locales
     (simp_all add: read_fixed_bytes_at writer_write_bytes_written kAuthenticationNonceSize_def)

interpretation field_data: field_codec writer_write_bytes "read_fixed_bytes kAuthenticationDataSize"
  enc_bytes "\<lambda>b. length b = kAuthenticationDataSize"
  by unfold_locales
     (simp_all add: read_fixed_bytes_at writer_write_bytes_written kAuthenticationDataSize_def)

lemma short_text_mono: "short_text n t \<Longrightarrow> n \<le> n' \<Longrightarrow> short_text n' t"
  by (simp add: short_text_def)

lemma is_lowercase_hex_ascii: "is_lowercase_hex c \<Longrightarrow> ascii c"
  by (auto simp: is_lowercase_hex_def char_between_def ascii_def)

lemma id_prefix_ascii: "list_all ascii (id_prefix k)"
  by (cases k) (simp_all add: ascii_def)

lemma valid_id_text_short:
  assumes "valid_id_text k t"
  shows "short_text 39 t" "short_text kMaxProtocolIdentifierBytes t" "length t \<le> 39"
proof -
  obtain h where t: "t = id_prefix k @ h" "list_all is_lowercase_hex h"
    using assms by (auto simp: valid_id_text_iff)
  then have "list_all ascii t"
    using id_prefix_ascii [of k] by (auto simp: list_all_iff is_lowercase_hex_ascii)
  then show short: "short_text 39 t"
    using valid_id_text_length [OF assms] by (simp add: short_text_def ascii_plain_text)
  show "short_text kMaxProtocolIdentifierBytes t"
    by (rule short_text_mono [OF short]) (simp add: kMaxProtocolIdentifierBytes_def)
  show "length t \<le> 39" using assms by (rule valid_id_text_length)
qed

lemma error_code_text_short: "short_text 64 (error_code_to_string c)" "length (error_code_to_string c) \<le> 64"
proof -
  have "list_all ascii (error_code_to_string c)"
    by (cases c) (simp_all add: ascii_def)
  then show "short_text 64 (error_code_to_string c)"
    using error_code_text_length [of c] by (simp add: short_text_def ascii_plain_text)
  then show "length (error_code_to_string c) \<le> 64" by (simp add: short_text_def)
qed

lemma validate_client_id_iff:
  "validate_client_id t = Inr u \<longleftrightarrow> valid_id_text IK_client t"
  "has_value (validate_client_id t) \<longleftrightarrow> valid_id_text IK_client t"
  by (cases "id_parse_kind t IK_client";
      use has_value_id_parse_kind [of t IK_client] in \<open>simp add: validate_client_id_def\<close>)+

lemma validate_server_id_iff:
  "validate_server_id t = Inr u \<longleftrightarrow> valid_id_text IK_server t"
  "has_value (validate_server_id t) \<longleftrightarrow> valid_id_text IK_server t"
  by (cases "id_parse_kind t IK_server";
      use has_value_id_parse_kind [of t IK_server] in \<open>simp add: validate_server_id_def\<close>)+

lemma validate_tunnel_id_iff:
  "validate_tunnel_id t = Inr u \<longleftrightarrow> valid_id_text IK_tunnel t"
  "has_value (validate_tunnel_id t) \<longleftrightarrow> valid_id_text IK_tunnel t"
  by (cases "id_parse_kind t IK_tunnel";
      use has_value_id_parse_kind [of t IK_tunnel] in \<open>simp add: validate_tunnel_id_def\<close>)+

lemma validate_connection_id_iff:
  "validate_connection_id t = Inr u \<longleftrightarrow> valid_id_text IK_connection t"
  "has_value (validate_connection_id t) \<longleftrightarrow> valid_id_text IK_connection t"
  by (cases "id_parse_kind t IK_connection";
      use has_value_id_parse_kind [of t IK_connection] in \<open>simp add: validate_connection_id_def\<close>)+

definition offered_ok :: "CapabilitySet \<Rightarrow> bool" where
  "offered_ok c \<longleftrightarrow> c AND kRequiredCapabilities = kRequiredCapabilities"

definition selected_ok :: "CapabilitySet \<Rightarrow> bool" where
  "selected_ok c \<longleftrightarrow>
     c AND kRequiredCapabilities = kRequiredCapabilities \<and> c AND NOT kSupportedCapabilities = 0"

lemma validate_capabilities_iff:
  "validate_offered_capabilities c = Inr u \<longleftrightarrow> offered_ok c"
  "validate_selected_capabilities c = Inr u \<longleftrightarrow> selected_ok c"
  by (simp_all add: validate_offered_capabilities_def validate_selected_capabilities_def
      offered_ok_def selected_ok_def)

lemma has_value_require_end [simp]: "has_value (require_end (reader_at before after)) \<longleftrightarrow> after = []"
  by (simp add: has_value_iff)

text \<open>Reading: every successful read strips one field off the payload.\<close>

lemmas check_rules = and_then_Inr_iff require_end_at
  validate_client_id_iff validate_server_id_iff validate_tunnel_id_iff validate_connection_id_iff
  validate_capabilities_iff

lemmas read_rules = new_reader_at check_rules
  field_u8.run_at field_u16.run_at field_u32.run_at field_u64.run_at field_text.run_at
  field_nonce.run_at field_data.run_at

lemmas reread_rules = new_reader_at check_rules
  field_u8.run_enc field_u16.run_enc field_u32.run_enc field_u64.run_enc field_text.run_enc
  field_nonce.run_enc field_data.run_enc
  field_u8.run_enc_last field_u16.run_enc_last field_u32.run_enc_last field_u64.run_enc_last
  field_text.run_enc_last field_nonce.run_enc_last field_data.run_enc_last

text \<open>Writing: every field that fits is appended.\<close>

lemma write_step:
  "length bs + 1 \<le> 65512 \<Longrightarrow>
     run_step (writer_write_u8 v8) k (written bs) = k () (written (bs @ enc_u8 v8))"
  "length bs + 2 \<le> 65512 \<Longrightarrow>
     run_step (writer_write_u16 v16) k (written bs) = k () (written (bs @ write_u16 v16))"
  "length bs + 4 \<le> 65512 \<Longrightarrow>
     run_step (writer_write_u32 v32) k (written bs) = k () (written (bs @ write_u32 v32))"
  "length bs + 8 \<le> 65512 \<Longrightarrow>
     run_step (writer_write_u64 v64) k (written bs) = k () (written (bs @ write_u64 v64))"
  "length b \<le> 65535 \<Longrightarrow> length bs + (2 + length b) \<le> 65512 \<Longrightarrow>
     run_step (writer_write_bytes b) k (written bs) = k () (written (bs @ enc_bytes b))"
  "short_text 65535 t \<Longrightarrow> length bs + (2 + length t) \<le> 65512 \<Longrightarrow>
     run_step (writer_write_string t) k (written bs) = k () (written (bs @ enc_text t))"
  by (simp_all add: run_step_def field_u8.wr_written field_u16.wr_written field_u32.wr_written
      field_u64.wr_written writer_write_bytes_written field_text.wr_written [of 65535]
      kMaxPayloadSize_value)

lemma id_fits:
  assumes "valid_id_text k t"
  shows "short_text 65535 t" "short_text kMaxProtocolIdentifierBytes t" "length t \<le> 39"
  using valid_id_text_short [OF assms] by (auto elim: short_text_mono)

lemma code_fits: "short_text 65535 (error_code_to_string c)" "length (error_code_to_string c) \<le> 64"
  using error_code_text_short [of c] by (auto elim: short_text_mono)

lemmas validate_ok =
  validate_client_id_iff(1) [THEN iffD2, of _ "()"] validate_server_id_iff(1) [THEN iffD2, of _ "()"]
  validate_tunnel_id_iff(1) [THEN iffD2, of _ "()"]
  validate_connection_id_iff(1) [THEN iffD2, of _ "()"]
  validate_capabilities_iff [THEN iffD2, of _ "()"]

lemmas write_rules = new_writer_written write_step writer_finish_written validate_ok
  validate_client_id_iff(2) validate_tunnel_id_iff(2) validate_connection_id_iff(2)

section \<open>HELLO, HELLO_ACK and AUTH\<close>

definition nonce_size :: "bytes \<Rightarrow> bool" where
  "nonce_size b \<longleftrightarrow> length b = kAuthenticationNonceSize"

definition data_size :: "bytes \<Rightarrow> bool" where
  "data_size b \<longleftrightarrow> length b = kAuthenticationDataSize"

definition valid_hello :: "HelloMessage \<Rightarrow> bool" where
  "valid_hello m \<longleftrightarrow> valid_id_text IK_client (hello_client_id m) \<and> offered_ok (hello_capabilities m)"

definition layout_hello :: "HelloMessage \<Rightarrow> bytes" where
  "layout_hello m = enc_text (hello_client_id m) @ write_u64 (hello_capabilities m)"

lemma encode_hello_iff: "encode_hello m = Inr bs \<longleftrightarrow> valid_hello m \<and> bs = layout_hello m"
proof (cases "valid_hello m")
  case True
  then show ?thesis
    using id_fits [of IK_client "hello_client_id m"]
    by (auto simp: encode_hello_def valid_hello_def layout_hello_def write_rules)
next
  case False
  then show ?thesis by (auto simp: encode_hello_def valid_hello_def check_rules run_step_Inr_iff)
qed

interpretation hello: message_codec encode_hello decode_hello "\<lambda>_. True" valid_hello layout_hello
proof
  fix bs m
  show "decode_hello bs = Inr m \<longleftrightarrow> True \<and> valid_hello m \<and> bs = layout_hello m"
  proof
    assume "decode_hello bs = Inr m"
    then show "True \<and> valid_hello m \<and> bs = layout_hello m"
      by (auto simp: decode_hello_def read_rules valid_hello_def layout_hello_def)
  next
    assume "True \<and> valid_hello m \<and> bs = layout_hello m"
    with id_fits [of IK_client "hello_client_id m"] show "decode_hello bs = Inr m"
      by (simp add: decode_hello_def reread_rules valid_hello_def layout_hello_def)
  qed
qed (simp add: encode_hello_iff)

definition valid_hello_ack :: "HelloAckMessage \<Rightarrow> bool" where
  "valid_hello_ack m \<longleftrightarrow>
     valid_id_text IK_server (ack_server_id m) \<and> selected_ok (ack_selected_capabilities m)"

definition layout_hello_ack :: "HelloAckMessage \<Rightarrow> bytes" where
  "layout_hello_ack m =
     enc_text (ack_server_id m) @ write_u64 (ack_server_time_seconds m) @ enc_bytes (ack_nonce m) @
     write_u64 (ack_selected_capabilities m)"

lemma encode_hello_ack_iff:
  assumes "nonce_size (ack_nonce m)"
  shows "encode_hello_ack m = Inr bs \<longleftrightarrow> valid_hello_ack m \<and> bs = layout_hello_ack m"
proof (cases "valid_hello_ack m")
  case True
  then show ?thesis
    using assms id_fits [of IK_server "ack_server_id m"]
    by (auto simp: encode_hello_ack_def valid_hello_ack_def layout_hello_ack_def write_rules
        nonce_size_def kAuthenticationNonceSize_def)
next
  case False
  then show ?thesis by (auto simp: encode_hello_ack_def valid_hello_ack_def check_rules run_step_Inr_iff)
qed

interpretation hello_ack: message_codec encode_hello_ack decode_hello_ack
  "\<lambda>m. nonce_size (ack_nonce m)" valid_hello_ack layout_hello_ack
proof
  fix bs m
  show "decode_hello_ack bs = Inr m \<longleftrightarrow> nonce_size (ack_nonce m) \<and> valid_hello_ack m \<and> bs = layout_hello_ack m"
  proof
    assume "decode_hello_ack bs = Inr m"
    then show "nonce_size (ack_nonce m) \<and> valid_hello_ack m \<and> bs = layout_hello_ack m"
      by (auto simp: decode_hello_ack_def read_rules valid_hello_ack_def layout_hello_ack_def nonce_size_def)
  next
    assume "nonce_size (ack_nonce m) \<and> valid_hello_ack m \<and> bs = layout_hello_ack m"
    with id_fits [of IK_server "ack_server_id m"] show "decode_hello_ack bs = Inr m"
      by (simp add: decode_hello_ack_def reread_rules valid_hello_ack_def layout_hello_ack_def nonce_size_def)
  qed
qed (simp add: encode_hello_ack_iff)

definition wf_auth :: "AuthMessage \<Rightarrow> bool" where
  "wf_auth m \<longleftrightarrow> nonce_size (auth_nonce m) \<and> data_size (auth_authentication_data m)"

definition valid_auth :: "AuthMessage \<Rightarrow> bool" where
  "valid_auth m \<longleftrightarrow>
     valid_id_text IK_client (auth_client_id m) \<and> selected_ok (auth_selected_capabilities m)"

definition layout_auth :: "AuthMessage \<Rightarrow> bytes" where
  "layout_auth m =
     enc_text (auth_client_id m) @ write_u64 (auth_timestamp_seconds m) @ enc_bytes (auth_nonce m) @
     enc_bytes (auth_authentication_data m) @ write_u64 (auth_selected_capabilities m)"

lemma encode_auth_iff:
  assumes "wf_auth m"
  shows "encode_auth m = Inr bs \<longleftrightarrow> valid_auth m \<and> bs = layout_auth m"
proof (cases "valid_auth m")
  case True
  then show ?thesis
    using assms id_fits [of IK_client "auth_client_id m"]
    by (auto simp: encode_auth_def valid_auth_def layout_auth_def write_rules wf_auth_def
        nonce_size_def kAuthenticationNonceSize_def data_size_def kAuthenticationDataSize_def)
next
  case False
  then show ?thesis by (auto simp: encode_auth_def valid_auth_def check_rules run_step_Inr_iff)
qed

interpretation auth: message_codec encode_auth decode_auth wf_auth valid_auth layout_auth
proof
  fix bs m
  show "decode_auth bs = Inr m \<longleftrightarrow> wf_auth m \<and> valid_auth m \<and> bs = layout_auth m"
  proof
    assume "decode_auth bs = Inr m"
    then show "wf_auth m \<and> valid_auth m \<and> bs = layout_auth m"
      by (auto simp: decode_auth_def read_rules valid_auth_def layout_auth_def wf_auth_def nonce_size_def data_size_def)
  next
    assume "wf_auth m \<and> valid_auth m \<and> bs = layout_auth m"
    with id_fits [of IK_client "auth_client_id m"] show "decode_auth bs = Inr m"
      by (simp add: decode_auth_def reread_rules valid_auth_def layout_auth_def wf_auth_def nonce_size_def data_size_def)
  qed
qed (simp add: encode_auth_iff)

section \<open>AUTH_OK, AUTH_ERROR and heartbeats\<close>

text \<open>
  Some decoders read all fields first and check afterwards; a successful decode is one where
  every read succeeded.
\<close>

lemma decode_auth_ok_Inr:
  "decode_auth_ok bs = Inr m \<longleftrightarrow>
     run_step reader_read_u64 (\<lambda>g. run_step reader_read_u32 (\<lambda>h. run_step reader_read_u16 (\<lambda>lo.
       run_step reader_read_u16 (\<lambda>hi r.
         and_then (require_end r) (\<lambda>_. and_then (validate_auth_ok
           \<lparr>ok_session_generation = g, ok_heartbeat_interval_milliseconds = h,
            ok_min_idle_workers = lo, ok_max_idle_workers = hi\<rparr>) (\<lambda>_.
           Inr \<lparr>ok_session_generation = g, ok_heartbeat_interval_milliseconds = h,
                ok_min_idle_workers = lo, ok_max_idle_workers = hi\<rparr>))))))
       (new_reader bs) = Inr m"
proof -
  obtain g r1 h r2 lo r3 hi r4
    where reads: "reader_read_u64 (new_reader bs) = (g, r1)" "reader_read_u32 r1 = (h, r2)"
      "reader_read_u16 r2 = (lo, r3)" "reader_read_u16 r3 = (hi, r4)"
    by (metis surj_pair)
  show ?thesis
    unfolding decode_auth_ok_def
    by (cases g; cases h; cases lo; cases hi) (simp_all add: run_step_def reads Let_def)
qed

definition valid_auth_ok :: "AuthOkMessage \<Rightarrow> bool" where
  "valid_auth_ok m \<longleftrightarrow>
     ok_session_generation m \<noteq> 0 \<and>
     1000 \<le> ok_heartbeat_interval_milliseconds m \<and> ok_heartbeat_interval_milliseconds m \<le> 60000 \<and>
     ok_min_idle_workers m \<le> ok_max_idle_workers m \<and> ok_max_idle_workers m \<le> 128"

definition layout_auth_ok :: "AuthOkMessage \<Rightarrow> bytes" where
  "layout_auth_ok m =
     write_u64 (ok_session_generation m) @ write_u32 (ok_heartbeat_interval_milliseconds m) @
     write_u16 (ok_min_idle_workers m) @ write_u16 (ok_max_idle_workers m)"

lemma validate_auth_ok_iff: "validate_auth_ok m = Inr u \<longleftrightarrow> valid_auth_ok m"
  by (auto simp: validate_auth_ok_def valid_auth_ok_def not_less)

lemma encode_auth_ok_iff: "encode_auth_ok m = Inr bs \<longleftrightarrow> valid_auth_ok m \<and> bs = layout_auth_ok m"
  by (auto simp: encode_auth_ok_def layout_auth_ok_def and_then_Inr_iff validate_auth_ok_iff write_rules)

interpretation auth_ok: message_codec encode_auth_ok decode_auth_ok "\<lambda>_. True" valid_auth_ok layout_auth_ok
proof
  fix bs m
  show "decode_auth_ok bs = Inr m \<longleftrightarrow> True \<and> valid_auth_ok m \<and> bs = layout_auth_ok m"
  proof
    assume "decode_auth_ok bs = Inr m"
    then show "True \<and> valid_auth_ok m \<and> bs = layout_auth_ok m"
      by (auto simp: decode_auth_ok_Inr read_rules validate_auth_ok_iff layout_auth_ok_def)
  next
    assume "True \<and> valid_auth_ok m \<and> bs = layout_auth_ok m"
    then show "decode_auth_ok bs = Inr m"
      by (cases m) (simp add: decode_auth_ok_Inr reread_rules validate_auth_ok_iff layout_auth_ok_def)
  qed
qed (simp add: encode_auth_ok_iff)

definition layout_auth_error :: "AuthErrorMessage \<Rightarrow> bytes" where
  "layout_auth_error m = enc_text (error_code_to_string (aerr_code m))"

lemma error_code_from_string_Some:
  "error_code_from_string t = Some c \<longleftrightarrow> t = error_code_to_string c"
  using error_code.from_text_iff by blast

interpretation auth_error: message_codec encode_auth_error decode_auth_error "\<lambda>_. True"
  "\<lambda>m. aerr_code m \<noteq> EC_ok" layout_auth_error
proof
  fix bs m
  show "True \<Longrightarrow> encode_auth_error m = Inr bs \<longleftrightarrow> aerr_code m \<noteq> EC_ok \<and> bs = layout_auth_error m"
    using code_fits [of "aerr_code m"]
    by (auto simp: encode_auth_error_def layout_auth_error_def write_rules)
  show "decode_auth_error bs = Inr m \<longleftrightarrow> True \<and> aerr_code m \<noteq> EC_ok \<and> bs = layout_auth_error m"
  proof
    assume "decode_auth_error bs = Inr m"
    then show "True \<and> aerr_code m \<noteq> EC_ok \<and> bs = layout_auth_error m"
      by (auto simp: decode_auth_error_def read_rules layout_auth_error_def error_code_from_string_Some
          split: option.splits if_splits)
  next
    assume "True \<and> aerr_code m \<noteq> EC_ok \<and> bs = layout_auth_error m"
    moreover have "error_code_from_string (error_code_to_string (aerr_code m)) = Some (aerr_code m)"
      by (simp only: error_code_from_string_Some)
    ultimately show "decode_auth_error bs = Inr m"
      using error_code_text_short [of "aerr_code m"]
      by (simp add: decode_auth_error_def reread_rules layout_auth_error_def)
  qed
qed

definition layout_heartbeat :: "HeartbeatMessage \<Rightarrow> bytes" where
  "layout_heartbeat m = write_u64 (hb_sequence m)"

interpretation heartbeat: message_codec encode_heartbeat decode_heartbeat "\<lambda>_. True" "\<lambda>_. True"
  layout_heartbeat
proof
  fix bs m
  show "True \<Longrightarrow> encode_heartbeat m = Inr bs \<longleftrightarrow> True \<and> bs = layout_heartbeat m"
    by (auto simp: encode_heartbeat_def layout_heartbeat_def write_rules)
  show "decode_heartbeat bs = Inr m \<longleftrightarrow> True \<and> True \<and> bs = layout_heartbeat m"
    by (cases m) (auto simp: decode_heartbeat_def read_rules layout_heartbeat_def)
qed

section \<open>Tunnel messages\<close>

definition enc_mode :: "TunnelMode \<Rightarrow> bytes" where
  "enc_mode mode = (if mode = TM_tcp then [] else enc_u8 mode)"

lemma decode_tunnel_mode_run:
  "run_step decode_tunnel_mode k (reader_at before after) = Inr m \<longleftrightarrow>
     (\<exists>mode. valid_tunnel_mode mode \<and> after = enc_mode mode \<and>
        k mode (reader_at (before @ enc_mode mode) []) = Inr m)"
proof (cases after)
  case Nil
  then show ?thesis
    by (auto simp: run_step_def decode_tunnel_mode_def enc_mode_def enc_u8_def valid_tunnel_mode_def
        split: if_splits)
next
  case (Cons a rest)
  have "reader_read_u8 (reader_at before (a # rest)) = (Inr a, reader_at (before @ [a]) rest)"
    using field_u8.rd_enc [where v = a and before = before and rest = rest] by (simp add: enc_u8_def)
  with Cons show ?thesis
    by (auto simp: run_step_def decode_tunnel_mode_def enc_mode_def enc_u8_def split: if_splits)
qed

lemma decode_tunnel_mode_enc:
  assumes "valid_tunnel_mode mode"
  shows "run_step decode_tunnel_mode k (reader_at before (enc_mode mode)) =
    k mode (reader_at (before @ enc_mode mode) [])"
proof (cases "mode = TM_tcp")
  case True
  then show ?thesis by (simp add: run_step_def decode_tunnel_mode_def enc_mode_def)
next
  case False
  have "reader_read_u8 (reader_at before [mode]) = (Inr mode, reader_at (before @ [mode]) [])"
    using field_u8.rd_enc [where v = mode and before = before and rest = "[]"]
    by (simp add: enc_u8_def)
  with False assms show ?thesis
    by (simp add: run_step_def decode_tunnel_mode_def enc_mode_def enc_u8_def)
qed

lemma encode_tunnel_mode_run:
  "valid_tunnel_mode mode \<Longrightarrow> length bs + 1 \<le> 65512 \<Longrightarrow>
   run_step (encode_tunnel_mode mode) k (written bs) = k () (written (bs @ enc_mode mode))"
  using field_u8.wr_written [where bs = bs and v = mode]
  by (simp add: run_step_def encode_tunnel_mode_def enc_mode_def kMaxPayloadSize_value)

lemma length_enc_mode: "length (enc_mode mode) \<le> 1"
  by (simp add: enc_mode_def)

definition valid_register_tunnel :: "RegisterTunnelMessage \<Rightarrow> bool" where
  "valid_register_tunnel m \<longleftrightarrow>
     valid_id_text IK_tunnel (reg_tunnel_id m) \<and> reg_bind_host m \<noteq> [] \<and>
     short_text kMaxTunnelBindHostBytes (reg_bind_host m) \<and> reg_bind_port m \<noteq> 0 \<and>
     reg_desired_revision m \<noteq> 0 \<and> valid_tunnel_mode (reg_mode m)"

definition layout_register_tunnel :: "RegisterTunnelMessage \<Rightarrow> bytes" where
  "layout_register_tunnel m =
     enc_text (reg_tunnel_id m) @ enc_text (reg_bind_host m) @ write_u16 (reg_bind_port m) @
     write_u64 (reg_desired_revision m) @ enc_mode (reg_mode m)"

lemma decode_register_tunnel_Inr:
  "decode_register_tunnel bs = Inr m \<longleftrightarrow>
     run_step (reader_read_string kMaxProtocolIdentifierBytes) (\<lambda>t.
     run_step (reader_read_string kMaxTunnelBindHostBytes) (\<lambda>h.
     run_step reader_read_u16 (\<lambda>p. run_step reader_read_u64 (\<lambda>n r.
       and_then (validate_tunnel_id t) (\<lambda>_.
         if h = [] \<or> p = 0 \<or> n = 0
         then failure EC_protocol_error ''REGISTER_TUNNEL binding is invalid''
         else run_step decode_tunnel_mode (\<lambda>mode r5. and_then (require_end r5) (\<lambda>_.
           Inr \<lparr>reg_tunnel_id = t, reg_bind_host = h, reg_bind_port = p,
                reg_desired_revision = n, reg_mode = mode\<rparr>)) r)))))
       (new_reader bs) = Inr m"
proof -
  obtain t r1 h r2 p r3 n r4
    where reads: "reader_read_string kMaxProtocolIdentifierBytes (new_reader bs) = (t, r1)"
      "reader_read_string kMaxTunnelBindHostBytes r1 = (h, r2)" "reader_read_u16 r2 = (p, r3)"
      "reader_read_u64 r3 = (n, r4)"
    by (metis surj_pair)
  show ?thesis
    unfolding decode_register_tunnel_def
    by (cases t; cases h; cases p; cases n)
       (simp_all add: run_step_def [of "reader_read_string k" for k] run_step_def [of reader_read_u16]
         run_step_def [of reader_read_u64] reads)
qed

lemma encode_register_tunnel_iff:
  "encode_register_tunnel m = Inr bs \<longleftrightarrow> valid_register_tunnel m \<and> bs = layout_register_tunnel m"
proof (cases "valid_register_tunnel m")
  case True
  then have host: "short_text 65535 (reg_bind_host m)" "length (reg_bind_host m) \<le> 253"
    by (auto simp: valid_register_tunnel_def short_text_def kMaxTunnelBindHostBytes_def)
  with True show ?thesis
    using id_fits [of IK_tunnel "reg_tunnel_id m"]
    by (auto simp: encode_register_tunnel_def valid_register_tunnel_def layout_register_tunnel_def
        write_rules encode_tunnel_mode_run kMaxTunnelBindHostBytes_def)
next
  case False
  have "False" if "encode_register_tunnel m = Inr bs"
  proof -
    from that have "plain_text (reg_bind_host m)"
      by (auto simp: encode_register_tunnel_def and_then_Inr_iff run_step_Inr_iff
          writer_write_string_def writer_fail_def plain_text_def split: if_splits option.splits)
    with that False show False
      by (auto simp: encode_register_tunnel_def valid_register_tunnel_def and_then_Inr_iff
          validate_tunnel_id_iff short_text_def kMaxTunnelBindHostBytes_def split: if_splits)
  qed
  with False show ?thesis by auto
qed

interpretation register_tunnel: message_codec encode_register_tunnel decode_register_tunnel
  "\<lambda>_. True" valid_register_tunnel layout_register_tunnel
proof
  fix bs m
  show "decode_register_tunnel bs = Inr m \<longleftrightarrow>
      True \<and> valid_register_tunnel m \<and> bs = layout_register_tunnel m"
  proof
    assume "decode_register_tunnel bs = Inr m"
    then show "True \<and> valid_register_tunnel m \<and> bs = layout_register_tunnel m"
      by (auto simp: decode_register_tunnel_Inr read_rules decode_tunnel_mode_run
          valid_register_tunnel_def layout_register_tunnel_def split: if_splits)
  next
    assume "True \<and> valid_register_tunnel m \<and> bs = layout_register_tunnel m"
    with id_fits [of IK_tunnel "reg_tunnel_id m"] show "decode_register_tunnel bs = Inr m"
      by (simp add: decode_register_tunnel_Inr reread_rules decode_tunnel_mode_enc
          valid_register_tunnel_def layout_register_tunnel_def)
  qed
qed (simp add: encode_register_tunnel_iff)

definition valid_tunnel_revision :: "TunnelRevision \<Rightarrow> bool" where
  "valid_tunnel_revision m \<longleftrightarrow> valid_id_text IK_tunnel (tr_tunnel_id m) \<and> tr_revision m \<noteq> 0"

definition layout_tunnel_revision :: "TunnelRevision \<Rightarrow> bytes" where
  "layout_tunnel_revision m = enc_text (tr_tunnel_id m) @ write_u64 (tr_revision m)"

lemma encode_tunnel_revision_iff:
  "encode_tunnel_revision (tr_tunnel_id m) (tr_revision m) = Inr bs \<longleftrightarrow>
     valid_tunnel_revision m \<and> bs = layout_tunnel_revision m"
proof (cases "valid_tunnel_revision m")
  case True
  then show ?thesis
    using id_fits [of IK_tunnel "tr_tunnel_id m"]
    by (auto simp: encode_tunnel_revision_def valid_tunnel_revision_def layout_tunnel_revision_def
        write_rules)
next
  case False
  then show ?thesis
    by (auto simp: encode_tunnel_revision_def valid_tunnel_revision_def check_rules)
qed

lemma decode_tunnel_revision_Inr:
  "decode_tunnel_revision bs = Inr m \<longleftrightarrow>
     run_step (reader_read_string kMaxProtocolIdentifierBytes) (\<lambda>t r1.
       and_then (validate_tunnel_id t) (\<lambda>_. run_step reader_read_u64 (\<lambda>n r2.
         if n = 0
         then failure EC_protocol_error ''remote message contains an invalid tunnel revision''
         else and_then (require_end r2) (\<lambda>_. Inr \<lparr>tr_tunnel_id = t, tr_revision = n\<rparr>)) r1))
       (new_reader bs) = Inr m"
  unfolding decode_tunnel_revision_def run_step_def and_then_def
  by (auto split: prod.splits sum.splits)

lemma decode_tunnel_revision_iff:
  "decode_tunnel_revision bs = Inr m \<longleftrightarrow> valid_tunnel_revision m \<and> bs = layout_tunnel_revision m"
proof
  assume "decode_tunnel_revision bs = Inr m"
  then show "valid_tunnel_revision m \<and> bs = layout_tunnel_revision m"
    by (auto simp: decode_tunnel_revision_Inr read_rules valid_tunnel_revision_def
        layout_tunnel_revision_def split: if_splits)
next
  assume "valid_tunnel_revision m \<and> bs = layout_tunnel_revision m"
  with id_fits [of IK_tunnel "tr_tunnel_id m"] show "decode_tunnel_revision bs = Inr m"
    by (simp add: decode_tunnel_revision_Inr reread_rules valid_tunnel_revision_def
        layout_tunnel_revision_def)
qed

lemma same_tunnel_revision:
  "and_then r (\<lambda>v. Inr \<lparr>tr_tunnel_id = tr_tunnel_id v, tr_revision = tr_revision v\<rparr>) = r"
  by (cases r) simp_all

interpretation register_tunnel_ok: message_codec encode_register_tunnel_ok decode_register_tunnel_ok
  "\<lambda>_. True" valid_tunnel_revision layout_tunnel_revision
  by unfold_locales
     (simp_all add: encode_register_tunnel_ok_def encode_tunnel_revision_iff
       decode_register_tunnel_ok_def same_tunnel_revision decode_tunnel_revision_iff)

interpretation unregister_tunnel: message_codec encode_unregister_tunnel decode_unregister_tunnel
  "\<lambda>_. True" valid_tunnel_revision layout_tunnel_revision
  by unfold_locales
     (simp_all add: encode_unregister_tunnel_def encode_tunnel_revision_iff
       decode_unregister_tunnel_def same_tunnel_revision decode_tunnel_revision_iff)

interpretation unregister_tunnel_ok: message_codec encode_unregister_tunnel_ok
  decode_unregister_tunnel_ok "\<lambda>_. True" valid_tunnel_revision layout_tunnel_revision
  by unfold_locales
     (simp_all add: encode_unregister_tunnel_ok_def encode_tunnel_revision_iff
       decode_unregister_tunnel_ok_def decode_unregister_tunnel_def same_tunnel_revision
       decode_tunnel_revision_iff)

definition valid_register_tunnel_error :: "RegisterTunnelErrorMessage \<Rightarrow> bool" where
  "valid_register_tunnel_error m \<longleftrightarrow>
     valid_id_text IK_tunnel (rerr_tunnel_id m) \<and> rerr_code m \<noteq> EC_ok \<and> rerr_desired_revision m \<noteq> 0"

definition layout_register_tunnel_error :: "RegisterTunnelErrorMessage \<Rightarrow> bytes" where
  "layout_register_tunnel_error m =
     enc_text (rerr_tunnel_id m) @ enc_text (error_code_to_string (rerr_code m)) @
     write_u64 (rerr_desired_revision m)"

lemma encode_register_tunnel_error_iff:
  "encode_register_tunnel_error m = Inr bs \<longleftrightarrow>
     valid_register_tunnel_error m \<and> bs = layout_register_tunnel_error m"
proof (cases "valid_register_tunnel_error m")
  case True
  then show ?thesis
    using id_fits [of IK_tunnel "rerr_tunnel_id m"] code_fits [of "rerr_code m"]
    by (auto simp: encode_register_tunnel_error_def valid_register_tunnel_error_def
        layout_register_tunnel_error_def write_rules)
next
  case False
  then show ?thesis
    by (auto simp: encode_register_tunnel_error_def valid_register_tunnel_error_def check_rules)
qed

lemma decode_register_tunnel_error_Inr:
  "decode_register_tunnel_error bs = Inr m \<longleftrightarrow>
     run_step (reader_read_string kMaxProtocolIdentifierBytes) (\<lambda>t.
     run_step (reader_read_string 64) (\<lambda>text. run_step reader_read_u64 (\<lambda>n r.
       case error_code_from_string text of
         None \<Rightarrow> failure EC_protocol_error ''REGISTER_TUNNEL_ERROR payload is invalid''
       | Some c \<Rightarrow>
           if \<not> has_value (validate_tunnel_id t) \<or> c = EC_ok \<or> n = 0
           then failure EC_protocol_error ''REGISTER_TUNNEL_ERROR payload is invalid''
           else and_then (require_end r) (\<lambda>_.
             Inr \<lparr>rerr_tunnel_id = t, rerr_code = c, rerr_desired_revision = n\<rparr>))))
       (new_reader bs) = Inr m"
proof -
  obtain t r1 ct r2 n r3
    where reads: "reader_read_string kMaxProtocolIdentifierBytes (new_reader bs) = (t, r1)"
      "reader_read_string 64 r1 = (ct, r2)" "reader_read_u64 r2 = (n, r3)"
    by (metis surj_pair)
  show ?thesis
    unfolding decode_register_tunnel_error_def
    by (cases t; cases ct; cases n) (simp_all add: run_step_def reads)
qed

lemma error_code_from_to_string:
  "error_code_from_string (error_code_to_string c) = Some c"
  by (simp only: error_code_from_string_Some)

interpretation register_tunnel_error: message_codec encode_register_tunnel_error
  decode_register_tunnel_error "\<lambda>_. True" valid_register_tunnel_error layout_register_tunnel_error
proof
  fix bs m
  show "decode_register_tunnel_error bs = Inr m \<longleftrightarrow>
      True \<and> valid_register_tunnel_error m \<and> bs = layout_register_tunnel_error m"
  proof
    assume "decode_register_tunnel_error bs = Inr m"
    then show "True \<and> valid_register_tunnel_error m \<and> bs = layout_register_tunnel_error m"
      by (auto simp: decode_register_tunnel_error_Inr read_rules valid_register_tunnel_error_def
          layout_register_tunnel_error_def error_code_from_string_Some
          split: if_splits option.splits)
  next
    assume "True \<and> valid_register_tunnel_error m \<and> bs = layout_register_tunnel_error m"
    with id_fits [of IK_tunnel "rerr_tunnel_id m"] error_code_text_short [of "rerr_code m"]
    show "decode_register_tunnel_error bs = Inr m"
      by (simp add: decode_register_tunnel_error_Inr reread_rules error_code_from_to_string
          valid_register_tunnel_error_def layout_register_tunnel_error_def)
  qed
qed (simp add: encode_register_tunnel_error_iff)

section \<open>Worker messages\<close>

definition valid_request_workers :: "RequestWorkersMessage \<Rightarrow> bool" where
  "valid_request_workers m \<longleftrightarrow> rw_count m \<noteq> 0 \<and> rw_count m \<le> 128"

definition layout_request_workers :: "RequestWorkersMessage \<Rightarrow> bytes" where
  "layout_request_workers m = write_u16 (rw_count m)"

lemma decode_request_workers_Inr:
  "decode_request_workers bs = Inr m \<longleftrightarrow>
     run_step reader_read_u16 (\<lambda>count r.
       if count = 0 \<or> 128 < count \<or> \<not> has_value (require_end r)
       then failure EC_protocol_error ''REQUEST_WORKERS payload is invalid''
       else Inr \<lparr>rw_count = count\<rparr>) (new_reader bs) = Inr m"
  unfolding decode_request_workers_def run_step_def by (auto split: prod.splits sum.splits)

interpretation request_workers: message_codec encode_request_workers decode_request_workers
  "\<lambda>_. True" valid_request_workers layout_request_workers
proof
  fix bs m
  show "True \<Longrightarrow> encode_request_workers m = Inr bs \<longleftrightarrow>
      valid_request_workers m \<and> bs = layout_request_workers m"
    by (auto simp: encode_request_workers_def valid_request_workers_def layout_request_workers_def
        write_rules not_less)
  show "decode_request_workers bs = Inr m \<longleftrightarrow>
      True \<and> valid_request_workers m \<and> bs = layout_request_workers m"
    by (cases m) (auto simp: decode_request_workers_Inr read_rules valid_request_workers_def
        layout_request_workers_def not_less split: if_splits)
qed

definition wf_worker_hello :: "WorkerHelloMessage \<Rightarrow> bool" where
  "wf_worker_hello m \<longleftrightarrow> nonce_size (wh_nonce m) \<and> data_size (wh_authentication_data m)"

definition valid_worker_hello :: "WorkerHelloMessage \<Rightarrow> bool" where
  "valid_worker_hello m \<longleftrightarrow>
     valid_id_text IK_client (wh_client_id m) \<and> valid_id_text IK_connection (wh_worker_id m) \<and>
     wh_session_generation m \<noteq> 0"

definition layout_worker_hello :: "WorkerHelloMessage \<Rightarrow> bytes" where
  "layout_worker_hello m =
     enc_text (wh_client_id m) @ write_u64 (wh_session_generation m) @ enc_text (wh_worker_id m) @
     write_u64 (wh_timestamp_seconds m) @ enc_bytes (wh_nonce m) @
     enc_bytes (wh_authentication_data m)"

lemma encode_worker_hello_iff:
  assumes "wf_worker_hello m"
  shows "encode_worker_hello m = Inr bs \<longleftrightarrow> valid_worker_hello m \<and> bs = layout_worker_hello m"
proof (cases "valid_worker_hello m")
  case True
  then show ?thesis
    using assms id_fits [of IK_client "wh_client_id m"] id_fits [of IK_connection "wh_worker_id m"]
    by (auto simp: encode_worker_hello_def valid_worker_hello_def layout_worker_hello_def write_rules
        wf_worker_hello_def nonce_size_def kAuthenticationNonceSize_def data_size_def
        kAuthenticationDataSize_def)
next
  case False
  then show ?thesis
    by (auto simp: encode_worker_hello_def valid_worker_hello_def check_rules)
qed

lemma decode_worker_hello_Inr:
  "decode_worker_hello bs = Inr m \<longleftrightarrow>
     run_step (reader_read_string kMaxProtocolIdentifierBytes) (\<lambda>c. run_step reader_read_u64 (\<lambda>g.
     run_step (reader_read_string kMaxProtocolIdentifierBytes) (\<lambda>w. run_step reader_read_u64 (\<lambda>t.
     run_step (read_fixed_bytes kAuthenticationNonceSize) (\<lambda>n.
     run_step (read_fixed_bytes kAuthenticationDataSize) (\<lambda>d r.
       if g = 0 \<or> \<not> has_value (validate_client_id c) \<or> \<not> has_value (validate_connection_id w) \<or>
          \<not> has_value (require_end r)
       then failure EC_protocol_error ''WORKER_HELLO payload is invalid''
       else Inr \<lparr>wh_client_id = c, wh_session_generation = g, wh_worker_id = w,
                 wh_timestamp_seconds = t, wh_nonce = n, wh_authentication_data = d\<rparr>))))))
       (new_reader bs) = Inr m"
proof -
  obtain c r1 g r2 w r3 t r4 n r5 d r6
    where reads: "reader_read_string kMaxProtocolIdentifierBytes (new_reader bs) = (c, r1)"
      "reader_read_u64 r1 = (g, r2)"
      "reader_read_string kMaxProtocolIdentifierBytes r2 = (w, r3)"
      "reader_read_u64 r3 = (t, r4)"
      "read_fixed_bytes kAuthenticationNonceSize r4 = (n, r5)"
      "read_fixed_bytes kAuthenticationDataSize r5 = (d, r6)"
    by (metis surj_pair)
  show ?thesis
    unfolding decode_worker_hello_def
    by (cases c; cases g; cases w; cases t; cases n; cases d) (simp_all add: run_step_def reads)
qed

interpretation worker_hello: message_codec encode_worker_hello decode_worker_hello
  wf_worker_hello valid_worker_hello layout_worker_hello
proof
  fix bs m
  show "decode_worker_hello bs = Inr m \<longleftrightarrow>
      wf_worker_hello m \<and> valid_worker_hello m \<and> bs = layout_worker_hello m"
  proof
    assume "decode_worker_hello bs = Inr m"
    then show "wf_worker_hello m \<and> valid_worker_hello m \<and> bs = layout_worker_hello m"
      by (auto simp: decode_worker_hello_Inr read_rules valid_worker_hello_def
          layout_worker_hello_def wf_worker_hello_def nonce_size_def data_size_def split: if_splits)
  next
    assume "wf_worker_hello m \<and> valid_worker_hello m \<and> bs = layout_worker_hello m"
    with id_fits [of IK_client "wh_client_id m"] id_fits [of IK_connection "wh_worker_id m"]
    show "decode_worker_hello bs = Inr m"
      by (simp add: decode_worker_hello_Inr reread_rules valid_worker_hello_def
          layout_worker_hello_def wf_worker_hello_def nonce_size_def data_size_def)
  qed
qed (simp add: encode_worker_hello_iff)

text \<open>WORKER_ACCEPTED and LOCAL_CONNECT_OK carry one connection identifier.\<close>

lemma encode_connection_id:
  "and_then (validate_connection_id t) (\<lambda>_.
     run_step (writer_write_string t) (\<lambda>_. writer_finish) (new_writer kMaxPayloadSize)) = Inr bs \<longleftrightarrow>
   valid_id_text IK_connection t \<and> bs = enc_text t"
proof (cases "valid_id_text IK_connection t")
  case True
  then show ?thesis using id_fits [OF True] by (auto simp: write_rules)
qed (auto simp: check_rules)

lemma decode_connection_id:
  "(case reader_read_string kMaxProtocolIdentifierBytes (new_reader bs) of
      (Inl e, r1) \<Rightarrow> failure c msg
    | (Inr t, r1) \<Rightarrow>
        if \<not> has_value (validate_connection_id t) \<or> \<not> has_value (require_end r1)
        then failure c msg else Inr (f t)) = Inr m \<longleftrightarrow>
   (\<exists>t. valid_id_text IK_connection t \<and> bs = enc_text t \<and> m = f t)"
  (is "?decode = Inr m \<longleftrightarrow> _")
proof
  assume "?decode = Inr m"
  then show "\<exists>t. valid_id_text IK_connection t \<and> bs = enc_text t \<and> m = f t"
    by (auto simp: new_reader_at field_text.rd_at check_rules split: prod.splits sum.splits if_splits)
next
  assume "\<exists>t. valid_id_text IK_connection t \<and> bs = enc_text t \<and> m = f t"
  then obtain t where t: "valid_id_text IK_connection t" "bs = enc_text t" "m = f t" by blast
  then have "reader_read_string kMaxProtocolIdentifierBytes (new_reader bs) =
      (Inr t, reader_at (enc_text t) [])"
    using id_fits [OF t(1)] by (simp add: new_reader_at field_text.rd_at)
  with t show "?decode = Inr m" by (simp add: check_rules)
qed

interpretation worker_accepted: message_codec encode_worker_accepted decode_worker_accepted
  "\<lambda>_. True" "\<lambda>m. valid_id_text IK_connection (wa_worker_id m)" "\<lambda>m. enc_text (wa_worker_id m)"
proof
  fix bs m
  show "True \<Longrightarrow> encode_worker_accepted m = Inr bs \<longleftrightarrow>
      valid_id_text IK_connection (wa_worker_id m) \<and> bs = enc_text (wa_worker_id m)"
    by (simp add: encode_worker_accepted_def encode_connection_id)
  show "decode_worker_accepted bs = Inr m \<longleftrightarrow>
      True \<and> valid_id_text IK_connection (wa_worker_id m) \<and> bs = enc_text (wa_worker_id m)"
    unfolding decode_worker_accepted_def decode_connection_id by (cases m) auto
qed

interpretation local_connect_ok: message_codec encode_local_connect_ok decode_local_connect_ok
  "\<lambda>_. True" "\<lambda>m. valid_id_text IK_connection (lok_connection_id m)"
  "\<lambda>m. enc_text (lok_connection_id m)"
proof
  fix bs m
  show "True \<Longrightarrow> encode_local_connect_ok m = Inr bs \<longleftrightarrow>
      valid_id_text IK_connection (lok_connection_id m) \<and> bs = enc_text (lok_connection_id m)"
    by (simp add: encode_local_connect_ok_def encode_connection_id)
  show "decode_local_connect_ok bs = Inr m \<longleftrightarrow>
      True \<and> valid_id_text IK_connection (lok_connection_id m) \<and> bs = enc_text (lok_connection_id m)"
    unfolding decode_local_connect_ok_def decode_connection_id by (cases m) auto
qed

definition valid_local_connect_error :: "LocalConnectErrorMessage \<Rightarrow> bool" where
  "valid_local_connect_error m \<longleftrightarrow>
     valid_id_text IK_connection (lerr_connection_id m) \<and> lerr_code m \<noteq> EC_ok"

definition layout_local_connect_error :: "LocalConnectErrorMessage \<Rightarrow> bytes" where
  "layout_local_connect_error m =
     enc_text (lerr_connection_id m) @ enc_text (error_code_to_string (lerr_code m))"

lemma encode_local_connect_error_iff:
  "encode_local_connect_error m = Inr bs \<longleftrightarrow>
     valid_local_connect_error m \<and> bs = layout_local_connect_error m"
proof (cases "valid_local_connect_error m")
  case True
  then show ?thesis
    using id_fits [of IK_connection "lerr_connection_id m"] code_fits [of "lerr_code m"]
    by (auto simp: encode_local_connect_error_def valid_local_connect_error_def
        layout_local_connect_error_def write_rules)
next
  case False
  then show ?thesis
    by (auto simp: encode_local_connect_error_def valid_local_connect_error_def check_rules)
qed

lemma decode_local_connect_error_Inr:
  "decode_local_connect_error bs = Inr m \<longleftrightarrow>
     run_step (reader_read_string kMaxProtocolIdentifierBytes) (\<lambda>i.
     run_step (reader_read_string 64) (\<lambda>text r.
       case error_code_from_string text of
         None \<Rightarrow> failure EC_protocol_error ''LOCAL_CONNECT_ERROR payload is invalid''
       | Some c \<Rightarrow>
           if \<not> has_value (validate_connection_id i) \<or> c = EC_ok \<or> \<not> has_value (require_end r)
           then failure EC_protocol_error ''LOCAL_CONNECT_ERROR payload is invalid''
           else Inr \<lparr>lerr_connection_id = i, lerr_code = c\<rparr>))
       (new_reader bs) = Inr m"
proof -
  obtain i r1 ct r2
    where reads: "reader_read_string kMaxProtocolIdentifierBytes (new_reader bs) = (i, r1)"
      "reader_read_string 64 r1 = (ct, r2)"
    by (metis surj_pair)
  show ?thesis
    unfolding decode_local_connect_error_def
    by (cases i; cases ct) (simp_all add: run_step_def reads split: option.split)
qed

lemma decode_local_connect_error_valid:
  assumes "decode_local_connect_error bs = Inr m"
  shows "valid_local_connect_error m \<and> bs = layout_local_connect_error m"
proof -
  from assms obtain i ct rest where bs: "bs = enc_text i @ enc_text ct @ rest"
    and k: "(case error_code_from_string ct of
         None \<Rightarrow> failure EC_protocol_error ''LOCAL_CONNECT_ERROR payload is invalid''
       | Some c \<Rightarrow>
           if \<not> has_value (validate_connection_id i) \<or> c = EC_ok \<or>
              \<not> has_value (require_end (reader_at ([] @ enc_text i @ enc_text ct) rest))
           then failure EC_protocol_error ''LOCAL_CONNECT_ERROR payload is invalid''
           else Inr \<lparr>lerr_connection_id = i, lerr_code = c\<rparr>) = Inr m"
    unfolding decode_local_connect_error_Inr new_reader_at field_text.run_at append_assoc by blast
  then show ?thesis
    by (cases "error_code_from_string ct")
       (auto simp: valid_local_connect_error_def layout_local_connect_error_def
         error_code_from_string_Some check_rules split: if_splits)
qed

interpretation local_connect_error: message_codec encode_local_connect_error
  decode_local_connect_error "\<lambda>_. True" valid_local_connect_error layout_local_connect_error
proof
  fix bs m
  show "decode_local_connect_error bs = Inr m \<longleftrightarrow>
      True \<and> valid_local_connect_error m \<and> bs = layout_local_connect_error m"
  proof
    assume "decode_local_connect_error bs = Inr m"
    then show "True \<and> valid_local_connect_error m \<and> bs = layout_local_connect_error m"
      using decode_local_connect_error_valid by blast
  next
    assume "True \<and> valid_local_connect_error m \<and> bs = layout_local_connect_error m"
    with id_fits [of IK_connection "lerr_connection_id m"] error_code_text_short [of "lerr_code m"]
    show "decode_local_connect_error bs = Inr m"
      by (simp add: decode_local_connect_error_Inr reread_rules error_code_from_to_string
          valid_local_connect_error_def layout_local_connect_error_def)
  qed
qed (simp add: encode_local_connect_error_iff)

section \<open>START_RELAY\<close>

definition enc_source :: "StartRelayMessage \<Rightarrow> bytes" where
  "enc_source m =
     (case (sr_source_host m, sr_source_port m) of
        (Some host, Some port) \<Rightarrow>
          enc_u8 (sr_mode m) @ enc_text host @ write_u16 port @
          (case sr_worker_observed_host m of None \<Rightarrow> [] | Some observed \<Rightarrow> enc_text observed)
      | _ \<Rightarrow> enc_mode (sr_mode m))"

definition layout_start_relay :: "StartRelayMessage \<Rightarrow> bytes" where
  "layout_start_relay m = enc_text (sr_tunnel_id m) @ enc_text (sr_connection_id m) @ enc_source m"

text \<open>
  What the encoder accepts, and what the decoder accepts: the decoder also wants a port, hosts of
  at most 253 bytes and hosts that are addresses.
\<close>

definition identified_start_relay :: "StartRelayMessage \<Rightarrow> bool" where
  "identified_start_relay m \<longleftrightarrow>
     valid_id_text IK_tunnel (sr_tunnel_id m) \<and> valid_id_text IK_connection (sr_connection_id m) \<and>
     valid_tunnel_mode (sr_mode m) \<and>
     (sr_source_host m = None \<longleftrightarrow> sr_source_port m = None) \<and>
     (sr_source_host m = None \<longrightarrow> sr_worker_observed_host m = None)"

definition valid_start_relay :: "(string \<Rightarrow> bool) \<Rightarrow> StartRelayMessage \<Rightarrow> bool" where
  "valid_start_relay is_address m \<longleftrightarrow>
     identified_start_relay m \<and> sr_source_port m \<noteq> Some 0 \<and>
     (\<forall>host. sr_source_host m = Some host \<or> sr_worker_observed_host m = Some host \<longrightarrow>
        short_text kMaxTunnelBindHostBytes host \<and> is_address host)"

lemma enc_text_not_Nil [simp]: "enc_text t \<noteq> []" "[] \<noteq> enc_text t"
  by (metis add_eq_0_iff_both_eq_0 length_enc(3) list.size(3) zero_neq_numeral)+

lemma start_relay_mode_run:
  "run_step start_relay_mode k (reader_at before after) = Inr m \<longleftrightarrow>
     after = [] \<and> k TM_tcp (reader_at before []) = Inr m \<or>
     (\<exists>mode rest. after = enc_u8 mode @ rest \<and> valid_tunnel_mode mode \<and> (mode = TM_tcp \<longrightarrow> rest \<noteq> []) \<and>
        k mode (reader_at (before @ enc_u8 mode) rest) = Inr m)"
proof (cases after)
  case Nil
  then show ?thesis by (simp add: run_step_def start_relay_mode_def enc_u8_def)
next
  case (Cons a rest)
  have "reader_read_u8 (reader_at before (a # rest)) = (Inr a, reader_at (before @ [a]) rest)"
    using field_u8.rd_enc [where v = a and before = before and rest = rest]
    by (simp add: enc_u8_def)
  with Cons show ?thesis
    by (auto simp: run_step_def start_relay_mode_def enc_u8_def)
qed

lemma start_relay_source_run:
  "run_step (start_relay_source is_address) k (reader_at before after) = Inr m \<longleftrightarrow>
     after = [] \<and> k None (reader_at before []) = Inr m \<or>
     (\<exists>h p rest. after = enc_text h @ write_u16 p @ rest \<and> p \<noteq> 0 \<and> is_address h \<and>
        short_text kMaxTunnelBindHostBytes h \<and>
        k (Some (h, p)) (reader_at (before @ enc_text h @ write_u16 p) rest) = Inr m)"
proof (cases "after = []")
  case True
  then show ?thesis by (simp add: run_step_def start_relay_source_def)
next
  case False
  obtain h r1 p r2 where reads:
    "reader_read_string kMaxTunnelBindHostBytes (reader_at before after) = (h, r1)"
    "reader_read_u16 r1 = (p, r2)"
    by (metis surj_pair)
  have "run_step (start_relay_source is_address) k (reader_at before after) = Inr m \<longleftrightarrow>
      run_step (reader_read_string kMaxTunnelBindHostBytes) (\<lambda>h. run_step reader_read_u16 (\<lambda>p r.
        if p = 0 \<or> \<not> is_address h then failure EC_protocol_error [] else k (Some (h, p)) r))
        (reader_at before after) = Inr m"
    using False unfolding run_step_def start_relay_source_def
    by (cases h; cases p) (simp_all add: reads)
  also have "\<dots> \<longleftrightarrow> (\<exists>h p rest. after = enc_text h @ write_u16 p @ rest \<and> p \<noteq> 0 \<and> is_address h \<and>
        short_text kMaxTunnelBindHostBytes h \<and>
        k (Some (h, p)) (reader_at (before @ enc_text h @ write_u16 p) rest) = Inr m)"
    unfolding field_text.run_at field_u16.run_at by auto
  finally show ?thesis using False by simp
qed

lemma start_relay_observed_run:
  "run_step (start_relay_observed is_address) k (reader_at before after) = Inr m \<longleftrightarrow>
     after = [] \<and> k None (reader_at before []) = Inr m \<or>
     (\<exists>h rest. after = enc_text h @ rest \<and> is_address h \<and> short_text kMaxTunnelBindHostBytes h \<and>
        k (Some h) (reader_at (before @ enc_text h) rest) = Inr m)"
proof (cases "after = []")
  case True
  then show ?thesis by (simp add: run_step_def start_relay_observed_def)
next
  case False
  obtain h r1 where reads:
    "reader_read_string kMaxTunnelBindHostBytes (reader_at before after) = (h, r1)"
    by (metis surj_pair)
  have "run_step (start_relay_observed is_address) k (reader_at before after) = Inr m \<longleftrightarrow>
      run_step (reader_read_string kMaxTunnelBindHostBytes) (\<lambda>h r.
        if \<not> is_address h then failure EC_protocol_error [] else k (Some h) r)
        (reader_at before after) = Inr m"
    using False unfolding run_step_def start_relay_observed_def
    by (cases h) (simp_all add: reads)
  also have "\<dots> \<longleftrightarrow> (\<exists>h rest. after = enc_text h @ rest \<and> is_address h \<and>
        short_text kMaxTunnelBindHostBytes h \<and>
        k (Some h) (reader_at (before @ enc_text h) rest) = Inr m)"
    unfolding field_text.run_at by auto
  finally show ?thesis using False by simp
qed

lemma decode_start_relay_Inr:
  "decode_start_relay is_address bs = Inr m \<longleftrightarrow>
     run_step (reader_read_string kMaxProtocolIdentifierBytes) (\<lambda>t.
     run_step (reader_read_string kMaxProtocolIdentifierBytes) (\<lambda>c r.
       if \<not> has_value (validate_tunnel_id t) \<or> \<not> has_value (validate_connection_id c)
       then failure EC_protocol_error ''START_RELAY payload is invalid''
       else run_step start_relay_mode (\<lambda>mode. run_step (start_relay_source is_address) (\<lambda>source.
            run_step (start_relay_observed is_address) (\<lambda>observed r5.
              if \<not> has_value (require_end r5)
              then failure EC_protocol_error ''START_RELAY payload is invalid''
              else Inr \<lparr>sr_tunnel_id = t, sr_connection_id = c, sr_mode = mode,
                        sr_source_host = map_option fst source,
                        sr_source_port = map_option snd source,
                        sr_worker_observed_host = observed\<rparr>))) r))
       (new_reader bs) = Inr m"
proof -
  obtain t r1 c r2
    where reads: "reader_read_string kMaxProtocolIdentifierBytes (new_reader bs) = (t, r1)"
      "reader_read_string kMaxProtocolIdentifierBytes r1 = (c, r2)"
    by (metis surj_pair)
  show ?thesis
    unfolding decode_start_relay_def
    by (cases t; cases c) (simp_all add: run_step_def [of "reader_read_string k" for k] reads)
qed

lemma if_failure_Inr: "(if b then failure c t else r) = Inr m \<longleftrightarrow> \<not> b \<and> r = Inr m"
  by simp

lemmas start_relay_runs = start_relay_mode_run start_relay_source_run start_relay_observed_run

lemmas start_relay_defs = valid_start_relay_def identified_start_relay_def layout_start_relay_def
  enc_source_def enc_mode_def

lemma start_relay_tail:
  assumes "run_step start_relay_mode (\<lambda>mode. run_step (start_relay_source is_address) (\<lambda>source.
      run_step (start_relay_observed is_address) (\<lambda>observed r.
        if \<not> has_value (require_end r) then failure ec msg else Inr (f mode source observed))))
      (reader_at before after) = Inr m"
  obtains mode where "m = f mode None None" "after = enc_mode mode" "valid_tunnel_mode mode"
    | mode h p observed where "m = f mode (Some (h, p)) observed" "valid_tunnel_mode mode" "p \<noteq> 0"
      "after = enc_u8 mode @ enc_text h @ write_u16 p @ (case observed of None \<Rightarrow> [] | Some ob \<Rightarrow> enc_text ob)"
      "\<forall>host \<in> insert h (set_option observed). short_text kMaxTunnelBindHostBytes host \<and> is_address host"
proof -
  have tcp: "valid_tunnel_mode TM_tcp" by (simp add: valid_tunnel_mode_def)
  from assms show ?thesis
    unfolding start_relay_runs if_failure_Inr not_not has_value_require_end
    apply (elim exE conjE disjE)
    subgoal using that(1) [of TM_tcp] tcp by (simp add: enc_mode_def)
    subgoal by simp
    subgoal by simp
    subgoal by simp
    subgoal for mode rest using that(1) [of mode] by (auto simp add: enc_mode_def)
    subgoal by simp
    subgoal for mode rest h p rest' using that(2) [of mode h p None] by simp
    subgoal for mode rest h p rest' ob rest'' using that(2) [of mode h p "Some ob"] by simp
    done
qed

lemma decode_start_relay_sound:
  assumes "decode_start_relay is_address bs = Inr m"
  shows "valid_start_relay is_address m \<and> bs = layout_start_relay m"
proof -
  from assms obtain t c rest where ids: "valid_id_text IK_tunnel t" "valid_id_text IK_connection c"
      "bs = enc_text t @ enc_text c @ rest"
    and tail: "run_step start_relay_mode (\<lambda>mode. run_step (start_relay_source is_address) (\<lambda>source.
      run_step (start_relay_observed is_address) (\<lambda>observed r.
        if \<not> has_value (require_end r)
        then failure EC_protocol_error ''START_RELAY payload is invalid''
        else Inr \<lparr>sr_tunnel_id = t, sr_connection_id = c, sr_mode = mode,
                  sr_source_host = map_option fst source, sr_source_port = map_option snd source,
                  sr_worker_observed_host = observed\<rparr>)))
      (reader_at (([] @ enc_text t) @ enc_text c) rest) = Inr m"
    unfolding decode_start_relay_Inr new_reader_at field_text.run_at if_failure_Inr de_Morgan_disj
      not_not validate_tunnel_id_iff validate_connection_id_iff
    by blast
  from tail show ?thesis
    by (cases rule: start_relay_tail) (use ids in \<open>auto simp: start_relay_defs\<close>)
qed

lemma start_relay_run_Nil:
  "run_step start_relay_mode k (reader_at before []) = k TM_tcp (reader_at before [])"
  "run_step (start_relay_source is_address) k' (reader_at before []) = k' None (reader_at before [])"
  "run_step (start_relay_observed is_address) k'' (reader_at before []) = k'' None (reader_at before [])"
  by (simp_all add: run_step_def start_relay_mode_def start_relay_source_def start_relay_observed_def)

lemma start_relay_mode_enc:
  assumes "valid_tunnel_mode mode" "mode = TM_tcp \<Longrightarrow> rest \<noteq> []"
  shows "run_step start_relay_mode k (reader_at before (enc_u8 mode @ rest)) =
    k mode (reader_at (before @ enc_u8 mode) rest)"
  using assms field_u8.rd_enc [where v = mode and before = before and rest = rest]
  by (auto simp add: run_step_def start_relay_mode_def enc_u8_def)

lemma start_relay_source_enc:
  assumes "p \<noteq> 0" "is_address h" "short_text kMaxTunnelBindHostBytes h"
  shows "run_step (start_relay_source is_address) k (reader_at before (enc_text h @ write_u16 p @ rest)) =
    k (Some (h, p)) (reader_at (before @ enc_text h @ write_u16 p) rest)"
  using assms by (simp add: run_step_def start_relay_source_def field_text.rd_enc field_u16.rd_enc)

lemma start_relay_observed_enc:
  assumes "is_address h" "short_text kMaxTunnelBindHostBytes h"
  shows "run_step (start_relay_observed is_address) k (reader_at before (enc_text h)) =
    k (Some h) (reader_at (before @ enc_text h) [])"
  using assms field_text.rd_enc [where v = h and before = before and rest = "[]"]
  by (simp add: run_step_def start_relay_observed_def)

lemma decode_start_relay_complete:
  assumes "valid_start_relay is_address m"
  shows "decode_start_relay is_address (layout_start_relay m) = Inr m"
proof -
  note ids = id_fits [of IK_tunnel "sr_tunnel_id m"] id_fits [of IK_connection "sr_connection_id m"]
  show ?thesis
  proof (cases "sr_source_host m")
    case None
    then show ?thesis
      using assms ids
      by (cases "sr_mode m = TM_tcp")
         (simp_all add: start_relay_defs decode_start_relay_Inr reread_rules start_relay_run_Nil
           start_relay_mode_enc [where rest = "[]", simplified])
  next
    case (Some host)
    then obtain port where "sr_source_port m = Some port"
      using assms by (auto simp: start_relay_defs)
    with Some show ?thesis
      using assms ids
      by (cases "sr_worker_observed_host m")
         (simp_all add: start_relay_defs decode_start_relay_Inr reread_rules start_relay_run_Nil
           start_relay_mode_enc start_relay_observed_enc
           start_relay_source_enc [where rest = "[]", simplified] start_relay_source_enc)
  qed
qed

lemma encode_start_relay_layout:
  assumes "identified_start_relay m"
    and hosts: "\<forall>h. sr_source_host m = Some h \<or> sr_worker_observed_host m = Some h \<longrightarrow>
      short_text kMaxTunnelBindHostBytes h"
  shows "encode_start_relay m = Inr (layout_start_relay m)"
proof -
  note ids = id_fits [of IK_tunnel "sr_tunnel_id m"] id_fits [of IK_connection "sr_connection_id m"]
  have host: "short_text 65535 h \<and> length h \<le> 253"
    if "sr_source_host m = Some h \<or> sr_worker_observed_host m = Some h" for h
    using hosts that by (auto simp: kMaxTunnelBindHostBytes_def short_text_def)
  show ?thesis
  proof (cases "sr_source_host m")
    case None
    then show ?thesis
      using assms ids
      by (simp add: start_relay_defs encode_start_relay_def encode_tunnel_mode_run write_rules)
  next
    case (Some h)
    then obtain p where "sr_source_port m = Some p"
      using assms by (auto simp: start_relay_defs)
    with Some show ?thesis
      using assms ids host [of h] host [of "the (sr_worker_observed_host m)"]
      by (cases "sr_worker_observed_host m")
         (simp_all add: start_relay_defs encode_start_relay_def write_rules)
  qed
qed

lemma encode_start_relay_valid:
  "valid_start_relay is_address m \<Longrightarrow> encode_start_relay m = Inr (layout_start_relay m)"
  by (rule encode_start_relay_layout) (auto simp: valid_start_relay_def)

interpretation start_relay: message_codec encode_start_relay "decode_start_relay is_address"
  "valid_start_relay is_address" "\<lambda>_. True" layout_start_relay for is_address :: "string \<Rightarrow> bool"
  by unfold_locales
     (auto simp: encode_start_relay_valid dest: decode_start_relay_sound
       intro: decode_start_relay_complete)

section \<open>Properties\<close>

text \<open>
  C7: The messages of the control handshake.  For HELLO, HELLO_ACK, AUTH, AUTH_OK, AUTH_ERROR and
  HEARTBEAT the encoder accepts exactly the valid messages and writes their wire layout, and the
  decoder accepts exactly the payloads that are the layout of a valid message and returns that
  message: decoding undoes encoding, no payload with a missing, extra or malformed field is
  accepted, and each message has one image.
\<close>

theorem handshake_codecs:
  "exact_codec encode_hello decode_hello (\<lambda>_. True) valid_hello layout_hello \<and>
   exact_codec encode_hello_ack decode_hello_ack (\<lambda>m. nonce_size (ack_nonce m))
     valid_hello_ack layout_hello_ack \<and>
   exact_codec encode_auth decode_auth wf_auth valid_auth layout_auth \<and>
   exact_codec encode_auth_ok decode_auth_ok (\<lambda>_. True) valid_auth_ok layout_auth_ok \<and>
   exact_codec encode_auth_error decode_auth_error (\<lambda>_. True)
     (\<lambda>m. aerr_code m \<noteq> EC_ok) layout_auth_error \<and>
   exact_codec encode_heartbeat decode_heartbeat (\<lambda>_. True) (\<lambda>_. True) layout_heartbeat"
  by (intro conjI hello.is_exact hello_ack.is_exact auth.is_exact auth_ok.is_exact
      auth_error.is_exact heartbeat.is_exact)

text \<open>
  C6: The tunnel messages.  REGISTER_TUNNEL (with the mode byte that is left out for TCP),
  REGISTER_TUNNEL_OK, REGISTER_TUNNEL_ERROR, UNREGISTER_TUNNEL and UNREGISTER_TUNNEL_OK have exact
  codecs: encoder and decoder agree on which messages are valid and on their only wire image.
\<close>

theorem tunnel_codecs:
  "exact_codec encode_register_tunnel decode_register_tunnel (\<lambda>_. True)
     valid_register_tunnel layout_register_tunnel \<and>
   exact_codec encode_register_tunnel_ok decode_register_tunnel_ok (\<lambda>_. True)
     valid_tunnel_revision layout_tunnel_revision \<and>
   exact_codec encode_unregister_tunnel decode_unregister_tunnel (\<lambda>_. True)
     valid_tunnel_revision layout_tunnel_revision \<and>
   exact_codec encode_unregister_tunnel_ok decode_unregister_tunnel_ok (\<lambda>_. True)
     valid_tunnel_revision layout_tunnel_revision \<and>
   exact_codec encode_register_tunnel_error decode_register_tunnel_error (\<lambda>_. True)
     valid_register_tunnel_error layout_register_tunnel_error"
  by (intro conjI register_tunnel.is_exact register_tunnel_ok.is_exact unregister_tunnel.is_exact
      unregister_tunnel_ok.is_exact register_tunnel_error.is_exact)

text \<open>
  C5: The Worker messages.  REQUEST_WORKERS, WORKER_HELLO, WORKER_ACCEPTED, LOCAL_CONNECT_OK and
  LOCAL_CONNECT_ERROR have exact codecs; START_RELAY has one on the messages whose optional source
  endpoint has a non-zero port and short numeric hosts, whatever the address parser accepts.
\<close>

theorem worker_codecs:
  "exact_codec encode_request_workers decode_request_workers (\<lambda>_. True)
     valid_request_workers layout_request_workers \<and>
   exact_codec encode_worker_hello decode_worker_hello wf_worker_hello
     valid_worker_hello layout_worker_hello \<and>
   exact_codec encode_worker_accepted decode_worker_accepted (\<lambda>_. True)
     (\<lambda>m. valid_id_text IK_connection (wa_worker_id m)) (\<lambda>m. enc_text (wa_worker_id m)) \<and>
   exact_codec encode_start_relay (decode_start_relay is_address) (valid_start_relay is_address)
     (\<lambda>_. True) layout_start_relay \<and>
   exact_codec encode_local_connect_ok decode_local_connect_ok (\<lambda>_. True)
     (\<lambda>m. valid_id_text IK_connection (lok_connection_id m)) (\<lambda>m. enc_text (lok_connection_id m)) \<and>
   exact_codec encode_local_connect_error decode_local_connect_error (\<lambda>_. True)
     valid_local_connect_error layout_local_connect_error"
  by (intro conjI request_workers.is_exact worker_hello.is_exact worker_accepted.is_exact
      start_relay.is_exact local_connect_ok.is_exact local_connect_error.is_exact)

text \<open>
  C16: The encoder of START_RELAY is wider than its decoder.  A message with well-formed identifiers,
  a short source host and source port 0 is encoded without an error, and the decoder refuses the
  payload, whatever the address parser accepts.
\<close>

theorem start_relay_zero_port:
  assumes "identified_start_relay m" "sr_source_host m = Some h" "sr_source_port m = Some 0"
    and "short_text kMaxTunnelBindHostBytes h" "sr_worker_observed_host m = None"
  shows "\<exists>bs. encode_start_relay m = Inr bs \<and> decode_start_relay is_address bs =
    failure EC_protocol_error ''START_RELAY source endpoint is invalid''"
proof (intro exI conjI)
  show "encode_start_relay m = Inr (layout_start_relay m)"
    using assms by (intro encode_start_relay_layout) auto
  have reads: "reader_read_string n (reader_at before (enc_text t @ rest)) =
      (Inr t, reader_at (before @ enc_text t) rest)" if "short_text n t" for n t before rest
    using that by (rule field_text.rd_enc)
  have port: "reader_read_u16 (reader_at before (write_u16 0)) = (Inr 0, reader_at (before @ write_u16 0) [])"
    for before using field_u16.rd_enc [where v = 0 and rest = "[]"] by simp
  show "decode_start_relay is_address (layout_start_relay m) =
      failure EC_protocol_error ''START_RELAY source endpoint is invalid''"
    using assms id_fits [of IK_tunnel "sr_tunnel_id m"] id_fits [of IK_connection "sr_connection_id m"]
    by (simp add: start_relay_defs decode_start_relay_def new_reader_at reads check_rules
        start_relay_mode_enc)
       (simp add: run_step_def start_relay_source_def reads port failure_def)
qed

theorem start_relay_zero_port_witness:
  "\<exists>bs. encode_start_relay \<lparr>sr_tunnel_id = ''tun_'' @ replicate 32 CHR ''a'',
     sr_connection_id = ''conn_'' @ replicate 32 CHR ''0'', sr_mode = TM_tcp,
     sr_source_host = Some ''10.0.0.1'', sr_source_port = Some 0, sr_worker_observed_host = None\<rparr> =
       Inr bs \<and>
     decode_start_relay (\<lambda>_. True) bs =
       failure EC_protocol_error ''START_RELAY source endpoint is invalid''"
proof (rule start_relay_zero_port [where h = "''10.0.0.1''"])
  have "valid_id_text IK_tunnel (''tun_'' @ replicate 32 CHR ''a'')"
    "valid_id_text IK_connection (''conn_'' @ replicate 32 CHR ''0'')"
    using valid_id_text_replicate [of "CHR ''a''" IK_tunnel]
      valid_id_text_replicate [of "CHR ''0''" IK_connection]
    by (simp_all add: is_lowercase_hex_def char_between_def)
  then show "identified_start_relay \<lparr>sr_tunnel_id = ''tun_'' @ replicate 32 CHR ''a'',
     sr_connection_id = ''conn_'' @ replicate 32 CHR ''0'', sr_mode = TM_tcp,
     sr_source_host = Some ''10.0.0.1'', sr_source_port = Some 0, sr_worker_observed_host = None\<rparr>"
    unfolding identified_start_relay_def by (simp add: valid_tunnel_mode_def)
  show "short_text kMaxTunnelBindHostBytes ''10.0.0.1''"
    by (simp add: short_text_def kMaxTunnelBindHostBytes_def ascii_plain_text ascii_def)
qed simp_all

section \<open>Heartbeat metadata\<close>

lemma heartbeat_constants:
  "kMaximumNegotiatedHeartbeatSequence = mask 39" "kHeartbeatMetadataTagMask = NOT (mask 48)"
  "kHeartbeatTimeoutMask = mask 9"
  by (simp_all add: kMaximumNegotiatedHeartbeatSequence_def kHeartbeatMetadataTagMask_def
      kHeartbeatTimeoutMask_def mask_eq_exp_minus_1)

lemma bit_heartbeat_tag: "bit kHeartbeatMetadataTag n \<Longrightarrow> 48 \<le> n"
  by (simp add: kHeartbeatMetadataTag_def bit_push_bit_iff del: push_bit_numeral push_bit_of_1)

lemma bit_le_mask:
  assumes "x \<le> mask k" "bit (x :: 'a :: len word) n"
  shows "n < k"
proof -
  have "uint x \<le> mask (min LENGTH('a) k)" using assms(1) by (metis uint_mask_eq word_le_def)
  also have "\<dots> < 2 ^ min LENGTH('a) k" by (simp add: mask_eq_exp_minus_1)
  also have "\<dots> \<le> (2 ^ k :: int)" by simp
  finally have "x AND mask k = x" by (simp add: mask_eq_iff)
  with assms(2) show ?thesis by (metis bit_and_iff bit_mask_iff)
qed

lemma heartbeat_timeout_small: "t \<le> kMaximumWorkerIdleTimeoutSeconds \<Longrightarrow> bit t n \<Longrightarrow> n < 9"
  by (rule bit_le_mask [of t]) (erule order.trans, simp add: kMaximumWorkerIdleTimeoutSeconds_def mask_eq_exp_minus_1)

text \<open>
  The Worker idle timeout that a heartbeat carries.  Whenever
  \<open>encode_worker_timeout_heartbeat_sequence\<close> accepts a sequence number and a timeout,
  \<open>decode_worker_idle_timeout_seconds\<close> reads that timeout back from the tagged number and the low
  bits are still the sequence number; and a plain sequence number below the tag carries none.
\<close>

theorem heartbeat_metadata_roundtrip:
  "(encode_worker_timeout_heartbeat_sequence s t = Inr tagged \<longrightarrow>
      decode_worker_idle_timeout_seconds tagged = Some t \<and>
      tagged AND kMaximumNegotiatedHeartbeatSequence = s) \<and>
   (s \<le> kMaximumNegotiatedHeartbeatSequence \<longrightarrow> decode_worker_idle_timeout_seconds s = None)"
proof (intro conjI impI)
  assume plain: "s \<le> kMaximumNegotiatedHeartbeatSequence"
  have "s AND NOT (mask 48) = 0"
    using plain by (intro bit_word_eqI) (auto simp: bit_simps heartbeat_constants dest!: bit_le_mask)
  moreover have "kHeartbeatMetadataTag \<noteq> 0" by (simp add: kHeartbeatMetadataTag_def)
  ultimately show "decode_worker_idle_timeout_seconds s = None"
    by (simp add: decode_worker_idle_timeout_seconds_def heartbeat_constants)
next
  assume enc: "encode_worker_timeout_heartbeat_sequence s t = Inr tagged"
  then have tagged: "tagged = kHeartbeatMetadataTag OR push_bit 39 (ucast t) OR s"
    and s: "s \<noteq> 0" "s \<le> mask 39" and t: "\<not> t < kMinimumWorkerIdleTimeoutSeconds"
      "t \<le> kMaximumWorkerIdleTimeoutSeconds"
    by (auto simp: encode_worker_timeout_heartbeat_sequence_def heartbeat_constants
        kHeartbeatTimeoutShift_def not_less split: if_splits)
  note bits = bit_simps heartbeat_constants tagged
  show low: "tagged AND kMaximumNegotiatedHeartbeatSequence = s"
    using s by (intro bit_word_eqI) (auto simp: bits dest: bit_heartbeat_tag bit_le_mask)
  have "tagged AND NOT (mask 48) = kHeartbeatMetadataTag"
    using s t by (intro bit_word_eqI) (auto simp: bits dest: bit_heartbeat_tag bit_le_mask heartbeat_timeout_small)
  moreover have "ucast (drop_bit 39 tagged AND mask 9) = t"
    using s t by (intro bit_word_eqI) (auto simp: bits dest: bit_heartbeat_tag bit_le_mask heartbeat_timeout_small)
  ultimately show "decode_worker_idle_timeout_seconds tagged = Some t"
    using low s t by (simp add: decode_worker_idle_timeout_seconds_def heartbeat_constants
        kHeartbeatTimeoutShift_def not_less)
qed

theorem heartbeat_metadata_roundtrip_witness:
  "\<exists>tagged. encode_worker_timeout_heartbeat_sequence 5 30 = Inr tagged \<and>
     decode_worker_idle_timeout_seconds tagged = Some 30 \<and> decode_worker_idle_timeout_seconds 5 = None"
proof -
  have small: "(5 :: u64) \<le> kMaximumNegotiatedHeartbeatSequence"
    by (simp add: kMaximumNegotiatedHeartbeatSequence_def)
  then have "\<exists>tagged. encode_worker_timeout_heartbeat_sequence 5 30 = Inr tagged"
    by (simp add: encode_worker_timeout_heartbeat_sequence_def not_less
        kMinimumWorkerIdleTimeoutSeconds_def kMaximumWorkerIdleTimeoutSeconds_def)
  moreover note small
  ultimately show ?thesis using heartbeat_metadata_roundtrip [of 5 30] by blast
qed

end
