(* ===== verification/Hash_Maps.thy ===== *)
theory Hash_Maps
  imports Prelude "HOL-Library.AList" "HOL-Library.Multiset"
begin

text \<open>
  \<open>std::unordered_map\<close> as the sources use it: an association list with distinct keys.
  \<open>find\<close> is \<open>map_of\<close>, \<open>insert_or_assign\<close> and \<open>operator[]\<close> are \<open>AList.update\<close>, \<open>erase\<close> is
  \<open>AList.delete\<close> and \<open>size\<close> is \<open>length\<close>.  The iteration order of an unordered map is unspecified;
  where the code iterates and the order can be seen, the operation of the model has an argument
  \<open>order\<close> that arranges the entries, and \<open>arranges order\<close> says that it visits each entry once.
\<close>

type_synonym ('k, 'v) umap = "('k \<times> 'v) list"

definition keys_ok :: "('k, 'v) umap \<Rightarrow> bool" where
  "keys_ok m \<longleftrightarrow> distinct (map fst m)"

definition arranges :: "('a list \<Rightarrow> 'a list) \<Rightarrow> bool" where
  "arranges order \<longleftrightarrow> (\<forall>xs. mset (order xs) = mset xs)"

named_theorems umap_simps \<open>lookups, sizes and sums after updates of a map\<close>

lemma keys_ok_Nil [simp]: "keys_ok []"
  by (simp add: keys_ok_def)

lemma keys_ok_update [simp]: "keys_ok m \<Longrightarrow> keys_ok (AList.update k v m)"
  by (simp add: keys_ok_def distinct_update)

lemma keys_ok_delete [simp]: "keys_ok m \<Longrightarrow> keys_ok (AList.delete k m)"
  by (simp add: keys_ok_def distinct_delete)

lemma keys_ok_filter [simp]: "keys_ok m \<Longrightarrow> keys_ok (filter P m)"
  by (auto simp: keys_ok_def distinct_map inj_on_filter_key_eq inj_on_def)

lemma keys_ok_append: "keys_ok (xs @ ys) \<longleftrightarrow>
    keys_ok xs \<and> keys_ok ys \<and> fst ` set xs \<inter> fst ` set ys = {}"
  by (simp add: keys_ok_def)

lemma find_update [simp, umap_simps]: "map_of (AList.update k v m) k' = (if k' = k then Some v else map_of m k')"
  by (simp add: update_conv)

lemma find_delete [simp, umap_simps]: "map_of (AList.delete k m) k' = (if k' = k then None else map_of m k')"
  by (simp add: delete_conv)

lemma size_update: "length (AList.update k v m) = (if map_of m k = None then length m + 1 else length m)"
  by (induction m) auto

lemma map_of_None_keys: "map_of m k = None \<longleftrightarrow> k \<notin> fst ` set m"
  by (simp add: map_of_eq_None_iff)

lemma find_filter:
  assumes "keys_ok m"
  shows "map_of (filter P m) k =
    (case map_of m k of None \<Rightarrow> None | Some v \<Rightarrow> if P (k, v) then Some v else None)"
  using assms
  by (induction m) (auto simp: keys_ok_def map_of_None_keys split: option.splits dest: map_of_SomeD)

lemma find_Some_iff: "keys_ok m \<Longrightarrow> map_of m k = Some v \<longleftrightarrow> (k, v) \<in> set m"
  by (simp add: keys_ok_def)

lemma delete_absent: "map_of m k = None \<Longrightarrow> AList.delete k m = m"
  by (simp add: map_of_None_keys delete_idem)

lemma split_at_key:
  assumes "keys_ok m" "map_of m k = Some v"
  obtains xs ys where "m = xs @ (k, v) # ys" "AList.delete k m = xs @ ys"
    "k \<notin> fst ` set xs" "k \<notin> fst ` set ys"
proof -
  have "(k, v) \<in> set m" using assms by (simp add: find_Some_iff)
  then obtain xs ys where m: "m = xs @ (k, v) # ys" by (meson split_list)
  with assms(1) have fresh: "k \<notin> fst ` set xs" "k \<notin> fst ` set ys"
    by (simp_all add: keys_ok_def)
  then have "filter (\<lambda>(k', _). k \<noteq> k') xs = xs" "filter (\<lambda>(k', _). k \<noteq> k') ys = ys"
    by (force simp: filter_id_conv)+
  then have "AList.delete k m = xs @ ys" using m by (simp add: AList.delete_eq)
  with m fresh show ?thesis using that by blast
qed

lemma size_delete:
  "keys_ok m \<Longrightarrow> length (AList.delete k m) = (if map_of m k = None then length m else length m - 1)"
  by (cases "map_of m k") (auto simp: delete_absent elim!: split_at_key)

lemma size_delete_le: "length (AList.delete k m) \<le> length m"
  by (rule length_delete_le)

lemma size_card_dom: "keys_ok m \<Longrightarrow> length m = card (dom (map_of m))"
  by (metis dom_map_of_conv_image_fst distinct_card keys_ok_def length_map list.set_map)

text \<open>Sums over the values of a map of counters.\<close>

definition counted :: "('k, nat) umap \<Rightarrow> nat" where
  "counted m = sum_list (map snd m)"

lemma counted_Nil [simp]: "counted [] = 0"
  by (simp add: counted_def)

lemma counted_update_new [umap_simps]: "map_of m k = None \<Longrightarrow> counted (AList.update k v m) = counted m + v"
  by (induction m) (auto simp: counted_def split: if_splits)

lemma counted_update [umap_simps]:
  "map_of m k = Some n \<Longrightarrow> counted (AList.update k v m) + n = counted m + v"
  by (induction m) (auto simp: counted_def split: if_splits)

lemma counted_delete:
  "keys_ok m \<Longrightarrow> map_of m k = Some n \<Longrightarrow> counted (AList.delete k m) + n = counted m"
  by (erule (1) split_at_key) (simp add: counted_def)

lemma counted_ge: "map_of m k = Some n \<Longrightarrow> n \<le> counted m"
  by (induction m) (auto simp: counted_def split: if_splits)

lemma arranges_set: "arranges order \<Longrightarrow> set (order m) = set m"
  by (metis arranges_def set_mset_mset)

lemma arranges_length: "arranges order \<Longrightarrow> length (order m) = length m"
  by (metis arranges_def size_mset)

lemma update_fresh: "map_of m k = None \<Longrightarrow> AList.update k v m = m @ [(k, v)]"
  by (induction m) (auto split: if_splits)

lemma delete_conserves:
  assumes "keys_ok m" "map_of m k = Some e"
  shows "mset (map snd m) = add_mset e (mset (map snd (AList.delete k m)))"
  by (rule split_at_key [OF assms]) simp

lemma delete_as_filter: "AList.delete k m = filter (\<lambda>(k', _). k' \<noteq> k) m"
  by (auto simp: AList.delete_eq intro!: filter_cong)

lemma set_update_umap: "set (AList.update k v m) \<subseteq> insert (k, v) (set m)"
  by (induction m) auto

lemma set_delete_umap: "set (AList.delete k m) \<subseteq> set m"
  by (auto simp: AList.delete_eq)

end
