(* ===== verification/Auth.thy ===== *)
theory Auth
  imports Message_Codecs Hash_Maps Clock
begin

text \<open>
  \<open>include/minitun/protocol/auth.hpp\<close> and \<open>src/protocol/auth.cpp\<close>: nonces and session generations,
  the message authentication of AUTH and WORKER_HELLO, the replay cache and the rate limiter.

  OpenSSL is a parameter: \<open>random\<close> is what \<open>RAND_bytes\<close> delivers (\<open>None\<close> when it fails), and
  \<open>hmac token input\<close> is what \<open>EVP_Q_mac\<close> with HMAC-SHA256 writes (\<open>None\<close> for a null result).
  Time points are nanoseconds of the steady clock.
\<close>

section \<open>Random values\<close>

definition generate_authentication_nonce :: "bytes option \<Rightarrow> bytes Result" where
  "generate_authentication_nonce random =
     (case random of
        None \<Rightarrow> failure EC_internal_error ''cryptographic nonce generation failed''
      | Some nonce \<Rightarrow> Inr nonce)"

definition big_endian_value :: "bytes \<Rightarrow> u64" where
  "big_endian_value bs = foldl (\<lambda>value b. push_bit 8 value OR ucast b) 0 bs"

text \<open>\<open>random attempt\<close> is the eight bytes drawn in that attempt.\<close>

function generation_loop :: "(nat \<Rightarrow> bytes option) \<Rightarrow> nat \<Rightarrow> u64 Result" where
  "generation_loop random attempt =
     (if attempt < 4
      then (case random attempt of
              None \<Rightarrow> failure EC_internal_error ''session generation randomness failed''
            | Some bs \<Rightarrow>
                let value = big_endian_value bs
                in if value \<noteq> 0 then Inr value else generation_loop random (attempt + 1))
      else failure EC_internal_error ''session generation randomness produced an invalid value'')"
  by pat_completeness auto
termination by (relation "measure (\<lambda>(_, attempt). 4 - attempt)") auto

declare generation_loop.simps [simp del]

definition generate_session_generation :: "(nat \<Rightarrow> bytes option) \<Rightarrow> u64 Result" where
  "generate_session_generation random = generation_loop random 0"

section \<open>Message authentication\<close>

definition authentication_digest ::
  "(string \<Rightarrow> bytes \<Rightarrow> bytes option) \<Rightarrow> string \<Rightarrow> bytes \<Rightarrow> string \<Rightarrow> bytes Result" where
  "authentication_digest hmac token input failed_message =
     (case hmac token input of
        None \<Rightarrow> failure EC_internal_error failed_message
      | Some output \<Rightarrow>
          if length output \<noteq> kAuthenticationDataSize then failure EC_internal_error failed_message
          else Inr output)"

definition compute_authentication_data ::
  "(string \<Rightarrow> bytes \<Rightarrow> bytes option) \<Rightarrow> string \<Rightarrow> string \<Rightarrow> string \<Rightarrow> i64 \<Rightarrow> bytes \<Rightarrow>
   CapabilitySet \<Rightarrow> bytes Result" where
  "compute_authentication_data hmac token client_id server_id timestamp_seconds nonce
     selected_capabilities =
     (if token = [] \<or> 64 * 1024 < length token
      then failure EC_invalid_argument ''authentication token length is invalid''
      else if \<not> has_value (id_parse_kind client_id IK_client)
      then failure EC_invalid_argument ''client ID is invalid for authentication''
      else if \<not> has_value (id_parse_kind server_id IK_server)
      then failure EC_invalid_argument ''server ID is invalid for authentication''
      else if selected_capabilities AND kRequiredCapabilities \<noteq> kRequiredCapabilities \<or>
              selected_capabilities AND NOT kSupportedCapabilities \<noteq> 0
      then failure EC_invalid_argument ''authentication capability selection is invalid''
      else and_then
        (run_step (writer_write_u16 kProtocolVersion) (\<lambda>_.
         run_step (writer_write_string client_id) (\<lambda>_.
         run_step (writer_write_string server_id) (\<lambda>_.
         run_step (writer_write_u64 timestamp_seconds) (\<lambda>_.
         run_step (writer_write_bytes nonce) (\<lambda>_.
         run_step (writer_write_u64 selected_capabilities) (\<lambda>_. writer_finish))))))
           (new_writer kMaxPayloadSize))
        (\<lambda>input. authentication_digest hmac token input ''authentication digest generation failed''))"

text \<open>\<open>CRYPTO_memcmp a b n == 0\<close>.\<close>

definition memory_equal :: "bytes \<Rightarrow> bytes \<Rightarrow> nat \<Rightarrow> bool" where
  "memory_equal a b n \<longleftrightarrow> take n a = take n b"

definition verify_authentication_data ::
  "(string \<Rightarrow> bytes \<Rightarrow> bytes option) \<Rightarrow> string \<Rightarrow> string \<Rightarrow> string \<Rightarrow> i64 \<Rightarrow> bytes \<Rightarrow>
   CapabilitySet \<Rightarrow> bytes \<Rightarrow> bool Result" where
  "verify_authentication_data hmac token client_id server_id timestamp_seconds nonce
     selected_capabilities candidate =
     and_then (compute_authentication_data hmac token client_id server_id timestamp_seconds nonce
                 selected_capabilities)
       (\<lambda>expected. Inr (memory_equal expected candidate (length expected)))"

definition compute_worker_authentication_data ::
  "(string \<Rightarrow> bytes \<Rightarrow> bytes option) \<Rightarrow> string \<Rightarrow> string \<Rightarrow> string \<Rightarrow> u64 \<Rightarrow> string \<Rightarrow> i64 \<Rightarrow> bytes \<Rightarrow>
   bytes Result" where
  "compute_worker_authentication_data hmac token client_id server_id session_generation worker_id
     timestamp_seconds nonce =
     (if token = [] \<or> 64 * 1024 < length token
      then failure EC_invalid_argument ''worker authentication token length is invalid''
      else if \<not> has_value (id_parse_kind client_id IK_client) \<or>
              \<not> has_value (id_parse_kind server_id IK_server) \<or>
              \<not> has_value (id_parse_kind worker_id IK_connection) \<or> session_generation = 0
      then failure EC_invalid_argument ''worker authentication identity is invalid''
      else and_then
        (run_step (writer_write_string ''minitun-worker-auth'') (\<lambda>_.
         run_step (writer_write_u16 kProtocolVersion) (\<lambda>_.
         run_step (writer_write_string client_id) (\<lambda>_.
         run_step (writer_write_string server_id) (\<lambda>_.
         run_step (writer_write_u64 session_generation) (\<lambda>_.
         run_step (writer_write_string worker_id) (\<lambda>_.
         run_step (writer_write_u64 timestamp_seconds) (\<lambda>_.
         run_step (writer_write_bytes nonce) (\<lambda>_. writer_finish))))))))
           (new_writer kMaxPayloadSize))
        (\<lambda>input. authentication_digest hmac token input
           ''worker authentication digest generation failed''))"

definition verify_worker_authentication_data ::
  "(string \<Rightarrow> bytes \<Rightarrow> bytes option) \<Rightarrow> string \<Rightarrow> string \<Rightarrow> string \<Rightarrow> u64 \<Rightarrow> string \<Rightarrow> i64 \<Rightarrow> bytes \<Rightarrow>
   bytes \<Rightarrow> bool Result" where
  "verify_worker_authentication_data hmac token client_id server_id session_generation worker_id
     timestamp_seconds nonce candidate =
     and_then (compute_worker_authentication_data hmac token client_id server_id session_generation
                 worker_id timestamp_seconds nonce)
       (\<lambda>expected. Inr (memory_equal expected candidate (length expected)))"

section \<open>The replay cache\<close>

record ReplayEntry =
  re_key :: string
  re_expires_at :: time_point

text \<open>
  \<open>order_\<close> is the list of entries and \<open>entries_\<close> maps each key to its entry.
\<close>

record NonceReplayCache =
  rc_max_entries :: nat
  rc_retention :: int
  rc_order :: "ReplayEntry list"
  rc_entries :: "(string, ReplayEntry) umap"

definition new_replay_cache :: "nat \<Rightarrow> int \<Rightarrow> NonceReplayCache" where
  "new_replay_cache max_entries retention =
     \<lparr>rc_max_entries = max max_entries 1,
      rc_retention = (if retention \<le> 0 then seconds 1 else retention),
      rc_order = [], rc_entries = []\<rparr>"

definition replay_key :: "string \<Rightarrow> bytes \<Rightarrow> string" where
  "replay_key client_id nonce = client_id @ '':'' @ string_of_bytes nonce"

fun drop_expired ::
  "time_point \<Rightarrow> ReplayEntry list \<Rightarrow> (string, ReplayEntry) umap \<Rightarrow>
   ReplayEntry list \<times> (string, ReplayEntry) umap" where
  "drop_expired now [] entries = ([], entries)"
| "drop_expired now (e # es) entries =
     (if re_expires_at e \<le> now then drop_expired now es (AList.delete (re_key e) entries)
      else (e # es, entries))"

definition replay_consume ::
  "string \<Rightarrow> bytes \<Rightarrow> time_point \<Rightarrow> NonceReplayCache \<Rightarrow> bool Result \<times> NonceReplayCache" where
  "replay_consume client_id nonce now c =
     (if \<not> has_value (id_parse_kind client_id IK_client)
      then (failure EC_invalid_argument ''authentication replay client ID is invalid'', c)
      else (case drop_expired now (rc_order c) (rc_entries c) of (order, entries) \<Rightarrow>
        let key = replay_key client_id nonce; c' = c\<lparr>rc_order := order, rc_entries := entries\<rparr>
        in if map_of entries key \<noteq> None then (Inr False, c')
           else if rc_max_entries c \<le> length entries
           then (failure EC_resource_exhausted
                   ''authentication replay cache reached its configured limit'', c')
           else (let e = \<lparr>re_key = key, re_expires_at = now + rc_retention c\<rparr>
                 in (Inr True, c'\<lparr>rc_order := order @ [e],
                                  rc_entries := AList.update key e entries\<rparr>))))"

definition replay_size :: "NonceReplayCache \<Rightarrow> nat" where
  "replay_size c = length (rc_entries c)"

definition verify_and_consume_authentication_data ::
  "(string \<Rightarrow> bytes \<Rightarrow> bytes option) \<Rightarrow> string \<Rightarrow> string \<Rightarrow> string \<Rightarrow> i64 \<Rightarrow> bytes \<Rightarrow>
   CapabilitySet \<Rightarrow> bytes \<Rightarrow> time_point \<Rightarrow> NonceReplayCache \<Rightarrow> bool Result \<times> NonceReplayCache" where
  "verify_and_consume_authentication_data hmac token client_id server_id timestamp_seconds nonce
     selected_capabilities candidate now c =
     (let verified = verify_authentication_data hmac token client_id server_id timestamp_seconds
                       nonce selected_capabilities candidate
      in if verified \<noteq> Inr True then (verified, c) else replay_consume client_id nonce now c)"

definition verify_and_consume_worker_authentication_data ::
  "(string \<Rightarrow> bytes \<Rightarrow> bytes option) \<Rightarrow> string \<Rightarrow> string \<Rightarrow> string \<Rightarrow> u64 \<Rightarrow> string \<Rightarrow> i64 \<Rightarrow> bytes \<Rightarrow>
   bytes \<Rightarrow> time_point \<Rightarrow> NonceReplayCache \<Rightarrow> bool Result \<times> NonceReplayCache" where
  "verify_and_consume_worker_authentication_data hmac token client_id server_id session_generation
     worker_id timestamp_seconds nonce candidate now c =
     (let verified = verify_worker_authentication_data hmac token client_id server_id
                       session_generation worker_id timestamp_seconds nonce candidate
      in if verified \<noteq> Inr True then (verified, c) else replay_consume client_id nonce now c)"

section \<open>The rate limiter\<close>

record LimiterEntry =
  le_failures :: "time_point list"
  le_blocked_until :: time_point
  le_last_seen :: time_point

record AuthRateLimiter =
  rl_max_entries :: nat
  rl_max_failures :: nat
  rl_failure_window :: int
  rl_block_duration :: int
  rl_entries :: "(string, LimiterEntry) umap"

definition new_rate_limiter :: "nat \<Rightarrow> nat \<Rightarrow> int \<Rightarrow> int \<Rightarrow> AuthRateLimiter" where
  "new_rate_limiter max_entries max_failures failure_window block_duration =
     \<lparr>rl_max_entries = max max_entries 1, rl_max_failures = max max_failures 1,
      rl_failure_window = (if failure_window \<le> 0 then seconds 1 else failure_window),
      rl_block_duration = (if block_duration \<le> 0 then seconds 1 else block_duration),
      rl_entries = []\<rparr>"

definition new_limiter_entry :: LimiterEntry where
  "new_limiter_entry = \<lparr>le_failures = [], le_blocked_until = 0, le_last_seen = 0\<rparr>"

definition prune_failures :: "int \<Rightarrow> time_point \<Rightarrow> LimiterEntry \<Rightarrow> LimiterEntry" where
  "prune_failures failure_window now e =
     e\<lparr>le_failures := dropWhile (\<lambda>t. t \<le> now - failure_window) (le_failures e)\<rparr>"

definition limiter_allowed :: "string \<Rightarrow> time_point \<Rightarrow> AuthRateLimiter \<Rightarrow> bool \<times> AuthRateLimiter" where
  "limiter_allowed key now l =
     (case map_of (rl_entries l) key of
        None \<Rightarrow> (True, l)
      | Some e \<Rightarrow>
          let e' = (prune_failures (rl_failure_window l) now e)\<lparr>le_last_seen := now\<rparr>
          in (le_blocked_until e' \<le> now,
              l\<lparr>rl_entries := AList.update key e' (rl_entries l)\<rparr>))"

text \<open>
  \<open>oldest\<close> walks the entries in iteration order and keeps the first that was seen least recently.
\<close>

fun oldest_entry :: "string \<times> LimiterEntry \<Rightarrow> (string \<times> LimiterEntry) list \<Rightarrow> string \<times> LimiterEntry" where
  "oldest_entry oldest [] = oldest"
| "oldest_entry oldest (e # es) =
     oldest_entry (if le_last_seen (snd e) < le_last_seen (snd oldest) then e else oldest) es"

definition evict_one ::
  "((string \<times> LimiterEntry) list \<Rightarrow> (string \<times> LimiterEntry) list) \<Rightarrow>
   (string, LimiterEntry) umap \<Rightarrow> (string, LimiterEntry) umap" where
  "evict_one order entries =
     (case order entries of
        [] \<Rightarrow> entries
      | e # es \<Rightarrow> AList.delete (fst (oldest_entry e es)) entries)"

definition limiter_record_failure ::
  "((string \<times> LimiterEntry) list \<Rightarrow> (string \<times> LimiterEntry) list) \<Rightarrow>
   string \<Rightarrow> time_point \<Rightarrow> AuthRateLimiter \<Rightarrow> AuthRateLimiter" where
  "limiter_record_failure order key now l =
     (let entries = (if map_of (rl_entries l) key = None \<and> rl_max_entries l \<le> length (rl_entries l)
                     then evict_one order (rl_entries l) else rl_entries l);
          e = (case map_of entries key of None \<Rightarrow> new_limiter_entry | Some e \<Rightarrow> e);
          e1 = prune_failures (rl_failure_window l) now e;
          e2 = e1\<lparr>le_failures := le_failures e1 @ [now], le_last_seen := now\<rparr>;
          e3 = (if rl_max_failures l \<le> length (le_failures e2)
                then e2\<lparr>le_blocked_until := now + rl_block_duration l, le_failures := []\<rparr>
                else e2)
      in l\<lparr>rl_entries := AList.update key e3 entries\<rparr>)"

definition limiter_record_success :: "string \<Rightarrow> AuthRateLimiter \<Rightarrow> AuthRateLimiter" where
  "limiter_record_success key l = l\<lparr>rl_entries := AList.delete key (rl_entries l)\<rparr>"

definition limiter_size :: "AuthRateLimiter \<Rightarrow> nat" where
  "limiter_size l = length (rl_entries l)"

section \<open>What is authenticated\<close>

text \<open>
  The two kinds of proof and the bytes each authenticates.
\<close>

datatype AuthClaim =
  ControlClaim string string i64 bytes CapabilitySet
| WorkerClaim string string u64 string i64 bytes

fun claim_input :: "AuthClaim \<Rightarrow> bytes" where
  "claim_input (ControlClaim c s t n caps) =
     write_u16 kProtocolVersion @ enc_text c @ enc_text s @ write_u64 t @ enc_bytes n @ write_u64 caps"
| "claim_input (WorkerClaim c s g w t n) =
     enc_text ''minitun-worker-auth'' @ write_u16 kProtocolVersion @ enc_text c @ enc_text s @
     write_u64 g @ enc_text w @ write_u64 t @ enc_bytes n"

fun valid_claim :: "AuthClaim \<Rightarrow> bool" where
  "valid_claim (ControlClaim c s t n caps) \<longleftrightarrow>
     valid_id_text IK_client c \<and> valid_id_text IK_server s \<and> selected_ok caps"
| "valid_claim (WorkerClaim c s g w t n) \<longleftrightarrow>
     valid_id_text IK_client c \<and> valid_id_text IK_server s \<and> valid_id_text IK_connection w \<and> g \<noteq> 0"

fun claim_nonce :: "AuthClaim \<Rightarrow> bytes" where
  "claim_nonce (ControlClaim c s t n caps) = n"
| "claim_nonce (WorkerClaim c s g w t n) = n"

fun compute_claim ::
  "(string \<Rightarrow> bytes \<Rightarrow> bytes option) \<Rightarrow> string \<Rightarrow> AuthClaim \<Rightarrow> bytes Result" where
  "compute_claim hmac token (ControlClaim c s t n caps) =
     compute_authentication_data hmac token c s t n caps"
| "compute_claim hmac token (WorkerClaim c s g w t n) =
     compute_worker_authentication_data hmac token c s g w t n"

fun verify_claim ::
  "(string \<Rightarrow> bytes \<Rightarrow> bytes option) \<Rightarrow> string \<Rightarrow> AuthClaim \<Rightarrow> bytes \<Rightarrow> bool Result" where
  "verify_claim hmac token (ControlClaim c s t n caps) candidate =
     verify_authentication_data hmac token c s t n caps candidate"
| "verify_claim hmac token (WorkerClaim c s g w t n) candidate =
     verify_worker_authentication_data hmac token c s g w t n candidate"

definition valid_token :: "string \<Rightarrow> bool" where
  "valid_token token \<longleftrightarrow> token \<noteq> [] \<and> length token \<le> 65536"

lemma worker_label_fits:
  "short_text 65535 ''minitun-worker-auth''" "length ''minitun-worker-auth'' \<le> 39"
  by (simp_all add: short_text_def ascii_plain_text ascii_def)

lemma authentication_digest_Inr:
  "authentication_digest hmac token input msg = Inr d \<longleftrightarrow>
     hmac token input = Some d \<and> length d = kAuthenticationDataSize"
  by (auto simp: authentication_digest_def split: option.splits if_splits)

lemma control_input_written:
  assumes "valid_claim (ControlClaim c s t n caps)" "length n = kAuthenticationNonceSize"
  shows "run_step (writer_write_u16 kProtocolVersion) (\<lambda>_.
         run_step (writer_write_string c) (\<lambda>_.
         run_step (writer_write_string s) (\<lambda>_.
         run_step (writer_write_u64 t) (\<lambda>_.
         run_step (writer_write_bytes n) (\<lambda>_.
         run_step (writer_write_u64 caps) (\<lambda>_. writer_finish))))))
           (new_writer kMaxPayloadSize) = Inr (claim_input (ControlClaim c s t n caps))"
  using assms id_fits [of IK_client c] id_fits [of IK_server s]
  by (simp add: write_rules kAuthenticationNonceSize_def)

lemma worker_input_written:
  assumes "valid_claim (WorkerClaim c s g w t n)" "length n = kAuthenticationNonceSize"
  shows "run_step (writer_write_string ''minitun-worker-auth'') (\<lambda>_.
         run_step (writer_write_u16 kProtocolVersion) (\<lambda>_.
         run_step (writer_write_string c) (\<lambda>_.
         run_step (writer_write_string s) (\<lambda>_.
         run_step (writer_write_u64 g) (\<lambda>_.
         run_step (writer_write_string w) (\<lambda>_.
         run_step (writer_write_u64 t) (\<lambda>_.
         run_step (writer_write_bytes n) (\<lambda>_. writer_finish))))))))
           (new_writer kMaxPayloadSize) = Inr (claim_input (WorkerClaim c s g w t n))"
  using assms id_fits [of IK_client c] id_fits [of IK_server s] id_fits [of IK_connection w]
    worker_label_fits
  by (simp add: write_rules kAuthenticationNonceSize_def)

lemma compute_claim_Inr:
  assumes "length (claim_nonce x) = kAuthenticationNonceSize"
  shows "compute_claim hmac token x = Inr d \<longleftrightarrow>
    valid_token token \<and> valid_claim x \<and> hmac token (claim_input x) = Some d \<and>
    length d = kAuthenticationDataSize"
proof (cases x)
  case [simp]: (ControlClaim c s t n caps)
  show ?thesis
  proof (cases "valid_claim x")
    case True
    then show ?thesis
      using assms
      by (auto simp: compute_authentication_data_def control_input_written valid_token_def
          authentication_digest_Inr selected_ok_def and_then_Inr_iff)
  next
    case False
    then show ?thesis
      by (auto simp: compute_authentication_data_def selected_ok_def split: if_splits)
  qed
next
  case [simp]: (WorkerClaim c s g w t n)
  show ?thesis
  proof (cases "valid_claim x")
    case True
    then show ?thesis
      using assms
      by (auto simp: compute_worker_authentication_data_def worker_input_written valid_token_def
          authentication_digest_Inr and_then_Inr_iff)
  next
    case False
    then show ?thesis
      by (auto simp: compute_worker_authentication_data_def split: if_splits)
  qed
qed

lemma verify_claim_compute:
  "verify_claim hmac token x candidate = Inr b \<longleftrightarrow>
     (\<exists>d. compute_claim hmac token x = Inr d \<and> b = memory_equal d candidate (length d))"
  by (cases x) (auto simp: verify_authentication_data_def verify_worker_authentication_data_def
      and_then_Inr_iff)

lemma verify_claim_True:
  assumes "length candidate = kAuthenticationDataSize" "length (claim_nonce x) = kAuthenticationNonceSize"
  shows "verify_claim hmac token x candidate = Inr True \<longleftrightarrow>
    valid_token token \<and> valid_claim x \<and> hmac token (claim_input x) = Some candidate"
  using assms by (auto simp: verify_claim_compute compute_claim_Inr memory_equal_def)

lemma enc_nonce_inject:
  assumes "length n = kAuthenticationNonceSize" "length n' = kAuthenticationNonceSize"
  shows "enc_bytes n @ x = enc_bytes n' @ y \<longleftrightarrow> n = n' \<and> x = y" "enc_bytes n = enc_bytes n' \<longleftrightarrow> n = n'"
proof -
  show "enc_bytes n @ x = enc_bytes n' @ y \<longleftrightarrow> n = n' \<and> x = y" for x y
    using assms by (rule field_nonce.enc_append_inject)
  from this [of "[]" "[]"] show "enc_bytes n = enc_bytes n' \<longleftrightarrow> n = n'" by simp
qed

lemma enc_id_inject:
  assumes "valid_id_text k t" "valid_id_text k' t'"
  shows "enc_text t @ x = enc_text t' @ y \<longleftrightarrow> t = t' \<and> x = y" "enc_text t = enc_text t' \<longleftrightarrow> t = t'"
proof -
  show "enc_text t @ x = enc_text t' @ y \<longleftrightarrow> t = t' \<and> x = y" for x y
    using assms
    by (intro field_text.enc_append_inject [of 39]) (simp_all add: valid_id_text_short)
  from this [of "[]" "[]"] show "enc_text t = enc_text t' \<longleftrightarrow> t = t'" by simp
qed

lemmas enc_ids_inject = enc_id_inject [of IK_client _ IK_client]
  enc_id_inject [of IK_server _ IK_server] enc_id_inject [of IK_connection _ IK_connection]

lemma write_u64_inject: "write_u64 v @ x = write_u64 v' @ y \<longleftrightarrow> v = v' \<and> x = y"
  by (rule field_u64.enc_append_inject) simp_all

lemma claim_kinds_differ: "claim_input (ControlClaim c s t n caps) \<noteq> claim_input (WorkerClaim c' s' g w t' n')"
  by (simp add: enc_text_def enc_bytes_def kProtocolVersion_def write_u16_def)

lemma claim_input_inject:
  assumes "valid_claim x" "valid_claim y" "length (claim_nonce x) = kAuthenticationNonceSize"
    "length (claim_nonce y) = kAuthenticationNonceSize" "claim_input x = claim_input y"
  shows "x = y"
proof (cases x)
  case x: (ControlClaim c s t n caps)
  then show ?thesis
  proof (cases y)
    case (ControlClaim c' s' t' n' caps')
    with x assms show ?thesis
      using write_u64_inject [of caps "[]" caps' "[]"]
      by (simp add: enc_ids_inject write_u64_inject enc_nonce_inject)
  next
    case (WorkerClaim c' s' g w t' n')
    with x assms show ?thesis using claim_kinds_differ by metis
  qed
next
  case x: (WorkerClaim c s g w t n)
  then show ?thesis
  proof (cases y)
    case (WorkerClaim c' s' g' w' t' n')
    with x assms show ?thesis
      by (simp add: enc_ids_inject write_u64_inject enc_nonce_inject)
  next
    case (ControlClaim c' s' t' n' caps)
    with x assms show ?thesis using claim_kinds_differ by metis
  qed
qed

text \<open>
  C17: A proof stands for the fields it was made for.  If a proof was computed for one set of fields
  and is accepted for another, and the message authentication code does not collide on the two
  inputs, then they are the same kind of proof with the same client, server, Worker, generation,
  timestamp, nonce and capabilities: the input encoding is injective, and control and Worker
  proofs are never interchangeable.
\<close>

theorem authentication_binds:
  assumes "compute_claim hmac token x = Inr pf" "verify_claim hmac token y pf = Inr True"
    and "length (claim_nonce x) = kAuthenticationNonceSize"
      "length (claim_nonce y) = kAuthenticationNonceSize"
    and "hmac token (claim_input x) = hmac token (claim_input y) \<longrightarrow> claim_input x = claim_input y"
  shows "x = y"
  using assms claim_input_inject [of x y]
  by (simp add: compute_claim_Inr verify_claim_True)

text \<open>A toy code that keeps the first bytes of the input, enough to tell two timestamps apart.\<close>

definition sample_hmac :: "string \<Rightarrow> bytes \<Rightarrow> bytes option" where
  "sample_hmac token input = Some (take 32 input @ replicate (32 - length input) 0)"

definition sample_claim :: AuthClaim where
  "sample_claim = ControlClaim (sample_id IK_client) (sample_id IK_server) 7 (replicate 32 1) kRequiredCapabilities"

theorem authentication_binds_witness:
  "\<exists>pf. compute_claim sample_hmac ''secret'' sample_claim = Inr pf \<and>
     verify_claim sample_hmac ''secret'' sample_claim pf = Inr True \<and> sample_claim = sample_claim"
proof -
  have len: "length (claim_nonce sample_claim) = kAuthenticationNonceSize"
    by (simp add: sample_claim_def kAuthenticationNonceSize_def)
  have valid: "valid_claim sample_claim" "valid_token ''secret''"
    by (simp_all add: sample_claim_def selected_ok_def valid_token_def kRequiredCapabilities_def
        kSupportedCapabilities_def)
  obtain pf where p: "sample_hmac ''secret'' (claim_input sample_claim) = Some pf"
    "length pf = kAuthenticationDataSize"
    by (simp add: sample_hmac_def kAuthenticationDataSize_def)
  have c: "compute_claim sample_hmac ''secret'' sample_claim = Inr pf"
    using valid p len by (simp add: compute_claim_Inr)
  have v: "verify_claim sample_hmac ''secret'' sample_claim pf = Inr True"
    using valid p len by (simp add: verify_claim_True)
  show ?thesis using c v authentication_binds [OF c v len len] by blast
qed

end
