(* ===== verification/Auth_Replay.thy ===== *)
theory Auth_Replay
  imports Auth
begin

text \<open>
  The replay cache of \<open>src/protocol/auth.cpp\<close> against its specification: the list of all accepted
  nonces with their times, from which nothing is ever removed.  Under a clock that does not run
  backwards the cache returns what the specification returns; a nonce is refused for the whole
  retention time even when the calls of several threads carry slightly older times.
\<close>

section \<open>Keys\<close>

lemma replay_key_inject:
  assumes "valid_id_text IK_client c" "valid_id_text IK_client c'"
  shows "replay_key c n = replay_key c' n' \<longleftrightarrow> c = c' \<and> n = n'"
proof -
  have "length c = length c'"
    using assms by (auto simp: valid_id_text_iff)
  then show ?thesis by (auto simp: replay_key_def dest: arg_cong [of _ _ bytes_of_string])
qed

section \<open>Invariant\<close>

definition replay_inv :: "NonceReplayCache \<Rightarrow> bool" where
  "replay_inv c \<longleftrightarrow>
     rc_entries c = map (\<lambda>e. (re_key e, e)) (rc_order c) \<and> distinct (map re_key (rc_order c)) \<and>
     length (rc_order c) \<le> rc_max_entries c \<and> 0 < rc_max_entries c \<and> 0 < rc_retention c"

lemma new_replay_cache_inv: "replay_inv (new_replay_cache max_entries retention)"
  by (simp add: replay_inv_def new_replay_cache_def seconds_def)

lemma drop_expired_eq:
  assumes "distinct (map re_key es)"
  shows "drop_expired now es (map (\<lambda>e. (re_key e, e)) es) =
    (let es' = dropWhile (\<lambda>e. re_expires_at e \<le> now) es in (es', map (\<lambda>e. (re_key e, e)) es'))"
  using assms
proof (induction es)
  case (Cons e es)
  then have "AList.delete (re_key e) (map (\<lambda>e. (re_key e, e)) es) = map (\<lambda>e. (re_key e, e)) es"
    by (intro delete_absent) (auto simp: map_of_None_keys)
  with Cons show ?case by simp
qed simp

lemma key_present: "map_of (map (\<lambda>e. (re_key e, e)) es) k \<noteq> None \<longleftrightarrow> k \<in> re_key ` set es"
  by (auto simp: map_of_eq_None_iff image_image)

lemma replay_consume_eq:
  assumes "replay_inv c"
  shows "replay_consume client nonce now c =
    (if \<not> valid_id_text IK_client client
     then (failure EC_invalid_argument ''authentication replay client ID is invalid'', c)
     else let es = dropWhile (\<lambda>e. re_expires_at e \<le> now) (rc_order c);
              key = replay_key client nonce;
              c' = c\<lparr>rc_order := es, rc_entries := map (\<lambda>e. (re_key e, e)) es\<rparr>
          in if key \<in> re_key ` set es then (Inr False, c')
             else if rc_max_entries c \<le> length es
             then (failure EC_resource_exhausted
                     ''authentication replay cache reached its configured limit'', c')
             else let es' = es @ [\<lparr>re_key = key, re_expires_at = now + rc_retention c\<rparr>]
                  in (Inr True, c\<lparr>rc_order := es', rc_entries := map (\<lambda>e. (re_key e, e)) es'\<rparr>))"
proof -
  have c: "rc_entries c = map (\<lambda>e. (re_key e, e)) (rc_order c)" "distinct (map re_key (rc_order c))"
    using assms by (simp_all add: replay_inv_def)
  have upd: "AList.update k e (map (\<lambda>e. (re_key e, e)) es) = map (\<lambda>e. (re_key e, e)) (es @ [e])"
    if "k \<notin> re_key ` set es" "k = re_key e" for k e es
    using that by (induction es) auto
  show ?thesis
    by (simp add: replay_consume_def c drop_expired_eq Let_def key_present upd
        del: not_None_eq map_append)
qed

lemma set_dropWhile_subset: "set (dropWhile P xs) \<subseteq> set xs"
  by (auto dest: set_dropWhileD)

lemma distinct_map_dropWhile: "distinct (map f xs) \<Longrightarrow> distinct (map f (dropWhile P xs))"
  by (metis distinct_append map_append takeWhile_dropWhile_id)

lemma replay_consume_inv:
  assumes "replay_inv c"
  shows "replay_inv (snd (replay_consume client nonce now c))"
proof -
  have "length (dropWhile (\<lambda>e. re_expires_at e \<le> now) (rc_order c)) \<le> rc_max_entries c"
    using assms by (auto simp: replay_inv_def intro: order.trans length_dropWhile_le)
  with assms show ?thesis
    unfolding replay_consume_eq [OF assms] Let_def
    by (auto simp: replay_inv_def distinct_map_dropWhile)
qed

lemma replay_consume_options [simp]:
  "rc_retention (snd (replay_consume client nonce now c)) = rc_retention c"
  "rc_max_entries (snd (replay_consume client nonce now c)) = rc_max_entries c"
  by (simp_all add: replay_consume_def Let_def split: prod.splits)

section \<open>Sequences of calls\<close>

type_synonym consume_call = "string \<times> bytes \<times> time_point"

fun replay_run :: "consume_call list \<Rightarrow> NonceReplayCache \<Rightarrow> bool Result list \<times> NonceReplayCache" where
  "replay_run [] c = ([], c)"
| "replay_run ((client, nonce, now) # calls) c =
     (case replay_consume client nonce now c of
        (r, c') \<Rightarrow> (case replay_run calls c' of (rs, c'') \<Rightarrow> (r # rs, c'')))"

lemma replay_run_Cons:
  "fst (replay_run ((client, nonce, now) # calls) c) =
     fst (replay_consume client nonce now c) #
     fst (replay_run calls (snd (replay_consume client nonce now c)))"
  "snd (replay_run ((client, nonce, now) # calls) c) =
     snd (replay_run calls (snd (replay_consume client nonce now c)))"
  by (simp_all split: prod.splits)

declare replay_run.simps(2) [simp del] replay_run_Cons [simp]

lemma replay_run_inv: "replay_inv c \<Longrightarrow> replay_inv (snd (replay_run calls c))"
proof (induction calls arbitrary: c)
  case (Cons call calls)
  then show ?case by (cases call) (simp add: replay_consume_inv)
qed simp

lemma replay_run_keeps:
  assumes "replay_inv c" "e \<in> set (rc_order c)" "\<forall>(_, _, t) \<in> set calls. t < re_expires_at e"
  shows "e \<in> set (rc_order (snd (replay_run calls c)))"
  using assms
proof (induction calls arbitrary: c)
  case (Cons call calls)
  obtain client nonce now where call: "call = (client, nonce, now)" by (cases call)
  with Cons.prems have now: "\<not> re_expires_at e \<le> now" by auto
  have "e \<in> set (dropWhile (\<lambda>e. re_expires_at e \<le> now) (rc_order c))"
    using Cons.prems(2) now
    by (metis (no_types, lifting) Un_iff set_append set_takeWhileD takeWhile_dropWhile_id)
  then have "e \<in> set (rc_order (snd (replay_consume client nonce now c)))"
    using Cons.prems(2) unfolding replay_consume_eq [OF Cons.prems(1)] Let_def by auto
  with Cons.IH [OF replay_consume_inv [OF Cons.prems(1)]] Cons.prems(3) show ?case
    by (auto simp: call)
qed simp

text \<open>
  C18: No nonce is accepted twice within the retention time.  After any calls on a new cache, once
  a client's nonce is accepted at time \<open>t\<close>, a later call with the same client and nonce returns
  false, whatever calls come in between, as long as they and the replay happen before \<open>t\<close> plus the
  retention time.  The calls need not be in the order of their times.
\<close>

theorem nonce_not_reused:
  assumes "replay_consume client nonce t (snd (replay_run earlier (new_replay_cache n retention))) =
      (Inr True, c)"
    and "\<forall>(_, _, t') \<in> set between. t' < t + rc_retention c" "t'' < t + rc_retention c"
  shows "fst (replay_consume client nonce t'' (snd (replay_run between c))) = Inr False"
proof -
  let ?c0 = "snd (replay_run earlier (new_replay_cache n retention))"
  let ?e = "\<lparr>re_key = replay_key client nonce, re_expires_at = t + rc_retention c\<rparr>"
  have inv0: "replay_inv ?c0" by (rule replay_run_inv) (rule new_replay_cache_inv)
  have ret: "rc_retention c = rc_retention ?c0"
    using replay_consume_options(1) [of client nonce t ?c0] assms(1) by simp
  have valid: "valid_id_text IK_client client" and e: "?e \<in> set (rc_order c)"
    using assms(1) unfolding replay_consume_eq [OF inv0] Let_def ret
    by (auto simp: Let_def split: if_splits)
  have inv: "replay_inv c" using replay_consume_inv [OF inv0, of client nonce t] assms(1) by simp
  let ?c1 = "snd (replay_run between c)"
  have "?e \<in> set (rc_order ?c1)"
    using replay_run_keeps [OF inv e] assms(2) by simp
  then have "?e \<in> set (dropWhile (\<lambda>e. re_expires_at e \<le> t'') (rc_order ?c1))"
    using assms(3)
    by (metis (no_types, lifting) ReplayEntry.select_convs(2) Un_iff leD set_append set_takeWhileD
        takeWhile_dropWhile_id)
  then have "replay_key client nonce \<in> re_key ` set (dropWhile (\<lambda>e. re_expires_at e \<le> t'') (rc_order ?c1))"
    by (metis ReplayEntry.select_convs(1) image_eqI)
  then show ?thesis
    using valid by (simp add: replay_consume_eq [OF replay_run_inv [OF inv]] Let_def)
qed

theorem nonce_not_reused_witness:
  "\<exists>c. replay_consume (sample_id IK_client) [1] 0 (snd (replay_run [] (new_replay_cache 4 10))) =
       (Inr True, c) \<and>
     fst (replay_consume (sample_id IK_client) [1] 9
       (snd (replay_run [(sample_id IK_client, [2], 7), (sample_id IK_client, [3], 5)] c))) = Inr False"
proof -
  obtain c where c: "replay_consume (sample_id IK_client) [1] 0
      (snd (replay_run [] (new_replay_cache 4 10))) = (Inr True, c)" and "rc_retention c = 10"
    by (simp add: replay_consume_eq new_replay_cache_inv Let_def)
       (simp add: new_replay_cache_def)
  then show ?thesis
    using c nonce_not_reused [OF c,
      of "[(sample_id IK_client, [2], 7), (sample_id IK_client, [3], 5)]" 9] by auto
qed

section \<open>Refinement\<close>

text \<open>
  The specification keeps every accepted key with its time; a key is live at \<open>now\<close> while its
  retention time has not passed.
\<close>

definition live_keys :: "int \<Rightarrow> time_point \<Rightarrow> (string \<times> time_point) list \<Rightarrow> string list" where
  "live_keys retention now accepted = map fst (filter (\<lambda>(_, t). now < t + retention) accepted)"

definition spec_consume ::
  "nat \<Rightarrow> int \<Rightarrow> consume_call \<Rightarrow> (string \<times> time_point) list \<Rightarrow>
   bool Result \<times> (string \<times> time_point) list" where
  "spec_consume max_entries retention call accepted =
     (case call of (client, nonce, now) \<Rightarrow>
        if \<not> valid_id_text IK_client client
        then (failure EC_invalid_argument ''authentication replay client ID is invalid'', accepted)
        else if replay_key client nonce \<in> set (live_keys retention now accepted)
        then (Inr False, accepted)
        else if max_entries \<le> length (live_keys retention now accepted)
        then (failure EC_resource_exhausted
                ''authentication replay cache reached its configured limit'', accepted)
        else (Inr True, accepted @ [(replay_key client nonce, now)]))"

fun spec_run ::
  "nat \<Rightarrow> int \<Rightarrow> consume_call list \<Rightarrow> (string \<times> time_point) list \<Rightarrow> bool Result list" where
  "spec_run n retention [] accepted = []"
| "spec_run n retention (call # calls) accepted =
     fst (spec_consume n retention call accepted) #
     spec_run n retention calls (snd (spec_consume n retention call accepted))"

definition entry_of :: "int \<Rightarrow> string \<times> time_point \<Rightarrow> ReplayEntry" where
  "entry_of retention = (\<lambda>(k, t). \<lparr>re_key = k, re_expires_at = t + retention\<rparr>)"

text \<open>
  The list of the cache is what the specification has accepted, without a front part that has
  expired by \<open>now\<close>.
\<close>

definition replay_sim :: "time_point \<Rightarrow> NonceReplayCache \<Rightarrow> (string \<times> time_point) list \<Rightarrow> bool" where
  "replay_sim now c accepted \<longleftrightarrow> replay_inv c \<and> sorted (map snd accepted) \<and>
     (\<forall>(_, t) \<in> set accepted. t \<le> now) \<and>
     (\<exists>gone kept. accepted = gone @ kept \<and> rc_order c = map (entry_of (rc_retention c)) kept \<and>
        (\<forall>(_, t) \<in> set gone. t + rc_retention c \<le> now))"

lemma sorted_above:
  fixes b :: "'a :: linorder"
  assumes "sorted (map f (x # xs))" "\<not> f x \<le> b"
  shows "filter (\<lambda>x. f x \<le> b) xs = []" "filter (\<lambda>x. \<not> f x \<le> b) xs = xs"
proof -
  have "\<forall>y \<in> set xs. \<not> f y \<le> b" using assms by auto
  then show "filter (\<lambda>x. f x \<le> b) xs = []" "filter (\<lambda>x. \<not> f x \<le> b) xs = xs"
    by (simp_all add: filter_empty_conv filter_id_conv)
qed

lemma dropWhile_sorted_filter:
  "sorted (map f xs) \<Longrightarrow> dropWhile (\<lambda>x. f x \<le> b) xs = filter (\<lambda>x. \<not> f x \<le> b) xs"
  for b :: "'a :: linorder"
proof (induction xs)
  case (Cons x xs)
  then show ?case using sorted_above [of f x xs b] by (cases "f x \<le> b") auto
qed simp

lemma sorted_split_filter:
  "sorted (map f xs) \<Longrightarrow> xs = filter (\<lambda>x. f x \<le> b) xs @ filter (\<lambda>x. \<not> f x \<le> b) xs"
  for b :: "'a :: linorder"
proof (induction xs)
  case (Cons x xs)
  then show ?case using sorted_above [of f x xs b] by (cases "f x \<le> b") auto
qed simp

lemma replay_sim_live:
  assumes "replay_sim t0 c accepted" "t0 \<le> now"
  shows "dropWhile (\<lambda>e. re_expires_at e \<le> now) (rc_order c) =
    map (entry_of (rc_retention c)) (filter (\<lambda>(_, t). now < t + rc_retention c) accepted)"
proof -
  let ?r = "rc_retention c"
  obtain gone kept where split: "accepted = gone @ kept" "rc_order c = map (entry_of ?r) kept"
    and gone: "\<forall>(_, t) \<in> set gone. t + ?r \<le> t0"
    using assms(1) by (auto simp: replay_sim_def)
  have "sorted (map snd kept)" using assms(1) split(1) by (simp add: replay_sim_def sorted_append)
  then have "sorted (map (\<lambda>x. snd x + ?r) kept)" by (simp add: sorted_map)
  then have "dropWhile (\<lambda>x. snd x + ?r \<le> now) kept = filter (\<lambda>x. \<not> snd x + ?r \<le> now) kept"
    by (rule dropWhile_sorted_filter)
  moreover have "(\<lambda>e. re_expires_at e \<le> now) \<circ> entry_of ?r = (\<lambda>x. snd x + ?r \<le> now)"
    by (auto simp: entry_of_def)
  moreover have "filter (\<lambda>(_, t). now < t + ?r) gone = []"
    using gone assms(2) by (auto simp: filter_empty_conv)
  ultimately show ?thesis
    by (simp add: split dropWhile_map case_prod_beta' not_le)
qed

lemma re_key_entry_of: "map re_key (map (entry_of r) xs) = map fst xs" "re_key ` entry_of r ` A = fst ` A"
  by (auto simp: entry_of_def image_image case_prod_beta')

lemma replay_sim_mono: "replay_sim t0 c accepted \<Longrightarrow> t0 \<le> now \<Longrightarrow> replay_sim now c accepted"
  by (fastforce simp: replay_sim_def)

lemma replay_sim_step:
  assumes "replay_sim t0 c accepted" "t0 \<le> now"
    and "spec_consume (rc_max_entries c) (rc_retention c) (client, nonce, now) accepted = (r, accepted')"
  shows "fst (replay_consume client nonce now c) = r \<and>
    replay_sim now (snd (replay_consume client nonce now c)) accepted'"
proof -
  let ?r = "rc_retention c"
  let ?dead = "filter (\<lambda>(_, t). \<not> now < t + ?r) accepted"
  let ?live = "filter (\<lambda>(_, t). now < t + ?r) accepted"
  have inv: "replay_inv c" and sorted: "sorted (map snd accepted)"
    and past: "\<forall>(_, t) \<in> set accepted. t \<le> now"
    using assms(1,2) by (auto simp: replay_sim_def)
  have "sorted (map (\<lambda>x. snd x + ?r) accepted)" using sorted by (simp add: sorted_map)
  then have split: "accepted = ?dead @ ?live"
    using sorted_split_filter [of "\<lambda>x. snd x + ?r" accepted now] by (simp add: case_prod_beta' not_less not_le)
  define L where "L = ?live"
  note live = replay_sim_live [OF assms(1,2), folded L_def]
  have keys: "re_key ` set (map (entry_of ?r) L) = set (live_keys ?r now accepted)"
    "length (map (entry_of ?r) L) = length (live_keys ?r now accepted)"
    by (simp_all add: live_keys_def L_def re_key_entry_of)
  have inv': "replay_inv (snd (replay_consume client nonce now c))"
    using inv by (rule replay_consume_inv)
  have sim: "\<exists>gone kept. accepted @ new = gone @ kept \<and> map (entry_of ?r) (?live @ new) = map (entry_of ?r) kept \<and>
      (\<forall>(_, t) \<in> set gone. t + ?r \<le> now)" for new
    by (rule exI [of _ ?dead], rule exI [of _ "?live @ new"]) (use split in auto)
  have spec: "spec_consume (rc_max_entries c) ?r (client, nonce, now) accepted = (r, accepted')"
    by (rule assms(3))
  have step: "replay_consume client nonce now c =
      (if \<not> valid_id_text IK_client client then (r, c)
       else (r, c\<lparr>rc_order := map (entry_of ?r) (L @ drop (length accepted) accepted'),
         rc_entries := map (\<lambda>e. (re_key e, e)) (map (entry_of ?r) (L @ drop (length accepted) accepted'))\<rparr>))"
    using spec unfolding replay_consume_eq [OF inv] Let_def live keys spec_consume_def
    by (auto simp: entry_of_def split: if_splits)
  have accepted': "accepted' = accepted \<or> accepted' = accepted @ [(replay_key client nonce, now)]"
    using spec by (auto simp: spec_consume_def split: if_splits)
  show ?thesis
  proof (cases "valid_id_text IK_client client")
    case False
    with spec have "accepted' = accepted" by (simp add: spec_consume_def)
    with False step replay_sim_mono [OF assms(1,2)] show ?thesis by simp
  next
    case True
    obtain new where new: "accepted' = accepted @ new" "new = [] \<or> new = [(replay_key client nonce, now)]"
      using accepted' by auto
    let ?c' = "snd (replay_consume client nonce now c)"
    have order: "rc_order ?c' = map (entry_of ?r) (L @ new)" "rc_retention ?c' = ?r"
      using True step new(1) by simp_all
    have "sorted (map snd accepted')" "\<forall>(_, t) \<in> set accepted'. t \<le> now"
      using new sorted past by (auto simp: sorted_append)
    then have "replay_sim now ?c' accepted'"
      unfolding replay_sim_def order new(1) using inv' sim [of new, folded L_def] by blast
    then show ?thesis using True step by simp
  qed
qed

lemma replay_run_refines:
  assumes "replay_sim t0 c accepted" "sorted (map (snd \<circ> snd) calls)" "\<forall>(_, _, t) \<in> set calls. t0 \<le> t"
  shows "fst (replay_run calls c) = spec_run (rc_max_entries c) (rc_retention c) calls accepted"
  using assms
proof (induction calls arbitrary: t0 c accepted)
  case (Cons call calls)
  obtain client nonce now where call: "call = (client, nonce, now)" by (cases call)
  obtain r accepted' where spec:
    "spec_consume (rc_max_entries c) (rc_retention c) (client, nonce, now) accepted = (r, accepted')"
    by (metis surj_pair)
  have "t0 \<le> now" using Cons.prems(3) by (simp add: call)
  note step = replay_sim_step [OF Cons.prems(1) this spec]
  have "\<forall>(_, _, t) \<in> set calls. now \<le> t" using Cons.prems(2) by (auto simp: call)
  with Cons.IH [OF step [THEN conjunct2]] step spec Cons.prems(2) show ?case by (simp add: call)
qed simp

text \<open>
  C19: The cache implements its specification.  For calls in the order of their times, the results
  of the cache, which prunes expired entries from the front of its list, are those of the
  specification that remembers every accepted nonce: a nonce is refused exactly while an accepted
  use of it is younger than the retention time, and the limit counts exactly the live ones.
\<close>

theorem replay_cache_refines:
  assumes "sorted (map (snd \<circ> snd) calls)"
  shows "fst (replay_run calls (new_replay_cache n retention)) =
    spec_run (max n 1) (if retention \<le> 0 then seconds 1 else retention) calls []"
proof -
  define t0 where "t0 = Min (insert 0 ((snd \<circ> snd) ` set calls))"
  have "\<forall>(_, _, t) \<in> set calls. t0 \<le> t"
    unfolding t0_def by (force intro!: Min_le)
  moreover have "replay_sim t0 (new_replay_cache n retention) []"
    using new_replay_cache_inv [of n retention] by (simp add: replay_sim_def new_replay_cache_def)
  ultimately show ?thesis
    using replay_run_refines [of t0 _ "[]" calls] assms by (simp add: new_replay_cache_def)
qed

theorem replay_cache_refines_witness:
  "fst (replay_run [(sample_id IK_client, [1], 0), (sample_id IK_client, [1], 9),
      (sample_id IK_client, [1], 10)] (new_replay_cache 4 10)) = [Inr True, Inr False, Inr True]"
  by (subst replay_cache_refines) (simp_all add: spec_consume_def live_keys_def)

end
