(* ===== verification/Leases.thy ===== *)
theory Leases
  imports Hash_Maps
begin

text \<open>
  The contract of a counter that hands out leases: \<open>ConnectionQuota\<close> and the pending slots of
  \<open>TlsAdmission\<close>.  \<open>acquire\<close> takes a slot for a key or refuses, \<open>release\<close> gives one back, \<open>other\<close>
  are the calls that do neither.  The
  locale shows once that the counters are the leases that are held, for every sequence of calls
  that releases only what it holds.
\<close>

inductive lease_run ::
  "('a \<Rightarrow> 's \<Rightarrow> 's option) \<Rightarrow> ('k \<Rightarrow> 's \<Rightarrow> 's) \<Rightarrow> ('s \<Rightarrow> 's \<Rightarrow> bool) \<Rightarrow> ('a \<Rightarrow> 'k) \<Rightarrow> 's \<Rightarrow> 's \<Rightarrow>
   'k multiset \<Rightarrow> bool"
  for acquire release other key_of s0
where
  start: "lease_run acquire release other key_of s0 s0 {#}"
| acquired: "lease_run acquire release other key_of s0 s held \<Longrightarrow> acquire a s = Some s' \<Longrightarrow>
    lease_run acquire release other key_of s0 s' (add_mset (key_of a) held)"
| released: "lease_run acquire release other key_of s0 s held \<Longrightarrow> k \<in># held \<Longrightarrow>
    lease_run acquire release other key_of s0 (release k s) (held - {#k#})"
| stepped: "lease_run acquire release other key_of s0 s held \<Longrightarrow> other s s' \<Longrightarrow>
    lease_run acquire release other key_of s0 s' held"

locale lease_counter =
  fixes acquire :: "'a \<Rightarrow> 's \<Rightarrow> 's option"
    and release :: "'k \<Rightarrow> 's \<Rightarrow> 's"
    and other :: "'s \<Rightarrow> 's \<Rightarrow> bool"
    and key_of :: "'a \<Rightarrow> 'k"
    and in_use :: "'k \<Rightarrow> 's \<Rightarrow> nat"
    and total :: "'s \<Rightarrow> nat"
    and good :: "'s \<Rightarrow> bool"
  assumes acquire_counts: "good s \<Longrightarrow> acquire a s = Some s' \<Longrightarrow>
      good s' \<and> total s' = total s + 1 \<and>
      in_use k s' = (if k = key_of a then in_use k s + 1 else in_use k s)"
    and release_counts: "good s \<Longrightarrow> 0 < in_use k s \<Longrightarrow>
      good (release k s) \<and> total (release k s) = total s - 1 \<and>
      in_use k' (release k s) = (if k' = k then in_use k s - 1 else in_use k' s)"
    and other_counts: "good s \<Longrightarrow> other s s' \<Longrightarrow>
      good s' \<and> total s' = total s \<and> in_use k s' = in_use k s"
begin

lemma counts_held:
  assumes "lease_run acquire release other key_of s0 s held" "good s0" "total s0 = 0" "\<And>k. in_use k s0 = 0"
  shows "good s \<and> total s = size held \<and> (\<forall>k. in_use k s = count held k)"
  using assms
proof (induction rule: lease_run.induct)
  case (acquired s held a s')
  then show ?case using acquire_counts [of s a s'] by simp
next
  case (released s held k)
  then have "0 < in_use k s" by simp
  then show ?case using released release_counts [of s k] by (auto simp: size_Diff_singleton)
next
  case (stepped s held s')
  then show ?case using other_counts [of s s'] by simp
qed simp

text \<open>When every lease has been given back the counter is where it started.\<close>

lemma nothing_leaks:
  assumes "lease_run acquire release other key_of s0 s {#}" "good s0" "total s0 = 0" "\<And>k. in_use k s0 = 0"
  shows "total s = 0 \<and> (\<forall>k. in_use k s = 0)"
  using counts_held [OF assms] by simp

end

end
