(* ===== verification/Connection_Quota.thy ===== *)
theory Connection_Quota
  imports Leases Ids
begin

text \<open>
  \<open>include/minitun/server/connection_quota.hpp\<close> and \<open>src/server/connection_quota.cpp\<close>: the limit on
  public connections per client and in total, and the lease that returns its slot when it is
  destroyed.  A call holds the mutex for its whole body, so calls are steps of a sequence.  A
  \<open>Lease\<close> that holds no quota is \<open>no_lease\<close>; moving from a lease leaves it so.
\<close>

record ConnectionQuota =
  cq_max_per_client :: nat
  cq_max_total :: nat
  cq_clients :: "(string, nat) umap"
  cq_total :: nat

record Lease =
  lease_implementation :: bool
  lease_client_id :: string

definition new_connection_quota :: "nat \<Rightarrow> nat \<Rightarrow> ConnectionQuota" where
  "new_connection_quota max_per_client max_total =
     \<lparr>cq_max_per_client = max_per_client, cq_max_total = max_total, cq_clients = [], cq_total = 0\<rparr>"

definition quota_acquire :: "string \<Rightarrow> nat \<Rightarrow> ConnectionQuota \<Rightarrow> unit Result \<times> ConnectionQuota" where
  "quota_acquire client_id max_for_client q =
     (if \<not> has_value (id_parse_kind client_id IK_client)
      then (failure EC_invalid_argument ''connection quota client ID is invalid'', q)
      else if max_for_client = 0 \<or> cq_max_per_client q < max_for_client
      then (failure EC_invalid_argument ''connection quota override is invalid'', q)
      else (let client_count = (case map_of (cq_clients q) client_id of None \<Rightarrow> 0 | Some n \<Rightarrow> n)
            in if cq_max_total q \<le> cq_total q \<or> max_for_client \<le> client_count
               then (failure EC_resource_exhausted ''connection quota has been reached'', q)
               else (Inr (), q\<lparr>cq_total := cq_total q + 1,
                               cq_clients := AList.update client_id
                                 (case map_of (cq_clients q) client_id of None \<Rightarrow> 1 | Some n \<Rightarrow> n + 1)
                                 (cq_clients q)\<rparr>)))"

definition quota_release :: "string \<Rightarrow> ConnectionQuota \<Rightarrow> ConnectionQuota" where
  "quota_release client_id q =
     (case map_of (cq_clients q) client_id of
        None \<Rightarrow> q
      | Some n \<Rightarrow>
          if n = 0 \<or> cq_total q = 0 then q
          else q\<lparr>cq_total := cq_total q - 1,
                 cq_clients := (if n - 1 = 0 then AList.delete client_id (cq_clients q)
                                else AList.update client_id (n - 1) (cq_clients q))\<rparr>)"

definition total_in_use :: "ConnectionQuota \<Rightarrow> nat" where
  "total_in_use q = cq_total q"

definition client_in_use :: "string \<Rightarrow> ConnectionQuota \<Rightarrow> nat" where
  "client_in_use client_id q = (case map_of (cq_clients q) client_id of None \<Rightarrow> 0 | Some n \<Rightarrow> n)"

definition no_lease :: Lease where
  "no_lease = \<lparr>lease_implementation = False, lease_client_id = []\<rparr>"

definition try_acquire_for :: "string \<Rightarrow> nat \<Rightarrow> ConnectionQuota \<Rightarrow> Lease Result \<times> ConnectionQuota" where
  "try_acquire_for client_id max_for_client q =
     (case quota_acquire client_id max_for_client q of
        (Inl e, q') \<Rightarrow> (Inl e, q')
      | (Inr _, q') \<Rightarrow> (Inr \<lparr>lease_implementation = True, lease_client_id = client_id\<rparr>, q'))"

definition try_acquire :: "string \<Rightarrow> ConnectionQuota \<Rightarrow> Lease Result \<times> ConnectionQuota" where
  "try_acquire client_id q = try_acquire_for client_id (cq_max_per_client q) q"

definition lease_release :: "Lease \<Rightarrow> ConnectionQuota \<Rightarrow> Lease \<times> ConnectionQuota" where
  "lease_release lease q =
     (if \<not> lease_implementation lease then (lease, q)
      else (no_lease, quota_release (lease_client_id lease) q))"

text \<open>Move construction gives the new lease and what the source is left as.\<close>

definition lease_move :: "Lease \<Rightarrow> Lease \<times> Lease" where
  "lease_move other = (other, no_lease)"

text \<open>\<open>self = std::move(other)\<close> for two different objects: the new values of both.\<close>

definition lease_assign :: "Lease \<Rightarrow> Lease \<Rightarrow> ConnectionQuota \<Rightarrow> Lease \<times> Lease \<times> ConnectionQuota" where
  "lease_assign self other q = (case lease_release self q of (_, q') \<Rightarrow> (other, no_lease, q'))"

section \<open>The counters\<close>

definition quota_ok :: "ConnectionQuota \<Rightarrow> bool" where
  "quota_ok q \<longleftrightarrow> keys_ok (cq_clients q) \<and> cq_total q = counted (cq_clients q) \<and>
     cq_total q \<le> cq_max_total q \<and>
     (\<forall>k n. map_of (cq_clients q) k = Some n \<longrightarrow> 0 < n \<and> n \<le> cq_max_per_client q)"

definition acquire_slot :: "string \<times> nat \<Rightarrow> ConnectionQuota \<Rightarrow> ConnectionQuota option" where
  "acquire_slot = (\<lambda>(client, max_for_client) q.
     case quota_acquire client max_for_client q of (Inr _, q') \<Rightarrow> Some q' | (Inl _, _) \<Rightarrow> None)"

definition acquire_refused :: "ConnectionQuota \<Rightarrow> ConnectionQuota \<Rightarrow> bool" where
  "acquire_refused q q' \<longleftrightarrow> (\<exists>client m e. quota_acquire client m q = (Inl e, q'))"

lemma new_connection_quota_ok [simp]: "quota_ok (new_connection_quota a b)"
  by (simp add: quota_ok_def new_connection_quota_def)

lemma quota_acquire_Inr:
  "quota_acquire client m q = (Inr u, q') \<longleftrightarrow>
     valid_id_text IK_client client \<and> 0 < m \<and> m \<le> cq_max_per_client q \<and>
     cq_total q < cq_max_total q \<and> client_in_use client q < m \<and>
     q' = q\<lparr>cq_total := cq_total q + 1,
             cq_clients := AList.update client (client_in_use client q + 1) (cq_clients q)\<rparr>"
  by (auto simp: quota_acquire_def client_in_use_def Let_def not_le not_less
      split: if_splits option.splits)

lemma quota_acquire_Inl: "quota_acquire client m q = (Inl e, q') \<Longrightarrow> q' = q"
  by (auto simp: quota_acquire_def Let_def split: if_splits)

lemma client_in_use_le: "quota_ok q \<Longrightarrow> client_in_use k q \<le> cq_total q"
  by (auto simp: quota_ok_def client_in_use_def counted_ge split: option.split)

lemma quota_acquire_ok:
  assumes "quota_ok q" "quota_acquire client m q = (Inr u, q')"
  shows "quota_ok q' \<and> cq_total q' = cq_total q + 1 \<and>
    client_in_use k q' = (if k = client then client_in_use k q + 1 else client_in_use k q)"
proof (cases "map_of (cq_clients q) client")
  case None
  with assms show ?thesis
    by (auto simp: quota_acquire_Inr quota_ok_def client_in_use_def counted_update_new)
next
  case (Some n)
  with assms counted_update [OF Some, of "Suc n"] show ?thesis
    by (auto simp: quota_acquire_Inr quota_ok_def client_in_use_def)
qed

lemma quota_release_ok:
  assumes "quota_ok q" "0 < client_in_use client q"
  shows "quota_ok (quota_release client q) \<and> cq_total (quota_release client q) = cq_total q - 1 \<and>
    client_in_use k (quota_release client q) =
      (if k = client then client_in_use client q - 1 else client_in_use k q)"
proof -
  obtain n where n: "map_of (cq_clients q) client = Some n" "0 < n"
    using assms(2) by (auto simp: client_in_use_def split: option.splits)
  have ok: "keys_ok (cq_clients q)" "cq_total q = counted (cq_clients q)" "n \<le> cq_total q"
    "n \<le> cq_max_per_client q"
    using assms(1) n(1) counted_ge [OF n(1)] by (simp_all add: quota_ok_def)
  show ?thesis
  proof (cases "n = 1")
    case True
    then show ?thesis
      using assms(1) n ok counted_delete [OF ok(1) n(1)]
      by (auto simp: quota_release_def quota_ok_def client_in_use_def)
  next
    case False
    define m where "m = n - 2"
    with n(2) False have m: "n = Suc (Suc m)" by simp
    then have "Suc m \<le> cq_max_per_client q" "counted (AList.update client (Suc m) (cq_clients q)) + 1 = cq_total q"
      using ok counted_update [OF n(1), of "Suc m"] by simp_all
    with assms(1) n(1) show ?thesis
      unfolding m by (auto simp: quota_release_def quota_ok_def client_in_use_def)
  qed
qed

interpretation quota: lease_counter acquire_slot quota_release acquire_refused fst client_in_use cq_total quota_ok
proof
  fix s a s' k
  assume "quota_ok s" "acquire_slot a s = Some s'"
  then show "quota_ok s' \<and> cq_total s' = cq_total s + 1 \<and>
      client_in_use k s' = (if k = fst a then client_in_use k s + 1 else client_in_use k s)"
    using quota_acquire_ok
    by (auto simp: acquire_slot_def split: prod.splits sum.splits)
next
  fix s k k'
  assume "quota_ok s" "0 < client_in_use k s"
  then show "quota_ok (quota_release k s) \<and> cq_total (quota_release k s) = cq_total s - 1 \<and>
      client_in_use k' (quota_release k s) =
        (if k' = k then client_in_use k s - 1 else client_in_use k' s)"
    by (rule quota_release_ok)
next
  fix s s' k
  assume "quota_ok s" "acquire_refused s s'"
  then show "quota_ok s' \<and> cq_total s' = cq_total s \<and> client_in_use k s' = client_in_use k s"
    by (auto simp: acquire_refused_def dest: quota_acquire_Inl)
qed

section \<open>Lease objects\<close>

text \<open>
  A program holds lease objects in slots: it acquires new ones, move-constructs, move-assigns and
  destroys them.  \<open>held slots\<close> are the clients of the live leases.
\<close>

inductive lease_program :: "ConnectionQuota \<Rightarrow> ConnectionQuota \<Rightarrow> Lease list \<Rightarrow> bool"
  for q0 where
  begin_empty: "lease_program q0 q0 []"
| acquire: "lease_program q0 q slots \<Longrightarrow> try_acquire_for client m q = (Inr lease, q') \<Longrightarrow>
    lease_program q0 q' (slots @ [lease])"
| refused: "lease_program q0 q slots \<Longrightarrow> try_acquire_for client m q = (Inl e, q') \<Longrightarrow>
    lease_program q0 q' slots"
| move_construct: "lease_program q0 q slots \<Longrightarrow> i < length slots \<Longrightarrow>
    lease_move (slots ! i) = (new, source) \<Longrightarrow> lease_program q0 q (slots[i := source] @ [new])"
| move_assign: "lease_program q0 q slots \<Longrightarrow> i < length slots \<Longrightarrow> j < length slots \<Longrightarrow> i \<noteq> j \<Longrightarrow>
    lease_assign (slots ! i) (slots ! j) q = (self, other, q') \<Longrightarrow>
    lease_program q0 q' (slots[i := self, j := other])"
| destroy: "lease_program q0 q slots \<Longrightarrow> i < length slots \<Longrightarrow>
    lease_release (slots ! i) q = (dead, q') \<Longrightarrow>
    lease_program q0 q' (take i slots @ drop (Suc i) slots)"

definition held :: "Lease list \<Rightarrow> string multiset" where
  "held slots = image_mset lease_client_id (filter_mset lease_implementation (mset slots))"

lemma held_simps [simp]:
  "held [] = {#}" "held (xs @ ys) = held xs + held ys"
  "held (l # ls) = (if lease_implementation l then add_mset (lease_client_id l) (held ls) else held ls)"
  by (simp_all add: held_def)

lemma slot_split:
  assumes "i < length slots"
  obtains xs ys where "slots = xs @ slots ! i # ys" "length xs = i"
    "\<And>l. slots[i := l] = xs @ l # ys" "take i slots @ drop (Suc i) slots = xs @ ys"
  using assms that [of "take i slots" "drop (Suc i) slots"]
  by (simp add: id_take_nth_drop upd_conv_take_nth_drop)

lemma held_update:
  assumes "i < length slots"
  shows "held (slots[i := l]) + held [slots ! i] = held slots + held [l]"
    "held (take i slots @ drop (Suc i) slots) + held [slots ! i] = held slots"
proof -
  obtain xs ys where s: "slots = xs @ slots ! i # ys" "\<And>l. slots[i := l] = xs @ l # ys"
    "take i slots @ drop (Suc i) slots = xs @ ys"
    using assms by (rule slot_split) blast
  have h: "held slots = held xs + held [slots ! i] + held ys" by (subst s(1)) simp
  show "held (slots[i := l]) + held [slots ! i] = held slots + held [l]"
    unfolding s(2) h by simp
  show "held (take i slots @ drop (Suc i) slots) + held [slots ! i] = held slots"
    unfolding s(3) h by simp
qed

lemma held_no_lease [simp]: "held [no_lease] = {#}" "\<not> lease_implementation no_lease"
  by (simp_all add: no_lease_def)

lemma lease_release_run:
  assumes "lease_run acquire_slot quota_release acquire_refused fst q0 q (held rest + held [lease])"
    and "lease_release lease q = (dead, q')"
  shows "lease_run acquire_slot quota_release acquire_refused fst q0 q' (held rest)"
proof (cases "lease_implementation lease")
  case True
  then have "lease_run acquire_slot quota_release acquire_refused fst q0 (quota_release (lease_client_id lease) q)
      (held rest + held [lease] - {#lease_client_id lease#})"
    by (intro lease_run.released assms(1)) simp
  with True assms(2) show ?thesis by (auto simp: lease_release_def)
next
  case False
  with assms show ?thesis by (auto simp: lease_release_def)
qed

text \<open>The counters see a program of lease objects as a sequence of acquired and released slots.\<close>

lemma lease_program_counts:
  assumes "lease_program q0 q slots" "quota_ok q0" "cq_total q0 = 0"
  shows "lease_run acquire_slot quota_release acquire_refused fst q0 q (held slots)"
  using assms(1)
proof (induction rule: lease_program.induct)
  case begin_empty
  show ?case by (simp add: lease_run.start)
next
  case (acquire q slots client m lease q')
  then have "acquire_slot (client, m) q = Some q'" "lease_implementation lease" "lease_client_id lease = client"
    by (auto simp: try_acquire_for_def acquire_slot_def split: prod.splits sum.splits)
  with lease_run.acquired [OF acquire.IH this(1)] show ?case by simp
next
  case (refused q slots client m e q')
  then have "acquire_refused q q'"
    by (auto simp: try_acquire_for_def acquire_refused_def split: prod.splits sum.splits)
  with refused.IH show ?case by (rule lease_run.stepped)
next
  case (move_construct q slots i new source)
  then have "new = slots ! i" "source = no_lease" by (simp_all add: lease_move_def)
  then have "held (slots[i := source] @ [new]) = held slots"
    using held_update(1) [OF move_construct.hyps(2), of source] by simp
  with move_construct.IH show ?case by simp
next
  case (move_assign q slots i j self other q')
  then obtain dead where rel: "lease_release (slots ! i) q = (dead, q')"
    and vals: "self = slots ! j" "other = no_lease"
    by (auto simp: lease_assign_def split: prod.splits)
  let ?rest = "slots[i := no_lease]"
  have "held ?rest + held [slots ! i] = held slots"
    using held_update(1) [OF move_assign.hyps(2), of no_lease] by simp
  with move_assign.IH have "lease_run acquire_slot quota_release acquire_refused fst q0 q' (held ?rest)"
    by (intro lease_release_run [OF _ rel]) simp
  moreover have "held (slots[i := self, j := other]) = held ?rest"
  proof -
    have "held (slots[i := self, j := other]) + held [slots ! j] = held (slots[i := self])"
      using held_update(1) [of j "slots[i := self]" other] move_assign.hyps vals by simp
    moreover have "held (slots[i := self]) = held ?rest + held [slots ! j]"
      using held_update(1) [of i ?rest self] move_assign.hyps vals by simp
    ultimately show ?thesis by simp
  qed
  ultimately show ?case by simp
next
  case (destroy q slots i dead q')
  have "lease_run acquire_slot quota_release acquire_refused fst q0 q
      (held (take i slots @ drop (Suc i) slots) + held [slots ! i])"
    using destroy.IH held_update(2) [OF destroy.hyps(2)] by simp
  then show ?case using destroy.hyps(3) by (rule lease_release_run)
qed

lemma size_held: "size (held slots) = length (filter lease_implementation slots)"
  by (induction slots) simp_all

lemma count_held:
  "count (held slots) c = length (filter (\<lambda>l. lease_implementation l \<and> lease_client_id l = c) slots)"
  by (induction slots) auto

lemma lease_run_limits:
  assumes "lease_run acquire_slot quota_release acquire_refused fst q0 q h"
  shows "cq_max_total q = cq_max_total q0 \<and> cq_max_per_client q = cq_max_per_client q0"
  using assms
proof (induction rule: lease_run.induct)
  case (acquired s held a s')
  then show ?case
    by (auto simp: acquire_slot_def quota_acquire_Inr split: prod.splits sum.splits)
next
  case (released s held k)
  then show ?case by (auto simp: quota_release_def split: option.split)
next
  case (stepped s held s')
  then show ?case by (auto simp: acquire_refused_def dest: quota_acquire_Inl)
qed simp

text \<open>
  C22: The quota counts the live leases.  Whatever a program does with its leases - acquire, be
  refused, move-construct, move-assign, destroy - the total is the number of live leases, each
  client's count is the number of its live leases, and both stay within the configured limits; so
  when every lease is gone the quota is empty again.
\<close>

theorem quota_counts_leases:
  assumes "lease_program (new_connection_quota per_client max_total) q slots"
  shows "total_in_use q = length (filter lease_implementation slots) \<and>
    client_in_use client q =
      length (filter (\<lambda>l. lease_implementation l \<and> lease_client_id l = client) slots) \<and>
    total_in_use q \<le> max_total \<and> client_in_use client q \<le> per_client"
proof -
  let ?q0 = "new_connection_quota per_client max_total"
  have start: "cq_total ?q0 = 0" "client_in_use k ?q0 = 0" for k
    by (simp_all add: new_connection_quota_def client_in_use_def)
  have run: "lease_run acquire_slot quota_release acquire_refused fst ?q0 q (held slots)"
    using assms new_connection_quota_ok start(1) by (rule lease_program_counts)
  from quota.counts_held [OF run new_connection_quota_ok start]
  have q: "quota_ok q" "cq_total q = size (held slots)" "client_in_use client q = count (held slots) client"
    by simp_all
  have limits: "cq_max_total q = max_total" "cq_max_per_client q = per_client"
    using lease_run_limits [OF run] by (simp_all add: new_connection_quota_def)
  have "client_in_use client q \<le> per_client" "cq_total q \<le> max_total"
    using q(1) unfolding limits [symmetric]
    by (auto simp: quota_ok_def client_in_use_def split: option.split)
  with q show ?thesis by (simp add: total_in_use_def size_held count_held)
qed

theorem quota_counts_leases_witness:
  "\<exists>q lease. lease_program (new_connection_quota 2 5) q [lease] \<and> total_in_use q = 1 \<and>
     client_in_use (sample_id IK_client) q = 1"
proof -
  let ?lease = "\<lparr>lease_implementation = True, lease_client_id = sample_id IK_client\<rparr>"
  obtain q where acq: "try_acquire_for (sample_id IK_client) 2 (new_connection_quota 2 5) = (Inr ?lease, q)"
    by (simp add: try_acquire_for_def quota_acquire_def new_connection_quota_def)
  have run: "lease_program (new_connection_quota 2 5) q [?lease]"
    using lease_program.acquire [OF lease_program.begin_empty acq] by simp
  from quota_counts_leases [OF run, of "sample_id IK_client"] run show ?thesis
    by (intro exI [of _ q] exI [of _ ?lease]) simp
qed

end
