(* ===== verification/Json_Documents.thy ===== *)
theory Json_Documents
  imports Complex_Main Error_Result "HOL-Library.List_Lexorder" "HOL-Library.Char_ord"
    "HOL-Library.Multiset"
begin

text \<open>
  JSON documents and the limits under which the sources let them be parsed.  The library
  \<open>nlohmann::json\<close> is not modelled: a document is a value of type \<open>Json\<close> with the library's kinds of
  values, and its parser reports a document to the callback as a list of events, \<open>json_events\<close>.
  Three parsers of the sources count these events in the same way with different limits; the counting
  is \<open>limits_accept\<close>.
\<close>

section \<open>Documents\<close>

text \<open>
  \<open>JUnsigned\<close> and \<open>JInteger\<close> are the library's unsigned and signed integers, \<open>JFloat None\<close> a number
  that is not finite.  The members of an object are listed in the library's order of keys.
\<close>

datatype Json =
    JNull
  | JBool bool
  | JInteger int
  | JUnsigned u64
  | JFloat "real option"
  | JString string
  | JArray "Json list"
  | JObject "(string \<times> Json) list"
  | JBinary
  | JDiscarded

definition is_container :: "Json \<Rightarrow> bool" where
  "is_container v \<longleftrightarrow> (case v of JArray _ \<Rightarrow> True | JObject _ \<Rightarrow> True | _ \<Rightarrow> False)"

datatype ParseEvent =
    PE_object_start
  | PE_object_end
  | PE_array_start
  | PE_array_end
  | PE_key string
  | PE_value Json

fun json_events :: "Json \<Rightarrow> ParseEvent list"
  and array_events :: "Json list \<Rightarrow> ParseEvent list"
  and member_events :: "(string \<times> Json) list \<Rightarrow> ParseEvent list" where
  "json_events (JArray vs) = PE_array_start # array_events vs @ [PE_array_end]"
| "json_events (JObject ms) = PE_object_start # member_events ms @ [PE_object_end]"
| "json_events v = [PE_value v]"
| "array_events [] = []"
| "array_events (v # vs) = json_events v @ array_events vs"
| "member_events [] = []"
| "member_events ((k, v) # ms) = PE_key k # json_events v @ member_events ms"

section \<open>Limits\<close>

datatype ParseLimitFailure = PF_duplicate_key | PF_depth | PF_nodes | PF_string

record ParseContext =
  pc_object :: bool
  pc_keys :: "string list"

text \<open>The open containers, the innermost first.\<close>

record ParseLimits =
  pl_failure :: "ParseLimitFailure option"
  pl_nodes :: nat
  pl_contexts :: "ParseContext list"

definition new_parse_limits :: ParseLimits where
  "new_parse_limits = \<lparr>pl_failure = None, pl_nodes = 0, pl_contexts = []\<rparr>"

record JsonBounds =
  jb_depth :: nat
  jb_nodes :: nat
  jb_string :: nat
  jb_orphan_key :: ParseLimitFailure

definition limits_fail :: "ParseLimitFailure \<Rightarrow> ParseLimits \<Rightarrow> ParseLimits" where
  "limits_fail f l = l\<lparr>pl_failure := Some f\<rparr>"

definition open_container :: "JsonBounds \<Rightarrow> bool \<Rightarrow> ParseLimits \<Rightarrow> ParseLimits" where
  "open_container b object l =
     (if jb_depth b \<le> length (pl_contexts l) then limits_fail PF_depth l
      else (let l' = l\<lparr>pl_nodes := pl_nodes l + 1\<rparr>
            in if jb_nodes b < pl_nodes l' then limits_fail PF_nodes l'
               else l'\<lparr>pl_contexts := \<lparr>pc_object = object, pc_keys = []\<rparr> # pl_contexts l'\<rparr>))"

fun limits_accept :: "JsonBounds \<Rightarrow> ParseEvent \<Rightarrow> ParseLimits \<Rightarrow> ParseLimits" where
  "limits_accept b event l =
     (if pl_failure l \<noteq> None then l
      else (case event of
              PE_object_start \<Rightarrow> open_container b True l
            | PE_array_start \<Rightarrow> open_container b False l
            | PE_object_end \<Rightarrow> l\<lparr>pl_contexts := drop 1 (pl_contexts l)\<rparr>
            | PE_array_end \<Rightarrow> l\<lparr>pl_contexts := drop 1 (pl_contexts l)\<rparr>
            | PE_key key \<Rightarrow>
                (let l' = l\<lparr>pl_nodes := pl_nodes l + 1\<rparr>
                 in if jb_nodes b < pl_nodes l' then limits_fail PF_nodes l'
                    else if jb_string b < length key then limits_fail PF_string l'
                    else (case pl_contexts l' of
                            [] \<Rightarrow> limits_fail (jb_orphan_key b) l'
                          | c # cs \<Rightarrow>
                              if \<not> pc_object c then limits_fail (jb_orphan_key b) l'
                              else if key \<in> set (pc_keys c) then limits_fail PF_duplicate_key l'
                              else l'\<lparr>pl_contexts := c\<lparr>pc_keys := key # pc_keys c\<rparr> # cs\<rparr>))
            | PE_value v \<Rightarrow>
                (let l' = l\<lparr>pl_nodes := pl_nodes l + 1\<rparr>
                 in if jb_nodes b < pl_nodes l' then limits_fail PF_nodes l'
                    else (case v of
                            JString s \<Rightarrow> if jb_string b < length s then limits_fail PF_string l' else l'
                          | _ \<Rightarrow> l'))))"

declare limits_accept.simps [simp del]

definition limits_run :: "JsonBounds \<Rightarrow> ParseEvent list \<Rightarrow> ParseLimits \<Rightarrow> ParseLimits" where
  "limits_run b events l = fold (limits_accept b) events l"

section \<open>What the limits mean for a document\<close>

fun json_nodes :: "Json \<Rightarrow> nat"
  and array_nodes :: "Json list \<Rightarrow> nat"
  and member_nodes :: "(string \<times> Json) list \<Rightarrow> nat" where
  "json_nodes (JArray vs) = 1 + array_nodes vs"
| "json_nodes (JObject ms) = 1 + member_nodes ms"
| "json_nodes v = 1"
| "array_nodes [] = 0"
| "array_nodes (v # vs) = json_nodes v + array_nodes vs"
| "member_nodes [] = 0"
| "member_nodes ((k, v) # ms) = 1 + json_nodes v + member_nodes ms"

text \<open>\<open>json_fits b d v\<close>: at depth \<open>d\<close> the value nests no deeper than allowed, its strings and keys are
  short enough, and no object repeats a key.\<close>

fun json_fits :: "JsonBounds \<Rightarrow> nat \<Rightarrow> Json \<Rightarrow> bool"
  and array_fits :: "JsonBounds \<Rightarrow> nat \<Rightarrow> Json list \<Rightarrow> bool"
  and member_fits :: "JsonBounds \<Rightarrow> nat \<Rightarrow> string list \<Rightarrow> (string \<times> Json) list \<Rightarrow> bool" where
  "json_fits b d (JArray vs) \<longleftrightarrow> d < jb_depth b \<and> array_fits b (d + 1) vs"
| "json_fits b d (JObject ms) \<longleftrightarrow> d < jb_depth b \<and> member_fits b (d + 1) [] ms"
| "json_fits b d (JString s) \<longleftrightarrow> length s \<le> jb_string b"
| "json_fits b d v \<longleftrightarrow> True"
| "array_fits b d [] \<longleftrightarrow> True"
| "array_fits b d (v # vs) \<longleftrightarrow> json_fits b d v \<and> array_fits b d vs"
| "member_fits b d keys [] \<longleftrightarrow> True"
| "member_fits b d keys ((k, v) # ms) \<longleftrightarrow>
     length k \<le> jb_string b \<and> k \<notin> set keys \<and> json_fits b d v \<and> member_fits b d (k # keys) ms"

lemma limits_run_append: "limits_run b (xs @ ys) l = limits_run b ys (limits_run b xs l)"
  by (simp add: limits_run_def)

lemma limits_run_Cons: "limits_run b (x # xs) l = limits_run b xs (limits_accept b x l)"
  by (simp add: limits_run_def)

lemma limits_run_Nil: "limits_run b [] l = l"
  by (simp add: limits_run_def)

lemmas limits_run_simps = limits_run_append limits_run_Cons limits_run_Nil

lemma limits_run_failed: "pl_failure l \<noteq> None \<Longrightarrow> limits_run b es l = l"
  by (induction es) (simp_all add: limits_run_simps limits_accept.simps)

lemma json_nodes_pos: "0 < json_nodes v"
  by (cases v) simp_all

text \<open>
  \<open>accepted b es l n fits cs\<close>: from \<open>l\<close>, the events \<open>es\<close> are accepted exactly if \<open>fits\<close> holds and
  their \<open>n\<close> nodes are within the limit, and then leave \<open>cs\<close> as the open containers.
\<close>

definition accepted ::
  "JsonBounds \<Rightarrow> ParseEvent list \<Rightarrow> ParseLimits \<Rightarrow> nat \<Rightarrow> bool \<Rightarrow> ParseContext list \<Rightarrow> bool" where
  "accepted b es l n fits cs \<longleftrightarrow>
     (if fits \<and> pl_nodes l + n \<le> jb_nodes b
      then limits_run b es l = l\<lparr>pl_nodes := pl_nodes l + n, pl_contexts := cs\<rparr>
      else pl_failure (limits_run b es l) \<noteq> None)"

lemma accepted_append:
  assumes "accepted b es l n f cs"
    and "f \<Longrightarrow> pl_nodes l + n \<le> jb_nodes b \<Longrightarrow> accepted b es' (l\<lparr>pl_nodes := pl_nodes l + n, pl_contexts := cs\<rparr>) n' f' cs'"
  shows "accepted b (es @ es') l (n + n') (f \<and> f') cs'"
proof (cases "f \<and> pl_nodes l + n \<le> jb_nodes b")
  case True
  then have "limits_run b es l = l\<lparr>pl_nodes := pl_nodes l + n, pl_contexts := cs\<rparr>" using assms(1) by (simp add: accepted_def)
  then show ?thesis using assms(2) True by (auto simp: accepted_def limits_run_append add.assoc)
next
  case False
  then have "pl_failure (limits_run b es l) \<noteq> None" using assms(1) by (simp add: accepted_def split: if_splits)
  then have "pl_failure (limits_run b (es @ es') l) \<noteq> None" by (simp add: limits_run_append limits_run_failed)
  then show ?thesis using False by (auto simp: accepted_def)
qed

lemma accepted_start:
  assumes "pl_failure l = None"
  shows "accepted b [PE_array_start] l 1 (length (pl_contexts l) < jb_depth b)
      (\<lparr>pc_object = False, pc_keys = []\<rparr> # pl_contexts l)"
    "accepted b [PE_object_start] l 1 (length (pl_contexts l) < jb_depth b)
      (\<lparr>pc_object = True, pc_keys = []\<rparr> # pl_contexts l)"
  using assms
  by (auto simp: accepted_def limits_run_simps limits_accept.simps open_container_def limits_fail_def Let_def)

lemma accepted_end:
  assumes "pl_failure l = None" "pl_nodes l \<le> jb_nodes b" "pl_contexts l = c # cs"
  shows "accepted b [PE_array_end] l 0 True cs" "accepted b [PE_object_end] l 0 True cs"
  using assms by (simp_all add: accepted_def limits_run_simps limits_accept.simps)

lemma accepted_key:
  assumes "pl_failure l = None" "pl_contexts l = c # cs" "pc_object c"
  shows "accepted b [PE_key k] l 1 (length k \<le> jb_string b \<and> k \<notin> set (pc_keys c)) (c\<lparr>pc_keys := k # pc_keys c\<rparr> # cs)"
  using assms
  by (auto simp: accepted_def limits_run_simps limits_accept.simps limits_fail_def Let_def)

lemma events_accepted:
  "pl_failure l = None \<Longrightarrow> pl_nodes l \<le> jb_nodes b \<Longrightarrow> length (pl_contexts l) = d \<Longrightarrow>
     accepted b (json_events v) l (json_nodes v) (json_fits b d v) (pl_contexts l)"
  "pl_failure l = None \<Longrightarrow> pl_nodes l \<le> jb_nodes b \<Longrightarrow> length (pl_contexts l) = d \<Longrightarrow>
     accepted b (array_events vs) l (array_nodes vs) (array_fits b d vs) (pl_contexts l)"
  "pl_failure l = None \<Longrightarrow> pl_nodes l \<le> jb_nodes b \<Longrightarrow> length (pl_contexts l) = d \<Longrightarrow>
     pl_contexts l = c # cs \<Longrightarrow> pc_object c \<Longrightarrow>
     accepted b (member_events ms) l (member_nodes ms) (member_fits b d (pc_keys c) ms)
       (c\<lparr>pc_keys := rev (map fst ms) @ pc_keys c\<rparr> # cs)"
proof (induction v and vs and ms arbitrary: l d and l d and l d c cs
    rule: json_events_array_events_member_events.induct)
  case (1 vs)
  have "accepted b (array_events vs @ [PE_array_end])
      (l\<lparr>pl_nodes := pl_nodes l + 1, pl_contexts := \<lparr>pc_object = False, pc_keys = []\<rparr> # pl_contexts l\<rparr>)
      (array_nodes vs + 0) (array_fits b (d + 1) vs \<and> True) (pl_contexts l)"
    if "pl_nodes l + 1 \<le> jb_nodes b"
    by (rule accepted_append [OF "1.IH"]) (use 1 that in \<open>auto intro!: accepted_end\<close>)
  then have "accepted b ([PE_array_start] @ (array_events vs @ [PE_array_end])) l (1 + (array_nodes vs + 0))
      (length (pl_contexts l) < jb_depth b \<and> (array_fits b (d + 1) vs \<and> True)) (pl_contexts l)"
    by (intro accepted_append [OF accepted_start(1)]) (use 1 in auto)
  then show ?case using 1 by simp
next
  case (2 ms)
  let ?c = "\<lparr>pc_object = True, pc_keys = []\<rparr>"
  have "accepted b (member_events ms @ [PE_object_end])
      (l\<lparr>pl_nodes := pl_nodes l + 1, pl_contexts := ?c # pl_contexts l\<rparr>)
      (member_nodes ms + 0) (member_fits b (d + 1) (pc_keys ?c) ms \<and> True) (pl_contexts l)"
    if "pl_nodes l + 1 \<le> jb_nodes b"
    by (rule accepted_append [OF "2.IH"]) (use 2 that in \<open>auto intro!: accepted_end\<close>)
  then have "accepted b ([PE_object_start] @ (member_events ms @ [PE_object_end])) l (1 + (member_nodes ms + 0))
      (length (pl_contexts l) < jb_depth b \<and> (member_fits b (d + 1) (pc_keys ?c) ms \<and> True)) (pl_contexts l)"
    by (intro accepted_append [OF accepted_start(2)]) (use 2 in auto)
  then show ?case using 2 by simp
next
  case (5 v vs)
  have "accepted b (json_events v @ array_events vs) l (json_nodes v + array_nodes vs)
      (json_fits b d v \<and> array_fits b d vs) (pl_contexts l)"
    by (rule accepted_append [OF "5.IH"(1)])
       (use 5 in \<open>auto intro!: "5.IH"(2) [of "l\<lparr>pl_nodes := pl_nodes l + json_nodes v, pl_contexts := pl_contexts l\<rparr>", simplified]\<close>)
  then show ?case by simp
next
  case (7 k v ms)
  let ?c = "c\<lparr>pc_keys := k # pc_keys c\<rparr>"
  let ?l = "l\<lparr>pl_nodes := pl_nodes l + 1, pl_contexts := ?c # cs\<rparr>"
  have tail: "accepted b (json_events v @ member_events ms) ?l (json_nodes v + member_nodes ms)
      (json_fits b d v \<and> member_fits b d (pc_keys ?c) ms) (?c\<lparr>pc_keys := rev (map fst ms) @ pc_keys ?c\<rparr> # cs)"
    if n: "pl_nodes l + 1 \<le> jb_nodes b"
  proof (rule accepted_append)
    show "accepted b (json_events v) ?l (json_nodes v) (json_fits b d v) (?c # cs)"
      using "7.IH"(1) [of ?l d] 7 n by simp
  next
    assume "pl_nodes ?l + json_nodes v \<le> jb_nodes b"
    then show "accepted b (member_events ms) (?l\<lparr>pl_nodes := pl_nodes ?l + json_nodes v, pl_contexts := ?c # cs\<rparr>)
        (member_nodes ms) (member_fits b d (pc_keys ?c) ms) (?c\<lparr>pc_keys := rev (map fst ms) @ pc_keys ?c\<rparr> # cs)"
      using 7 by (intro "7.IH"(2)) simp_all
  qed
  have "accepted b ([PE_key k] @ (json_events v @ member_events ms)) l (1 + (json_nodes v + member_nodes ms))
      ((length k \<le> jb_string b \<and> k \<notin> set (pc_keys c)) \<and> (json_fits b d v \<and> member_fits b d (pc_keys ?c) ms))
      (?c\<lparr>pc_keys := rev (map fst ms) @ pc_keys ?c\<rparr> # cs)"
    by (rule accepted_append [OF accepted_key]) (use 7 tail in auto)
  then show ?case by (simp add: conj_assoc)
qed (auto simp: accepted_def limits_run_simps limits_accept.simps limits_fail_def Let_def)

text \<open>A document passes the limits exactly if it fits and is not too large.\<close>

lemma limits_exact:
  "pl_failure (limits_run b (json_events v) new_parse_limits) = None \<longleftrightarrow>
     json_fits b 0 v \<and> json_nodes v \<le> jb_nodes b"
  using events_accepted(1) [of new_parse_limits b 0 v]
  by (auto simp: accepted_def new_parse_limits_def split: if_splits)

text \<open>Nesting and string lengths on the one hand, repeated keys on the other.\<close>

fun json_bounded :: "JsonBounds \<Rightarrow> nat \<Rightarrow> Json \<Rightarrow> bool"
  and array_bounded :: "JsonBounds \<Rightarrow> nat \<Rightarrow> Json list \<Rightarrow> bool"
  and member_bounded :: "JsonBounds \<Rightarrow> nat \<Rightarrow> (string \<times> Json) list \<Rightarrow> bool" where
  "json_bounded b d (JArray vs) \<longleftrightarrow> d < jb_depth b \<and> array_bounded b (d + 1) vs"
| "json_bounded b d (JObject ms) \<longleftrightarrow> d < jb_depth b \<and> member_bounded b (d + 1) ms"
| "json_bounded b d (JString s) \<longleftrightarrow> length s \<le> jb_string b"
| "json_bounded b d v \<longleftrightarrow> True"
| "array_bounded b d [] \<longleftrightarrow> True"
| "array_bounded b d (v # vs) \<longleftrightarrow> json_bounded b d v \<and> array_bounded b d vs"
| "member_bounded b d [] \<longleftrightarrow> True"
| "member_bounded b d ((k, v) # ms) \<longleftrightarrow> length k \<le> jb_string b \<and> json_bounded b d v \<and> member_bounded b d ms"

fun json_distinct :: "Json \<Rightarrow> bool"
  and array_distinct :: "Json list \<Rightarrow> bool"
  and member_distinct :: "(string \<times> Json) list \<Rightarrow> bool" where
  "json_distinct (JArray vs) \<longleftrightarrow> array_distinct vs"
| "json_distinct (JObject ms) \<longleftrightarrow> member_distinct ms"
| "json_distinct v \<longleftrightarrow> True"
| "array_distinct [] \<longleftrightarrow> True"
| "array_distinct (v # vs) \<longleftrightarrow> json_distinct v \<and> array_distinct vs"
| "member_distinct [] \<longleftrightarrow> True"
| "member_distinct ((k, v) # ms) \<longleftrightarrow> k \<notin> fst ` set ms \<and> json_distinct v \<and> member_distinct ms"

lemma json_fits_iff:
  "json_fits b d v \<longleftrightarrow> json_bounded b d v \<and> json_distinct v"
  "array_fits b d vs \<longleftrightarrow> array_bounded b d vs \<and> array_distinct vs"
  "member_fits b d keys ms \<longleftrightarrow> member_bounded b d ms \<and> member_distinct ms \<and> set keys \<inter> fst ` set ms = {}"
  by (induction b d v and b d vs and b d keys ms rule: json_fits_array_fits_member_fits.induct) auto

text \<open>The order of members in which the library keeps an object.\<close>

fun json_normal :: "Json \<Rightarrow> Json"
  and array_normal :: "Json list \<Rightarrow> Json list"
  and member_normal :: "(string \<times> Json) list \<Rightarrow> (string \<times> Json) list" where
  "json_normal (JArray vs) = JArray (array_normal vs)"
| "json_normal (JObject ms) = JObject (sort_key fst (member_normal ms))"
| "json_normal v = v"
| "array_normal [] = []"
| "array_normal (v # vs) = json_normal v # array_normal vs"
| "member_normal [] = []"
| "member_normal ((k, v) # ms) = (k, json_normal v) # member_normal ms"

lemma map_of_sort: "distinct (map fst ms) \<Longrightarrow> map_of (sort_key fst ms) = map_of ms"
  by (rule map_of_inject_set [THEN iffD2]) (simp_all add: distinct_map inj_on_def)

lemma induct_list_pairs: "P [] \<Longrightarrow> (\<And>k v ms. P ms \<Longrightarrow> P ((k, v) # ms)) \<Longrightarrow> P ms"
  by (induction ms) auto

lemma map_of_member_normal: "map_of (member_normal ms) k = map_option json_normal (map_of ms k)"
  by (induction ms rule: induct_list_pairs) simp_all

lemma keys_member_normal: "map fst (member_normal ms) = map fst ms"
  by (induction ms rule: induct_list_pairs) simp_all

lemma member_distinct_keys: "member_distinct ms \<Longrightarrow> distinct (map fst ms)"
  by (induction ms rule: induct_list_pairs) simp_all

lemma map_of_normal:
  "member_distinct ms \<Longrightarrow> map_of (sort_key fst (member_normal ms)) k = map_option json_normal (map_of ms k)"
  by (simp add: map_of_sort keys_member_normal member_distinct_keys map_of_member_normal)

lemma keys_normal: "fst ` set (sort_key fst (member_normal ms)) = fst ` set ms"
  by (metis keys_member_normal list.set_map set_sort)

text \<open>The order of members does not matter to nesting, size and the distinctness of keys.\<close>

lemma member_bounded_all: "member_bounded b d ms \<longleftrightarrow> (\<forall>p \<in> set ms. length (fst p) \<le> jb_string b \<and> json_bounded b d (snd p))"
  by (induction ms rule: induct_list_pairs) auto

lemma member_nodes_sum: "member_nodes ms = sum_list (map (\<lambda>p. 1 + json_nodes (snd p)) ms)"
  by (induction ms rule: induct_list_pairs) auto

lemma sum_list_sort: "sum_list (map f (sort_key g xs)) = (sum_list (map f xs) :: nat)"
  by (metis mset_map mset_sort sum_mset_sum_list)

lemma member_nodes_sort: "member_nodes (sort_key fst ms) = member_nodes ms"
  by (simp only: member_nodes_sum sum_list_sort)

lemma json_bounded_normal:
  "json_bounded b d (json_normal v) = json_bounded b d v"
  "array_bounded b d (array_normal vs) = array_bounded b d vs"
  "member_bounded b d (member_normal ms) = member_bounded b d ms"
  by (induction b d v and b d vs and b d ms rule: json_bounded_array_bounded_member_bounded.induct)
    (simp_all add: member_bounded_all)

lemma json_nodes_normal:
  "json_nodes (json_normal v) = json_nodes v"
  "array_nodes (array_normal vs) = array_nodes vs"
  "member_nodes (member_normal ms) = member_nodes ms"
  by (induction v and vs and ms rule: json_nodes_array_nodes_member_nodes.induct)
    (simp_all add: member_nodes_sort)

end
