(* ===== verification/Ipc_Frames.thy ===== *)
theory Ipc_Frames
  imports Streams Wire_Words
begin

text \<open>
  \<open>include/minitun/ipc/frame.hpp\<close> and \<open>src/ipc/frame.cpp\<close>: the frames of the local control
  channel, a length of four bytes and a payload that is not empty.

  The decoder keeps the fields of the C++ class.  \<open>ipc_feed_loop\<close> is the loop of \<open>feed\<close>;
  \<open>ipc_copy_header\<close>, \<open>ipc_begin_payload\<close> and \<open>ipc_copy_payload\<close> are the three parts of its body.  A
  payload is opaque here and is a list of bytes.  The decoder is a second implementation of the
  contract \<open>frame_codec\<close> of \<open>Streams\<close>, which the remote protocol's decoder implements too.
\<close>

section \<open>Frames and the decoder\<close>

definition ipc_kFrameHeaderSize :: nat where
  "ipc_kFrameHeaderSize = 4"

definition ipc_kDefaultMaxFrameSize :: nat where
  "ipc_kDefaultMaxFrameSize = 1048576"

definition ipc_effective_limit :: "nat \<Rightarrow> nat" where
  "ipc_effective_limit requested_limit = min requested_limit ipc_kDefaultMaxFrameSize"

fun ipc_decoder_error :: "ErrorCode \<Rightarrow> Error" where
  "ipc_decoder_error EC_frame_too_large =
     Error EC_frame_too_large ''IPC frame exceeds the configured size limit''"
| "ipc_decoder_error EC_resource_exhausted =
     Error EC_resource_exhausted ''insufficient memory while decoding an IPC frame''"
| "ipc_decoder_error _ = Error EC_protocol_error ''IPC frame decoder is in a failed state''"

definition ipc_encode_frame :: "bytes \<Rightarrow> nat \<Rightarrow> bytes Result" where
  "ipc_encode_frame payload max_frame_size =
     (if payload = [] then failure EC_protocol_error ''IPC frame payload must not be empty''
      else let limit = ipc_effective_limit max_frame_size
        in if limit < length payload \<or> 4294967295 < length payload
           then failure EC_frame_too_large ''IPC frame exceeds the configured size limit''
           else Inr (write_u32 (word_of_nat (length payload)) @ payload))"

record IpcFrameDecoder =
  ifd_max_frame_size :: nat
  ifd_expected_payload_size :: u32
  ifd_header_size :: nat
  ifd_header :: bytes
  ifd_payload :: bytes
  ifd_reading_payload :: bool
  ifd_failed :: bool
  ifd_failure_code :: ErrorCode

definition new_ipc_decoder :: "nat \<Rightarrow> IpcFrameDecoder" where
  "new_ipc_decoder max_frame_size =
     \<lparr>ifd_max_frame_size = ipc_effective_limit max_frame_size, ifd_expected_payload_size = 0,
      ifd_header_size = 0, ifd_header = replicate ipc_kFrameHeaderSize 0, ifd_payload = [],
      ifd_reading_payload = False, ifd_failed = False, ifd_failure_code = EC_protocol_error\<rparr>"

definition ipc_fail :: "ErrorCode \<Rightarrow> IpcFrameDecoder \<Rightarrow> IpcFrameDecoder" where
  "ipc_fail c d =
     d\<lparr>ifd_expected_payload_size := 0, ifd_header_size := 0, ifd_payload := [],
       ifd_reading_payload := False, ifd_failed := True, ifd_failure_code := c\<rparr>"

definition ipc_reset :: "IpcFrameDecoder \<Rightarrow> IpcFrameDecoder" where
  "ipc_reset d =
     d\<lparr>ifd_expected_payload_size := 0, ifd_header_size := 0, ifd_payload := [],
       ifd_reading_payload := False, ifd_failed := False, ifd_failure_code := EC_protocol_error\<rparr>"

definition ipc_finish :: "IpcFrameDecoder \<Rightarrow> unit Result" where
  "ipc_finish d =
     (if ifd_failed d then Inl (ipc_decoder_error (ifd_failure_code d))
      else if ifd_header_size d \<noteq> 0 \<or> ifd_reading_payload d
      then failure EC_protocol_error ''IPC stream ended in the middle of a frame''
      else Inr ())"

definition ipc_buffered_size :: "IpcFrameDecoder \<Rightarrow> nat" where
  "ipc_buffered_size d = ifd_header_size d + length (ifd_payload d)"

definition ipc_copy_header :: "IpcFrameDecoder \<Rightarrow> bytes \<Rightarrow> IpcFrameDecoder \<times> bytes" where
  "ipc_copy_header d bs =
     (let count = min (length bs) (size_sub ipc_kFrameHeaderSize (ifd_header_size d))
      in (d\<lparr>ifd_header := overwrite (ifd_header d) (ifd_header_size d) (take count bs),
            ifd_header_size := ifd_header_size d + count\<rparr>,
          drop count bs))"

definition ipc_begin_payload :: "IpcFrameDecoder \<Rightarrow> unit Result \<times> IpcFrameDecoder" where
  "ipc_begin_payload d =
     (let expected = read_u32 (ifd_header d);
          d1 = d\<lparr>ifd_expected_payload_size := expected, ifd_header_size := 0\<rparr>
      in if ifd_max_frame_size d < unat expected
         then (Inl (ipc_decoder_error EC_frame_too_large), ipc_fail EC_frame_too_large d1)
         else if expected = 0
         then (failure EC_protocol_error ''IPC frame payload must not be empty'',
               ipc_fail EC_protocol_error d1)
         else (Inr (), d1\<lparr>ifd_payload := [], ifd_reading_payload := True\<rparr>))"

definition ipc_copy_payload :: "IpcFrameDecoder \<Rightarrow> bytes \<Rightarrow> bytes list \<times> IpcFrameDecoder \<times> bytes" where
  "ipc_copy_payload d bs =
     (let expected = unat (ifd_expected_payload_size d);
          needed = size_sub expected (length (ifd_payload d));
          count = min (length bs) needed;
          payload = ifd_payload d @ take count bs
      in if length payload = expected
         then ([payload],
               d\<lparr>ifd_payload := [], ifd_expected_payload_size := 0, ifd_reading_payload := False\<rparr>,
               drop count bs)
         else ([], d\<lparr>ifd_payload := payload\<rparr>, drop count bs))"

function ipc_feed_loop ::
  "IpcFrameDecoder \<Rightarrow> bytes \<Rightarrow> bytes list \<Rightarrow> bytes list Result \<times> IpcFrameDecoder" where
  "ipc_feed_loop d bs frames =
     (if bs = [] then (Inr frames, d)
      else if ifd_reading_payload d
      then (case ipc_copy_payload d bs of
              (fs, d', rest) \<Rightarrow> ipc_feed_loop d' rest (frames @ fs))
      else (case ipc_copy_header d bs of
              (d1, rest) \<Rightarrow>
                if ifd_header_size d1 \<noteq> ipc_kFrameHeaderSize then ipc_feed_loop d1 rest frames
                else (case ipc_begin_payload d1 of
                        (Inl e, d2) \<Rightarrow> (Inl e, d2)
                      | (Inr _, d2) \<Rightarrow>
                          (case ipc_copy_payload d2 rest of
                             (fs, d3, rest') \<Rightarrow> ipc_feed_loop d3 rest' (frames @ fs)))))"
  by pat_completeness auto

lemma ipc_kFrameHeaderSize_pos [simp]: "0 < ipc_kFrameHeaderSize"
  by (simp add: ipc_kFrameHeaderSize_def)

lemma ipc_copy_header_progress:
  "ipc_copy_header d bs = (d1, rest) \<Longrightarrow> bs \<noteq> [] \<Longrightarrow>
   length rest < length bs \<or>
   rest = bs \<and> ifd_header_size d = ipc_kFrameHeaderSize \<and> ifd_header_size d1 = ipc_kFrameHeaderSize"
  using size_sub_eq_0_iff [of ipc_kFrameHeaderSize "ifd_header_size d"]
  by (cases "ifd_header_size d = ipc_kFrameHeaderSize") (auto simp: ipc_copy_header_def Let_def)

lemma ipc_copy_payload_progress:
  "ipc_copy_payload d bs = (fs, d1, rest) \<Longrightarrow> bs \<noteq> [] \<Longrightarrow>
   length rest < length bs \<or>
   rest = bs \<and> length (ifd_payload d) = unat (ifd_expected_payload_size d) \<and>
   \<not> ifd_reading_payload d1 \<and> ifd_header_size d1 = ifd_header_size d"
  using size_sub_eq_0_iff [of "unat (ifd_expected_payload_size d)" "length (ifd_payload d)"]
  by (cases "length (ifd_payload d) = unat (ifd_expected_payload_size d)")
     (auto simp: ipc_copy_payload_def Let_def split: if_splits)

lemma ipc_copy_payload_length:
  "ipc_copy_payload d bs = (fs, d1, rest) \<Longrightarrow> length rest \<le> length bs"
  by (auto simp: ipc_copy_payload_def Let_def split: if_splits)

lemma ipc_begin_payload_Inr:
  "ipc_begin_payload d = (Inr u, d') \<Longrightarrow>
   ifd_payload d' = [] \<and> ifd_expected_payload_size d' \<noteq> 0 \<and> ifd_header_size d' = 0 \<and>
   ifd_reading_payload d'"
  by (auto simp: ipc_begin_payload_def Let_def split: if_splits)

lemma ipc_round_decreases:
  assumes "ipc_copy_header d bs = (d1, rest)" "bs \<noteq> []"
    and "ipc_copy_payload d2 rest = (fs, d3, rest')"
    and "ifd_payload d2 = []" "ifd_expected_payload_size d2 \<noteq> 0"
  shows "length rest' < length bs"
proof -
  have "unat (ifd_expected_payload_size d2) \<noteq> 0" using assms(5) by (simp add: unat_eq_0)
  with ipc_copy_header_progress [OF assms(1,2)] ipc_copy_payload_length [OF assms(3)]
    ipc_copy_payload_progress [OF assms(3)] assms(2,4)
  show ?thesis by fastforce
qed

termination ipc_feed_loop
proof (relation "measures [\<lambda>(d, bs, frames). length bs,
      \<lambda>(d, bs, frames). if ifd_reading_payload d then 1 else 0]", goal_cases)
  case (2 d bs frames fs y d' rest)
  then have "ipc_copy_payload d bs = (fs, d', rest)" by simp
  from ipc_copy_payload_progress [OF this] 2 show ?case by auto
next
  case (3 d bs frames d1 rest)
  then show ?case using ipc_copy_header_progress [of d bs d1 rest] by auto
next
  case (4 d bs frames d1 rest r d2 u fs y d3 rest')
  then show ?case
    using ipc_round_decreases [of d bs d1 rest d2 fs d3 rest'] ipc_begin_payload_Inr [of d1 u d2] by auto
qed simp

declare ipc_feed_loop.simps [simp del]

definition ipc_feed :: "IpcFrameDecoder \<Rightarrow> bytes \<Rightarrow> bytes list Result \<times> IpcFrameDecoder" where
  "ipc_feed d bs =
     (if ifd_failed d then (Inl (ipc_decoder_error (ifd_failure_code d)), d)
      else ipc_feed_loop d bs [])"

section \<open>The decoder refines the stream specification\<close>

text \<open>The description of a frame is its length alone.\<close>

definition ipc_header_fields :: "nat \<Rightarrow> bytes \<Rightarrow> (unit \<times> nat) Result" where
  "ipc_header_fields limit header =
     (if limit < unat (read_u32 header) then Inl (ipc_decoder_error EC_frame_too_large)
      else if read_u32 header = 0
      then failure EC_protocol_error ''IPC frame payload must not be empty''
      else Inr ((), unat (read_u32 header)))"

definition ipc_payload_of :: "unit \<Rightarrow> bytes \<Rightarrow> bytes" where
  "ipc_payload_of h bs = bs"

definition ipc_decoder_inv :: "nat \<Rightarrow> IpcFrameDecoder \<Rightarrow> bool" where
  "ipc_decoder_inv limit d \<longleftrightarrow>
     length (ifd_header d) = ipc_kFrameHeaderSize \<and> ifd_max_frame_size d = limit \<and>
     (if ifd_reading_payload d
      then \<not> ifd_failed d \<and> ifd_header_size d = 0 \<and>
           length (ifd_payload d) < unat (ifd_expected_payload_size d) \<and>
           ipc_header_fields limit (ifd_header d) = Inr ((), unat (ifd_expected_payload_size d))
      else ifd_header_size d < ipc_kFrameHeaderSize \<and> ifd_payload d = [])"

definition ipc_pending :: "IpcFrameDecoder \<Rightarrow> bytes option" where
  "ipc_pending d =
     (if ifd_failed d then None
      else Some (if ifd_reading_payload d then ifd_header d @ ifd_payload d
                 else take (ifd_header_size d) (ifd_header d)))"

abbreviation ipc_cut_frame :: "nat \<Rightarrow> bytes \<Rightarrow> bytes next_frame" where
  "ipc_cut_frame limit \<equiv> next_frame ipc_kFrameHeaderSize (ipc_header_fields limit) ipc_payload_of"

abbreviation ipc_cut_stream :: "nat \<Rightarrow> bytes \<Rightarrow> bytes list \<times> stream_end" where
  "ipc_cut_stream limit \<equiv> parse_stream ipc_kFrameHeaderSize (ipc_header_fields limit) ipc_payload_of"

lemma ipc_begin_payload_fields:
  "ipc_begin_payload d =
     (case ipc_header_fields (ifd_max_frame_size d) (ifd_header d) of
        Inl e \<Rightarrow> (Inl e, ipc_fail (code e)
                   (d\<lparr>ifd_expected_payload_size := read_u32 (ifd_header d), ifd_header_size := 0\<rparr>))
      | Inr (_, n) \<Rightarrow> (Inr (), d\<lparr>ifd_expected_payload_size := word_of_nat n, ifd_header_size := 0,
                             ifd_payload := [], ifd_reading_payload := True\<rparr>))"
  by (auto simp: ipc_begin_payload_def ipc_header_fields_def Let_def failure_def)

lemma ipc_header_fields_size:
  "ipc_header_fields limit hdr = Inr (h, n) \<Longrightarrow>
   unat (word_of_nat n :: u32) = n \<and> 0 < n \<and> n \<le> limit"
  by (auto simp: ipc_header_fields_def unat_gt_0 split: if_splits)

lemma ipc_copy_payload_refines:
  assumes inv: "ipc_decoder_inv limit d" and reading: "ifd_reading_payload d"
    and copy: "ipc_copy_payload d bs = (fs, d', rest)"
  defines "p \<equiv> ifd_header d @ ifd_payload d"
  shows "ipc_decoder_inv limit d' \<and>
    (fs = [] \<and> rest = [] \<and> ipc_pending d' = Some (p @ bs) \<or>
     (\<exists>f. fs = [f] \<and> ipc_pending d' = Some [] \<and> ipc_cut_frame limit (p @ bs) = Got f rest))"
proof -
  define n where "n = unat (ifd_expected_payload_size d)"
  have hdr: "length (ifd_header d) = ipc_kFrameHeaderSize" "length (ifd_payload d) < n"
    "ipc_header_fields limit (ifd_header d) = Inr ((), n)" "\<not> ifd_failed d"
    using inv reading by (simp_all add: ipc_decoder_inv_def n_def)
  show ?thesis
  proof (cases "length bs < n - length (ifd_payload d)")
    case True
    with copy hdr(2) have "fs = []" "rest = []" "d' = d\<lparr>ifd_payload := ifd_payload d @ bs\<rparr>"
      by (auto simp: ipc_copy_payload_def Let_def min_def simp flip: n_def split: if_splits)
    then show ?thesis
      using inv reading True hdr
      by (simp add: ipc_decoder_inv_def ipc_pending_def p_def flip: n_def)
  next
    case False
    with copy hdr(2)
    have fs: "fs = [ifd_payload d @ take (n - length (ifd_payload d)) bs]"
      and rest: "rest = drop (n - length (ifd_payload d)) bs"
      and d': "d' = d\<lparr>ifd_payload := [], ifd_expected_payload_size := 0, ifd_reading_payload := False\<rparr>"
      by (auto simp: ipc_copy_payload_def Let_def min_def simp flip: n_def split: if_splits)
    have "ipc_cut_frame limit (p @ bs) =
        Got (ifd_payload d @ take (n - length (ifd_payload d)) bs) rest"
      using False hdr rest
      by (simp add: next_frame_def p_def ipc_payload_of_def take_append drop_append)
    with fs d' show ?thesis
      using inv reading hdr by (auto simp: ipc_decoder_inv_def ipc_pending_def)
  qed
qed

lemma ipc_copy_header_refines:
  assumes inv: "ipc_decoder_inv limit d" and idle: "\<not> ifd_reading_payload d" "\<not> ifd_failed d"
    and copy: "ipc_copy_header d bs = (d1, rest)"
  defines "p \<equiv> take (ifd_header_size d) (ifd_header d)"
  shows "if ifd_header_size d1 = ipc_kFrameHeaderSize
         then ipc_kFrameHeaderSize \<le> length (p @ bs) \<and>
              ifd_header d1 = take ipc_kFrameHeaderSize (p @ bs) \<and>
              rest = drop ipc_kFrameHeaderSize (p @ bs) \<and>
              d1 = d\<lparr>ifd_header := ifd_header d1, ifd_header_size := ipc_kFrameHeaderSize\<rparr>
         else rest = [] \<and> ipc_decoder_inv limit d1 \<and> ipc_pending d1 = Some (p @ bs)"
proof -
  define k where "k = ipc_kFrameHeaderSize - ifd_header_size d"
  have hdr: "length (ifd_header d) = ipc_kFrameHeaderSize" "ifd_header_size d < ipc_kFrameHeaderSize"
    using inv idle by (simp_all add: ipc_decoder_inv_def)
  then have p: "length p = ifd_header_size d" "size_sub ipc_kFrameHeaderSize (ifd_header_size d) = k"
    by (simp_all add: p_def k_def)
  show ?thesis
  proof (cases "length bs < k")
    case True
    then have d1: "d1 = d\<lparr>ifd_header := overwrite (ifd_header d) (ifd_header_size d) bs,
        ifd_header_size := ifd_header_size d + length bs\<rparr>" and "rest = []"
      using copy p by (auto simp: ipc_copy_header_def Let_def)
    moreover have "take (ifd_header_size d + length bs) (ifd_header d1) = p @ bs"
      using take_overwrite [of "ifd_header_size d" bs "ifd_header d"] True hdr
      by (simp add: d1 p_def k_def)
    moreover have "ifd_header_size d + length bs < ipc_kFrameHeaderSize"
      using True by (simp add: k_def)
    ultimately show ?thesis
      using hdr inv idle p by (auto simp: ipc_decoder_inv_def ipc_pending_def)
  next
    case False
    then have d1: "d1 = d\<lparr>ifd_header := overwrite (ifd_header d) (ifd_header_size d) (take k bs),
        ifd_header_size := ifd_header_size d + k\<rparr>" and "rest = drop k bs"
      using copy p by (auto simp: ipc_copy_header_def Let_def)
    moreover have "ifd_header d1 = p @ take k bs"
      using False hdr by (simp add: d1 overwrite_def p_def k_def)
    ultimately show ?thesis
      using False hdr p by (simp add: k_def)
  qed
qed

lemma ipc_header_complete_refines:
  assumes inv: "ipc_decoder_inv limit d" and idle: "\<not> ifd_reading_payload d" "\<not> ifd_failed d"
    and copy: "ipc_copy_header d bs = (d1, rest)" and full: "ifd_header_size d1 = ipc_kFrameHeaderSize"
  defines "buf \<equiv> take (ifd_header_size d) (ifd_header d) @ bs"
  shows "(\<exists>e d2. ipc_begin_payload d1 = (Inl e, d2) \<and> ipc_cut_frame limit buf = Bad e \<and>
            ipc_decoder_inv limit d2 \<and> ipc_pending d2 = None) \<or>
    (\<exists>d2. ipc_begin_payload d1 = (Inr (), d2) \<and> ipc_decoder_inv limit d2 \<and>
            ifd_reading_payload d2 \<and> ifd_header d2 @ ifd_payload d2 @ rest = buf)"
proof -
  have d1: "ipc_kFrameHeaderSize \<le> length buf" "ifd_header d1 = take ipc_kFrameHeaderSize buf"
    "rest = drop ipc_kFrameHeaderSize buf" "\<not> ifd_reading_payload d1" "\<not> ifd_failed d1"
    "ifd_max_frame_size d1 = limit" "ifd_payload d1 = []"
    using ipc_copy_header_refines [OF inv idle copy] full inv idle
    by (auto simp: buf_def ipc_decoder_inv_def)
  show ?thesis
  proof (cases "ipc_header_fields limit (ifd_header d1)")
    case (Inl e)
    then show ?thesis
      using d1 by (simp add: ipc_begin_payload_fields next_frame_def ipc_fail_def ipc_decoder_inv_def
          ipc_pending_def)
  next
    case (Inr hn)
    then obtain n where "ipc_header_fields limit (ifd_header d1) = Inr ((), n)" by (cases hn) auto
    with d1 ipc_header_fields_size [OF this] show ?thesis
      by (simp add: ipc_begin_payload_fields ipc_decoder_inv_def)
  qed
qed

lemma ipc_pending_incomplete:
  "ipc_decoder_inv limit d \<Longrightarrow> ipc_pending d = Some p \<Longrightarrow> ipc_cut_frame limit p = Need_More"
  by (auto simp: ipc_decoder_inv_def ipc_pending_def next_frame_def split: if_splits)

definition ipc_loop_result ::
  "nat \<Rightarrow> bytes list Result \<times> IpcFrameDecoder \<Rightarrow> bytes list \<Rightarrow> stream_end \<Rightarrow> bool" where
  "ipc_loop_result limit r fs en \<longleftrightarrow>
     ipc_decoder_inv limit (snd r) \<and>
     (case en of Pending q \<Rightarrow> fst r = Inr fs \<and> ipc_pending (snd r) = Some q
               | Broken e \<Rightarrow> fst r = Inl e \<and> ipc_pending (snd r) = None)"

lemma ipc_copy_payload_continues:
  assumes inv: "ipc_decoder_inv limit d" "ifd_reading_payload d"
    and copy: "ipc_copy_payload d bs = (gs, d', rest)"
    and cut: "ipc_cut_stream limit (ifd_header d @ ifd_payload d @ bs) = (fs, en)"
    and continue: "\<And>p fs'. ipc_decoder_inv limit d' \<Longrightarrow> ipc_pending d' = Some p \<Longrightarrow>
      ipc_cut_stream limit (p @ rest) = (fs', en) \<Longrightarrow> ipc_loop_result limit r (frames @ gs @ fs') en"
  shows "ipc_loop_result limit r (frames @ fs) en"
proof -
  consider "gs = []" "rest = []" "ipc_pending d' = Some (ifd_header d @ ifd_payload d @ bs)"
      "ipc_decoder_inv limit d'"
    | f where "gs = [f]" "ipc_pending d' = Some []" "ipc_decoder_inv limit d'"
      "ipc_cut_frame limit (ifd_header d @ ifd_payload d @ bs) = Got f rest"
    using ipc_copy_payload_refines [OF inv copy] by auto
  then show ?thesis
  proof cases
    case 1
    then show ?thesis using continue [OF 1(4,3)] cut by simp
  next
    case (2 f)
    then obtain fs' where "ipc_cut_stream limit rest = (fs', en)" "fs = f # fs'"
      using cut by (auto simp: parse_stream_Got apfst_eq_Pair)
    then show ?thesis using continue [OF 2(3,2)] 2(1) by simp
  qed
qed

lemma ipc_feed_loop_refines:
  assumes "ipc_decoder_inv limit d" "ipc_pending d = Some p" "ipc_cut_stream limit (p @ bs) = (fs, en)"
  shows "ipc_loop_result limit (ipc_feed_loop d bs frames) (frames @ fs) en"
  using assms
proof (induction d bs frames arbitrary: p fs rule: ipc_feed_loop.induct)
  case (1 d bs frames)
  note inv = "1.prems"(1) and pend = "1.prems"(2) and cut = "1.prems"(3)
  have live: "\<not> ifd_failed d" using pend by (simp add: ipc_pending_def split: if_splits)
  show ?case
  proof (cases "bs = []")
    case True
    then have "fs = []" "en = Pending p"
      using cut ipc_pending_incomplete [OF inv pend] by (simp_all add: parse_stream_Need_More)
    with True inv pend show ?thesis by (simp add: ipc_feed_loop.simps ipc_loop_result_def)
  next
    case bs: False
    show ?thesis
    proof (cases "ifd_reading_payload d")
      case True
      then have p: "p = ifd_header d @ ifd_payload d" using pend live by (simp add: ipc_pending_def)
      obtain gs d' rest where copy: "ipc_copy_payload d bs = (gs, d', rest)" by (metis prod_cases3)
      have "ipc_loop_result limit (ipc_feed_loop d' rest (frames @ gs)) (frames @ fs) en"
        using ipc_copy_payload_continues [OF inv True copy, of fs en] cut p
          "1.IH"(1) [OF bs True copy [symmetric] refl] by simp
      then show ?thesis using bs True copy by (subst ipc_feed_loop.simps) simp
    next
      case idle: False
      then have p: "p = take (ifd_header_size d) (ifd_header d)"
        using pend live by (simp add: ipc_pending_def)
      obtain d1 rest where copy: "ipc_copy_header d bs = (d1, rest)" by fastforce
      show ?thesis
      proof (cases "ifd_header_size d1 = ipc_kFrameHeaderSize")
        case False
        then have "rest = []" "ipc_decoder_inv limit d1" "ipc_pending d1 = Some (p @ bs)"
          using ipc_copy_header_refines [OF inv idle live copy] p by auto
        then have "ipc_loop_result limit (ipc_feed_loop d1 rest frames) (frames @ fs) en"
          using "1.IH"(2) [OF bs idle copy [symmetric] False] cut by simp
        then show ?thesis using bs idle copy False by (subst ipc_feed_loop.simps) simp
      next
        case full: True
        from ipc_header_complete_refines [OF inv idle live copy full] p
        consider e d2 where "ipc_begin_payload d1 = (Inl e, d2)" "ipc_cut_frame limit (p @ bs) = Bad e"
            "ipc_decoder_inv limit d2" "ipc_pending d2 = None"
          | d2 where "ipc_begin_payload d1 = (Inr (), d2)" "ipc_decoder_inv limit d2"
            "ifd_reading_payload d2" "ifd_header d2 @ ifd_payload d2 @ rest = p @ bs"
          by auto
        then show ?thesis
        proof cases
          case (1 e d2)
          then have "fs = []" "en = Broken e" using cut by (simp_all add: parse_stream_Bad)
          with 1 show ?thesis using bs idle copy full
            by (subst ipc_feed_loop.simps) (simp add: ipc_loop_result_def)
        next
          case (2 d2)
          obtain gs d3 rest' where copy': "ipc_copy_payload d2 rest = (gs, d3, rest')"
            by (metis prod_cases3)
          have "ipc_loop_result limit (ipc_feed_loop d3 rest' (frames @ gs)) (frames @ fs) en"
            using ipc_copy_payload_continues [OF 2(2,3) copy', of fs en] cut 2(4)
              "1.IH"(3) [OF bs idle copy [symmetric] _ 2(1) [symmetric] refl copy' [symmetric] refl] full
            by simp
          with 2 copy' show ?thesis using bs idle copy full by (subst ipc_feed_loop.simps) simp
        qed
      qed
    qed
  qed
qed

lemma ipc_feed_refines:
  assumes "ipc_decoder_inv limit d" "ipc_pending d = Some p" "ipc_cut_stream limit (p @ bs) = (fs, en)"
  shows "ipc_loop_result limit (ipc_feed d bs) fs en"
proof -
  have "\<not> ifd_failed d" using assms(2) by (simp add: ipc_pending_def split: if_splits)
  then show ?thesis using ipc_feed_loop_refines [OF assms, of "[]"] by (simp add: ipc_feed_def)
qed

lemma ipc_encode_frame_Inr_iff:
  "ipc_encode_frame f m = Inr bs \<longleftrightarrow>
     f \<noteq> [] \<and> length f \<le> ipc_effective_limit m \<and> bs = write_u32 (word_of_nat (length f)) @ f"
  by (auto simp: ipc_encode_frame_def Let_def ipc_effective_limit_def ipc_kDefaultMaxFrameSize_def)

lemma ipc_next_frame_encode:
  "ipc_cut_frame (ipc_effective_limit m) buf = Got f rest \<longleftrightarrow>
     (\<exists>bs. ipc_encode_frame f m = Inr bs \<and> buf = bs @ rest)"
proof
  let ?h = ipc_kFrameHeaderSize
  assume "ipc_cut_frame (ipc_effective_limit m) buf = Got f rest"
  then obtain n where buf: "?h + n \<le> length buf" "n = unat (read_u32 (take ?h buf))" "n \<noteq> 0"
      "n \<le> ipc_effective_limit m" "f = take n (drop ?h buf)" "rest = drop (?h + n) buf"
    by (auto simp: next_frame_def ipc_header_fields_def ipc_payload_of_def unat_eq_0
        split: if_splits sum.splits)
  then have "write_u32 (word_of_nat n) = take ?h buf"
    using write_u32_read_u32 [of "take ?h buf"] by (simp add: ipc_kFrameHeaderSize_def)
  moreover have "buf = take ?h buf @ f @ rest"
    using buf(5,6) by (metis append_take_drop_id drop_drop add.commute)
  ultimately show "\<exists>bs. ipc_encode_frame f m = Inr bs \<and> buf = bs @ rest"
    using buf by (auto simp: ipc_encode_frame_Inr_iff ipc_kFrameHeaderSize_def)
next
  assume "\<exists>bs. ipc_encode_frame f m = Inr bs \<and> buf = bs @ rest"
  moreover have "ipc_effective_limit m < 4294967296"
    by (simp add: ipc_effective_limit_def ipc_kDefaultMaxFrameSize_def min_def)
  ultimately show "ipc_cut_frame (ipc_effective_limit m) buf = Got f rest"
    by (auto simp: next_frame_def ipc_encode_frame_Inr_iff ipc_header_fields_def ipc_payload_of_def
        ipc_kFrameHeaderSize_def simp flip: unat_eq_0)
qed

interpretation ipc_frames: frame_codec ipc_kFrameHeaderSize
  "ipc_header_fields (ipc_effective_limit m)" ipc_payload_of ipc_feed
  "ipc_decoder_inv (ipc_effective_limit m)" ipc_pending "\<lambda>f. ipc_encode_frame f m" for m :: nat
proof
  fix d p bs fs q
  assume "ipc_decoder_inv (ipc_effective_limit m) d" "ipc_pending d = Some p"
    "ipc_cut_stream (ipc_effective_limit m) (p @ bs) = (fs, Pending q)"
  from ipc_feed_refines [OF this]
  show "\<exists>d'. ipc_feed d bs = (Inr fs, d') \<and> ipc_decoder_inv (ipc_effective_limit m) d' \<and>
      ipc_pending d' = Some q"
    by (cases "ipc_feed d bs") (auto simp: ipc_loop_result_def)
next
  fix d p bs fs e
  assume "ipc_decoder_inv (ipc_effective_limit m) d" "ipc_pending d = Some p"
    "ipc_cut_stream (ipc_effective_limit m) (p @ bs) = (fs, Broken e)"
  from ipc_feed_refines [OF this]
  show "\<exists>d'. ipc_feed d bs = (Inl e, d') \<and> ipc_decoder_inv (ipc_effective_limit m) d' \<and>
      ipc_pending d' = None"
    by (cases "ipc_feed d bs") (auto simp: ipc_loop_result_def)
next
  fix d :: IpcFrameDecoder and bs
  assume "ipc_pending d = None"
  then show "\<exists>e. ipc_feed d bs = (Inl e, d)"
    by (simp add: ipc_pending_def ipc_feed_def split: if_splits)
qed (simp_all add: ipc_next_frame_encode)

lemma new_ipc_decoder_inv:
  "ipc_decoder_inv (ipc_effective_limit m) (new_ipc_decoder m)"
  "ipc_pending (new_ipc_decoder m) = Some []"
  by (simp_all add: ipc_decoder_inv_def ipc_pending_def new_ipc_decoder_def)

lemma ipc_reset_inv:
  "ipc_decoder_inv limit d \<Longrightarrow> ipc_decoder_inv limit (ipc_reset d) \<and> ipc_pending (ipc_reset d) = Some []"
  by (auto simp: ipc_decoder_inv_def ipc_reset_def ipc_pending_def)

lemma ipc_finish_iff:
  "ipc_decoder_inv limit d \<Longrightarrow> ipc_finish d = Inr () \<longleftrightarrow> ipc_pending d = Some []"
  using ipc_kFrameHeaderSize_pos
  by (auto simp: ipc_decoder_inv_def ipc_finish_def ipc_pending_def simp del: ipc_kFrameHeaderSize_pos)

lemma ipc_buffered_size_bound:
  "ipc_decoder_inv (ipc_effective_limit m) d \<Longrightarrow> ipc_buffered_size d < max ipc_kFrameHeaderSize (ipc_effective_limit m)"
  by (auto simp: ipc_decoder_inv_def ipc_buffered_size_def less_max_iff_disj split: if_splits
      dest!: ipc_header_fields_size)

section \<open>Properties\<close>

text \<open>
  C36: A decoder of the local control channel, fresh or after \<open>reset\<close> in any state reached by feeding
  it, returns a list of payloads and ends between frames exactly when the bytes it was fed, cut into
  chunks in any way, are the encodings of these payloads; and it never holds back as much as a
  payload of the limit, or a header where that is more.
\<close>

theorem ipc_frames_exact:
  "((\<exists>d. feed_all ipc_feed (ipc_reset (snd (feed_all ipc_feed (new_ipc_decoder m) before))) chunks = (Inr fs, d) \<and>
         ipc_finish d = Inr ()) \<longleftrightarrow>
   (\<exists>bss. list_all2 (\<lambda>f bs. ipc_encode_frame f m = Inr bs) fs bss \<and> concat chunks = concat bss)) \<and>
   ipc_buffered_size (snd (feed_all ipc_feed (new_ipc_decoder m) before)) <
     max ipc_kFrameHeaderSize (ipc_effective_limit m)"
  (is "(?l \<longleftrightarrow> ?r) \<and> ?b")
proof
  show ?b by (rule ipc_buffered_size_bound [OF ipc_frames.feed_all_inv [OF new_ipc_decoder_inv(1)]])
next
  let ?d = "ipc_reset (snd (feed_all ipc_feed (new_ipc_decoder m) before))"
  have d: "ipc_decoder_inv (ipc_effective_limit m) ?d" "ipc_pending ?d = Some []"
    using ipc_reset_inv [OF ipc_frames.feed_all_inv [OF new_ipc_decoder_inv(1)]] by auto
  show "?l \<longleftrightarrow> ?r"
  proof
    assume ?l
    then obtain d' where d': "feed_all ipc_feed ?d chunks = (Inr fs, d')" "ipc_finish d' = Inr ()" by blast
    moreover have "ipc_decoder_inv (ipc_effective_limit m) d'"
      using ipc_frames.feed_all_inv [OF d(1), of chunks] d'(1) by simp
    ultimately show ?r
      using ipc_frames.decoded_was_encoded [OF d d'(1)] ipc_finish_iff by fastforce
  next
    assume ?r
    then obtain bss where "list_all2 (\<lambda>f bs. ipc_encode_frame f m = Inr bs) fs bss"
      "concat chunks = concat bss" by blast
    from ipc_frames.decode_encoded [OF d this] show ?l using ipc_finish_iff by blast
  qed
qed

end
