(* ===== verification/Decimal.thy ===== *)
theory Decimal
  imports Prelude
begin

text \<open>
  Decimal numbers as the standard library reads and writes them: \<open>std::to_string\<close> and
  \<open>std::from_chars\<close> for unsigned types.
\<close>

definition is_digit :: "char \<Rightarrow> bool" where
  "is_digit c \<longleftrightarrow> char_between CHR ''0'' CHR ''9'' c"

definition digit_value :: "char \<Rightarrow> nat" where
  "digit_value c = of_char c - 48"

definition digit_char :: "nat \<Rightarrow> char" where
  "digit_char d = char_of (48 + d)"

fun decimal :: "nat \<Rightarrow> string" where
  "decimal n = (if n < 10 then [digit_char n] else decimal (n div 10) @ [digit_char (n mod 10)])"

declare decimal.simps [simp del]

definition digits_value :: "string \<Rightarrow> nat" where
  "digits_value ds = foldl (\<lambda>v c. v * 10 + digit_value c) 0 ds"

text \<open>
  \<open>from_chars limit s\<close>: the value of the leading digits and what is left, or nothing when there
  is no digit or the value exceeds \<open>limit\<close>, the largest value of the type.
\<close>

definition from_chars :: "nat \<Rightarrow> string \<Rightarrow> (nat \<times> string) option" where
  "from_chars limit s =
     (let ds = takeWhile is_digit s
      in if ds = [] \<or> limit < digits_value ds then None
         else Some (digits_value ds, drop (length ds) s))"

lemma digit_char_ok:
  assumes "d < 10"
  shows "is_digit (digit_char d)" "digit_value (digit_char d) = d"
proof -
  have "(of_char (digit_char d) :: nat) = 48 + d"
    using assms by (simp add: digit_char_def)
  then show "is_digit (digit_char d)" "digit_value (digit_char d) = d"
    using assms by (simp_all add: is_digit_def char_between_def digit_value_def)
qed

lemma decimal_digits: "list_all is_digit (decimal n)"
  by (induction n rule: decimal.induct) (subst decimal.simps, simp add: digit_char_ok)

lemma decimal_not_Nil [simp]: "decimal n \<noteq> []"
  by (subst decimal.simps) simp

lemma digits_value_decimal [simp]: "digits_value (decimal n) = n"
proof (induction n rule: decimal.induct)
  case (1 n)
  then show ?case by (subst decimal.simps) (simp add: digits_value_def digit_char_ok)
qed

lemma decimal_length: "n < 10 ^ k \<Longrightarrow> 0 < k \<Longrightarrow> length (decimal n) \<le> k"
proof (induction n arbitrary: k rule: decimal.induct)
  case (1 n)
  show ?case
  proof (cases "n < 10")
    case True
    then show ?thesis using 1 by (subst decimal.simps) simp
  next
    case False
    then obtain j where k: "k = Suc j" "0 < j"
      using 1(2,3) by (cases k; cases "k - 1") auto
    have "n div 10 < 10 ^ j" using 1(2) by (simp add: k less_mult_imp_div_less mult.commute)
    then show ?thesis using 1(1) [OF False, of j] False k by (subst decimal.simps) simp
  qed
qed

lemma takeWhile_digits_all: "list_all is_digit s \<Longrightarrow> takeWhile is_digit s = s"
  by (simp add: list_all_iff)

lemma from_chars_all:
  "from_chars limit s = Some (v, []) \<longleftrightarrow> list_all is_digit s \<and> s \<noteq> [] \<and> v = digits_value s \<and> v \<le> limit"
proof
  assume f: "from_chars limit s = Some (v, [])"
  then have "drop (length (takeWhile is_digit s)) s = []"
    by (auto simp: from_chars_def Let_def split: if_splits)
  then have "takeWhile is_digit s = s"
    by (metis append_Nil2 dropWhile_eq_drop takeWhile_dropWhile_id)
  then have all: "list_all is_digit s" by (simp add: takeWhile_eq_all_conv list_all_iff)
  with f show "list_all is_digit s \<and> s \<noteq> [] \<and> v = digits_value s \<and> v \<le> limit"
    by (auto simp: from_chars_def takeWhile_digits_all split: if_splits)
next
  assume "list_all is_digit s \<and> s \<noteq> [] \<and> v = digits_value s \<and> v \<le> limit"
  then show "from_chars limit s = Some (v, [])"
    by (simp add: from_chars_def takeWhile_digits_all)
qed

end
