(* ===== verification/Port_Range.thy ===== *)
theory Port_Range
  imports Decimal Error_Result
begin

text \<open>
  \<open>include/minitun/common/port_range.hpp\<close> and \<open>src/common/port_range.cpp\<close>: an inclusive range of
  TCP ports, its parser and its canonical text.
\<close>

definition max_port_text_length :: nat where
  "max_port_text_length = 5"

definition max_port_range_text_length :: nat where
  "max_port_range_text_length = 11"

record PortRange =
  pr_start :: u16
  pr_end :: u16

definition invalid_range :: "string \<Rightarrow> PortRange Result" where
  "invalid_range msg = failure EC_invalid_argument msg"

definition is_range_space :: "char \<Rightarrow> bool" where
  "is_range_space c \<longleftrightarrow> c \<in> {CHR '' '', CHR 0x09, CHR 0x0A, CHR 0x0D, CHR 0x0C, CHR 0x0B}"

definition contains_whitespace :: "string \<Rightarrow> bool" where
  "contains_whitespace value = list_ex is_range_space value"

definition parse_range_port :: "string \<Rightarrow> u16 Result" where
  "parse_range_port value =
     (if value = [] then failure EC_invalid_argument ''port range contains an empty port''
      else if max_port_text_length < length value
      then failure EC_invalid_argument ''port contains too many digits''
      else (case from_chars (2 ^ 32 - 1) value of
              Some (port, []) \<Rightarrow>
                if port = 0 \<or> 65535 < port
                then failure EC_invalid_argument ''port must be a decimal number in 1..65535''
                else Inr (word_of_nat port)
            | _ \<Rightarrow> failure EC_invalid_argument ''port must be a decimal number in 1..65535''))"

definition parse_port_range :: "string \<Rightarrow> PortRange Result" where
  "parse_port_range value =
     (if value = [] then invalid_range ''port range is empty''
      else if max_port_range_text_length < length value
      then invalid_range ''port range exceeds the maximum length''
      else if contains_whitespace value
      then invalid_range ''port range must not contain whitespace''
      else if CHR ''-'' \<notin> set value
      then and_then (parse_range_port value) (\<lambda>port. Inr \<lparr>pr_start = port, pr_end = port\<rparr>)
      else (let before = takeWhile (\<lambda>c. c \<noteq> CHR ''-'') value;
                after = drop (Suc (length before)) value
            in if CHR ''-'' \<in> set after
               then invalid_range ''port range must contain at most one '-' separator''
               else and_then (parse_range_port before) (\<lambda>start.
                    and_then (parse_range_port after) (\<lambda>end.
                      if end < start then invalid_range ''port range start must not exceed its end''
                      else Inr \<lparr>pr_start = start, pr_end = end\<rparr>))))"

definition range_contains :: "u16 \<Rightarrow> PortRange \<Rightarrow> bool" where
  "range_contains port r \<longleftrightarrow> pr_start r \<le> port \<and> port \<le> pr_end r"

definition range_size :: "PortRange \<Rightarrow> u32" where
  "range_size r = ucast (pr_end r) - ucast (pr_start r) + 1"

definition range_to_string :: "PortRange \<Rightarrow> string" where
  "range_to_string r =
     (if pr_start r = pr_end r then decimal (unat (pr_start r))
      else decimal (unat (pr_start r)) @ CHR ''-'' # decimal (unat (pr_end r)))"

section \<open>Reading and writing\<close>

definition valid_range :: "PortRange \<Rightarrow> bool" where
  "valid_range r \<longleftrightarrow> 0 < pr_start r \<and> pr_start r \<le> pr_end r"

definition port_text :: "string \<Rightarrow> u16 \<Rightarrow> bool" where
  "port_text s p \<longleftrightarrow> list_all is_digit s \<and> s \<noteq> [] \<and> length s \<le> 5 \<and> digits_value s = unat p \<and> p \<noteq> 0"

lemma parse_range_port_Inr: "parse_range_port s = Inr p \<longleftrightarrow> port_text s p"
proof -
  have p: "p = word_of_nat v \<longleftrightarrow> v = unat p" if "v \<le> 65535" for v :: nat
    using that by (auto simp: unat_of_nat)
  show ?thesis
  proof (cases "list_all is_digit s \<and> s \<noteq> [] \<and> digits_value s \<le> 2 ^ 32 - 1")
    case True
    then have "from_chars (2 ^ 32 - 1) s = Some (digits_value s, [])"
      by (simp add: from_chars_all)
    with True p [of "digits_value s"] unat_less_exp [of p] show ?thesis
      by (auto simp: parse_range_port_def port_text_def max_port_text_length_def unat_eq_0)
  next
    case False
    then have "from_chars (2 ^ 32 - 1) s \<noteq> Some (v, [])" for v
      by (auto simp: from_chars_all)
    moreover have "\<not> port_text s p"
      using False unat_less_exp [of p] by (auto simp: port_text_def)
    ultimately show ?thesis
      by (auto simp: parse_range_port_def split: option.splits prod.splits list.splits if_splits)
  qed
qed

lemma port_text_decimal: "p \<noteq> 0 \<Longrightarrow> port_text (decimal (unat p)) p"
  using unat_less_exp [of p] decimal_length [of "unat p" 5]
  by (simp add: port_text_def decimal_digits)

lemma digit_not_special:
  "is_digit c \<Longrightarrow> c \<noteq> CHR ''-'' \<and> \<not> is_range_space c"
  by (auto simp: is_digit_def char_between_def is_range_space_def)

lemma port_text_plain: "port_text s p \<Longrightarrow> CHR ''-'' \<notin> set s \<and> \<not> contains_whitespace s"
  unfolding port_text_def list_all_iff contains_whitespace_def list_ex_iff
  using digit_not_special by blast

lemma parse_port_range_single:
  assumes "port_text s p"
  shows "parse_port_range s = Inr \<lparr>pr_start = p, pr_end = p\<rparr>"
  using assms port_text_plain [OF assms]
  by (simp add: parse_port_range_def parse_range_port_Inr [THEN iffD2] max_port_range_text_length_def)
     (simp add: port_text_def)

lemma parse_port_range_pair:
  assumes "port_text s p" "port_text t q" "p \<le> q"
  shows "parse_port_range (s @ CHR ''-'' # t) = Inr \<lparr>pr_start = p, pr_end = q\<rparr>"
proof -
  have plain: "CHR ''-'' \<notin> set s" "CHR ''-'' \<notin> set t" "\<not> contains_whitespace (s @ CHR ''-'' # t)"
    using port_text_plain [OF assms(1)] port_text_plain [OF assms(2)]
    by (auto simp: contains_whitespace_def is_range_space_def)
  moreover have "length (s @ CHR ''-'' # t) \<le> 11" using assms by (simp add: port_text_def)
  moreover have "\<not> q < p" using assms(3) by simp
  ultimately show ?thesis
    using assms
    by (simp add: parse_port_range_def parse_range_port_Inr [THEN iffD2] max_port_range_text_length_def)
qed

lemma parse_port_range_Inr:
  assumes "parse_port_range s = Inr r"
  shows "valid_range r \<and> (\<exists>t u. port_text t (pr_start r) \<and> port_text u (pr_end r) \<and>
    (s = t @ CHR ''-'' # u \<or> s = t \<and> pr_start r = pr_end r))"
proof (cases "CHR ''-'' \<in> set s")
  case False
  with assms obtain p where "port_text s p" "r = \<lparr>pr_start = p, pr_end = p\<rparr>"
    by (auto simp: parse_port_range_def invalid_range_def and_then_Inr_iff parse_range_port_Inr split: if_splits)
  then show ?thesis by (auto simp: valid_range_def port_text_def word_gt_0)
next
  case True
  let ?b = "takeWhile (\<lambda>c. c \<noteq> CHR ''-'') s" and ?a = "drop (Suc (length (takeWhile (\<lambda>c. c \<noteq> CHR ''-'') s))) s"
  have s: "s = ?b @ CHR ''-'' # ?a"
    using True by (rule split_first)
  from assms True obtain p q where "port_text ?b p" "port_text ?a q" "p \<le> q" "r = \<lparr>pr_start = p, pr_end = q\<rparr>"
    by (auto simp: parse_port_range_def invalid_range_def and_then_Inr_iff parse_range_port_Inr Let_def
        split: if_splits)
  moreover from this(1) have "p \<noteq> 0" by (simp add: port_text_def)
  ultimately show ?thesis using s by (auto simp: valid_range_def word_gt_0)
qed

text \<open>
  C24: Port ranges are read and written consistently.  Every range that the parser returns is
  non-empty and within 1..65535, every such range is returned for its own text, and its size is the
  number of ports it contains.
\<close>

theorem port_range_roundtrip:
  "(valid_range r \<longrightarrow> parse_port_range (range_to_string r) = Inr r) \<and>
   (parse_port_range s = Inr r \<longrightarrow>
      valid_range r \<and> parse_port_range (range_to_string r) = Inr r \<and>
      unat (range_size r) = card {p. range_contains p r})"
proof -
  have reread: "parse_port_range (range_to_string r) = Inr r" if "valid_range r"
  proof -
    have "pr_start r \<noteq> 0" "pr_end r \<noteq> 0" using that by (auto simp: valid_range_def)
    then show ?thesis
      using that parse_port_range_single [OF port_text_decimal]
        parse_port_range_pair [OF port_text_decimal port_text_decimal]
      by (cases r) (auto simp: range_to_string_def valid_range_def)
  qed
  have "unat (range_size r) = card {p. range_contains p r}" if "valid_range r"
  proof -
    have le: "unat (pr_start r) \<le> unat (pr_end r)"
      using that by (simp add: valid_range_def word_le_nat_alt)
    have "{p. range_contains p r} = {pr_start r .. pr_end r}"
      by (auto simp: range_contains_def)
    moreover have "range_size r = word_of_nat (unat (pr_end r) + 1 - unat (pr_start r))"
    proof -
      have "(ucast w :: u32) = word_of_nat (unat w)" for w :: u16
        by (rule word_unat_eq_iff [THEN iffD2]) (simp add: unat_of_nat unsigned_ucast_eq)
      with le show ?thesis by (simp add: range_size_def of_nat_diff)
    qed
    moreover have "unat (pr_end r) + 1 - unat (pr_start r) < 2 ^ 32"
    proof -
      have "unat (pr_end r) < 65536" using unat_less_exp [of "pr_end r"] by (simp del: unsigned_less)
      then show ?thesis by simp
    qed
    ultimately show ?thesis
      by (simp only: card_word_interval unat_of_nat) simp
  qed
  with reread parse_port_range_Inr show ?thesis by blast
qed

theorem port_range_roundtrip_witness:
  "parse_port_range (range_to_string \<lparr>pr_start = 6000, pr_end = 6999\<rparr>) = Inr \<lparr>pr_start = 6000, pr_end = 6999\<rparr>"
  using port_range_roundtrip [of "\<lparr>pr_start = 6000, pr_end = 6999\<rparr>"] by (simp add: valid_range_def)

end
