(* ===== verification/Endpoints.thy ===== *)
theory Endpoints
  imports Port_Range
begin

text \<open>
  \<open>include/minitun/common/endpoint.hpp\<close> and \<open>src/common/endpoint.cpp\<close>: the strict endpoint parser
  and the canonical text.  The address parsers of asio are parameters: \<open>make_v4 h\<close> and \<open>make_v6 h\<close>
  are the text of the parsed address, or nothing when \<open>h\<close> is refused.  The loops over the
  components of a host work on the part of the host that is still to be read.
\<close>

datatype EndpointKind = EK_domain_name | EK_ipv4 | EK_ipv6

record Endpoint =
  ep_host :: string
  ep_port :: u16
  ep_kind :: EndpointKind

definition max_domain_length :: nat where
  "max_domain_length = 253"

definition max_domain_label_length :: nat where
  "max_domain_label_length = 63"

definition max_endpoint_text_length :: nat where
  "max_endpoint_text_length = 260"

definition invalid_endpoint :: "string \<Rightarrow> Endpoint Result" where
  "invalid_endpoint msg = failure EC_invalid_argument msg"

text \<open>\<open>std::isspace\<close> in the C locale.\<close>

definition endpoint_has_space :: "string \<Rightarrow> bool" where
  "endpoint_has_space value = list_ex is_range_space value"

definition parse_endpoint_port :: "string \<Rightarrow> u16 Result" where
  "parse_endpoint_port value =
     (if value = [] then failure EC_invalid_argument ''endpoint port is empty''
      else if max_port_text_length < length value
      then failure EC_invalid_argument ''endpoint port has too many digits''
      else (case from_chars (2 ^ 32 - 1) value of
              Some (port, []) \<Rightarrow>
                if port = 0 \<or> 65535 < port
                then failure EC_invalid_argument ''endpoint port must be a decimal number in 1..65535''
                else Inr (word_of_nat port)
            | _ \<Rightarrow> failure EC_invalid_argument ''endpoint port must be a decimal number in 1..65535''))"

definition is_ascii_letter :: "char \<Rightarrow> bool" where
  "is_ascii_letter c \<longleftrightarrow>
     char_between CHR ''a'' CHR ''z'' c \<or> char_between CHR ''A'' CHR ''Z'' c"

definition is_ascii_digit :: "char \<Rightarrow> bool" where
  "is_ascii_digit c \<longleftrightarrow> char_between CHR ''0'' CHR ''9'' c"

definition is_domain_character :: "char \<Rightarrow> bool" where
  "is_domain_character c \<longleftrightarrow> is_ascii_letter c \<or> is_ascii_digit c \<or> c = CHR ''-''"

definition is_ascii_hex_digit :: "char \<Rightarrow> bool" where
  "is_ascii_hex_digit c \<longleftrightarrow>
     is_ascii_digit c \<or> char_between CHR ''a'' CHR ''f'' c \<or> char_between CHR ''A'' CHR ''F'' c"

definition is_legacy_numeric_component :: "string \<Rightarrow> bool" where
  "is_legacy_numeric_component component \<longleftrightarrow>
     component \<noteq> [] \<and>
     (list_all is_ascii_digit component \<or>
      2 < length component \<and> component ! 0 = CHR ''0'' \<and>
      (component ! 1 = CHR ''x'' \<or> component ! 1 = CHR ''X'') \<and>
      list_all is_ascii_hex_digit (drop 2 component))"

text \<open>The next component of a host and what follows its dot, if there is one.\<close>

definition next_component :: "string \<Rightarrow> string \<times> string option" where
  "next_component host =
     (let component = takeWhile (\<lambda>c. c \<noteq> CHR ''.'') host
      in (component, if CHR ''.'' \<in> set host then Some (drop (Suc (length component)) host) else None))"

lemma next_component_shorter:
  "next_component host = (component, Some rest) \<Longrightarrow> length rest < length host"
  by (auto simp: next_component_def Let_def split: if_splits)
     (metis diff_less empty_iff length_greater_0_conv list.set(1) zero_less_Suc)

function is_legacy_numeric_ipv4_name :: "string \<Rightarrow> bool" where
  "is_legacy_numeric_ipv4_name host =
     (if host = [] then False
      else (case next_component host of
              (component, rest) \<Rightarrow>
                is_legacy_numeric_component component \<and>
                (case rest of
                   None \<Rightarrow> True
                 | Some rest \<Rightarrow> rest = [] \<or> is_legacy_numeric_ipv4_name rest)))"
  by pat_completeness auto
termination by (relation "measure length") (auto dest: next_component_shorter [OF sym])

definition is_octet :: "string \<Rightarrow> bool" where
  "is_octet octet \<longleftrightarrow>
     \<not> (length octet = 0 \<or> 3 < length octet \<or> 1 < length octet \<and> octet ! 0 = CHR ''0'') \<and>
     (case from_chars (2 ^ 16 - 1) octet of Some (v, []) \<Rightarrow> v \<le> 255 | _ \<Rightarrow> False)"

function octet_loop :: "string \<Rightarrow> nat \<Rightarrow> bool" where
  "octet_loop host octet_count =
     (if host = [] then octet_count = 4
      else (case next_component host of
              (octet, rest) \<Rightarrow>
                is_octet octet \<and>
                (case rest of
                   None \<Rightarrow> octet_count + 1 = 4
                 | Some rest \<Rightarrow> octet_loop rest (octet_count + 1))))"
  by pat_completeness auto
termination by (relation "measure (\<lambda>(host, _). length host)") (auto dest: next_component_shorter [OF sym])

definition is_valid_ipv4_text :: "string \<Rightarrow> bool" where
  "is_valid_ipv4_text host \<longleftrightarrow>
     \<not> (host = [] \<or> hd host = CHR ''.'' \<or> last host = CHR ''.'') \<and> octet_loop host 0"

definition is_label :: "string \<Rightarrow> bool" where
  "is_label label \<longleftrightarrow>
     label \<noteq> [] \<and> length label \<le> max_domain_label_length \<and>
     hd label \<noteq> CHR ''-'' \<and> last label \<noteq> CHR ''-'' \<and> list_all is_domain_character label"

function label_loop :: "string \<Rightarrow> bool" where
  "label_loop host =
     (if host = [] then True
      else (case next_component host of
              (label, rest) \<Rightarrow>
                is_label label \<and> (case rest of None \<Rightarrow> True | Some rest \<Rightarrow> label_loop rest)))"
  by pat_completeness auto
termination by (relation "measure length") (auto dest: next_component_shorter [OF sym])

declare is_legacy_numeric_ipv4_name.simps [simp del] octet_loop.simps [simp del] label_loop.simps [simp del]

definition is_valid_domain_name :: "string \<Rightarrow> bool" where
  "is_valid_domain_name host =
     (if host = [] then False
      else let host = (if last host = CHR ''.'' then butlast host else host)
           in \<not> (host = [] \<or> last host = CHR ''.'' \<or> max_domain_length < length host) \<and>
              label_loop host)"

definition lower_char :: "char \<Rightarrow> char" where
  "lower_char c = (if char_between CHR ''A'' CHR ''Z'' c then char_of (of_char c + 32 :: nat) else c)"

definition lower_ascii :: "string \<Rightarrow> string" where
  "lower_ascii value = map lower_char value"

definition parse_bracketed ::
  "(string \<Rightarrow> string option) \<Rightarrow> string \<Rightarrow> Endpoint Result" where
  "parse_bracketed make_v6 value =
     (let before = takeWhile (\<lambda>c. c \<noteq> CHR '']'') value; closing_bracket = length before
      in if CHR '']'' \<notin> set value \<or> closing_bracket = 1 \<or> length value \<le> closing_bracket + 1 \<or>
            value ! (closing_bracket + 1) \<noteq> CHR '':''
         then invalid_endpoint ''IPv6 endpoints must use the form [address]:port''
         else (let host = drop 1 before; port_text = drop (closing_bracket + 2) value
               in if CHR ''%'' \<in> set host
                  then invalid_endpoint ''IPv6 scope identifiers are not supported''
                  else (case make_v6 host of
                          None \<Rightarrow> invalid_endpoint ''endpoint contains an invalid IPv6 address''
                        | Some address \<Rightarrow>
                            and_then (parse_endpoint_port port_text) (\<lambda>port.
                              Inr \<lparr>ep_host = address, ep_port = port, ep_kind = EK_ipv6\<rparr>))))"

definition parse_endpoint ::
  "(string \<Rightarrow> string option) \<Rightarrow> (string \<Rightarrow> string option) \<Rightarrow> string \<Rightarrow> Endpoint Result" where
  "parse_endpoint make_v4 make_v6 value =
     (if value = [] then invalid_endpoint ''endpoint is empty''
      else if max_endpoint_text_length < length value
      then invalid_endpoint ''endpoint exceeds the maximum length''
      else if endpoint_has_space value
      then invalid_endpoint ''endpoint must not contain whitespace''
      else if hd value = CHR ''['' then parse_bracketed make_v6 value
      else (let host = takeWhile (\<lambda>c. c \<noteq> CHR '':'') value;
                port_text = drop (Suc (length host)) value
            in if CHR '':'' \<notin> set value \<or> host = [] \<or> CHR '':'' \<in> set port_text
               then invalid_endpoint
                      ''endpoint must use host:port, with brackets around IPv6 addresses''
               else and_then (parse_endpoint_port port_text) (\<lambda>port.
                 if is_valid_ipv4_text host
                 then (case make_v4 host of
                         None \<Rightarrow> invalid_endpoint ''endpoint contains an invalid IPv4 address''
                       | Some address \<Rightarrow>
                           Inr \<lparr>ep_host = address, ep_port = port, ep_kind = EK_ipv4\<rparr>)
                 else if is_legacy_numeric_ipv4_name host
                 then invalid_endpoint
                        ''endpoint contains an ambiguous legacy numeric IPv4 address''
                 else if \<not> is_valid_domain_name host
                 then invalid_endpoint ''endpoint contains an invalid domain name''
                 else Inr \<lparr>ep_host = lower_ascii host, ep_port = port,
                           ep_kind = EK_domain_name\<rparr>)))"

definition endpoint_to_string :: "Endpoint \<Rightarrow> string" where
  "endpoint_to_string e =
     (if ep_kind e = EK_ipv6 then CHR ''['' # ep_host e @ '']:'' @ decimal (unat (ep_port e))
      else ep_host e @ CHR '':'' # decimal (unat (ep_port e)))"

section \<open>Letter case\<close>

lemma of_lower_char:
  "(of_char (lower_char c) :: nat) =
     (if char_between CHR ''A'' CHR ''Z'' c then of_char c + 32 else of_char c)"
  by (auto simp: lower_char_def char_between_def)

lemma lower_char_same:
  assumes "\<not> is_ascii_letter d"
  shows "lower_char c = d \<longleftrightarrow> c = d"
proof -
  have "lower_char c = d \<longleftrightarrow> (of_char (lower_char c) :: nat) = of_char d" by simp
  also have "\<dots> \<longleftrightarrow> (of_char c :: nat) = of_char d"
    using assms unfolding of_lower_char is_ascii_letter_def char_between_def by auto
  finally show ?thesis by simp
qed

lemma lower_char_classes [simp]:
  "is_ascii_letter (lower_char c) = is_ascii_letter c"
  "is_ascii_digit (lower_char c) = is_ascii_digit c"
  "is_ascii_hex_digit (lower_char c) = is_ascii_hex_digit c"
  using of_lower_char [of c]
  by (auto simp: is_ascii_letter_def is_ascii_digit_def is_ascii_hex_digit_def char_between_def)

lemma lower_char_special [simp]:
  "lower_char c = CHR ''-'' \<longleftrightarrow> c = CHR ''-''" "lower_char c = CHR ''.'' \<longleftrightarrow> c = CHR ''.''"
  "lower_char c = CHR ''0'' \<longleftrightarrow> c = CHR ''0''"
  by (rule lower_char_same; simp add: is_ascii_letter_def char_between_def)+

lemma lower_char_domain [simp]: "is_domain_character (lower_char c) = is_domain_character c"
  by (simp add: is_domain_character_def)

lemma lower_char_x:
  "lower_char c = CHR ''x'' \<or> lower_char c = CHR ''X'' \<longleftrightarrow> c = CHR ''x'' \<or> c = CHR ''X''"
proof -
  have eq: "c = d \<longleftrightarrow> (of_char c :: nat) = of_char d" for c d :: char by simp
  show ?thesis
    unfolding eq [of "lower_char c"] eq [of c] of_lower_char by (auto simp: char_between_def)
qed

lemma lower_char_idem [simp]: "lower_char (lower_char c) = lower_char c"
  using of_lower_char [of c] by (auto simp: lower_char_def char_between_def)

lemma next_component_lower:
  "next_component (map lower_char host) = map_prod (map lower_char) (map_option (map lower_char)) (next_component host)"
proof -
  have "CHR ''.'' \<in> set (map lower_char host) \<longleftrightarrow> CHR ''.'' \<in> set host"
    by (metis image_iff lower_char_special(2) set_map)
  then show ?thesis
    by (simp add: next_component_def Let_def takeWhile_map comp_def drop_map)
qed

lemma legacy_component_lower:
  "is_legacy_numeric_component (map lower_char component) = is_legacy_numeric_component component"
  by (cases "2 < length component")
     (auto simp: is_legacy_numeric_component_def list_all_iff drop_map lower_char_x)

lemma legacy_lower: "is_legacy_numeric_ipv4_name (map lower_char host) = is_legacy_numeric_ipv4_name host"
proof (induction host rule: is_legacy_numeric_ipv4_name.induct)
  case (1 host)
  show ?case
    by (subst (1 2) is_legacy_numeric_ipv4_name.simps)
       (auto simp: next_component_lower legacy_component_lower 1 split: prod.split option.split)
qed

lemma is_label_lower: "is_label (map lower_char label) = is_label label"
  by (auto simp: is_label_def hd_map last_map list_all_iff)

lemma label_loop_lower: "label_loop (map lower_char host) = label_loop host"
proof (induction host rule: label_loop.induct)
  case (1 host)
  show ?case
    by (subst (1 2) label_loop.simps)
       (auto simp: next_component_lower is_label_lower 1 split: prod.split option.split)
qed

lemma domain_name_lower: "is_valid_domain_name (lower_ascii host) = is_valid_domain_name host"
  by (auto simp: is_valid_domain_name_def lower_ascii_def Let_def last_map map_butlast [symmetric]
      label_loop_lower)

section \<open>Characters of a host\<close>

lemma next_component_eq:
  assumes "next_component host = (component, rest)"
  shows "host = component @ (case rest of None \<Rightarrow> [] | Some r \<Rightarrow> CHR ''.'' # r)"
proof (cases "CHR ''.'' \<in> set host")
  case True
  then show ?thesis
    using assms split_first [OF True] by (auto simp: next_component_def Let_def)
next
  case False
  then have "takeWhile (\<lambda>c. c \<noteq> CHR ''.'') host = host" by (simp add: takeWhile_eq_all_conv) metis
  with False assms show ?thesis by (auto simp: next_component_def Let_def)
qed

lemma is_digit_ascii: "is_digit c = is_ascii_digit c"
  by (simp add: is_digit_def is_ascii_digit_def)

lemma is_octet_digits: "is_octet octet \<Longrightarrow> list_all is_ascii_digit octet \<and> length octet \<le> 3"
  using from_chars_all [of "2 ^ 16 - 1" octet]
  by (auto simp: is_octet_def is_digit_ascii [abs_def] split: option.splits prod.splits list.splits)

lemma octet_loop_step:
  assumes "octet_loop host n" "host \<noteq> []"
  obtains octet rest where "next_component host = (octet, rest)" "is_octet octet"
    "case rest of None \<Rightarrow> n + 1 = 4 | Some r \<Rightarrow> octet_loop r (n + 1)"
  using assms by (subst (asm) octet_loop.simps) (auto split: prod.splits)

lemma octet_loop_chars:
  "octet_loop host n \<Longrightarrow>
   n \<le> 4 \<and> (\<forall>c \<in> set host. is_ascii_digit c \<or> c = CHR ''.'') \<and> length host \<le> 4 * (4 - n)"
proof (induction host n rule: octet_loop.induct)
  case (1 host n)
  show ?case
  proof (cases "host = []")
    case True
    then show ?thesis using 1(2) by (subst (asm) octet_loop.simps) simp
  next
    case False
    obtain octet rest where step: "next_component host = (octet, rest)" "is_octet octet"
      "case rest of None \<Rightarrow> n + 1 = 4 | Some r \<Rightarrow> octet_loop r (n + 1)"
      using 1(2) False by (rule octet_loop_step)
    note eq = next_component_eq [OF step(1)] and digits = is_octet_digits [OF step(2)]
    show ?thesis
      using 1(1) [OF False step(1) [symmetric]] eq digits step(3)
      by (cases rest) (auto simp: list_all_iff)
  qed
qed

lemma ipv4_text_chars:
  assumes "is_valid_ipv4_text host"
  shows "\<forall>c \<in> set host. is_ascii_digit c \<or> c = CHR ''.''" "length host \<le> 16" "host \<noteq> []"
  using assms octet_loop_chars [of host 0] by (auto simp: is_valid_ipv4_text_def)

lemma label_loop_chars:
  "label_loop host \<Longrightarrow> \<forall>c \<in> set host. is_domain_character c \<or> c = CHR ''.''"
proof (induction host rule: label_loop.induct)
  case (1 host)
  show ?case
  proof (cases "host = []")
    case False
    obtain label rest where step: "next_component host = (label, rest)" "is_label label"
      "case rest of None \<Rightarrow> True | Some r \<Rightarrow> label_loop r"
      using 1(2) False by (subst (asm) label_loop.simps) (auto split: prod.splits)
    show ?thesis
      using 1(1) [OF False step(1) [symmetric]] next_component_eq [OF step(1)] step(2,3)
      by (cases rest) (auto simp: is_label_def list_all_iff)
  qed simp
qed

lemma domain_name_chars:
  assumes "is_valid_domain_name host"
  shows "\<forall>c \<in> set host. is_domain_character c \<or> c = CHR ''.''" "length host \<le> 254" "host \<noteq> []"
proof -
  let ?h = "if last host = CHR ''.'' then butlast host else host"
  have "host \<noteq> []" and "length ?h \<le> 253" and loop: "label_loop ?h"
    using assms by (auto simp: is_valid_domain_name_def Let_def max_domain_length_def split: if_splits)
  then show "length host \<le> 254" "host \<noteq> []" by (auto split: if_splits)
  have "set host \<subseteq> insert CHR ''.'' (set ?h)"
    using \<open>host \<noteq> []\<close> by (auto simp: in_set_butlastD) (metis append_butlast_last_id in_set_conv_decomp
        rotate1.simps(2) set_ConsD set_rotate1)
  then show "\<forall>c \<in> set host. is_domain_character c \<or> c = CHR ''.''"
    using label_loop_chars [OF loop] by blast
qed

section \<open>The canonical text\<close>

lemma parse_endpoint_port_decimal: "p \<noteq> 0 \<Longrightarrow> parse_endpoint_port (decimal (unat p)) = Inr p"
proof -
  assume "p \<noteq> 0"
  then have "parse_range_port (decimal (unat p)) = Inr p"
    by (simp add: parse_range_port_Inr port_text_decimal)
  then show ?thesis
    by (auto simp: parse_range_port_def parse_endpoint_port_def split: if_splits option.splits prod.splits list.splits)
qed

lemma parse_endpoint_port_nonzero: "parse_endpoint_port s = Inr p \<Longrightarrow> p \<noteq> 0"
proof -
  assume "parse_endpoint_port s = Inr p"
  then have "parse_range_port s = Inr p"
    by (auto simp: parse_range_port_def parse_endpoint_port_def split: if_splits option.splits prod.splits list.splits)
  then show "p \<noteq> 0" by (simp add: parse_range_port_Inr port_text_def)
qed

definition host_char :: "char \<Rightarrow> bool" where
  "host_char c \<longleftrightarrow> is_domain_character c \<or> c = CHR ''.''"

lemma host_char_plain:
  "host_char c \<Longrightarrow> c \<noteq> CHR '':'' \<and> c \<noteq> CHR ''['' \<and> \<not> is_range_space c"
  by (auto simp: host_char_def is_domain_character_def is_ascii_letter_def is_ascii_digit_def
      char_between_def is_range_space_def)

lemma decimal_plain: "CHR '':'' \<notin> set (decimal n)" "\<not> list_ex is_range_space (decimal n)"
  using decimal_digits [of n]
  by (auto simp: list_all_iff list_ex_iff is_digit_def char_between_def is_range_space_def dest!: bspec)

lemma parse_host_port:
  assumes "\<forall>c \<in> set host. host_char c" "host \<noteq> []" "length host \<le> 254" "p \<noteq> 0"
  shows "parse_endpoint make_v4 make_v6 (host @ CHR '':'' # decimal (unat p)) =
    (if is_valid_ipv4_text host
     then (case make_v4 host of
             None \<Rightarrow> invalid_endpoint ''endpoint contains an invalid IPv4 address''
           | Some address \<Rightarrow> Inr \<lparr>ep_host = address, ep_port = p, ep_kind = EK_ipv4\<rparr>)
     else if is_legacy_numeric_ipv4_name host
     then invalid_endpoint ''endpoint contains an ambiguous legacy numeric IPv4 address''
     else if \<not> is_valid_domain_name host
     then invalid_endpoint ''endpoint contains an invalid domain name''
     else Inr \<lparr>ep_host = lower_ascii host, ep_port = p, ep_kind = EK_domain_name\<rparr>)"
proof -
  have host: "CHR '':'' \<notin> set host" "hd host \<noteq> CHR ''[''" "\<not> list_ex is_range_space host"
    using assms(1,2) host_char_plain hd_in_set [of host] by (auto simp: list_ex_iff)
  have len: "length (decimal (unat p)) \<le> 5"
    using port_text_decimal [OF assms(4)] by (simp add: port_text_def)
  let ?v = "host @ CHR '':'' # decimal (unat p)"
  have "?v \<noteq> []" "length ?v \<le> max_endpoint_text_length" "\<not> endpoint_has_space ?v" "hd ?v \<noteq> CHR ''[''"
    using host assms(2,3) len decimal_plain(2)
    by (simp_all add: max_endpoint_text_length_def endpoint_has_space_def is_range_space_def)
  then show ?thesis
    using host(1) assms(2,4)
    by (simp add: parse_endpoint_def parse_endpoint_port_decimal decimal_plain)
qed

lemma parse_endpoint_cases:
  assumes "parse_endpoint make_v4 make_v6 value = Inr e"
  obtains host where "make_v6 host = Some (ep_host e)" "CHR ''%'' \<notin> set host" "ep_kind e = EK_ipv6" "ep_port e \<noteq> 0"
    | host where "is_valid_ipv4_text host" "make_v4 host = Some (ep_host e)" "ep_kind e = EK_ipv4" "ep_port e \<noteq> 0"
    | host where "\<not> is_valid_ipv4_text host" "\<not> is_legacy_numeric_ipv4_name host"
      "is_valid_domain_name host" "ep_host e = lower_ascii host" "ep_kind e = EK_domain_name" "ep_port e \<noteq> 0"
proof (cases "hd value = CHR ''[''")
  case True
  then have "parse_bracketed make_v6 value = Inr e"
    using assms by (auto simp: parse_endpoint_def invalid_endpoint_def split: if_splits)
  then show ?thesis
    using that(1) parse_endpoint_port_nonzero
    by (auto simp: parse_bracketed_def Let_def invalid_endpoint_def and_then_Inr_iff
        split: if_splits option.splits)
next
  case False
  then show ?thesis
    using assms that(2,3) parse_endpoint_port_nonzero
    by (auto simp: parse_endpoint_def Let_def invalid_endpoint_def and_then_Inr_iff
        split: if_splits option.splits)
qed

lemma ipv4_text_lower:
  assumes "\<not> is_valid_ipv4_text host"
  shows "\<not> is_valid_ipv4_text (lower_ascii host)"
proof
  assume v: "is_valid_ipv4_text (lower_ascii host)"
  have "lower_char c = c" if "c \<in> set host" for c
  proof -
    have "is_ascii_digit (lower_char c) \<or> lower_char c = CHR ''.''"
      using ipv4_text_chars(1) [OF v] that by (auto simp: lower_ascii_def)
    then have "is_ascii_digit c \<or> c = CHR ''.''" by simp
    then show ?thesis by (auto simp: lower_char_def is_ascii_digit_def char_between_def)
  qed
  then have "lower_ascii host = host" by (simp add: lower_ascii_def map_idI)
  with v assms show False by simp
qed

text \<open>
  What the code relies on from asio: the text of an address that was parsed from a dotted quad
  without leading zeros is that quad, and the text of an IPv6 address without a scope is
  short, contains a colon, is made of hexadecimal digits, colons and dots, and parses to itself.
\<close>

definition quads_exact :: "(string \<Rightarrow> string option) \<Rightarrow> bool" where
  "quads_exact make_v4 \<longleftrightarrow> (\<forall>h. is_valid_ipv4_text h \<longrightarrow> make_v4 h = Some h)"

definition v6_canonical :: "(string \<Rightarrow> string option) \<Rightarrow> bool" where
  "v6_canonical make_v6 \<longleftrightarrow>
     (\<forall>h a. make_v6 h = Some a \<and> CHR ''%'' \<notin> set h \<longrightarrow>
        make_v6 a = Some a \<and> CHR '':'' \<in> set a \<and> length a \<le> 45 \<and>
        (\<forall>c \<in> set a. is_ascii_hex_digit c \<or> c = CHR '':'' \<or> c = CHR ''.''))"

lemma v6_canonicalD:
  assumes "v6_canonical make_v6" "make_v6 h = Some a" "CHR ''%'' \<notin> set h"
  shows "make_v6 a = Some a" "a \<noteq> []" "CHR '':'' \<in> set a" "length a \<le> 45"
    "\<forall>c \<in> set a. is_ascii_hex_digit c \<or> c = CHR '':'' \<or> c = CHR ''.''"
proof -
  show "CHR '':'' \<in> set a" using assms unfolding v6_canonical_def by blast
  then show "a \<noteq> []" by auto
qed (use assms in \<open>unfold v6_canonical_def, blast+\<close>)

lemma v6_char_plain:
  "is_ascii_hex_digit c \<or> c = CHR '':'' \<or> c = CHR ''.'' \<Longrightarrow>
   c \<noteq> CHR '']'' \<and> c \<noteq> CHR ''%'' \<and> \<not> is_range_space c"
  by (auto simp: is_ascii_hex_digit_def is_ascii_digit_def char_between_def is_range_space_def)

lemma parse_bracketed_address:
  assumes "make_v6 a = Some a" "a \<noteq> []" "length a \<le> 45" "p \<noteq> 0"
    and "\<forall>c \<in> set a. is_ascii_hex_digit c \<or> c = CHR '':'' \<or> c = CHR ''.''"
  shows "parse_endpoint make_v4 make_v6 (CHR ''['' # a @ '']:'' @ decimal (unat p)) =
    Inr \<lparr>ep_host = a, ep_port = p, ep_kind = EK_ipv6\<rparr>"
proof -
  have a: "CHR '']'' \<notin> set a" "CHR ''%'' \<notin> set a" "\<not> list_ex is_range_space a"
    using assms(5) v6_char_plain by (auto simp: list_ex_iff)
  have len: "length (decimal (unat p)) \<le> 5"
    using port_text_decimal [OF assms(4)] by (simp add: port_text_def)
  let ?v = "CHR ''['' # a @ '']:'' @ decimal (unat p)"
  have "takeWhile (\<lambda>c. c \<noteq> CHR '']'') ?v = CHR ''['' # a"
    using takeWhile_first [of "CHR '']''" "CHR ''['' # a" "CHR '':'' # decimal (unat p)"] a(1) by simp
  moreover have "length ?v \<le> max_endpoint_text_length" "\<not> endpoint_has_space ?v"
    using a(3) assms(3) len decimal_plain(2)
    by (simp_all add: max_endpoint_text_length_def endpoint_has_space_def is_range_space_def)
  ultimately show ?thesis
    using assms(1,2,4) a(2)
    by (simp add: parse_endpoint_def parse_bracketed_def parse_endpoint_port_decimal nth_append)
qed

lemma endpoint_reparse:
  assumes "quads_exact make_v4" "v6_canonical make_v6" "parse_endpoint make_v4 make_v6 value = Inr e"
  shows "parse_endpoint make_v4 make_v6 (endpoint_to_string e) = Inr e \<and> ep_port e \<noteq> 0"
  using assms(3)
proof (cases rule: parse_endpoint_cases)
  case (1 host)
  then show ?thesis
    using parse_bracketed_address [of make_v6 "ep_host e" "ep_port e" make_v4]
      v6_canonicalD [OF assms(2) 1(1,2)]
    by (cases e) (simp add: endpoint_to_string_def)
next
  case (2 host)
  then have "ep_host e = host" using assms(1) by (simp add: quads_exact_def)
  with 2 ipv4_text_chars [OF 2(1)] show ?thesis
    using parse_host_port [of host "ep_port e" make_v4 make_v6]
    by (cases e) (auto simp: endpoint_to_string_def host_char_def is_domain_character_def)
next
  case (3 host)
  have "is_valid_domain_name (lower_ascii host)" using 3(3) by (simp add: domain_name_lower)
  from domain_name_chars [OF this] this 3 show ?thesis
    using parse_host_port [of "lower_ascii host" "ep_port e" make_v4 make_v6] ipv4_text_lower [OF 3(1)]
      legacy_lower [of host]
    by (cases e) (auto simp: endpoint_to_string_def host_char_def lower_ascii_def comp_def)
qed

lemma endpoint_shape:
  assumes "quads_exact make_v4" "v6_canonical make_v6" "parse_endpoint make_v4 make_v6 value = Inr e"
  shows "ep_host e \<noteq> [] \<and> length (ep_host e) \<le> 254 \<and> (CHR '':'' \<in> set (ep_host e) \<longleftrightarrow> ep_kind e = EK_ipv6)"
  using assms(3)
proof (cases rule: parse_endpoint_cases)
  case (1 host)
  then show ?thesis using v6_canonicalD [OF assms(2) 1(1,2)] by simp
next
  case (2 host)
  then have "ep_host e = host" using assms(1) by (simp add: quads_exact_def)
  with 2 ipv4_text_chars [OF 2(1)] show ?thesis by (auto simp: is_ascii_digit_def char_between_def)
next
  case (3 host)
  have "is_valid_domain_name (lower_ascii host)" using 3(3) by (simp add: domain_name_lower)
  from domain_name_chars [OF this] 3 show ?thesis
    by (auto simp: is_domain_character_def is_ascii_letter_def is_ascii_digit_def char_between_def)
qed

text \<open>
  C25: Endpoints have a canonical text.  Whatever text the parser accepts, the resulting endpoint
  has a non-zero port and the parser accepts its text and returns the same endpoint, for domain
  names (in any letter case and with or without the final dot), IPv4 and IPv6 addresses.
\<close>

theorem endpoint_canonical:
  assumes "quads_exact make_v4" "v6_canonical make_v6" "parse_endpoint make_v4 make_v6 value = Inr e"
  shows "parse_endpoint make_v4 make_v6 (endpoint_to_string e) = Inr e \<and> ep_port e \<noteq> 0"
  using assms by (rule endpoint_reparse)

theorem endpoint_canonical_witness:
  "\<exists>e. parse_endpoint (\<lambda>h. if is_valid_ipv4_text h then Some h else None) (\<lambda>_. None)
       (''Ab.c:'' @ decimal 443) = Inr e \<and> ep_host e = ''ab.c'' \<and>
     parse_endpoint (\<lambda>h. if is_valid_ipv4_text h then Some h else None) (\<lambda>_. None)
       (endpoint_to_string e) = Inr e"
proof -
  let ?v4 = "\<lambda>h. if is_valid_ipv4_text h then Some h else None"
  let ?e = "\<lparr>ep_host = ''ab.c'', ep_port = 443, ep_kind = EK_domain_name\<rparr>"
  have "\<not> is_valid_ipv4_text ''Ab.c''"
    using ipv4_text_chars(1) [of "''Ab.c''"] by (auto simp: is_ascii_digit_def char_between_def)
  moreover have "\<not> is_legacy_numeric_ipv4_name ''Ab.c''"
    by (subst is_legacy_numeric_ipv4_name.simps)
       (simp add: next_component_def is_legacy_numeric_component_def is_ascii_digit_def char_between_def)
  moreover have "is_valid_domain_name ''Ab.c''"
    by (simp add: is_valid_domain_name_def max_domain_length_def label_loop.simps [of "''Ab.c''"]
        label_loop.simps [of "''c''"] next_component_def is_label_def max_domain_label_length_def
        is_domain_character_def is_ascii_letter_def is_ascii_digit_def char_between_def)
  moreover have "lower_ascii ''Ab.c'' = ''ab.c''"
    by (simp add: lower_ascii_def lower_char_def char_between_def) (simp add: char_of_def bit_0)
  ultimately have parsed: "parse_endpoint ?v4 (\<lambda>_. None) (''Ab.c:'' @ decimal 443) = Inr ?e"
    using parse_host_port [of "''Ab.c''" 443 ?v4 "\<lambda>_. None"]
    by (simp add: host_char_def is_domain_character_def is_ascii_letter_def char_between_def)
  have "quads_exact ?v4" "v6_canonical (\<lambda>_. None)" by (simp_all add: quads_exact_def v6_canonical_def)
  from endpoint_canonical [OF this parsed] parsed show ?thesis by (intro exI [of _ ?e]) simp
qed

end
