(* ===== verification/Storage_Models.thy ===== *)
theory Storage_Models
  imports Ids Endpoints Utf8
begin

text \<open>
  \<open>include/minitun/storage/models.hpp\<close>, \<open>src/storage/models.cpp\<close> and the validation of records in
  \<open>src/storage/sqlite_internal.cpp\<close>: the persisted enumerations with their texts, server and tunnel
  records, and the checks every record passes before it is stored and after it is read.

  Timestamps and latencies are \<open>std::int64_t\<close> values and are integers here; revisions and reconnect
  attempts keep their width.  The storage layer has a UTF-8 validator of its own, which works by
  byte ranges; it is shown to agree with the one of the remote protocol.
\<close>

unbundle bit_operations_syntax

section \<open>Enumerations\<close>

datatype TunnelProtocol = TP_tcp | TP_udp | TP_socks5 | TP_p2p

datatype ServerDesiredState = SDS_enabled | SDS_disabled | SDS_removed

datatype ServerActualState =
  SAS_not_authenticated | SAS_disconnected | SAS_connecting | SAS_tls_handshake |
  SAS_authenticating | SAS_online | SAS_backoff | SAS_disabled | SAS_error

datatype TunnelDesiredState = TDS_active | TDS_disabled | TDS_removed

datatype TunnelActualState =
  TAS_pending | TAS_registering | TAS_active | TAS_failed | TAS_removing | TAS_disabled

definition kTunnelProtocols :: "(TunnelProtocol \<times> string) list" where
  "kTunnelProtocols =
     [(TP_tcp, ''tcp''), (TP_udp, ''udp''), (TP_socks5, ''socks5''), (TP_p2p, ''p2p'')]"

definition kServerDesiredStates :: "(ServerDesiredState \<times> string) list" where
  "kServerDesiredStates =
     [(SDS_enabled, ''enabled''), (SDS_disabled, ''disabled''), (SDS_removed, ''removed'')]"

definition kServerActualStates :: "(ServerActualState \<times> string) list" where
  "kServerActualStates =
     [(SAS_not_authenticated, ''not_authenticated''), (SAS_disconnected, ''disconnected''),
      (SAS_connecting, ''connecting''), (SAS_tls_handshake, ''tls_handshake''),
      (SAS_authenticating, ''authenticating''), (SAS_online, ''online''),
      (SAS_backoff, ''backoff''), (SAS_disabled, ''disabled''), (SAS_error, ''error'')]"

definition kTunnelDesiredStates :: "(TunnelDesiredState \<times> string) list" where
  "kTunnelDesiredStates =
     [(TDS_active, ''active''), (TDS_disabled, ''disabled''), (TDS_removed, ''removed'')]"

definition kTunnelActualStates :: "(TunnelActualState \<times> string) list" where
  "kTunnelActualStates =
     [(TAS_pending, ''pending''), (TAS_registering, ''registering''), (TAS_active, ''active''),
      (TAS_failed, ''failed''), (TAS_removing, ''removing''), (TAS_disabled, ''disabled'')]"

definition enum_to_string :: "('e \<times> string) list \<Rightarrow> 'e \<Rightarrow> string" where
  "enum_to_string entries value =
     (case find (\<lambda>e. fst e = value) entries of None \<Rightarrow> ''unknown'' | Some e \<Rightarrow> snd e)"

definition enum_from_string :: "('e \<times> string) list \<Rightarrow> string \<Rightarrow> string \<Rightarrow> 'e Result" where
  "enum_from_string entries type_name value =
     (case find (\<lambda>e. snd e = value) entries of
        None \<Rightarrow> failure EC_invalid_argument (''unknown '' @ type_name)
      | Some e \<Rightarrow> Inr (fst e))"

definition tunnel_protocol_to_string :: "TunnelProtocol \<Rightarrow> string" where
  "tunnel_protocol_to_string = enum_to_string kTunnelProtocols"

definition server_desired_state_to_string :: "ServerDesiredState \<Rightarrow> string" where
  "server_desired_state_to_string = enum_to_string kServerDesiredStates"

definition server_actual_state_to_string :: "ServerActualState \<Rightarrow> string" where
  "server_actual_state_to_string = enum_to_string kServerActualStates"

definition tunnel_desired_state_to_string :: "TunnelDesiredState \<Rightarrow> string" where
  "tunnel_desired_state_to_string = enum_to_string kTunnelDesiredStates"

definition tunnel_actual_state_to_string :: "TunnelActualState \<Rightarrow> string" where
  "tunnel_actual_state_to_string = enum_to_string kTunnelActualStates"

definition tunnel_protocol_from_string :: "string \<Rightarrow> TunnelProtocol Result" where
  "tunnel_protocol_from_string = enum_from_string kTunnelProtocols ''tunnel protocol''"

definition server_desired_state_from_string :: "string \<Rightarrow> ServerDesiredState Result" where
  "server_desired_state_from_string = enum_from_string kServerDesiredStates ''server desired state''"

definition server_actual_state_from_string :: "string \<Rightarrow> ServerActualState Result" where
  "server_actual_state_from_string = enum_from_string kServerActualStates ''server actual state''"

definition tunnel_desired_state_from_string :: "string \<Rightarrow> TunnelDesiredState Result" where
  "tunnel_desired_state_from_string = enum_from_string kTunnelDesiredStates ''tunnel desired state''"

definition tunnel_actual_state_from_string :: "string \<Rightarrow> TunnelActualState Result" where
  "tunnel_actual_state_from_string = enum_from_string kTunnelActualStates ''tunnel actual state''"

text \<open>
  A table gives every value one text and every text one value.  The contract \<open>enum_text\<close> follows
  from that alone.
\<close>

definition table_ok :: "('e \<times> string) list \<Rightarrow> bool" where
  "table_ok entries \<longleftrightarrow> distinct (map snd entries) \<and> fst ` set entries = UNIV"

definition value_of :: "'a Result \<Rightarrow> 'a option" where
  "value_of r = (case r of Inl _ \<Rightarrow> None | Inr v \<Rightarrow> Some v)"

lemma value_of_Some [simp]: "value_of r = Some v \<longleftrightarrow> r = Inr v"
  by (cases r) (simp_all add: value_of_def)

lemma enum_to_string_mem:
  assumes "table_ok entries"
  shows "(e, enum_to_string entries e) \<in> set entries"
proof -
  have "e \<in> fst ` set entries" using assms by (simp add: table_ok_def)
  then have "find (\<lambda>x. fst x = e) entries \<noteq> None" by (auto simp: find_None_iff)
  then obtain x where x: "find (\<lambda>x. fst x = e) entries = Some x" by blast
  then have "x \<in> set entries" "fst x = e" by (auto simp: find_Some_iff)
  then show ?thesis using x by (auto simp: enum_to_string_def)
qed

lemma enum_from_string_Inr:
  "enum_from_string entries name s = Inr e \<Longrightarrow> (e, s) \<in> set entries"
  by (auto simp: enum_from_string_def List.find_Some_iff split: option.splits)

lemma enum_from_to:
  assumes "table_ok entries"
  shows "enum_from_string entries name (enum_to_string entries e) = Inr e"
proof -
  have mem: "(e, enum_to_string entries e) \<in> set entries" using assms by (rule enum_to_string_mem)
  then obtain x where x: "find (\<lambda>x. snd x = enum_to_string entries e) entries = Some x"
    by (cases "find (\<lambda>x. snd x = enum_to_string entries e) entries") (auto simp: find_None_iff)
  then have "x \<in> set entries" "snd x = snd (e, enum_to_string entries e)"
    by (auto simp: List.find_Some_iff)
  with mem assms have "x = (e, enum_to_string entries e)"
    unfolding table_ok_def distinct_map by (metis inj_onD)
  with x show ?thesis by (simp add: enum_from_string_def)
qed

lemma enum_to_from:
  assumes "table_ok entries" "enum_from_string entries name s = Inr e"
    and "distinct (map fst entries)"
  shows "enum_to_string entries e = s"
  using enum_from_string_Inr [OF assms(2)] enum_to_string_mem [OF assms(1), of e] assms(3)
  by (metis (no_types) distinct_map fst_conv inj_onD snd_conv)

lemma table_okI:
  "distinct (map snd entries) \<Longrightarrow> (\<And>e. e \<in> fst ` set entries) \<Longrightarrow> table_ok entries"
  by (auto simp: table_ok_def)

lemma tunnel_protocols_ok: "table_ok kTunnelProtocols" "distinct (map fst kTunnelProtocols)"
proof (rule table_okI)
  show "e \<in> fst ` set kTunnelProtocols" for e by (cases e) (simp_all add: kTunnelProtocols_def)
qed (simp_all add: kTunnelProtocols_def)

lemma server_desired_states_ok:
  "table_ok kServerDesiredStates" "distinct (map fst kServerDesiredStates)"
proof (rule table_okI)
  show "e \<in> fst ` set kServerDesiredStates" for e by (cases e) (simp_all add: kServerDesiredStates_def)
qed (simp_all add: kServerDesiredStates_def)

lemma server_actual_states_ok:
  "table_ok kServerActualStates" "distinct (map fst kServerActualStates)"
proof (rule table_okI)
  show "e \<in> fst ` set kServerActualStates" for e by (cases e) (simp_all add: kServerActualStates_def)
qed (simp_all add: kServerActualStates_def)

lemma tunnel_desired_states_ok:
  "table_ok kTunnelDesiredStates" "distinct (map fst kTunnelDesiredStates)"
proof (rule table_okI)
  show "e \<in> fst ` set kTunnelDesiredStates" for e by (cases e) (simp_all add: kTunnelDesiredStates_def)
qed (simp_all add: kTunnelDesiredStates_def)

lemma tunnel_actual_states_ok:
  "table_ok kTunnelActualStates" "distinct (map fst kTunnelActualStates)"
proof (rule table_okI)
  show "e \<in> fst ` set kTunnelActualStates" for e by (cases e) (simp_all add: kTunnelActualStates_def)
qed (simp_all add: kTunnelActualStates_def)

lemmas storage_tables_ok =
  tunnel_protocols_ok server_desired_states_ok server_actual_states_ok tunnel_desired_states_ok
  tunnel_actual_states_ok

interpretation tunnel_protocol: enum_text tunnel_protocol_to_string
  "\<lambda>s. value_of (tunnel_protocol_from_string s)"
  by unfold_locales (simp_all add: tunnel_protocol_to_string_def tunnel_protocol_from_string_def
      enum_from_to enum_to_from storage_tables_ok)

interpretation server_desired_state: enum_text server_desired_state_to_string
  "\<lambda>s. value_of (server_desired_state_from_string s)"
  by unfold_locales (simp_all add: server_desired_state_to_string_def
      server_desired_state_from_string_def enum_from_to enum_to_from storage_tables_ok)

interpretation server_actual_state: enum_text server_actual_state_to_string
  "\<lambda>s. value_of (server_actual_state_from_string s)"
  by unfold_locales (simp_all add: server_actual_state_to_string_def
      server_actual_state_from_string_def enum_from_to enum_to_from storage_tables_ok)

interpretation tunnel_desired_state: enum_text tunnel_desired_state_to_string
  "\<lambda>s. value_of (tunnel_desired_state_from_string s)"
  by unfold_locales (simp_all add: tunnel_desired_state_to_string_def
      tunnel_desired_state_from_string_def enum_from_to enum_to_from storage_tables_ok)

interpretation tunnel_actual_state: enum_text tunnel_actual_state_to_string
  "\<lambda>s. value_of (tunnel_actual_state_from_string s)"
  by unfold_locales (simp_all add: tunnel_actual_state_to_string_def
      tunnel_actual_state_from_string_def enum_from_to enum_to_from storage_tables_ok)

section \<open>Records\<close>

definition kMaxNameBytes :: nat where
  "kMaxNameBytes = 64"

definition kMaxCredentialReferenceBytes :: nat where
  "kMaxCredentialReferenceBytes = 256"

definition kMaxRemoteServerIdBytes :: nat where
  "kMaxRemoteServerIdBytes = 256"

definition kMaxTlsServerNameBytes :: nat where
  "kMaxTlsServerNameBytes = 253"

definition kMaxErrorMessageBytes :: nat where
  "kMaxErrorMessageBytes = 4096"

record ServerRecord =
  sv_id :: Id
  sv_name :: "string option"
  sv_endpoint :: Endpoint
  sv_credential_ref :: "string option"
  sv_remote_server_id :: "string option"
  sv_desired_state :: ServerDesiredState
  sv_actual_state :: ServerActualState
  sv_last_error_code :: "ErrorCode option"
  sv_last_error_message :: "string option"
  sv_reconnect_attempt :: u32
  sv_latency_ms :: "int option"
  sv_created_at :: int
  sv_updated_at :: int
  sv_tls_server_name :: "string option"
  sv_ca_credential_ref :: "string option"
  sv_client_certificate_ref :: "string option"
  sv_client_private_key_ref :: "string option"
  sv_config_revision :: u64
  sv_managed_by_config :: bool

record TunnelRecord =
  tn_id :: Id
  tn_name :: "string option"
  tn_server_id :: Id
  tn_protocol :: TunnelProtocol
  tn_local_endpoint :: Endpoint
  tn_remote_endpoint :: Endpoint
  tn_desired_state :: TunnelDesiredState
  tn_actual_state :: TunnelActualState
  tn_last_error_code :: "ErrorCode option"
  tn_last_error_message :: "string option"
  tn_created_at :: int
  tn_updated_at :: int
  tn_last_synced_at :: "int option"
  tn_config_revision :: u64
  tn_managed_by_config :: bool
  tn_proxy_protocol :: bool

section \<open>Texts\<close>

definition is_utf8_continuation :: "byte \<Rightarrow> bool" where
  "is_utf8_continuation value \<longleftrightarrow> value AND 0xc0 = 0x80"

function storage_utf8_loop :: "bytes \<Rightarrow> bool" where
  "storage_utf8_loop [] = True"
| "storage_utf8_loop (first # rest) =
     (if first \<le> 0x7f then storage_utf8_loop rest
      else if 0xc2 \<le> first \<and> first \<le> 0xdf
      then (if length rest < 1 \<or> \<not> is_utf8_continuation (rest ! 0) then False
            else storage_utf8_loop (drop 1 rest))
      else if 0xe0 \<le> first \<and> first \<le> 0xef
      then (if length rest < 2 \<or> \<not> is_utf8_continuation (rest ! 1) then False
            else (let second = rest ! 0
                  in if first = 0xe0 \<and> 0xa0 \<le> second \<and> second \<le> 0xbf \<or>
                        first = 0xed \<and> 0x80 \<le> second \<and> second \<le> 0x9f \<or>
                        (0xe1 \<le> first \<and> first \<le> 0xec \<or> 0xee \<le> first \<and> first \<le> 0xef) \<and>
                        is_utf8_continuation second
                     then storage_utf8_loop (drop 2 rest) else False))
      else if 0xf0 \<le> first \<and> first \<le> 0xf4
      then (if length rest < 3 \<or> \<not> is_utf8_continuation (rest ! 1) \<or>
               \<not> is_utf8_continuation (rest ! 2) then False
            else (let second = rest ! 0
                  in if first = 0xf0 \<and> 0x90 \<le> second \<and> second \<le> 0xbf \<or>
                        first = 0xf4 \<and> 0x80 \<le> second \<and> second \<le> 0x8f \<or>
                        0xf1 \<le> first \<and> first \<le> 0xf3 \<and> is_utf8_continuation second
                     then storage_utf8_loop (drop 3 rest) else False))
      else False)"
  by pat_completeness auto

termination
  by (relation "measure length") auto

declare storage_utf8_loop.simps(2) [simp del]

definition storage_is_valid_utf8 :: "string \<Rightarrow> bool" where
  "storage_is_valid_utf8 value = storage_utf8_loop (bytes_of_string value)"

definition validate_text :: "string \<Rightarrow> nat \<Rightarrow> nat \<Rightarrow> string \<Rightarrow> unit Result" where
  "validate_text value minimum_bytes maximum_bytes field =
     (if length value < minimum_bytes \<or> maximum_bytes < length value
      then failure EC_invalid_argument (field @ '' is outside its byte-length limit'')
      else if char_of (0 :: nat) \<in> set value
      then failure EC_invalid_argument (field @ '' must not contain NUL bytes'')
      else if \<not> storage_is_valid_utf8 value
      then failure EC_invalid_argument (field @ '' must contain valid UTF-8'')
      else Inr ())"

definition is_known_error_code :: "ErrorCode \<Rightarrow> bool" where
  "is_known_error_code c \<longleftrightarrow>
     c \<noteq> EC_ok \<and> error_code_from_string (error_code_to_string c) = Some c"

definition is_known_enum :: "('e \<Rightarrow> string) \<Rightarrow> (string \<Rightarrow> 'e Result) \<Rightarrow> 'e \<Rightarrow> bool" where
  "is_known_enum to_text parser value \<longleftrightarrow> parser (to_text value) = Inr value"

definition validate_optional_text ::
  "string option \<Rightarrow> nat \<Rightarrow> nat \<Rightarrow> string \<Rightarrow> unit Result" where
  "validate_optional_text value minimum_bytes maximum_bytes field =
     (case value of None \<Rightarrow> Inr () | Some v \<Rightarrow> validate_text v minimum_bytes maximum_bytes field)"

definition validate_error_fields :: "ErrorCode option \<Rightarrow> string option \<Rightarrow> unit Result" where
  "validate_error_fields error_code error_message =
     (if case error_code of None \<Rightarrow> False | Some c \<Rightarrow> \<not> is_known_error_code c
      then failure EC_invalid_argument ''last_error_code must be a known non-ok error code''
      else validate_optional_text error_message 0 kMaxErrorMessageBytes ''last_error_message'')"

definition valid_revision :: "u64 \<Rightarrow> bool" where
  "valid_revision r \<longleftrightarrow> r \<noteq> 0 \<and> r \<le> 9223372036854775807"

definition validate_server_record :: "ServerRecord \<Rightarrow> unit Result" where
  "validate_server_record r =
     (if id_kind (sv_id r) \<noteq> IK_server
      then failure EC_invalid_argument ''server record ID must use the server ID namespace''
      else
        and_then (validate_optional_text (sv_name r) 1 kMaxNameBytes ''server name'') (\<lambda>_.
        and_then (validate_optional_text (sv_credential_ref r) 1 kMaxCredentialReferenceBytes
                    ''credential reference'') (\<lambda>_.
        and_then (validate_optional_text (sv_remote_server_id r) 1 kMaxRemoteServerIdBytes
                    ''remote server ID'') (\<lambda>_.
        and_then (validate_optional_text (sv_tls_server_name r) 1 kMaxTlsServerNameBytes
                    ''TLS server name'') (\<lambda>_.
        and_then (validate_optional_text (sv_ca_credential_ref r) 1 kMaxCredentialReferenceBytes
                    ''CA credential reference'') (\<lambda>_.
        and_then (validate_optional_text (sv_client_certificate_ref r) 1
                    kMaxCredentialReferenceBytes ''client certificate reference'') (\<lambda>_.
        and_then (validate_optional_text (sv_client_private_key_ref r) 1
                    kMaxCredentialReferenceBytes ''client private-key reference'') (\<lambda>_.
        if (sv_client_certificate_ref r = None) \<noteq> (sv_client_private_key_ref r = None)
        then failure EC_invalid_argument
               ''client certificate and private-key references must be paired''
        else if \<not> valid_revision (sv_config_revision r)
        then failure EC_invalid_argument
               ''server configuration revision is outside the storage limit''
        else if \<not> is_known_enum server_desired_state_to_string server_desired_state_from_string
                  (sv_desired_state r) \<or>
                \<not> is_known_enum server_actual_state_to_string server_actual_state_from_string
                  (sv_actual_state r)
        then failure EC_invalid_argument ''server record contains an unknown state''
        else and_then (validate_error_fields (sv_last_error_code r) (sv_last_error_message r)) (\<lambda>_.
          if 2147483647 < sv_reconnect_attempt r
          then failure EC_invalid_argument ''reconnect_attempt exceeds the storage limit''
          else if case sv_latency_ms r of None \<Rightarrow> False | Some l \<Rightarrow> l < 0 \<or> 2147483647 < l
          then failure EC_invalid_argument ''latency_ms exceeds the storage limit''
          else if sv_created_at r < 0 \<or> sv_updated_at r < sv_created_at r
          then failure EC_invalid_argument ''server timestamps must be non-negative and monotonic''
          else Inr ())))))))))"

definition validate_tunnel_record :: "TunnelRecord \<Rightarrow> unit Result" where
  "validate_tunnel_record r =
     (if id_kind (tn_id r) \<noteq> IK_tunnel \<or> id_kind (tn_server_id r) \<noteq> IK_server
      then failure EC_invalid_argument ''tunnel record contains an ID from the wrong namespace''
      else
        and_then (validate_optional_text (tn_name r) 1 kMaxNameBytes ''tunnel name'') (\<lambda>_.
        if \<not> is_known_enum tunnel_protocol_to_string tunnel_protocol_from_string (tn_protocol r) \<or>
           \<not> is_known_enum tunnel_desired_state_to_string tunnel_desired_state_from_string
             (tn_desired_state r) \<or>
           \<not> is_known_enum tunnel_actual_state_to_string tunnel_actual_state_from_string
             (tn_actual_state r)
        then failure EC_invalid_argument ''tunnel record contains an unknown protocol or state''
        else and_then (validate_error_fields (tn_last_error_code r) (tn_last_error_message r)) (\<lambda>_.
          if \<not> valid_revision (tn_config_revision r)
          then failure EC_invalid_argument
                 ''tunnel configuration revision is outside the storage limit''
          else if tn_created_at r < 0 \<or> tn_updated_at r < tn_created_at r \<or>
                  (case tn_last_synced_at r of
                     None \<Rightarrow> False | Some t \<Rightarrow> t < tn_created_at r \<or> tn_updated_at r < t)
          then failure EC_invalid_argument ''tunnel timestamps must be non-negative and monotonic''
          else Inr ())))"

section \<open>The two UTF-8 validators\<close>

lemma is_utf8_continuation_tail: "is_utf8_continuation c \<longleftrightarrow> tail_byte c"
  by (simp add: is_utf8_continuation_def continuation_value tail_byte_def)

lemma storage_loop_value:
  "storage_utf8_loop (b # rest) =
     (if unat b \<le> 127 then storage_utf8_loop rest
      else if 194 \<le> unat b \<and> unat b \<le> 223
      then (if length rest < 1 \<or> \<not> tail_byte (rest ! 0) then False else storage_utf8_loop (drop 1 rest))
      else if 224 \<le> unat b \<and> unat b \<le> 239
      then (if length rest < 2 \<or> \<not> tail_byte (rest ! 1) then False
            else (if unat b = 224 \<and> 160 \<le> unat (rest ! 0) \<and> unat (rest ! 0) \<le> 191 \<or>
                     unat b = 237 \<and> 128 \<le> unat (rest ! 0) \<and> unat (rest ! 0) \<le> 159 \<or>
                     (225 \<le> unat b \<and> unat b \<le> 236 \<or> 238 \<le> unat b \<and> unat b \<le> 239) \<and> tail_byte (rest ! 0)
                  then storage_utf8_loop (drop 2 rest) else False))
      else if 240 \<le> unat b \<and> unat b \<le> 244
      then (if length rest < 3 \<or> \<not> tail_byte (rest ! 1) \<or> \<not> tail_byte (rest ! 2) then False
            else (if unat b = 240 \<and> 144 \<le> unat (rest ! 0) \<and> unat (rest ! 0) \<le> 191 \<or>
                     unat b = 244 \<and> 128 \<le> unat (rest ! 0) \<and> unat (rest ! 0) \<le> 143 \<or>
                     241 \<le> unat b \<and> unat b \<le> 243 \<and> tail_byte (rest ! 0)
                  then storage_utf8_loop (drop 3 rest) else False))
      else False)"
proof -
  have eq: "b = c \<longleftrightarrow> unat b = unat c" for c :: byte by (rule word_unat_eq_iff)
  have num: "unat (0x7f :: byte) = 127" "unat (0xc2 :: byte) = 194" "unat (0xdf :: byte) = 223"
    "unat (0xe0 :: byte) = 224" "unat (0xef :: byte) = 239" "unat (0xa0 :: byte) = 160"
    "unat (0xbf :: byte) = 191" "unat (0xed :: byte) = 237" "unat (0x80 :: byte) = 128"
    "unat (0x9f :: byte) = 159" "unat (0xe1 :: byte) = 225" "unat (0xec :: byte) = 236"
    "unat (0xee :: byte) = 238" "unat (0xf0 :: byte) = 240" "unat (0xf4 :: byte) = 244"
    "unat (0x90 :: byte) = 144" "unat (0x8f :: byte) = 143" "unat (0xf1 :: byte) = 241"
    "unat (0xf3 :: byte) = 243"
    by simp_all
  show ?thesis
    by (simp only: storage_utf8_loop.simps(2) [of b] word_le_nat_alt eq num is_utf8_continuation_tail Let_def)
qed

lemma second_byte_2:
  assumes "192 \<le> n" "n < 224" "t < (64 :: nat)"
  shows "0x80 \<le> (n - 192) * 64 + t \<and> scalar ((n - 192) * 64 + t) \<longleftrightarrow> 194 \<le> n"
  using assms unfolding scalar_def by linarith

lemma second_byte_3:
  assumes "224 \<le> n" "n < 240" "u < 64" "t < (64 :: nat)"
  shows "0x800 \<le> ((n - 224) * 64 + u) * 64 + t \<and> scalar (((n - 224) * 64 + u) * 64 + t) \<longleftrightarrow>
    (n = 224 \<longrightarrow> 32 \<le> u) \<and> (n = 237 \<longrightarrow> u < 32)"
proof -
  consider "n = 224" | "225 \<le> n" "n \<le> 236" | "n = 237" | "238 \<le> n" using assms by linarith
  then show ?thesis
    by cases (use assms in \<open>simp_all add: scalar_def, linarith+\<close>)
qed

lemma second_byte_4:
  assumes "240 \<le> n" "n < 248" "u < 64" "v < 64" "t < (64 :: nat)"
  shows "0x10000 \<le> (((n - 240) * 64 + u) * 64 + v) * 64 + t \<and>
    scalar ((((n - 240) * 64 + u) * 64 + v) * 64 + t) \<longleftrightarrow>
    n \<le> 244 \<and> (n = 240 \<longrightarrow> 16 \<le> u) \<and> (n = 244 \<longrightarrow> u < 16)"
proof -
  consider "n = 240" | "241 \<le> n" "n \<le> 243" | "n = 244" | "245 \<le> n" using assms by linarith
  then show ?thesis
    by cases (use assms in \<open>simp_all add: scalar_def, linarith+\<close>)
qed

lemma storage_step_2:
  assumes "192 \<le> unat b" "unat b < 224"
  shows "storage_utf8_loop (b # c # r) \<longleftrightarrow> 194 \<le> unat b \<and> tail_byte c \<and> storage_utf8_loop r"
  using assms by (simp add: storage_loop_value [of b])

lemma storage_step_3:
  assumes "224 \<le> unat b" "unat b < 240"
  shows "storage_utf8_loop (b # c # c2 # r) \<longleftrightarrow>
    tail_byte c \<and> tail_byte c2 \<and> (unat b = 224 \<longrightarrow> 32 \<le> tail_value c) \<and>
    (unat b = 237 \<longrightarrow> tail_value c < 32) \<and> storage_utf8_loop r"
proof -
  consider "unat b = 224" | "unat b = 237" | "225 \<le> unat b" "unat b \<le> 236" | "238 \<le> unat b" "unat b \<le> 239"
    using assms by linarith
  then show ?thesis
    by cases (auto simp: storage_loop_value [of b] tail_byte_def [of c] tail_value_def)
qed

lemma storage_step_4:
  assumes "240 \<le> unat b" "unat b < 248"
  shows "storage_utf8_loop (b # c # c2 # c3 # r) \<longleftrightarrow>
    unat b \<le> 244 \<and> tail_byte c \<and> tail_byte c2 \<and> tail_byte c3 \<and>
    (unat b = 240 \<longrightarrow> 16 \<le> tail_value c) \<and> (unat b = 244 \<longrightarrow> tail_value c < 16) \<and> storage_utf8_loop r"
proof -
  consider "unat b = 240" | "unat b = 244" | "241 \<le> unat b" "unat b \<le> 243" | "245 \<le> unat b"
    using assms by linarith
  then show ?thesis
    by cases (auto simp: storage_loop_value [of b] tail_byte_def [of c] tail_value_def)
qed

lemma storage_short:
  assumes "128 \<le> unat b" "storage_utf8_loop (b # rest)"
  shows "(192 \<le> unat b \<and> unat b < 224 \<and> \<not> length rest < 1) \<or>
     (224 \<le> unat b \<and> unat b < 240 \<and> \<not> length rest < 2) \<or>
     (240 \<le> unat b \<and> unat b < 248 \<and> \<not> length rest < 3)"
  using assms unfolding storage_loop_value [of b] by (simp split: if_splits)

lemma storage_loop_agrees: "storage_utf8_loop bs = utf8_loop bs"
proof (induction "length bs" arbitrary: bs rule: less_induct)
  case less
  show ?case
  proof (cases bs)
    case (Cons b rest)
    have IH: "storage_utf8_loop r = utf8_loop r" if "length r \<le> length rest" for r
      using less.hyps [of r] that Cons by simp
    consider "unat b < 128" | "128 \<le> unat b" "\<not> storage_utf8_loop (b # rest)" "\<not> utf8_loop (b # rest)"
      | c r where "192 \<le> unat b" "unat b < 224" "rest = c # r"
      | c c2 r where "224 \<le> unat b" "unat b < 240" "rest = c # c2 # r"
      | c c2 c3 r where "240 \<le> unat b" "unat b < 248" "rest = c # c2 # c3 # r"
      using loop_short [of b rest] storage_short [of b rest] not_short [of rest] by (metis not_less)
    then show ?thesis
    proof cases
      case 1
      then show ?thesis by (simp add: Cons loop_1 storage_loop_value [of b] IH)
    next
      case 2
      then show ?thesis by (simp add: Cons)
    next
      case (3 c r)
      have "storage_utf8_loop r = utf8_loop r" using IH [of r] 3(3) by simp
      with second_byte_2 [OF 3(1,2) tail_value_bound [of c]] show ?thesis
        unfolding Cons 3(3) storage_step_2 [OF 3(1,2)] loop_2 [OF 3(1,2)] by blast
    next
      case (4 c c2 r)
      have "storage_utf8_loop r = utf8_loop r" using IH [of r] 4(3) by simp
      with second_byte_3 [OF 4(1,2) tail_value_bound [of c] tail_value_bound [of c2]] show ?thesis
        unfolding Cons 4(3) storage_step_3 [OF 4(1,2)] loop_3 [OF 4(1,2)] by blast
    next
      case (5 c c2 c3 r)
      have "storage_utf8_loop r = utf8_loop r" using IH [of r] 5(3) by simp
      with second_byte_4 [OF 5(1,2) tail_value_bound [of c] tail_value_bound [of c2]
          tail_value_bound [of c3]] show ?thesis
        unfolding Cons 5(3) storage_step_4 [OF 5(1,2)] loop_4 [OF 5(1,2)] by blast
    qed
  qed simp
qed

section \<open>Properties\<close>

text \<open>
  C39: The storage layer and the remote protocol accept the same texts.  The storage validator
  decides by ranges of the first two bytes, the protocol's by assembling the code point; on every
  string they give the same answer, so a text that one layer accepted is never refused as malformed
  by the other.
\<close>

theorem utf8_validators_agree: "storage_is_valid_utf8 s = is_valid_utf8 s"
  by (simp add: storage_is_valid_utf8_def is_valid_utf8_def storage_loop_agrees)

end
