(* ===== verification/Ipc_Protocol.thy ===== *)
theory Ipc_Protocol
  imports Json_Documents Ipc_Frames Storage_Models
begin

text \<open>
  Requests and responses of the local control protocol (\<open>src/ipc/protocol.cpp\<close>).  The JSON parser and
  printer are parameters: \<open>json_parse\<close> returns the events it reports and the document it builds, or
  \<open>None\<close> where the library throws; \<open>json_dump\<close> returns the text, or \<open>None\<close>.  What is relied on
  of the two is \<open>json_faithful\<close>.
\<close>

unbundle bit_operations_syntax

section \<open>Texts\<close>

definition message_effective_limit :: "nat \<Rightarrow> nat" where
  "message_effective_limit requested_limit = min requested_limit ipc_kDefaultMaxFrameSize"

definition is_continuation :: "byte \<Rightarrow> bool" where
  "is_continuation b \<longleftrightarrow> 0x80 \<le> b \<and> b \<le> 0xbf"

function ipc_utf8_loop :: "bytes \<Rightarrow> bool" where
  "ipc_utf8_loop [] = True"
| "ipc_utf8_loop (first # rest) =
     (if first \<le> 0x7f then ipc_utf8_loop rest
      else if 0xc2 \<le> first \<and> first \<le> 0xdf
      then (if length rest < 1 \<or> \<not> is_continuation (rest ! 0) then False
            else ipc_utf8_loop (drop 1 rest))
      else if 0xe0 \<le> first \<and> first \<le> 0xef
      then (if length rest < 2 then False
            else (let second = rest ! 0; third = rest ! 1;
                      second_valid = (if first = 0xe0 then 0xa0 \<le> second \<and> second \<le> 0xbf
                                      else if first = 0xed then 0x80 \<le> second \<and> second \<le> 0x9f
                                      else is_continuation second)
                  in if \<not> second_valid \<or> \<not> is_continuation third then False
                     else ipc_utf8_loop (drop 2 rest)))
      else if 0xf0 \<le> first \<and> first \<le> 0xf4
      then (if length rest < 3 then False
            else (let second = rest ! 0; third = rest ! 1; fourth = rest ! 2;
                      second_valid = (if first = 0xf0 then 0x90 \<le> second \<and> second \<le> 0xbf
                                      else if first = 0xf4 then 0x80 \<le> second \<and> second \<le> 0x8f
                                      else is_continuation second)
                  in if \<not> second_valid \<or> \<not> is_continuation third \<or> \<not> is_continuation fourth
                     then False else ipc_utf8_loop (drop 3 rest)))
      else False)"
  by pat_completeness auto

termination
  by (relation "measure length") auto

definition ipc_is_valid_utf8 :: "string \<Rightarrow> bool" where
  "ipc_is_valid_utf8 input = ipc_utf8_loop (bytes_of_string input)"

section \<open>Documents\<close>

definition ipc_kProtocolVersion :: u16 where
  "ipc_kProtocolVersion = 1"

definition kMaxMethodBytes :: nat where
  "kMaxMethodBytes = 128"

definition ipc_kMaxErrorMessageBytes :: nat where
  "ipc_kMaxErrorMessageBytes = 4096"

definition kMaxJsonDepth :: nat where
  "kMaxJsonDepth = 64"

definition kMaxJsonNodes :: nat where
  "kMaxJsonNodes = 65536"

definition kMaxJsonStringBytes :: nat where
  "kMaxJsonStringBytes = 64 * 1024"

definition is_request_field :: "string \<Rightarrow> bool" where
  "is_request_field field \<longleftrightarrow>
     field = ''version'' \<or> field = ''request_id'' \<or> field = ''method'' \<or> field = ''params''"

definition is_response_base_field :: "string \<Rightarrow> bool" where
  "is_response_base_field field \<longleftrightarrow> field = ''version'' \<or> field = ''request_id'' \<or> field = ''ok''"

definition validate_version :: "Json \<Rightarrow> unit Result" where
  "validate_version v =
     (case v of
        JUnsigned w \<Rightarrow>
          if w = ucast ipc_kProtocolVersion then Inr ()
          else failure EC_unsupported_version ''unsupported IPC protocol version''
      | JInteger i \<Rightarrow>
          if i = uint ipc_kProtocolVersion then Inr ()
          else failure EC_unsupported_version ''unsupported IPC protocol version''
      | _ \<Rightarrow> failure EC_invalid_argument ''IPC version must be an integer'')"

definition validate_request_id :: "Id \<Rightarrow> unit Result" where
  "validate_request_id i =
     (if id_kind i \<noteq> IK_request
      then failure EC_invalid_argument ''request_id must be a canonical request ID''
      else Inr ())"

text \<open>The count of nodes is threaded through the recursion; the result is the count reached.\<close>

definition too_many_nodes :: "'a Result" where
  "too_many_nodes = failure EC_resource_exhausted ''JSON node count exceeds the IPC limit''"

definition string_too_long :: "'a Result" where
  "string_too_long = failure EC_resource_exhausted ''JSON string exceeds the IPC limit''"

fun validate_json_tree_impl :: "Json \<Rightarrow> nat \<Rightarrow> nat \<Rightarrow> nat Result"
  and validate_elements :: "Json list \<Rightarrow> nat \<Rightarrow> nat \<Rightarrow> nat Result"
  and validate_members :: "(string \<times> Json) list \<Rightarrow> nat \<Rightarrow> nat \<Rightarrow> nat Result" where
  "validate_json_tree_impl v depth nodes =
     (if is_container v \<and> kMaxJsonDepth \<le> depth
      then failure EC_resource_exhausted ''JSON nesting exceeds the IPC limit''
      else if v = JDiscarded \<or> v = JBinary
      then failure EC_invalid_argument ''IPC payload contains a non-JSON value''
      else if kMaxJsonNodes < nodes + 1 then too_many_nodes
      else (case v of
              JString s \<Rightarrow>
                if kMaxJsonStringBytes < length s then string_too_long
                else if \<not> ipc_is_valid_utf8 s
                then failure EC_invalid_argument ''IPC payload contains invalid UTF-8''
                else Inr (nodes + 1)
            | JFloat None \<Rightarrow>
                failure EC_invalid_argument ''IPC payload contains a non-finite number''
            | JArray vs \<Rightarrow> validate_elements vs (depth + 1) (nodes + 1)
            | JObject ms \<Rightarrow> validate_members ms (depth + 1) (nodes + 1)
            | _ \<Rightarrow> Inr (nodes + 1)))"
| "validate_elements [] depth nodes = Inr nodes"
| "validate_elements (v # vs) depth nodes =
     and_then (validate_json_tree_impl v depth nodes) (validate_elements vs depth)"
| "validate_members [] depth nodes = Inr nodes"
| "validate_members ((k, v) # ms) depth nodes =
     (if kMaxJsonNodes < nodes + 1 then too_many_nodes
      else if kMaxJsonStringBytes < length k then string_too_long
      else if \<not> ipc_is_valid_utf8 k
      then failure EC_invalid_argument ''IPC payload contains an invalid UTF-8 object key''
      else and_then (validate_json_tree_impl v depth (nodes + 1)) (validate_members ms depth))"

declare validate_json_tree_impl.simps [simp del]

definition validate_json_tree :: "Json \<Rightarrow> unit Result" where
  "validate_json_tree v = and_then (validate_json_tree_impl v 0 0) (\<lambda>nodes. Inr ())"

definition ipc_bounds :: JsonBounds where
  "ipc_bounds = \<lparr>jb_depth = kMaxJsonDepth, jb_nodes = kMaxJsonNodes, jb_string = kMaxJsonStringBytes,
                  jb_orphan_key = PF_nodes\<rparr>"

fun parse_limit_error :: "ParseLimitFailure option \<Rightarrow> Error" where
  "parse_limit_error (Some PF_duplicate_key) =
     Error EC_invalid_argument ''IPC JSON contains a duplicate object key''"
| "parse_limit_error (Some PF_depth) =
     Error EC_resource_exhausted ''JSON nesting exceeds the IPC limit''"
| "parse_limit_error (Some PF_nodes) =
     Error EC_resource_exhausted ''JSON node count exceeds the IPC limit''"
| "parse_limit_error (Some PF_string) =
     Error EC_resource_exhausted ''JSON string exceeds the IPC limit''"
| "parse_limit_error None =
     Error EC_invalid_argument ''IPC payload is not valid UTF-8 JSON''"

type_synonym JsonParser = "string \<Rightarrow> (ParseEvent list \<times> Json) option"
type_synonym JsonDumper = "Json \<Rightarrow> string option"

definition invalid_json_error :: "'a Result" where
  "invalid_json_error = failure EC_invalid_argument ''IPC payload is not valid UTF-8 JSON''"

definition has_bom :: "string \<Rightarrow> bool" where
  "has_bom payload \<longleftrightarrow>
     3 \<le> length payload \<and> bytes_of_string (take 3 payload) = [0xef, 0xbb, 0xbf]"

definition parse_document :: "JsonParser \<Rightarrow> string \<Rightarrow> nat \<Rightarrow> Json Result" where
  "parse_document json_parse payload max_message_size =
     (if message_effective_limit max_message_size < length payload
      then failure EC_frame_too_large ''IPC message exceeds the configured size limit''
      else if payload = [] then failure EC_invalid_argument ''IPC JSON payload must not be empty''
      else if has_bom payload
      then failure EC_invalid_argument ''IPC JSON must not contain a UTF-8 BOM''
      else if \<not> ipc_is_valid_utf8 payload
      then failure EC_invalid_argument ''IPC payload is not valid UTF-8 JSON''
      else (case json_parse payload of
              None \<Rightarrow> invalid_json_error
            | Some (events, document) \<Rightarrow>
                (let limits = limits_run ipc_bounds events new_parse_limits
                 in if pl_failure limits \<noteq> None then Inl (parse_limit_error (pl_failure limits))
                    else and_then (validate_json_tree document) (\<lambda>_. Inr document))))"

definition dump_document :: "JsonDumper \<Rightarrow> Json \<Rightarrow> nat \<Rightarrow> string Result" where
  "dump_document json_dump document max_message_size =
     (case json_dump document of
        None \<Rightarrow> invalid_json_error
      | Some payload \<Rightarrow>
          if message_effective_limit max_message_size < length payload
          then failure EC_frame_too_large ''IPC message exceeds the configured size limit''
          else Inr payload)"

section \<open>Requests and responses\<close>

record Request =
  rq_version :: u16
  rq_request_id :: Id
  rq_method :: string
  rq_params :: Json

datatype ResponsePayload = RP_result Json | RP_error Error

record Response =
  rs_request_id :: Id
  rs_payload :: ResponsePayload

definition response_success :: "Id \<Rightarrow> Json \<Rightarrow> Response" where
  "response_success request_id result = \<lparr>rs_request_id = request_id, rs_payload = RP_result result\<rparr>"

definition response_failure :: "Id \<Rightarrow> Error \<Rightarrow> Response" where
  "response_failure request_id e =
     \<lparr>rs_request_id = request_id,
      rs_payload = RP_error
        (if code e = EC_ok then Error EC_internal_error ''request failed''
         else if ipc_kMaxErrorMessageBytes < length (message e) \<or> \<not> ipc_is_valid_utf8 (message e)
         then Error (code e) ''request failed''
         else e)\<rparr>"

definition response_ok :: "Response \<Rightarrow> bool" where
  "response_ok r \<longleftrightarrow> (case rs_payload r of RP_result _ \<Rightarrow> True | RP_error _ \<Rightarrow> False)"

fun validate_method_loop :: "bool \<Rightarrow> string \<Rightarrow> unit Result" where
  "validate_method_loop beginning_of_segment [] =
     (if beginning_of_segment
      then failure EC_invalid_argument ''IPC method contains an empty segment''
      else Inr ())"
| "validate_method_loop beginning_of_segment (character # rest) =
     (if character = CHR ''.''
      then (if beginning_of_segment
            then failure EC_invalid_argument ''IPC method contains an empty segment''
            else validate_method_loop True rest)
      else (let lowercase = char_between CHR ''a'' CHR ''z'' character;
                digit = char_between CHR ''0'' CHR ''9'' character
            in if beginning_of_segment
               then (if \<not> lowercase
                     then failure EC_invalid_argument
                            ''IPC method segments must begin with a lowercase letter''
                     else validate_method_loop False rest)
               else if \<not> lowercase \<and> \<not> digit \<and> character \<noteq> CHR ''_'' \<and> character \<noteq> CHR ''-''
               then failure EC_invalid_argument ''IPC method contains an invalid character''
               else validate_method_loop False rest))"

definition validate_method_name :: "string \<Rightarrow> unit Result" where
  "validate_method_name method =
     (if method = [] then failure EC_invalid_argument ''IPC method must not be empty''
      else if kMaxMethodBytes < length method
      then failure EC_invalid_argument ''IPC method exceeds the length limit''
      else validate_method_loop True method)"

definition parse_request_fields :: "(string \<times> Json) list \<Rightarrow> Request Result" where
  "parse_request_fields ms =
     (if \<not> list_all (\<lambda>(k, v). is_request_field k) ms
      then failure EC_invalid_argument ''IPC request contains an unknown top-level field''
      else (case (map_of ms ''version'', map_of ms ''request_id'', map_of ms ''method'', map_of ms ''params'') of
              (Some version, Some request_id, Some method, Some params) \<Rightarrow>
                and_then (validate_version version) (\<lambda>_.
                case request_id of
                  JString identifier \<Rightarrow>
                    (case id_parse_kind identifier IK_request of
                       Inl _ \<Rightarrow> failure EC_invalid_argument ''request_id must be a canonical request ID''
                     | Inr i \<Rightarrow>
                         (case method of
                            JString m \<Rightarrow>
                              and_then (validate_method_name m) (\<lambda>_.
                              case params of
                                JObject _ \<Rightarrow>
                                  Inr \<lparr>rq_version = ipc_kProtocolVersion, rq_request_id = i,
                                       rq_method = m, rq_params = params\<rparr>
                              | _ \<Rightarrow> failure EC_invalid_argument ''IPC params must be a JSON object'')
                          | _ \<Rightarrow> failure EC_invalid_argument ''IPC method must be a string''))
                | _ \<Rightarrow> failure EC_invalid_argument ''request_id must be a string'')
            | _ \<Rightarrow> failure EC_invalid_argument ''IPC request is missing a required top-level field''))"

definition parse_request :: "JsonParser \<Rightarrow> string \<Rightarrow> nat \<Rightarrow> Request Result" where
  "parse_request json_parse payload max_message_size =
     and_then (parse_document json_parse payload max_message_size) (\<lambda>document.
     case document of
       JObject ms \<Rightarrow> parse_request_fields ms
     | _ \<Rightarrow> failure EC_invalid_argument ''IPC request must be a JSON object'')"

definition request_document :: "Request \<Rightarrow> Json" where
  "request_document request =
     JObject [(''version'', JUnsigned (ucast (rq_version request))),
              (''request_id'', JString (id_text (rq_request_id request))),
              (''method'', JString (rq_method request)),
              (''params'', rq_params request)]"

definition serialize_request :: "JsonDumper \<Rightarrow> Request \<Rightarrow> nat \<Rightarrow> string Result" where
  "serialize_request json_dump request max_message_size =
     (if rq_version request \<noteq> ipc_kProtocolVersion
      then failure EC_unsupported_version ''unsupported IPC protocol version''
      else and_then (validate_request_id (rq_request_id request)) (\<lambda>_.
           and_then (validate_method_name (rq_method request)) (\<lambda>_.
           case rq_params request of
             JObject _ \<Rightarrow>
               and_then (validate_json_tree (rq_params request)) (\<lambda>_.
               dump_document json_dump (request_document request) max_message_size)
           | _ \<Rightarrow> failure EC_invalid_argument ''IPC params must be a JSON object'')))"

definition parse_error_fields :: "Id \<Rightarrow> (string \<times> Json) list \<Rightarrow> Response Result" where
  "parse_error_fields i es =
     (if \<not> list_all (\<lambda>(k, v). k = ''code'' \<or> k = ''message'') es
      then failure EC_invalid_argument ''IPC error contains an unknown field''
      else (case (map_of es ''code'', map_of es ''message'') of
              (Some (JString c), Some (JString m)) \<Rightarrow>
                (case error_code_from_string c of
                   None \<Rightarrow> failure EC_invalid_argument ''IPC error code is invalid''
                 | Some parsed_code \<Rightarrow>
                     if parsed_code = EC_ok
                     then failure EC_invalid_argument ''IPC error code is invalid''
                     else if ipc_kMaxErrorMessageBytes < length m
                     then failure EC_invalid_argument ''IPC error message exceeds the length limit''
                     else Inr (response_failure i (Error parsed_code m)))
            | _ \<Rightarrow> failure EC_invalid_argument ''IPC error code and message must be strings''))"

definition parse_outcome :: "Id \<Rightarrow> bool \<Rightarrow> (string \<times> Json) list \<Rightarrow> Response Result" where
  "parse_outcome i succeeded ms =
     (if \<not> list_all (\<lambda>(k, v). is_response_base_field k \<or>
                               (if succeeded then k = ''result'' else k = ''error'')) ms
      then failure EC_invalid_argument ''IPC response contains an unknown top-level field''
      else if succeeded
      then (case map_of ms ''result'' of
              None \<Rightarrow> failure EC_invalid_argument ''successful IPC response is missing result''
            | Some (JObject rs) \<Rightarrow> Inr (response_success i (JObject rs))
            | Some _ \<Rightarrow>
                failure EC_invalid_argument ''successful IPC response result must be an object'')
      else (case map_of ms ''error'' of
              Some (JObject es) \<Rightarrow> parse_error_fields i es
            | _ \<Rightarrow> failure EC_invalid_argument ''failed IPC response must contain an error object''))"

definition parse_response_fields :: "(string \<times> Json) list \<Rightarrow> Response Result" where
  "parse_response_fields ms =
     (case (map_of ms ''version'', map_of ms ''request_id'', map_of ms ''ok'') of
        (Some version, Some request_id, Some ok) \<Rightarrow>
          and_then (validate_version version) (\<lambda>_.
          case request_id of
            JString identifier \<Rightarrow>
              (case id_parse_kind identifier IK_request of
                 Inl _ \<Rightarrow> failure EC_invalid_argument ''request_id must be a canonical request ID''
               | Inr i \<Rightarrow>
                   (case ok of
                      JBool succeeded \<Rightarrow> parse_outcome i succeeded ms
                    | _ \<Rightarrow> failure EC_invalid_argument ''IPC response ok must be a boolean''))
          | _ \<Rightarrow> failure EC_invalid_argument ''request_id must be a string'')
      | _ \<Rightarrow> failure EC_invalid_argument ''IPC response is missing a required top-level field'')"

definition parse_response :: "JsonParser \<Rightarrow> string \<Rightarrow> nat \<Rightarrow> Response Result" where
  "parse_response json_parse payload max_message_size =
     and_then (parse_document json_parse payload max_message_size) (\<lambda>document.
     case document of
       JObject ms \<Rightarrow> parse_response_fields ms
     | _ \<Rightarrow> failure EC_invalid_argument ''IPC response must be a JSON object'')"

definition error_document :: "Error \<Rightarrow> Json" where
  "error_document e =
     JObject [(''code'', JString (error_code_to_string (code e))), (''message'', JString (message e))]"

definition response_document :: "Response \<Rightarrow> Json" where
  "response_document response =
     JObject ([(''version'', JUnsigned (ucast ipc_kProtocolVersion)),
               (''request_id'', JString (id_text (rs_request_id response))),
               (''ok'', JBool (response_ok response))] @
              (case rs_payload response of
                 RP_result result \<Rightarrow> [(''result'', result)]
               | RP_error e \<Rightarrow> [(''error'', error_document e)]))"

text \<open>The document is checked after conversion from the ordered to the sorted kind of object.\<close>

definition serialize_response :: "JsonDumper \<Rightarrow> Response \<Rightarrow> nat \<Rightarrow> string Result" where
  "serialize_response json_dump response max_message_size =
     and_then (validate_request_id (rs_request_id response)) (\<lambda>_.
     and_then (case rs_payload response of
                 RP_result result \<Rightarrow>
                   (case result of
                      JObject _ \<Rightarrow> validate_json_tree result
                    | _ \<Rightarrow> failure EC_invalid_argument
                             ''successful IPC response result must be an object'')
               | RP_error e \<Rightarrow>
                   if code e = EC_ok
                   then failure EC_internal_error ''IPC response has an invalid error payload''
                   else Inr ()) (\<lambda>_.
     and_then (validate_json_tree (json_normal (response_document response))) (\<lambda>_.
     dump_document json_dump (response_document response) max_message_size)))"

section \<open>The validator of texts\<close>

lemma byte_literals:
  "unat (0x80 :: byte) = 128" "unat (0xbf :: byte) = 191" "unat (0xe0 :: byte) = 224"
  "unat (0xe1 :: byte) = 225" "unat (0xec :: byte) = 236" "unat (0xed :: byte) = 237"
  "unat (0xee :: byte) = 238" "unat (0xef :: byte) = 239" "unat (0xf0 :: byte) = 240"
  "unat (0xf1 :: byte) = 241" "unat (0xf3 :: byte) = 243" "unat (0xf4 :: byte) = 244"
  by simp_all

lemma continuation_agree: "is_utf8_continuation b = is_continuation b"
  unfolding is_utf8_continuation_def is_continuation_def continuation_value word_le_nat_alt byte_literals
  by linarith

lemma lead_ranges:
  "(0xe1 \<le> b \<and> b \<le> 0xec \<or> 0xee \<le> b \<and> b \<le> 0xef) \<longleftrightarrow>
     0xe0 \<le> b \<and> b \<le> 0xef \<and> b \<noteq> 0xe0 \<and> b \<noteq> (0xed :: byte)"
  "0xf1 \<le> b \<and> b \<le> 0xf3 \<and> k \<longleftrightarrow>
     (0xf0 \<le> b \<and> b \<le> 0xf4 \<and> b \<noteq> 0xf0 \<and> b \<noteq> (0xf4 :: byte)) \<and> k"
  unfolding word_le_nat_alt word_unat_eq_iff byte_literals
  by linarith+

lemma second_byte_branch:
  assumes "\<not> (a \<and> b)" "lo \<and> hi"
  shows "(if short then False
          else if \<not> (if a then p else if b then q else k) \<or> bad then False else tail) =
         (if short \<or> bad then False
          else if a \<and> p \<or> b \<and> q \<or> (lo \<and> hi \<and> \<not> a \<and> \<not> b) \<and> k then tail else False)"
  using assms by auto

lemma ipc_loop_agrees: "ipc_utf8_loop bs = storage_utf8_loop bs"
proof (induction "length bs" arbitrary: bs rule: less_induct)
  case less
  show ?case
  proof (cases bs)
    case (Cons first rest)
    have IH: "ipc_utf8_loop (drop k rest) = storage_utf8_loop (drop k rest)" for k
      using less [of "drop k rest"] Cons by simp
    have one: "ipc_utf8_loop rest = storage_utf8_loop rest"
      using IH [of 0] by simp
    have "first = 0xe0 \<Longrightarrow> first \<noteq> 0xed" "first = 0xf0 \<Longrightarrow> first \<noteq> 0xf4"
      by simp_all
    then have leads: "\<not> (first = 0xe0 \<and> first = 0xed)" "\<not> (first = 0xf0 \<and> first = 0xf4)"
      by blast+
    show ?thesis
      unfolding Cons ipc_utf8_loop.simps(2) storage_utf8_loop.simps(2) lead_ranges
        continuation_agree Let_def IH one
      by (intro if_cong [OF refl refl] if_cong [OF refl second_byte_branch [OF leads(1)]]
          if_cong [OF refl second_byte_branch [OF leads(2)]] refl)
  qed simp
qed

lemma ipc_utf8_agrees: "ipc_is_valid_utf8 s = is_valid_utf8 s"
  by (simp add: ipc_is_valid_utf8_def is_valid_utf8_def ipc_loop_agrees storage_loop_agrees)

section \<open>What a valid document is\<close>

fun json_clean :: "Json \<Rightarrow> bool"
  and array_clean :: "Json list \<Rightarrow> bool"
  and member_clean :: "(string \<times> Json) list \<Rightarrow> bool" where
  "json_clean (JArray vs) \<longleftrightarrow> array_clean vs"
| "json_clean (JObject ms) \<longleftrightarrow> member_clean ms"
| "json_clean (JString s) \<longleftrightarrow> ipc_is_valid_utf8 s"
| "json_clean (JFloat x) \<longleftrightarrow> x \<noteq> None"
| "json_clean JBinary \<longleftrightarrow> False"
| "json_clean JDiscarded \<longleftrightarrow> False"
| "json_clean v \<longleftrightarrow> True"
| "array_clean [] \<longleftrightarrow> True"
| "array_clean (v # vs) \<longleftrightarrow> json_clean v \<and> array_clean vs"
| "member_clean [] \<longleftrightarrow> True"
| "member_clean ((k, v) # ms) \<longleftrightarrow> ipc_is_valid_utf8 k \<and> json_clean v \<and> member_clean ms"

lemma ipc_bounds_simps [simp]:
  "jb_depth ipc_bounds = kMaxJsonDepth" "jb_nodes ipc_bounds = kMaxJsonNodes"
  "jb_string ipc_bounds = kMaxJsonStringBytes"
  by (simp_all add: ipc_bounds_def)

lemma validate_not_ok [simp]: "too_many_nodes \<noteq> Inr n" "string_too_long \<noteq> Inr n"
  by (simp_all add: too_many_nodes_def string_too_long_def)

lemma validate_exact:
  "validate_json_tree_impl v d n = Inr n' \<longleftrightarrow>
     json_bounded ipc_bounds d v \<and> json_clean v \<and> n + json_nodes v \<le> kMaxJsonNodes \<and> n' = n + json_nodes v"
  "n \<le> kMaxJsonNodes \<Longrightarrow> validate_elements vs d n = Inr n' \<longleftrightarrow>
     array_bounded ipc_bounds d vs \<and> array_clean vs \<and> n + array_nodes vs \<le> kMaxJsonNodes \<and>
     n' = n + array_nodes vs"
  "n \<le> kMaxJsonNodes \<Longrightarrow> validate_members ms d n = Inr n' \<longleftrightarrow>
     member_bounded ipc_bounds d ms \<and> member_clean ms \<and> n + member_nodes ms \<le> kMaxJsonNodes \<and>
     n' = n + member_nodes ms"
proof (induction v d n and vs d n and ms d n arbitrary: n' and n' and n'
       rule: validate_json_tree_impl_validate_elements_validate_members.induct)
  case (1 v depth nodes)
  show ?case
  proof (cases v)
    case (JArray vs)
    then show ?thesis
      using 1(1) [of vs n'] by (subst validate_json_tree_impl.simps) (auto simp: is_container_def)
  next
    case (JObject ms)
    then show ?thesis
      using 1(2) [of ms n'] by (subst validate_json_tree_impl.simps) (auto simp: is_container_def)
  qed (subst validate_json_tree_impl.simps; auto simp: is_container_def split: option.split)+
next
  case (3 v vs depth nodes)
  then show ?case
    by (auto simp: and_then_Inr_iff)
next
  case (5 k v ms depth nodes)
  then show ?case
    by (auto simp: and_then_Inr_iff)
qed auto

lemma validate_json_tree_iff:
  "validate_json_tree v = Inr u \<longleftrightarrow>
     json_bounded ipc_bounds 0 v \<and> json_clean v \<and> json_nodes v \<le> kMaxJsonNodes"
  by (auto simp: validate_json_tree_def and_then_Inr_iff validate_exact)

lemma member_clean_all: "member_clean ms \<longleftrightarrow> (\<forall>p \<in> set ms. ipc_is_valid_utf8 (fst p) \<and> json_clean (snd p))"
  by (induction ms rule: induct_list_pairs) auto

lemma json_clean_normal:
  "json_clean (json_normal v) = json_clean v"
  "array_clean (array_normal vs) = array_clean vs"
  "member_clean (member_normal ms) = member_clean ms"
  by (induction v and vs and ms rule: json_clean_array_clean_member_clean.induct)
    (simp_all add: member_clean_all)

lemma validate_normal: "validate_json_tree (json_normal v) = Inr u \<longleftrightarrow> validate_json_tree v = Inr u"
  by (simp add: validate_json_tree_iff json_bounded_normal json_nodes_normal json_clean_normal)

text \<open>
  The contract of the JSON library.  A printed document is valid UTF-8, an object starts with a brace,
  and parsing the text reports the events of the document in order and builds the document with its
  keys sorted.  Signed integers are told from unsigned ones by their sign, so only negative ones
  come back as signed.
\<close>

fun json_signed :: "Json \<Rightarrow> bool"
  and array_signed :: "Json list \<Rightarrow> bool"
  and member_signed :: "(string \<times> Json) list \<Rightarrow> bool" where
  "json_signed (JArray vs) \<longleftrightarrow> array_signed vs"
| "json_signed (JObject ms) \<longleftrightarrow> member_signed ms"
| "json_signed (JInteger i) \<longleftrightarrow> - (2 ^ 63) \<le> i \<and> i < 0"
| "json_signed v \<longleftrightarrow> True"
| "array_signed [] \<longleftrightarrow> True"
| "array_signed (v # vs) \<longleftrightarrow> json_signed v \<and> array_signed vs"
| "member_signed [] \<longleftrightarrow> True"
| "member_signed ((k, v) # ms) \<longleftrightarrow> json_signed v \<and> member_signed ms"

definition json_faithful :: "JsonParser \<Rightarrow> JsonDumper \<Rightarrow> bool" where
  "json_faithful json_parse json_dump \<longleftrightarrow>
     (\<forall>d s. json_dump d = Some s \<and> json_clean d \<and> json_distinct d \<and> json_signed d \<longrightarrow>
        json_parse s = Some (json_events d, json_normal d) \<and> ipc_is_valid_utf8 s) \<and>
     (\<forall>ms s. json_dump (JObject ms) = Some s \<longrightarrow> take 1 s = ''{'')"

text \<open>Values a document of the library can hold: sorted objects, and numbers that print as they are.\<close>

definition json_stable :: "Json \<Rightarrow> bool" where
  "json_stable v \<longleftrightarrow> json_normal v = v \<and> json_distinct v \<and> json_signed v"

lemma brace_no_bom:
  assumes "take 1 s = ''{''" shows "s \<noteq> []" "\<not> has_bom s"
proof -
  obtain r where "s = CHR ''{'' # r" using assms by (cases s) auto
  then show "s \<noteq> []" "\<not> has_bom s"
    by (simp_all add: has_bom_def bytes_of_string_def byte_of_char_def)
qed

lemma parse_dumped:
  assumes faithful: "json_faithful json_parse json_dump"
    and dumped: "dump_document json_dump (JObject ms) max_message_size = Inr s"
    and doc: "member_clean ms" "member_distinct ms" "member_signed ms"
  shows "parse_document json_parse s max_message_size = Inr d \<longleftrightarrow>
     json_bounded ipc_bounds 0 (JObject ms) \<and> json_nodes (JObject ms) \<le> kMaxJsonNodes \<and>
     d = json_normal (JObject ms)"
proof -
  have s: "json_dump (JObject ms) = Some s" "length s \<le> message_effective_limit max_message_size"
    using dumped by (auto simp: dump_document_def invalid_json_error_def split: option.splits if_splits)
  have brace: "take 1 s = ''{''"
    and parsed: "json_parse s = Some (json_events (JObject ms), json_normal (JObject ms))" "ipc_is_valid_utf8 s"
    using faithful s(1) doc unfolding json_faithful_def by (metis json_clean.simps(2) json_distinct.simps(2) json_signed.simps(2))+
  have "pl_failure (limits_run ipc_bounds (json_events (JObject ms)) new_parse_limits) = None \<longleftrightarrow>
      json_bounded ipc_bounds 0 (JObject ms) \<and> json_nodes (JObject ms) \<le> kMaxJsonNodes"
    unfolding limits_exact json_fits_iff using doc(2) by simp
  then show ?thesis
    using s(2) parsed brace_no_bom [OF brace] doc(1) validate_normal [of "JObject ms" "()"]
    by (auto simp: parse_document_def Let_def and_then_Inr_iff validate_json_tree_iff
        simp del: json_normal.simps json_events.simps json_bounded.simps json_nodes.simps)
qed

section \<open>Identifiers and methods\<close>

definition ascii_text :: "string \<Rightarrow> bool" where
  "ascii_text s \<longleftrightarrow> list_all (\<lambda>c. of_char c < (128 :: nat)) s"

lemma ascii_Cons [simp]: "ascii_text (c # s) \<longleftrightarrow> of_char c < (128 :: nat) \<and> ascii_text s" "ascii_text []"
  by (simp_all add: ascii_text_def)

lemma unat_byte_of_char: "unat (byte_of_char c) = of_char c"
  using of_char_mod_256 [of c, where ?'a = nat] by (simp add: byte_of_char_def unat_of_nat)

lemma char_between_ascii: "char_between lo hi c \<Longrightarrow> of_char hi < (128 :: nat) \<Longrightarrow> of_char c < (128 :: nat)"
  by (simp add: char_between_def)

lemma ascii_utf8: "ascii_text s \<Longrightarrow> ipc_is_valid_utf8 s"
  unfolding ipc_utf8_agrees is_valid_utf8_def bytes_of_string_def
  by (induction s) (simp_all add: loop_1 unat_byte_of_char)

lemma method_char_ascii:
  assumes "char_between CHR ''a'' CHR ''z'' c \<or> char_between CHR ''0'' CHR ''9'' c \<or> c = CHR ''_'' \<or>
    c = CHR ''-'' \<or> c = CHR ''.''"
  shows "of_char c < (128 :: nat)"
  using assms by (elim disjE) (simp_all add: char_between_ascii)

lemma validate_method_ascii: "validate_method_loop b m = Inr u \<Longrightarrow> ascii_text m"
proof (induction m arbitrary: b)
  case (Cons c m)
  have "char_between CHR ''a'' CHR ''z'' c \<or> char_between CHR ''0'' CHR ''9'' c \<or> c = CHR ''_'' \<or>
      c = CHR ''-'' \<or> c = CHR ''.''"
    and "\<exists>b'. validate_method_loop b' m = Inr u"
    using Cons.prems unfolding validate_method_loop.simps Let_def by (auto split: if_splits)
  then show ?case
    using Cons.IH method_char_ascii [of c] by auto
qed simp

lemma method_text:
  assumes "validate_method_name m = Inr u"
  shows "ipc_is_valid_utf8 m" "length m \<le> 128"
  using assms validate_method_ascii [of True m u]
  by (auto simp: validate_method_name_def kMaxMethodBytes_def ascii_utf8 split: if_splits)

lemma hex_ascii: "list_all is_lowercase_hex h \<Longrightarrow> ascii_text h"
  by (induction h) (auto simp: is_lowercase_hex_def char_between_ascii dest: char_between_ascii)

lemma request_id_text:
  assumes "valid_id_text k t"
  shows "ipc_is_valid_utf8 t" "length t \<le> 39"
proof -
  obtain h where "t = id_prefix k @ h" "list_all is_lowercase_hex h"
    using assms by (auto simp: valid_id_text_iff)
  then have "ascii_text t"
    using hex_ascii [of h] by (cases k) simp_all
  then show "ipc_is_valid_utf8 t" by (rule ascii_utf8)
  show "length t \<le> 39" using assms by (rule valid_id_text_length)
qed

end
