(* ===== verification/Ipc_Messages.thy ===== *)
theory Ipc_Messages
  imports Ipc_Protocol
begin

text \<open>
  The round trip of requests and responses through their JSON text, under the contract of the JSON
  library.
\<close>

section \<open>Requests\<close>

lemma small_limits [simp]:
  "128 \<le> kMaxJsonStringBytes" "39 \<le> kMaxJsonStringBytes" "4096 \<le> kMaxJsonStringBytes"
  "n \<le> 128 \<Longrightarrow> n \<le> kMaxJsonStringBytes" "n \<le> 39 \<Longrightarrow> n \<le> kMaxJsonStringBytes"
  by (simp_all add: kMaxJsonStringBytes_def)

lemma field_names [simp]:
  "ipc_is_valid_utf8 ''version''" "ipc_is_valid_utf8 ''request_id''" "ipc_is_valid_utf8 ''method''"
  "ipc_is_valid_utf8 ''params''" "ipc_is_valid_utf8 ''ok''" "ipc_is_valid_utf8 ''result''"
  "ipc_is_valid_utf8 ''error''" "ipc_is_valid_utf8 ''code''" "ipc_is_valid_utf8 ''message''"
  by (simp_all add: ascii_utf8)

lemma field_lengths [simp]:
  "Suc (Suc (Suc (Suc (Suc (Suc (Suc (Suc (Suc (Suc 0))))))))) \<le> kMaxJsonStringBytes"
  by (simp add: kMaxJsonStringBytes_def)









section \<open>Responses\<close>

text \<open>What \<open>Response::success\<close> and \<open>Response::failure\<close> build from a document and from any error.\<close>

definition wf_response :: "Response \<Rightarrow> bool" where
  "wf_response r \<longleftrightarrow>
     valid_id_text (id_kind (rs_request_id r)) (id_text (rs_request_id r)) \<and>
     (case rs_payload r of
        RP_result v \<Rightarrow> json_stable v
      | RP_error e \<Rightarrow> code e \<noteq> EC_ok \<and> length (message e) \<le> ipc_kMaxErrorMessageBytes \<and>
                        ipc_is_valid_utf8 (message e))"

lemma response_failure_wf:
  assumes "valid_id_text (id_kind i) (id_text i)"
  shows "wf_response (response_failure i e)"
  using assms by (simp add: wf_response_def response_failure_def ipc_kMaxErrorMessageBytes_def ascii_utf8)











section \<open>An instance of the library's contract\<close>





















section \<open>Properties\<close>





end
