(* ===== verification/Generation_Fences.thy ===== *)
theory Generation_Fences
  imports Hash_Maps
begin

text \<open>
  The contract that \<open>SessionRegistry\<close> of the server and \<open>TunnelReconciler\<close> of the daemon share: each
  owner has at most one current generation, a new generation supersedes the old one, and other
  owners are not affected.  Work that carries a generation is fenced by \<open>is_current\<close>.
\<close>

locale generation_fence =
  fixes generations :: "'s \<Rightarrow> ('k, 'g) umap"
    and is_current :: "'k \<Rightarrow> 'g \<Rightarrow> 's \<Rightarrow> bool"
    and supersede :: "'k \<Rightarrow> 'g \<Rightarrow> 's \<Rightarrow> 's"
  assumes is_current_found: "is_current k g s \<Longrightarrow> map_of (generations s) k = Some g"
    and supersede_generations:
      "map_of (generations (supersede k g s)) k' = (if k' = k then Some g else map_of (generations s) k')"
begin

lemma current_unique: "is_current k g s \<Longrightarrow> is_current k g' s \<Longrightarrow> g' = g"
  by (auto dest!: is_current_found)

lemma superseded: "is_current k g' (supersede k g s) \<Longrightarrow> g' = g"
  by (auto simp: supersede_generations dest!: is_current_found)

lemma supersede_other:
  "k' \<noteq> k \<Longrightarrow> map_of (generations (supersede k g s)) k' = map_of (generations s) k'"
  by (simp add: supersede_generations)

end

end
