(* ===== verification/Session_Registry.thy ===== *)
theory Session_Registry
  imports Generation_Fences Auth
begin

text \<open>
  \<open>include/minitun/server/session_registry.hpp\<close> and \<open>src/server/session_registry.cpp\<close>: which session
  of a client is current.  Each operation holds the mutex for its whole effect, so a concurrent
  execution is a sequence of these operations.  The random bytes behind a generation are the
  parameter \<open>random\<close>.
\<close>

record SessionRegistry =
  sr_max_clients :: nat
  sr_generations :: "(string, u64) umap"

definition new_session_registry :: "nat \<Rightarrow> SessionRegistry" where
  "new_session_registry max_clients = \<lparr>sr_max_clients = max max_clients 1, sr_generations = []\<rparr>"

definition session_open ::
  "(nat \<Rightarrow> bytes option) \<Rightarrow> string \<Rightarrow> SessionRegistry \<Rightarrow> u64 Result \<times> SessionRegistry" where
  "session_open random client_id s =
     (if \<not> has_value (id_parse_kind client_id IK_client)
      then (failure EC_invalid_argument ''client ID is invalid'', s)
      else (case generate_session_generation random of
              Inl e \<Rightarrow> (Inl e, s)
            | Inr generation \<Rightarrow>
                if map_of (sr_generations s) client_id = None \<and>
                   sr_max_clients s \<le> length (sr_generations s)
                then (failure EC_resource_exhausted ''server client limit has been reached'', s)
                else (Inr generation,
                      s\<lparr>sr_generations := AList.update client_id generation (sr_generations s)\<rparr>)))"

definition session_is_current :: "string \<Rightarrow> u64 \<Rightarrow> SessionRegistry \<Rightarrow> bool" where
  "session_is_current client_id generation s \<longleftrightarrow> map_of (sr_generations s) client_id = Some generation"

definition session_close :: "string \<Rightarrow> u64 \<Rightarrow> SessionRegistry \<Rightarrow> SessionRegistry" where
  "session_close client_id generation s =
     (if map_of (sr_generations s) client_id = Some generation
      then s\<lparr>sr_generations := AList.delete client_id (sr_generations s)\<rparr> else s)"

definition session_size :: "SessionRegistry \<Rightarrow> nat" where
  "session_size s = length (sr_generations s)"

section \<open>Histories\<close>

datatype SessionOp =
  SessionOpen string "nat \<Rightarrow> bytes option"
| SessionClose string u64

fun session_step :: "SessionOp \<Rightarrow> SessionRegistry \<Rightarrow> SessionRegistry" where
  "session_step (SessionOpen client_id random) s = snd (session_open random client_id s)"
| "session_step (SessionClose client_id generation) s = session_close client_id generation s"

definition session_run :: "SessionOp list \<Rightarrow> SessionRegistry \<Rightarrow> SessionRegistry" where
  "session_run ops s = fold session_step ops s"

text \<open>The operations that do not touch the session \<open>generation\<close> of a client: stale closes included.\<close>

fun leaves_session :: "string \<Rightarrow> u64 \<Rightarrow> SessionOp \<Rightarrow> bool" where
  "leaves_session client_id generation (SessionOpen client_id' _) \<longleftrightarrow> client_id' \<noteq> client_id"
| "leaves_session client_id generation (SessionClose client_id' generation') \<longleftrightarrow>
     client_id' \<noteq> client_id \<or> generation' \<noteq> generation"

definition sessions_ok :: "SessionRegistry \<Rightarrow> bool" where
  "sessions_ok s \<longleftrightarrow> keys_ok (sr_generations s) \<and> length (sr_generations s) \<le> sr_max_clients s \<and>
     (\<forall>(c, g) \<in> set (sr_generations s). valid_id_text IK_client c \<and> g \<noteq> 0)"

interpretation sessions: generation_fence sr_generations session_is_current
  "\<lambda>c g s. s\<lparr>sr_generations := AList.update c g (sr_generations s)\<rparr>"
  by unfold_locales (simp_all add: session_is_current_def)

lemma generation_loop_nonzero: "generation_loop random attempt = Inr g \<Longrightarrow> g \<noteq> 0"
  by (induction random attempt rule: generation_loop.induct)
     (subst (asm) generation_loop.simps, auto simp: Let_def split: if_splits option.splits)

lemma session_generation_nonzero: "generate_session_generation random = Inr g \<Longrightarrow> g \<noteq> 0"
  by (auto simp: generate_session_generation_def dest: generation_loop_nonzero)

lemma session_open_Inr:
  assumes "session_open random c s = (Inr g, s')"
  shows "s' = s\<lparr>sr_generations := AList.update c g (sr_generations s)\<rparr>" "g \<noteq> 0"
    "valid_id_text IK_client c"
    "map_of (sr_generations s) c = None \<Longrightarrow> length (sr_generations s) < sr_max_clients s"
  using assms
  by (auto simp: session_open_def dest: session_generation_nonzero split: if_splits sum.splits)

lemma session_open_Inl: "session_open random c s = (Inl e, s') \<Longrightarrow> s' = s"
  by (auto simp: session_open_def split: if_splits sum.splits)

lemma sessions_ok_step:
  assumes "sessions_ok s"
  shows "sessions_ok (session_step op s) \<and> sr_max_clients (session_step op s) = sr_max_clients s"
proof (cases op)
  case (SessionOpen c random)
  obtain r s' where r: "session_open random c s = (r, s')" by force
  show ?thesis
  proof (cases r)
    case (Inl e)
    then have "s' = s" using r session_open_Inl by simp
    then show ?thesis using r assms SessionOpen by simp
  next
    case (Inr g)
    with r have "session_open random c s = (Inr g, s')" by simp
    note opened = session_open_Inr [OF this]
    have "length (AList.update c g (sr_generations s)) \<le> sr_max_clients s"
      using opened(4) assms by (auto simp: size_update sessions_ok_def)
    then show ?thesis
      using assms opened(1-3) set_update_umap [of c g "sr_generations s"]
      by (auto simp: sessions_ok_def SessionOpen r)
  qed
next
  case (SessionClose c g)
  then show ?thesis
    using assms set_delete_umap [of c "sr_generations s"]
    by (auto simp: session_close_def sessions_ok_def intro: order.trans [OF size_delete_le])
qed

lemma sessions_ok_run:
  "sessions_ok s \<Longrightarrow> sessions_ok (session_run ops s) \<and> sr_max_clients (session_run ops s) = sr_max_clients s"
  unfolding session_run_def
  by (induction ops arbitrary: s) (auto simp: sessions_ok_step)

lemma sessions_ok_new: "sessions_ok (new_session_registry n)"
  by (simp add: sessions_ok_def new_session_registry_def)

lemma leaves_session_step:
  assumes "leaves_session c g op" "session_is_current c g s"
  shows "session_is_current c g (session_step op s)"
proof (cases op)
  case (SessionOpen c' random)
  obtain r s' where r: "session_open random c' s = (r, s')" by force
  show ?thesis
  proof (cases r)
    case (Inl e)
    then have "s' = s" using r session_open_Inl by simp
    then show ?thesis using r assms SessionOpen by simp
  next
    case (Inr g')
    with r have "s' = s\<lparr>sr_generations := AList.update c' g' (sr_generations s)\<rparr>"
      using session_open_Inr by blast
    then show ?thesis
      using assms sessions.supersede_other [of c c' g' s] by (simp add: SessionOpen r session_is_current_def)
  qed
next
  case (SessionClose c' g')
  then show ?thesis using assms by (auto simp: session_close_def session_is_current_def)
qed

lemma leaves_session_run:
  "list_all (leaves_session c g) ops \<Longrightarrow> session_is_current c g s \<Longrightarrow> session_is_current c g (session_run ops s)"
  unfolding session_run_def
  by (induction ops arbitrary: s) (auto simp: leaves_session_step)

text \<open>
  C29: One session per client, and an old session cannot end a new one.  After a client opened a
  session, that session is current and the only current one of the client, until the client opens
  another or this very session is closed; closing sessions it superseded, or anything other clients
  do, has no effect on it.  The number of clients never exceeds the limit.
\<close>

theorem session_fence:
  assumes "session_open random c (session_run before (new_session_registry max_clients)) = (Inr g, s)"
    and "list_all (leaves_session c g) after"
  shows "(session_is_current c g' (session_run after s) \<longleftrightarrow> g' = g) \<and>
    session_size (session_run after s) \<le> max max_clients 1"
proof
  let ?s0 = "session_run before (new_session_registry max_clients)"
  have s: "s = session_step (SessionOpen c random) ?s0" using assms(1) by simp
  have "session_is_current c g s"
    using session_open_Inr(1) [OF assms(1)] by (simp add: session_is_current_def)
  with assms(2) have "session_is_current c g (session_run after s)" by (rule leaves_session_run)
  then show "session_is_current c g' (session_run after s) \<longleftrightarrow> g' = g"
    using sessions.current_unique by blast
  have "sessions_ok ?s0 \<and> sr_max_clients ?s0 = max max_clients 1"
    using sessions_ok_run [OF sessions_ok_new, of before max_clients] by (simp add: new_session_registry_def)
  then have "sessions_ok s \<and> sr_max_clients s = max max_clients 1"
    using sessions_ok_step [of ?s0 "SessionOpen c random"] s by simp
  then show "session_size (session_run after s) \<le> max max_clients 1"
    using sessions_ok_run [of s after] by (simp add: sessions_ok_def session_size_def)
qed

lemma sample_open:
  "session_open (\<lambda>_. Some [0, 0, 0, 0, 0, 0, 0, 9]) (sample_id IK_client) s =
     (if map_of (sr_generations s) (sample_id IK_client) = None \<and> sr_max_clients s \<le> length (sr_generations s)
      then (failure EC_resource_exhausted ''server client limit has been reached'', s)
      else (Inr 9, s\<lparr>sr_generations := AList.update (sample_id IK_client) 9 (sr_generations s)\<rparr>))"
proof -
  have "generate_session_generation (\<lambda>_. Some [0, 0, 0, 0, 0, 0, 0, 9]) = Inr 9" by code_simp
  then show ?thesis by (simp add: session_open_def)
qed

theorem session_fence_witness:
  "\<exists>s. session_open (\<lambda>_. Some [0, 0, 0, 0, 0, 0, 0, 9]) (sample_id IK_client)
         (session_run [] (new_session_registry 1)) = (Inr 9, s) \<and>
     session_is_current (sample_id IK_client) 9 (session_run [SessionClose (sample_id IK_client) 4] s)"
proof -
  let ?s = "(new_session_registry 1)\<lparr>sr_generations := [(sample_id IK_client, 9)]\<rparr>"
  have "session_open (\<lambda>_. Some [0, 0, 0, 0, 0, 0, 0, 9]) (sample_id IK_client)
      (session_run [] (new_session_registry 1)) = (Inr 9, ?s)"
    by (simp add: sample_open session_run_def new_session_registry_def)
  moreover from session_fence [OF this, of "[SessionClose (sample_id IK_client) 4]" 9]
  have "session_is_current (sample_id IK_client) 9 (session_run [SessionClose (sample_id IK_client) 4] ?s)"
    by simp
  ultimately show ?thesis by blast
qed

end
