(* ===== verification/Socks5.thy ===== *)
theory Socks5
  imports Error_Result Wire_Words
begin

text \<open>
  \<open>include/minitun/protocol/socks5.hpp\<close> and \<open>src/protocol/socks5.cpp\<close>: the SOCKS5 CONNECT handshake that
  the daemon serves on a Worker stream.  The bytes the client will have sent are the argument
  \<open>input\<close>; reading more than is left fails, as does \<open>async_read\<close> at the end of the stream.  Printing
  addresses, resolving and connecting belong to asio and are parameters, and so is whether the
  \<open>n\<close>-th write succeeds.  The function returns its result, the bytes it wrote and the unread input.
\<close>

unbundle bit_operations_syntax

definition kVersion :: byte where "kVersion = 0x05"
definition kNoAuthentication :: byte where "kNoAuthentication = 0x00"
definition kNoAcceptableMethod :: byte where "kNoAcceptableMethod = 0xff"
definition kConnect :: byte where "kConnect = 0x01"
definition kIpv4 :: byte where "kIpv4 = 0x01"
definition kDomain :: byte where "kDomain = 0x03"
definition kIpv6 :: byte where "kIpv6 = 0x04"

definition read_exact :: "nat \<Rightarrow> bytes \<Rightarrow> (bytes \<times> bytes) option" where
  "read_exact n input = (if n \<le> length input then Some (take n input, drop n input) else None)"

definition failure_response :: "byte \<Rightarrow> bytes" where
  "failure_response reply = [kVersion, reply, 0, kIpv4, 0, 0, 0, 0, 0, 0]"

text \<open>The local end of the connection to the target, when it can be read.\<close>

datatype LocalEndpoint = Local4 bytes u16 | Local6 bytes u16

fun success_response :: "LocalEndpoint option \<Rightarrow> bytes" where
  "success_response None = [kVersion, 0, 0, kIpv4] @ [0, 0, 0, 0] @ write_u16 0"
| "success_response (Some (Local4 bs port)) = [kVersion, 0, 0, kIpv4] @ bs @ write_u16 port"
| "success_response (Some (Local6 bs port)) = [kVersion, 0, 0, kIpv6] @ bs @ write_u16 port"

datatype ConnectOutcome = Connected "LocalEndpoint option" | ConnectionRefused | ConnectFailed

record Socks5Environment =
  se_v4_text :: "bytes \<Rightarrow> string"
  se_v6_text :: "bytes \<Rightarrow> string"
  se_connect :: "string \<Rightarrow> u16 \<Rightarrow> ConnectOutcome"
  se_write_ok :: "nat \<Rightarrow> bool"

type_synonym 'a socks5_outcome = "'a Result \<times> bytes list \<times> bytes"

text \<open>The host of the request; the reply of a refusal is sent where the code sends one.\<close>

definition read_target ::
  "Socks5Environment \<Rightarrow> byte \<Rightarrow> bytes \<Rightarrow> string socks5_outcome" where
  "read_target env address_type input =
     (if address_type = kIpv4
      then (case read_exact 4 input of
              None \<Rightarrow> (failure EC_protocol_error ''SOCKS5 IPv4 target is truncated'', [], input)
            | Some (bs, rest) \<Rightarrow> (Inr (se_v4_text env bs), [], rest))
      else if address_type = kIpv6
      then (case read_exact 16 input of
              None \<Rightarrow> (failure EC_protocol_error ''SOCKS5 IPv6 target is truncated'', [], input)
            | Some (bs, rest) \<Rightarrow> (Inr (se_v6_text env bs), [], rest))
      else if address_type = kDomain
      then (case read_exact 1 input of
              None \<Rightarrow> (failure EC_protocol_error ''SOCKS5 domain target is invalid'', [], input)
            | Some (len, rest) \<Rightarrow>
                if len ! 0 = 0
                then (failure EC_protocol_error ''SOCKS5 domain target is invalid'', [], rest)
                else (case read_exact (unat (len ! 0)) rest of
                        None \<Rightarrow> (failure EC_protocol_error ''SOCKS5 domain target is invalid'', [], rest)
                      | Some (bs, rest2) \<Rightarrow>
                          if 0 \<in> set bs
                          then (failure EC_protocol_error ''SOCKS5 domain target is invalid'', [], rest2)
                          else (Inr (string_of_bytes bs), [], rest2)))
      else (failure EC_invalid_argument ''SOCKS5 address type is not supported'', [failure_response 0x08], input))"

text \<open>From the port on; the writes before were the first one.\<close>

definition connect_target ::
  "Socks5Environment \<Rightarrow> string \<Rightarrow> bytes \<Rightarrow> unit socks5_outcome" where
  "connect_target env host input =
     (case read_exact 2 input of
        None \<Rightarrow> (failure EC_protocol_error ''SOCKS5 target port is truncated'', [], input)
      | Some (port_bytes, rest) \<Rightarrow>
          (let port = read_u16 port_bytes
           in if port = 0
              then (failure EC_invalid_argument ''SOCKS5 target port is zero'', [failure_response 0x01], rest)
              else (case se_connect env host port of
                      ConnectionRefused \<Rightarrow>
                        (failure EC_connection_failed ''SOCKS5 destination connection failed'',
                         [failure_response 0x05], rest)
                    | ConnectFailed \<Rightarrow>
                        (failure EC_connection_failed ''SOCKS5 destination connection failed'',
                         [failure_response 0x04], rest)
                    | Connected local_end \<Rightarrow>
                        (if se_write_ok env 1
                         then (Inr (), [success_response local_end], rest)
                         else (failure EC_connection_failed ''SOCKS5 success reply could not be sent'',
                               [success_response local_end], rest)))))"

definition read_request ::
  "Socks5Environment \<Rightarrow> bytes \<Rightarrow> unit socks5_outcome" where
  "read_request env input =
     (case read_exact 4 input of
        None \<Rightarrow> (failure EC_protocol_error ''SOCKS5 request is invalid'', [], input)
      | Some (request, rest) \<Rightarrow>
          if request ! 0 \<noteq> kVersion \<or> request ! 2 \<noteq> 0
          then (failure EC_protocol_error ''SOCKS5 request is invalid'', [], rest)
          else if request ! 1 \<noteq> kConnect
          then (failure EC_invalid_argument ''SOCKS5 command is not supported'', [failure_response 0x07], rest)
          else (case read_target env (request ! 3) rest of
                  (Inl e, out, rest2) \<Rightarrow> (Inl e, out, rest2)
                | (Inr host, out, rest2) \<Rightarrow> apsnd (apfst ((@) out)) (connect_target env host rest2)))"

definition accept_socks5_connect ::
  "Socks5Environment \<Rightarrow> bytes \<Rightarrow> unit socks5_outcome" where
  "accept_socks5_connect env input =
     (case read_exact 2 input of
        None \<Rightarrow> (failure EC_protocol_error ''SOCKS5 greeting is invalid'', [], input)
      | Some (greeting, rest) \<Rightarrow>
          if greeting ! 0 \<noteq> kVersion \<or> greeting ! 1 = 0
          then (failure EC_protocol_error ''SOCKS5 greeting is invalid'', [], rest)
          else (case read_exact (unat (greeting ! 1)) rest of
                  None \<Rightarrow> (failure EC_protocol_error ''SOCKS5 methods are truncated'', [], rest)
                | Some (methods, rest2) \<Rightarrow>
                    (let no_auth = kNoAuthentication \<in> set methods;
                         selection = [kVersion, if no_auth then kNoAuthentication else kNoAcceptableMethod]
                     in if \<not> se_write_ok env 0 \<or> \<not> no_auth
                        then (failure EC_permission_denied ''SOCKS5 client offered no supported method'',
                              [selection], rest2)
                        else apsnd (apfst (Cons selection)) (read_request env rest2))))"

section \<open>What a client sends\<close>

datatype Target = Target4 bytes | TargetDomain string | Target6 bytes

fun valid_target :: "Target \<Rightarrow> bool" where
  "valid_target (Target4 bs) \<longleftrightarrow> length bs = 4"
| "valid_target (TargetDomain name) \<longleftrightarrow> name \<noteq> [] \<and> length name < 256 \<and> 0 \<notin> set (bytes_of_string name)"
| "valid_target (Target6 bs) \<longleftrightarrow> length bs = 16"

fun target_bytes :: "Target \<Rightarrow> bytes" where
  "target_bytes (Target4 bs) = kIpv4 # bs"
| "target_bytes (TargetDomain name) = kDomain # of_nat (length name) # bytes_of_string name"
| "target_bytes (Target6 bs) = kIpv6 # bs"

fun target_host :: "Socks5Environment \<Rightarrow> Target \<Rightarrow> string" where
  "target_host env (Target4 bs) = se_v4_text env bs"
| "target_host env (TargetDomain name) = name"
| "target_host env (Target6 bs) = se_v6_text env bs"

definition client_handshake :: "bytes \<Rightarrow> Target \<Rightarrow> u16 \<Rightarrow> bytes" where
  "client_handshake methods target port =
     [kVersion, of_nat (length methods)] @ methods @ [kVersion, kConnect, 0] @ target_bytes target @
     write_u16 port"

definition valid_methods :: "bytes \<Rightarrow> bool" where
  "valid_methods methods \<longleftrightarrow> length methods < 256 \<and> kNoAuthentication \<in> set methods"

lemma read_exact_Some_iff:
  "read_exact n input = Some (bs, rest) \<longleftrightarrow> length bs = n \<and> input = bs @ rest"
  by (auto simp: read_exact_def)

lemma read_exact_append [simp]: "n = length bs \<Longrightarrow> read_exact n (bs @ rest) = Some (bs, rest)"
  by (simp add: read_exact_Some_iff)

lemma read_exact_Cons [simp]:
  "read_exact (Suc 0) (b # rest) = Some ([b], rest)"
  "read_exact 1 (b # rest) = Some ([b], rest)" "read_exact 2 (b # c # rest) = Some ([b, c], rest)"
  "read_exact 4 (b # c # d # e # rest) = Some ([b, c, d, e], rest)"
  by (simp_all add: read_exact_Some_iff)

lemma unat_of_nat_byte [simp]: "n < 256 \<Longrightarrow> unat (of_nat n :: byte) = n"
  by (simp add: unat_of_nat)

lemma of_nat_byte_eq_0: "n < 256 \<Longrightarrow> (of_nat n :: byte) = 0 \<longleftrightarrow> n = 0"
  using unat_eq_zero [of "of_nat n :: byte"] by simp

lemmas socks5_constants = kVersion_def kNoAuthentication_def kConnect_def kIpv4_def kDomain_def kIpv6_def

lemma read_target_exact:
  "read_target env t input = (Inr host, out, rest) \<longleftrightarrow>
     out = [] \<and> (\<exists>target. valid_target target \<and> host = target_host env target \<and>
       t # input = target_bytes target @ rest)"
proof
  assume read: "read_target env t input = (Inr host, out, rest)"
  consider (v4) bs where "t = kIpv4" "length bs = 4" "input = bs @ rest" "host = se_v4_text env bs" "out = []"
    | (v6) bs where "t = kIpv6" "length bs = 16" "input = bs @ rest" "host = se_v6_text env bs" "out = []"
    | (domain) n bs where "t = kDomain" "input = n # bs @ rest" "n \<noteq> 0" "length bs = unat n" "0 \<notin> set bs"
        "host = string_of_bytes bs" "out = []"
    using read
    by (auto simp: read_target_def read_exact_Some_iff length_Suc_conv split: if_splits option.splits)
  then show "out = [] \<and> (\<exists>target. valid_target target \<and> host = target_host env target \<and>
      t # input = target_bytes target @ rest)"
  proof cases
    case v4
    then show ?thesis by (intro conjI exI [of _ "Target4 bs"]) simp_all
  next
    case v6
    then show ?thesis by (intro conjI exI [of _ "Target6 bs"]) simp_all
  next
    case domain
    have "string_of_bytes bs \<noteq> []" "unat n < 256"
      using domain unat_less_exp [of n] by (auto simp: unat_eq_zero string_of_bytes_eq_iff)
    then show ?thesis
      using domain by (intro conjI exI [of _ "TargetDomain (string_of_bytes bs)"]) simp_all
  qed
next
  assume "out = [] \<and> (\<exists>target. valid_target target \<and> host = target_host env target \<and>
      t # input = target_bytes target @ rest)"
  then obtain target where target: "out = []" "valid_target target" "host = target_host env target"
    "t # input = target_bytes target @ rest" by blast
  then show "read_target env t input = (Inr host, out, rest)"
    by (cases target) (auto simp: read_target_def socks5_constants of_nat_byte_eq_0)
qed

lemma connect_target_exact:
  "connect_target env host input = (Inr (), out, rest) \<longleftrightarrow>
     se_write_ok env 1 \<and> (\<exists>port local_end. port \<noteq> 0 \<and> se_connect env host port = Connected local_end \<and>
       input = write_u16 port @ rest \<and> out = [success_response local_end])"
proof
  assume conn: "connect_target env host input = (Inr (), out, rest)"
  then obtain bs where "read_exact 2 input = Some (bs, rest)"
    by (auto simp: connect_target_def Let_def split: option.splits if_splits ConnectOutcome.splits)
  then have "length bs = 2" "input = bs @ rest" by (simp_all add: read_exact_Some_iff)
  moreover from this have "write_u16 (read_u16 bs) = bs" using write_u16_read_u16 [of bs] by simp
  ultimately show "se_write_ok env 1 \<and> (\<exists>port local_end. port \<noteq> 0 \<and>
      se_connect env host port = Connected local_end \<and>
      input = write_u16 port @ rest \<and> out = [success_response local_end])"
    using conn
    by (auto simp: connect_target_def Let_def split: option.splits if_splits ConnectOutcome.splits
        intro!: exI [of _ "read_u16 bs"])
next
  assume "se_write_ok env 1 \<and> (\<exists>port local_end. port \<noteq> 0 \<and> se_connect env host port = Connected local_end \<and>
      input = write_u16 port @ rest \<and> out = [success_response local_end])"
  then show "connect_target env host input = (Inr (), out, rest)"
    by (auto simp: connect_target_def Let_def)
qed

lemma read_request_exact:
  "read_request env input = (Inr (), out, rest) \<longleftrightarrow>
     se_write_ok env 1 \<and> (\<exists>target port local_end. valid_target target \<and> port \<noteq> 0 \<and>
       se_connect env (target_host env target) port = Connected local_end \<and>
       input = [kVersion, kConnect, 0] @ target_bytes target @ write_u16 port @ rest \<and>
       out = [success_response local_end])"
proof
  assume req: "read_request env input = (Inr (), out, rest)"
  then obtain a b c t rest1 where r: "input = a # b # c # t # rest1" "a = kVersion" "b = kConnect" "c = 0"
    by (auto simp: read_request_def read_exact_Some_iff length_4_ex split: option.splits if_splits)
  with req obtain host out1 rest2 out2 where
    target: "read_target env t rest1 = (Inr host, out1, rest2)"
    and conn: "connect_target env host rest2 = (Inr (), out2, rest)" and out: "out = out1 @ out2"
    by (auto simp: read_request_def apsnd_def apfst_def map_prod_def split: prod.splits sum.splits)
  from target obtain tg where tg: "out1 = []" "valid_target tg" "host = target_host env tg"
    "t # rest1 = target_bytes tg @ rest2"
    unfolding read_target_exact by blast
  from conn obtain port local_end where "se_write_ok env 1" "port \<noteq> 0" "se_connect env host port = Connected local_end"
    "rest2 = write_u16 port @ rest" "out2 = [success_response local_end]"
    unfolding connect_target_exact by blast
  with tg r out show "se_write_ok env 1 \<and> (\<exists>target port local_end. valid_target target \<and> port \<noteq> 0 \<and>
      se_connect env (target_host env target) port = Connected local_end \<and>
      input = [kVersion, kConnect, 0] @ target_bytes target @ write_u16 port @ rest \<and>
      out = [success_response local_end])"
    by (intro conjI exI [of _ tg] exI [of _ port] exI [of _ local_end]) simp_all
next
  assume "se_write_ok env 1 \<and> (\<exists>target port local_end. valid_target target \<and> port \<noteq> 0 \<and>
      se_connect env (target_host env target) port = Connected local_end \<and>
      input = [kVersion, kConnect, 0] @ target_bytes target @ write_u16 port @ rest \<and>
      out = [success_response local_end])"
  then obtain target port local_end where t: "se_write_ok env 1" "valid_target target" "port \<noteq> 0"
    "se_connect env (target_host env target) port = Connected local_end"
    "input = [kVersion, kConnect, 0] @ target_bytes target @ write_u16 port @ rest"
    "out = [success_response local_end]" by blast
  obtain a bs where "target_bytes target = a # bs" by (cases target) simp_all
  moreover from this t(2) have "read_target env a (bs @ write_u16 port @ rest) =
      (Inr (target_host env target), [], write_u16 port @ rest)"
    by (subst read_target_exact) auto
  moreover have "connect_target env (target_host env target) (write_u16 port @ rest) = (Inr (), out, rest)"
    using t by (subst connect_target_exact) auto
  ultimately show "read_request env input = (Inr (), out, rest)"
    using t(5) by (simp add: read_request_def)
qed

text \<open>
  C35: The SOCKS5 handshake is served exactly.  The handshake succeeds exactly when the client sent
  a greeting that offers no authentication and a CONNECT request for a valid target and a port
  other than zero, the connection to exactly that host and port was made, and both replies were
  written; it consumes exactly these bytes, so what follows is the client's data.
\<close>

theorem socks5_connect_exact:
  "accept_socks5_connect env input = (Inr (), out, rest) \<longleftrightarrow>
     se_write_ok env 0 \<and> se_write_ok env 1 \<and>
     (\<exists>methods target port local_end. valid_methods methods \<and> valid_target target \<and> port \<noteq> 0 \<and>
       se_connect env (target_host env target) port = Connected local_end \<and>
       input = client_handshake methods target port @ rest \<and>
       out = [[kVersion, kNoAuthentication], success_response local_end])" (is "?l \<longleftrightarrow> ?r")
proof
  assume ?l
  then obtain a n rest1 where "input = a # n # rest1" "a = kVersion" "n \<noteq> 0"
    by (auto simp: accept_socks5_connect_def read_exact_Some_iff length_2_ex split: option.splits if_splits)
  with \<open>?l\<close> obtain methods rest2 out2 where "length methods = unat n" "rest1 = methods @ rest2"
    "kNoAuthentication \<in> set methods" "se_write_ok env 0" "out = [kVersion, kNoAuthentication] # out2"
    "read_request env rest2 = (Inr (), out2, rest)"
    by (auto simp: accept_socks5_connect_def read_exact_Some_iff Let_def apsnd_def apfst_def map_prod_def
        split: option.splits if_splits prod.splits)
  moreover have "unat n < 256" using unat_less_exp [of n] by simp
  moreover from calculation(6) obtain target port local_end where "se_write_ok env 1" "valid_target target"
    "port \<noteq> 0" "se_connect env (target_host env target) port = Connected local_end"
    "rest2 = [kVersion, kConnect, 0] @ target_bytes target @ write_u16 port @ rest"
    "out2 = [success_response local_end]"
    unfolding read_request_exact by blast
  ultimately show ?r
    using \<open>input = a # n # rest1\<close> \<open>a = kVersion\<close>
    by (intro conjI exI [of _ methods] exI [of _ target] exI [of _ port] exI [of _ local_end])
       (simp_all add: client_handshake_def valid_methods_def)
next
  assume ?r
  then obtain methods target port local_end where h: "se_write_ok env 0" "se_write_ok env 1"
    "valid_methods methods" "valid_target target" "port \<noteq> 0"
    "se_connect env (target_host env target) port = Connected local_end"
    "input = client_handshake methods target port @ rest"
    "out = [[kVersion, kNoAuthentication], success_response local_end]" by blast
  have "read_request env ([kVersion, kConnect, 0] @ target_bytes target @ write_u16 port @ rest) =
      (Inr (), [success_response local_end], rest)"
    using h by (subst read_request_exact) blast
  moreover have "methods \<noteq> []" "length methods < 256" using h(3) by (auto simp: valid_methods_def)
  ultimately show ?l
    using h by (simp add: accept_socks5_connect_def client_handshake_def of_nat_byte_eq_0 Let_def valid_methods_def)
qed

end
