(* ===== verification/State_Machine.thy ===== *)
theory State_Machine
  imports Frames
begin

text \<open>
  \<open>include/minitun/protocol/state_machine.hpp\<close> and \<open>src/protocol/state_machine.cpp\<close>: the
  connection state machine that both peers run beside the frame codec.  The step relation
  \<open>machine_step\<close> and its reachable states carry the safety properties; \<open>link\<close> runs a client and a
  server machine against each other over a channel that delivers each frame in order.
\<close>

section \<open>The machine\<close>

datatype PeerRole = PR_client | PR_server

datatype ConnectionKind = CK_control | CK_worker

datatype ConnectionState =
  CS_client_send_hello | CS_client_wait_hello_ack | CS_client_send_auth |
  CS_client_wait_auth_result | CS_server_wait_hello | CS_server_send_hello_ack |
  CS_server_wait_auth | CS_server_send_auth_result | CS_authenticated |
  CS_client_send_worker_hello | CS_client_wait_worker_accepted |
  CS_server_wait_worker_hello | CS_server_send_worker_accepted | CS_worker_idle |
  CS_client_connecting_local | CS_server_wait_local_result | CS_relay | CS_closing

datatype Direction = Dir_send | Dir_receive

record StateMachine =
  sm_role :: PeerRole
  sm_kind :: ConnectionKind
  sm_state :: ConnectionState

fun connection_state_to_string :: "ConnectionState \<Rightarrow> string" where
  "connection_state_to_string CS_client_send_hello = ''client_send_hello''"
| "connection_state_to_string CS_client_wait_hello_ack = ''client_wait_hello_ack''"
| "connection_state_to_string CS_client_send_auth = ''client_send_auth''"
| "connection_state_to_string CS_client_wait_auth_result = ''client_wait_auth_result''"
| "connection_state_to_string CS_server_wait_hello = ''server_wait_hello''"
| "connection_state_to_string CS_server_send_hello_ack = ''server_send_hello_ack''"
| "connection_state_to_string CS_server_wait_auth = ''server_wait_auth''"
| "connection_state_to_string CS_server_send_auth_result = ''server_send_auth_result''"
| "connection_state_to_string CS_authenticated = ''authenticated''"
| "connection_state_to_string CS_client_send_worker_hello = ''client_send_worker_hello''"
| "connection_state_to_string CS_client_wait_worker_accepted = ''client_wait_worker_accepted''"
| "connection_state_to_string CS_server_wait_worker_hello = ''server_wait_worker_hello''"
| "connection_state_to_string CS_server_send_worker_accepted = ''server_send_worker_accepted''"
| "connection_state_to_string CS_worker_idle = ''worker_idle''"
| "connection_state_to_string CS_client_connecting_local = ''client_connecting_local''"
| "connection_state_to_string CS_server_wait_local_result = ''server_wait_local_result''"
| "connection_state_to_string CS_relay = ''relay''"
| "connection_state_to_string CS_closing = ''closing''"

definition new_state_machine :: "PeerRole \<Rightarrow> ConnectionKind \<Rightarrow> StateMachine" where
  "new_state_machine role kind =
     \<lparr>sm_role = role, sm_kind = kind,
      sm_state =
        (if kind = CK_control
         then (if role = PR_client then CS_client_send_hello else CS_server_wait_hello)
         else (if role = PR_client then CS_client_send_worker_hello
               else CS_server_wait_worker_hello))\<rparr>"

definition client_authenticated_message :: "bool \<Rightarrow> MessageType \<Rightarrow> bool" where
  "client_authenticated_message sending type \<longleftrightarrow>
     (if sending
      then type = MT_register_tunnel \<or> type = MT_unregister_tunnel \<or> type = MT_ping \<or>
           type = MT_pong
      else type = MT_register_tunnel_ok \<or> type = MT_register_tunnel_error \<or>
           type = MT_unregister_tunnel_ok \<or> type = MT_request_workers \<or> type = MT_ping \<or>
           type = MT_pong)"

definition server_authenticated_message :: "bool \<Rightarrow> MessageType \<Rightarrow> bool" where
  "server_authenticated_message sending type \<longleftrightarrow>
     (if sending
      then type = MT_register_tunnel_ok \<or> type = MT_register_tunnel_error \<or>
           type = MT_unregister_tunnel_ok \<or> type = MT_request_workers \<or> type = MT_ping \<or>
           type = MT_pong
      else type = MT_register_tunnel \<or> type = MT_unregister_tunnel \<or> type = MT_ping \<or>
           type = MT_pong)"

definition invalid_transition :: "unit Result" where
  "invalid_transition =
     failure EC_protocol_error
       ''remote protocol message is invalid for the current connection state''"

definition framed_mode :: "StateMachine \<Rightarrow> bool" where
  "framed_mode sm \<longleftrightarrow> sm_state sm \<noteq> CS_relay \<and> sm_state sm \<noteq> CS_closing"

text \<open>The \<open>switch\<close> over the current state: the state that a fitting message leads to.\<close>

definition next_state :: "StateMachine \<Rightarrow> Direction \<Rightarrow> MessageType \<Rightarrow> ConnectionState option" where
  "next_state sm direction type =
     (case sm_state sm of
        CS_client_send_hello \<Rightarrow>
          if direction = Dir_send \<and> type = MT_hello then Some CS_client_wait_hello_ack else None
      | CS_client_wait_hello_ack \<Rightarrow>
          if direction = Dir_receive \<and> type = MT_hello_ack then Some CS_client_send_auth else None
      | CS_client_send_auth \<Rightarrow>
          if direction = Dir_send \<and> type = MT_auth then Some CS_client_wait_auth_result else None
      | CS_client_wait_auth_result \<Rightarrow>
          if direction = Dir_receive \<and> type = MT_auth_ok then Some CS_authenticated
          else if direction = Dir_receive \<and> type = MT_auth_error then Some CS_closing else None
      | CS_server_wait_hello \<Rightarrow>
          if direction = Dir_receive \<and> type = MT_hello then Some CS_server_send_hello_ack else None
      | CS_server_send_hello_ack \<Rightarrow>
          if direction = Dir_send \<and> type = MT_hello_ack then Some CS_server_wait_auth else None
      | CS_server_wait_auth \<Rightarrow>
          if direction = Dir_receive \<and> type = MT_auth then Some CS_server_send_auth_result else None
      | CS_server_send_auth_result \<Rightarrow>
          if direction = Dir_send \<and> type = MT_auth_ok then Some CS_authenticated
          else if direction = Dir_send \<and> type = MT_auth_error then Some CS_closing else None
      | CS_authenticated \<Rightarrow>
          if sm_role sm = PR_client \<and> client_authenticated_message (direction = Dir_send) type \<or>
             sm_role sm = PR_server \<and> server_authenticated_message (direction = Dir_send) type
          then Some CS_authenticated else None
      | CS_client_send_worker_hello \<Rightarrow>
          if direction = Dir_send \<and> type = MT_worker_hello
          then Some CS_client_wait_worker_accepted else None
      | CS_client_wait_worker_accepted \<Rightarrow>
          if direction = Dir_receive \<and> type = MT_worker_accepted then Some CS_worker_idle else None
      | CS_server_wait_worker_hello \<Rightarrow>
          if direction = Dir_receive \<and> type = MT_worker_hello
          then Some CS_server_send_worker_accepted else None
      | CS_server_send_worker_accepted \<Rightarrow>
          if direction = Dir_send \<and> type = MT_worker_accepted then Some CS_worker_idle else None
      | CS_worker_idle \<Rightarrow>
          if sm_role sm = PR_client \<and> direction = Dir_receive \<and> type = MT_start_relay
          then Some CS_client_connecting_local
          else if sm_role sm = PR_server \<and> direction = Dir_send \<and> type = MT_start_relay
          then Some CS_server_wait_local_result else None
      | CS_client_connecting_local \<Rightarrow>
          if direction = Dir_send \<and> type = MT_local_connect_ok then Some CS_relay
          else if direction = Dir_send \<and> type = MT_local_connect_error then Some CS_closing
          else None
      | CS_server_wait_local_result \<Rightarrow>
          if direction = Dir_receive \<and> type = MT_local_connect_ok then Some CS_relay
          else if direction = Dir_receive \<and> type = MT_local_connect_error then Some CS_closing
          else None
      | CS_relay \<Rightarrow> None
      | CS_closing \<Rightarrow> None)"

definition transition :: "Direction \<Rightarrow> MessageType \<Rightarrow> StateMachine \<Rightarrow> unit Result \<times> StateMachine" where
  "transition direction type sm =
     (if sm_state sm = CS_relay \<or> sm_state sm = CS_closing then (invalid_transition, sm)
      else if type = MT_goaway \<or> type = MT_error then (Inr (), sm\<lparr>sm_state := CS_closing\<rparr>)
      else if sm_kind sm = CK_control \<and> \<not> is_control_message type then (invalid_transition, sm)
      else if sm_kind sm = CK_worker \<and> \<not> is_worker_message type then (invalid_transition, sm)
      else (case next_state sm direction type of
              Some state \<Rightarrow> (Inr (), sm\<lparr>sm_state := state\<rparr>)
            | None \<Rightarrow> (invalid_transition, sm)))"

definition on_send :: "MessageType \<Rightarrow> StateMachine \<Rightarrow> unit Result \<times> StateMachine" where
  "on_send type sm = transition Dir_send type sm"

definition on_receive :: "MessageType \<Rightarrow> StateMachine \<Rightarrow> unit Result \<times> StateMachine" where
  "on_receive type sm = transition Dir_receive type sm"

section \<open>Runs of one machine\<close>

fun machine_run :: "StateMachine \<Rightarrow> (Direction \<times> MessageType) list \<Rightarrow> StateMachine option" where
  "machine_run sm [] = Some sm"
| "machine_run sm ((direction, type) # events) =
     (case transition direction type sm of
        (Inl e, sm') \<Rightarrow> None
      | (Inr u, sm') \<Rightarrow> machine_run sm' events)"

definition outgoing :: "PeerRole \<Rightarrow> Direction" where
  "outgoing role = (if role = PR_client then Dir_send else Dir_receive)"

definition incoming :: "PeerRole \<Rightarrow> Direction" where
  "incoming role = (if role = PR_client then Dir_receive else Dir_send)"

definition control_handshake :: "PeerRole \<Rightarrow> (Direction \<times> MessageType) list" where
  "control_handshake role =
     [(outgoing role, MT_hello), (incoming role, MT_hello_ack), (outgoing role, MT_auth),
      (incoming role, MT_auth_ok)]"

definition worker_handshake :: "PeerRole \<Rightarrow> (Direction \<times> MessageType) list" where
  "worker_handshake role =
     [(outgoing role, MT_worker_hello), (incoming role, MT_worker_accepted),
      (incoming role, MT_start_relay), (outgoing role, MT_local_connect_ok)]"

definition authenticated_event :: "PeerRole \<Rightarrow> Direction \<times> MessageType \<Rightarrow> bool" where
  "authenticated_event role event \<longleftrightarrow>
     (if role = PR_client then client_authenticated_message (fst event = Dir_send) (snd event)
      else server_authenticated_message (fst event = Dir_send) (snd event))"

lemma neq_send_iff [simp]: "direction \<noteq> Dir_send \<longleftrightarrow> direction = Dir_receive"
  by (cases direction) simp_all

lemma transition_refused:
  "transition direction type sm = (Inl e, sm') \<Longrightarrow>
   sm' = sm \<and> code e = EC_protocol_error"
  by (auto simp: transition_def invalid_transition_def split: if_splits option.splits)

lemma transition_keeps_identity:
  "transition direction type sm = (r, sm') \<Longrightarrow> sm_role sm' = sm_role sm \<and> sm_kind sm' = sm_kind sm"
  by (auto simp: transition_def split: if_splits option.splits)

lemma machine_run_stuck:
  "sm_state sm = CS_relay \<or> sm_state sm = CS_closing \<Longrightarrow>
   machine_run sm events = Some sm' \<longleftrightarrow> events = [] \<and> sm' = sm"
  by (cases events) (auto simp: transition_def invalid_transition_def failure_def
      control_or_worker)

text \<open>One accepted message, from any state that can still become authenticated.\<close>

lemmas step_simps = control_or_worker transition_def next_state_def invalid_transition_def failure_def
  client_authenticated_message_def server_authenticated_message_def

lemma run_to_authenticated:
  "machine_run \<lparr>sm_role = role, sm_kind = CK_control, sm_state = CS_authenticated\<rparr> events = Some sm \<and>
     sm_state sm = CS_authenticated \<longleftrightarrow>
   list_all (authenticated_event role) events \<and>
     sm = \<lparr>sm_role = role, sm_kind = CK_control, sm_state = CS_authenticated\<rparr>"
proof (induction events)
  case (Cons event events)
  obtain direction type where event: "event = (direction, type)" by fastforce
  show ?case
  proof (cases "authenticated_event role event")
    case True
    then have "transition direction type
        \<lparr>sm_role = role, sm_kind = CK_control, sm_state = CS_authenticated\<rparr> =
        (Inr (), \<lparr>sm_role = role, sm_kind = CK_control, sm_state = CS_authenticated\<rparr>)"
      by (cases role; cases type; cases direction)
         (simp_all add: event authenticated_event_def step_simps)
    with True Cons.IH show ?thesis by (simp add: event)
  next
    case False
    then consider e sm' where "transition direction type
        \<lparr>sm_role = role, sm_kind = CK_control, sm_state = CS_authenticated\<rparr> = (Inl e, sm')"
      | u sm' where "transition direction type
        \<lparr>sm_role = role, sm_kind = CK_control, sm_state = CS_authenticated\<rparr> = (Inr u, sm')"
        "sm_state sm' = CS_closing"
      by (cases role; cases type; cases direction)
         (simp_all add: event authenticated_event_def step_simps)
    then show ?thesis using False by cases (auto simp: event machine_run_stuck)
  qed
qed auto

text \<open>A state that one message continues; every other accepted message closes the connection.\<close>

definition continues :: "StateMachine \<Rightarrow> Direction \<times> MessageType \<Rightarrow> StateMachine \<Rightarrow> bool" where
  "continues sm event sm' \<longleftrightarrow>
     (\<forall>direction type. case transition direction type sm of
        (Inl e, x) \<Rightarrow> (direction, type) \<noteq> event
      | (Inr u, x) \<Rightarrow> if (direction, type) = event then x = sm' else sm_state x = CS_closing)"

lemma continues_run:
  assumes "continues sm event sm'" and goal: "goal \<noteq> CS_closing" "goal \<noteq> sm_state sm"
  shows "(\<exists>f. machine_run sm events = Some f \<and> sm_state f = goal) \<longleftrightarrow>
    (\<exists>rest. events = event # rest \<and> (\<exists>f. machine_run sm' rest = Some f \<and> sm_state f = goal))"
proof (cases events)
  case Nil
  with goal show ?thesis by auto
next
  case (Cons first rest)
  obtain direction type where first: "first = (direction, type)" by fastforce
  obtain r x where step: "transition direction type sm = (r, x)" by fastforce
  have case_step: "case (r, x) of
        (Inl e, x) \<Rightarrow> (direction, type) \<noteq> event
      | (Inr u, x) \<Rightarrow> if (direction, type) = event then x = sm' else sm_state x = CS_closing"
    using assms(1) [unfolded continues_def, THEN spec, THEN spec, of direction type]
    unfolding step .
  show ?thesis
  proof (cases r)
    case (Inl e)
    then show ?thesis using case_step step by (simp add: Cons first)
  next
    case (Inr u)
    show ?thesis
    proof (cases "(direction, type) = event")
      case True
      with case_step Inr have "x = sm'" by simp
      with step Inr show ?thesis by (simp add: Cons first True [symmetric])
    next
      case False
      with case_step Inr have "sm_state x = CS_closing" by simp
      then have "\<not> (\<exists>f. machine_run x rest = Some f \<and> sm_state f = goal)"
        using goal(1) machine_run_stuck [of x rest] by auto
      with False step Inr show ?thesis by (simp add: Cons first)
    qed
  qed
qed

lemma control_continues:
  "continues \<lparr>sm_role = PR_client, sm_kind = CK_control, sm_state = CS_client_send_hello\<rparr>
     (Dir_send, MT_hello)
     \<lparr>sm_role = PR_client, sm_kind = CK_control, sm_state = CS_client_wait_hello_ack\<rparr>"
  "continues \<lparr>sm_role = PR_client, sm_kind = CK_control, sm_state = CS_client_wait_hello_ack\<rparr>
     (Dir_receive, MT_hello_ack)
     \<lparr>sm_role = PR_client, sm_kind = CK_control, sm_state = CS_client_send_auth\<rparr>"
  "continues \<lparr>sm_role = PR_client, sm_kind = CK_control, sm_state = CS_client_send_auth\<rparr>
     (Dir_send, MT_auth)
     \<lparr>sm_role = PR_client, sm_kind = CK_control, sm_state = CS_client_wait_auth_result\<rparr>"
  "continues \<lparr>sm_role = PR_client, sm_kind = CK_control, sm_state = CS_client_wait_auth_result\<rparr>
     (Dir_receive, MT_auth_ok)
     \<lparr>sm_role = PR_client, sm_kind = CK_control, sm_state = CS_authenticated\<rparr>"
  "continues \<lparr>sm_role = PR_server, sm_kind = CK_control, sm_state = CS_server_wait_hello\<rparr>
     (Dir_receive, MT_hello)
     \<lparr>sm_role = PR_server, sm_kind = CK_control, sm_state = CS_server_send_hello_ack\<rparr>"
  "continues \<lparr>sm_role = PR_server, sm_kind = CK_control, sm_state = CS_server_send_hello_ack\<rparr>
     (Dir_send, MT_hello_ack)
     \<lparr>sm_role = PR_server, sm_kind = CK_control, sm_state = CS_server_wait_auth\<rparr>"
  "continues \<lparr>sm_role = PR_server, sm_kind = CK_control, sm_state = CS_server_wait_auth\<rparr>
     (Dir_receive, MT_auth)
     \<lparr>sm_role = PR_server, sm_kind = CK_control, sm_state = CS_server_send_auth_result\<rparr>"
  "continues \<lparr>sm_role = PR_server, sm_kind = CK_control, sm_state = CS_server_send_auth_result\<rparr>
     (Dir_send, MT_auth_ok)
     \<lparr>sm_role = PR_server, sm_kind = CK_control, sm_state = CS_authenticated\<rparr>"
  unfolding continues_def
  by (simp_all add: transition_def next_state_def invalid_transition_def failure_def
      control_or_worker)

lemma worker_continues:
  "continues \<lparr>sm_role = PR_client, sm_kind = CK_worker, sm_state = CS_client_send_worker_hello\<rparr>
     (Dir_send, MT_worker_hello)
     \<lparr>sm_role = PR_client, sm_kind = CK_worker, sm_state = CS_client_wait_worker_accepted\<rparr>"
  "continues \<lparr>sm_role = PR_client, sm_kind = CK_worker, sm_state = CS_client_wait_worker_accepted\<rparr>
     (Dir_receive, MT_worker_accepted)
     \<lparr>sm_role = PR_client, sm_kind = CK_worker, sm_state = CS_worker_idle\<rparr>"
  "continues \<lparr>sm_role = PR_client, sm_kind = CK_worker, sm_state = CS_worker_idle\<rparr>
     (Dir_receive, MT_start_relay)
     \<lparr>sm_role = PR_client, sm_kind = CK_worker, sm_state = CS_client_connecting_local\<rparr>"
  "continues \<lparr>sm_role = PR_client, sm_kind = CK_worker, sm_state = CS_client_connecting_local\<rparr>
     (Dir_send, MT_local_connect_ok)
     \<lparr>sm_role = PR_client, sm_kind = CK_worker, sm_state = CS_relay\<rparr>"
  "continues \<lparr>sm_role = PR_server, sm_kind = CK_worker, sm_state = CS_server_wait_worker_hello\<rparr>
     (Dir_receive, MT_worker_hello)
     \<lparr>sm_role = PR_server, sm_kind = CK_worker, sm_state = CS_server_send_worker_accepted\<rparr>"
  "continues \<lparr>sm_role = PR_server, sm_kind = CK_worker, sm_state = CS_server_send_worker_accepted\<rparr>
     (Dir_send, MT_worker_accepted)
     \<lparr>sm_role = PR_server, sm_kind = CK_worker, sm_state = CS_worker_idle\<rparr>"
  "continues \<lparr>sm_role = PR_server, sm_kind = CK_worker, sm_state = CS_worker_idle\<rparr>
     (Dir_send, MT_start_relay)
     \<lparr>sm_role = PR_server, sm_kind = CK_worker, sm_state = CS_server_wait_local_result\<rparr>"
  "continues \<lparr>sm_role = PR_server, sm_kind = CK_worker, sm_state = CS_server_wait_local_result\<rparr>
     (Dir_receive, MT_local_connect_ok)
     \<lparr>sm_role = PR_server, sm_kind = CK_worker, sm_state = CS_relay\<rparr>"
  unfolding continues_def
  by (simp_all add: transition_def next_state_def invalid_transition_def failure_def
      control_or_worker)

section \<open>Two machines over a connection\<close>

text \<open>
  Each peer sends only what its own machine accepts; the transport delivers every frame, in order.
  A received frame is taken off its queue when the receiving machine accepts it.
\<close>

record Link =
  lk_client :: StateMachine
  lk_server :: StateMachine
  lk_to_server :: "MessageType list"
  lk_to_client :: "MessageType list"

definition new_link :: "ConnectionKind \<Rightarrow> Link" where
  "new_link kind =
     \<lparr>lk_client = new_state_machine PR_client kind, lk_server = new_state_machine PR_server kind,
      lk_to_server = [], lk_to_client = []\<rparr>"

inductive link_step :: "Link \<Rightarrow> Link \<Rightarrow> bool" where
  client_sends: "on_send type (lk_client l) = (Inr (), c) \<Longrightarrow>
    link_step l (l\<lparr>lk_client := c, lk_to_server := lk_to_server l @ [type]\<rparr>)"
| server_sends: "on_send type (lk_server l) = (Inr (), s) \<Longrightarrow>
    link_step l (l\<lparr>lk_server := s, lk_to_client := lk_to_client l @ [type]\<rparr>)"
| client_receives: "lk_to_client l = type # rest \<Longrightarrow> on_receive type (lk_client l) = (Inr (), c) \<Longrightarrow>
    link_step l (l\<lparr>lk_client := c, lk_to_client := rest\<rparr>)"
| server_receives: "lk_to_server l = type # rest \<Longrightarrow> on_receive type (lk_server l) = (Inr (), s) \<Longrightarrow>
    link_step l (l\<lparr>lk_server := s, lk_to_server := rest\<rparr>)"

inductive link_reachable :: "ConnectionKind \<Rightarrow> Link \<Rightarrow> bool" for kind :: ConnectionKind where
  link_new: "link_reachable kind (new_link kind)"
| link_next: "link_reachable kind l \<Longrightarrow> link_step l l' \<Longrightarrow> link_reachable kind l'"

text \<open>
  The states the two machines can be in together while neither has given up, with the messages
  under way to the server and to the client.
\<close>

inductive core ::
  "ConnectionState \<Rightarrow> ConnectionState \<Rightarrow> MessageType list \<Rightarrow> MessageType list \<Rightarrow> bool" where
  "core CS_client_send_hello CS_server_wait_hello [] []"
| "core CS_client_wait_hello_ack CS_server_wait_hello [MT_hello] []"
| "core CS_client_wait_hello_ack CS_server_send_hello_ack [] []"
| "core CS_client_wait_hello_ack CS_server_wait_auth [] [MT_hello_ack]"
| "core CS_client_send_auth CS_server_wait_auth [] []"
| "core CS_client_wait_auth_result CS_server_wait_auth [MT_auth] []"
| "core CS_client_wait_auth_result CS_server_send_auth_result [] []"
| "list_all (server_authenticated_message True) to_c \<Longrightarrow>
   core CS_client_wait_auth_result CS_authenticated [] (MT_auth_ok # to_c)"
| "core CS_client_wait_auth_result CS_closing [] [MT_auth_error]"
| "list_all (client_authenticated_message True) to_s \<Longrightarrow>
   list_all (server_authenticated_message True) to_c \<Longrightarrow>
   core CS_authenticated CS_authenticated to_s to_c"
| "core CS_client_send_worker_hello CS_server_wait_worker_hello [] []"
| "core CS_client_wait_worker_accepted CS_server_wait_worker_hello [MT_worker_hello] []"
| "core CS_client_wait_worker_accepted CS_server_send_worker_accepted [] []"
| "core CS_client_wait_worker_accepted CS_worker_idle [] [MT_worker_accepted]"
| "core CS_client_wait_worker_accepted CS_server_wait_local_result []
     [MT_worker_accepted, MT_start_relay]"
| "core CS_worker_idle CS_worker_idle [] []"
| "core CS_worker_idle CS_server_wait_local_result [] [MT_start_relay]"
| "core CS_client_connecting_local CS_server_wait_local_result [] []"
| "core CS_relay CS_server_wait_local_result [MT_local_connect_ok] []"
| "core CS_closing CS_server_wait_local_result [MT_local_connect_error] []"
| "core CS_relay CS_relay [] []"
| "core CS_closing CS_closing [] []"

text \<open>A peer is in its core state, or has closed, its last word possibly still under way.\<close>

definition side :: "ConnectionState \<Rightarrow> ConnectionState \<Rightarrow> MessageType list \<Rightarrow> MessageType list \<Rightarrow> bool" where
  "side actual c queue q \<longleftrightarrow>
     actual = c \<and> queue = q \<or>
     actual = CS_closing \<and> (queue = q \<or> queue = q @ [MT_goaway] \<or> queue = q @ [MT_error])"

definition client_at :: "ConnectionKind \<Rightarrow> ConnectionState \<Rightarrow> StateMachine" where
  "client_at kind c = \<lparr>sm_role = PR_client, sm_kind = kind, sm_state = c\<rparr>"

definition server_at :: "ConnectionKind \<Rightarrow> ConnectionState \<Rightarrow> StateMachine" where
  "server_at kind s = \<lparr>sm_role = PR_server, sm_kind = kind, sm_state = s\<rparr>"

lemma core_client_sends:
  assumes "core c s to_s to_c" "next_state (client_at kind c) Dir_send type = Some c'"
  shows "core c' s (to_s @ [type]) to_c"
  using assms
  by (induction rule: core.induct)
     (auto simp: client_at_def next_state_def client_authenticated_message_def
       split: if_splits intro: core.intros)

lemma core_server_sends:
  assumes "core c s to_s to_c" "next_state (server_at kind s) Dir_send type = Some s'"
  shows "core c s' to_s (to_c @ [type])"
  using assms
  by (induction rule: core.induct)
     (auto simp: server_at_def next_state_def server_authenticated_message_def
       split: if_splits intro: core.intros)

lemma core_server_receives:
  assumes "core c s (type # to_s) to_c" "s \<noteq> CS_closing" "s \<noteq> CS_relay"
  shows "\<exists>s'. next_state (server_at kind s) Dir_receive type = Some s' \<and> core c s' to_s to_c"
  using assms
  by (cases rule: core.cases)
     (auto simp: server_at_def next_state_def client_authenticated_message_def
       server_authenticated_message_def intro: core.intros)

lemma core_client_receives:
  assumes "core c s to_s (type # to_c)" "c \<noteq> CS_closing" "c \<noteq> CS_relay"
  shows "\<exists>c'. next_state (client_at kind c) Dir_receive type = Some c' \<and> core c' s to_s to_c"
  using assms
  by (cases rule: core.cases)
     (auto simp: client_at_def next_state_def client_authenticated_message_def
       server_authenticated_message_def intro: core.intros)

definition closes :: "MessageType \<Rightarrow> bool" where
  "closes type \<longleftrightarrow> type = MT_goaway \<or> type = MT_error"

definition fits :: "ConnectionKind \<Rightarrow> MessageType \<Rightarrow> bool" where
  "fits kind type \<longleftrightarrow> \<not> closes type \<and> (is_control_message type \<longleftrightarrow> kind = CK_control)"

lemma core_client_Inr:
  "transition direction type (client_at kind c) = (Inr (), m) \<longleftrightarrow>
     c \<noteq> CS_relay \<and> c \<noteq> CS_closing \<and>
     (closes type \<and> m = client_at kind CS_closing \<or>
      fits kind type \<and> (\<exists>c'. next_state (client_at kind c) direction type = Some c' \<and> m = client_at kind c'))"
  by (cases kind)
     (auto simp: transition_def client_at_def fits_def closes_def control_or_worker
       invalid_transition_def split: option.splits)

lemma core_server_Inr:
  "transition direction type (server_at kind s) = (Inr (), m) \<longleftrightarrow>
     s \<noteq> CS_relay \<and> s \<noteq> CS_closing \<and>
     (closes type \<and> m = server_at kind CS_closing \<or>
      fits kind type \<and> (\<exists>s'. next_state (server_at kind s) direction type = Some s' \<and> m = server_at kind s'))"
  by (cases kind)
     (auto simp: transition_def server_at_def fits_def closes_def control_or_worker
       invalid_transition_def split: option.splits)

definition link_inv :: "ConnectionKind \<Rightarrow> Link \<Rightarrow> bool" where
  "link_inv kind l \<longleftrightarrow>
     (\<exists>c s to_s to_c c' s'. core c s to_s to_c \<and> list_all (fits kind) to_s \<and> list_all (fits kind) to_c \<and>
        lk_client l = client_at kind c' \<and> lk_server l = server_at kind s' \<and>
        side c' c (lk_to_server l) to_s \<and> side s' s (lk_to_client l) to_c)"

lemma side_framed: "side actual c queue q \<Longrightarrow> actual \<noteq> CS_closing \<Longrightarrow> actual = c \<and> queue = q"
  by (auto simp: side_def)

lemma side_sends_close: "closes type \<Longrightarrow> side c c q q \<Longrightarrow> side CS_closing c (q @ [type]) q"
  by (auto simp: side_def closes_def)

text \<open>The head of a queue is a message of the core run, or the sender's last word.\<close>

lemma side_head:
  assumes "side actual c (type # rest) q" "list_all (fits kind) q"
  shows "(\<exists>q'. q = type # q' \<and> fits kind type \<and> side actual c rest q') \<or>
    (q = [] \<and> rest = [] \<and> closes type \<and> side actual c [] [])"
  using assms by (cases q) (auto simp: side_def closes_def)

lemma link_inv_new: "link_inv kind (new_link kind)"
proof (cases kind)
  case CK_control
  then show ?thesis
    unfolding link_inv_def new_link_def
    by (intro exI [of _ CS_client_send_hello] exI [of _ CS_server_wait_hello] exI [of _ "[]"]
        exI [of _ CS_client_send_hello] exI [of _ CS_server_wait_hello])
       (simp add: new_state_machine_def client_at_def server_at_def side_def core.intros)
next
  case CK_worker
  then show ?thesis
    unfolding link_inv_def new_link_def
    by (intro exI [of _ CS_client_send_worker_hello] exI [of _ CS_server_wait_worker_hello]
        exI [of _ "[]"])
       (simp add: new_state_machine_def client_at_def server_at_def side_def core.intros)
qed

lemma link_invI:
  "core c s to_s to_c \<Longrightarrow> list_all (fits kind) to_s \<Longrightarrow> list_all (fits kind) to_c \<Longrightarrow>
   lk_client l = client_at kind c' \<Longrightarrow> lk_server l = server_at kind s' \<Longrightarrow>
   side c' c (lk_to_server l) to_s \<Longrightarrow> side s' s (lk_to_client l) to_c \<Longrightarrow> link_inv kind l"
  unfolding link_inv_def by blast

lemma side_refl: "side c c q q"
  by (simp add: side_def)

lemma side_close: "side c c q q' \<Longrightarrow> side CS_closing c q q'"
  by (auto simp: side_def)

lemma link_inv_client_sends:
  assumes "link_inv kind l" "on_send type (lk_client l) = (Inr (), m)"
  shows "link_inv kind (l\<lparr>lk_client := m, lk_to_server := lk_to_server l @ [type]\<rparr>)"
proof -
  obtain c s to_s to_c c' s' where core: "core c s to_s to_c"
    and fit: "list_all (fits kind) to_s" "list_all (fits kind) to_c"
    and at: "lk_client l = client_at kind c'" "lk_server l = server_at kind s'"
    and sides: "side c' c (lk_to_server l) to_s" "side s' s (lk_to_client l) to_c"
    using assms(1) unfolding link_inv_def by blast
  from assms have step: "c' \<noteq> CS_closing"
    "closes type \<and> m = client_at kind CS_closing \<or>
     fits kind type \<and> (\<exists>d. next_state (client_at kind c') Dir_send type = Some d \<and> m = client_at kind d)"
    by (auto simp: on_send_def at core_client_Inr)
  with sides have c': "c' = c" "lk_to_server l = to_s" by (auto dest: side_framed)
  from step(2) show ?thesis
  proof (elim disjE exE conjE)
    assume "closes type" "m = client_at kind CS_closing"
    with core fit at sides c' show ?thesis
      by (auto intro!: link_invI side_sends_close side_refl)
  next
    fix d assume "fits kind type" "next_state (client_at kind c') Dir_send type = Some d"
      "m = client_at kind d"
    with core fit at sides c' show ?thesis
      by (auto intro!: link_invI [OF core_client_sends] side_refl)
  qed
qed

lemma link_inv_server_sends:
  assumes "link_inv kind l" "on_send type (lk_server l) = (Inr (), m)"
  shows "link_inv kind (l\<lparr>lk_server := m, lk_to_client := lk_to_client l @ [type]\<rparr>)"
proof -
  obtain c s to_s to_c c' s' where core: "core c s to_s to_c"
    and fit: "list_all (fits kind) to_s" "list_all (fits kind) to_c"
    and at: "lk_client l = client_at kind c'" "lk_server l = server_at kind s'"
    and sides: "side c' c (lk_to_server l) to_s" "side s' s (lk_to_client l) to_c"
    using assms(1) unfolding link_inv_def by blast
  from assms have step: "s' \<noteq> CS_closing"
    "closes type \<and> m = server_at kind CS_closing \<or>
     fits kind type \<and> (\<exists>d. next_state (server_at kind s') Dir_send type = Some d \<and> m = server_at kind d)"
    by (auto simp: on_send_def at core_server_Inr)
  with sides have s': "s' = s" "lk_to_client l = to_c" by (auto dest: side_framed)
  from step(2) show ?thesis
  proof (elim disjE exE conjE)
    assume "closes type" "m = server_at kind CS_closing"
    with core fit at sides s' show ?thesis
      by (auto intro!: link_invI side_sends_close side_refl)
  next
    fix d assume "fits kind type" "next_state (server_at kind s') Dir_send type = Some d"
      "m = server_at kind d"
    with core fit at sides s' show ?thesis
      by (auto intro!: link_invI [OF core_server_sends] side_refl)
  qed
qed

lemma link_inv_client_receives:
  assumes "link_inv kind l" "lk_to_client l = type # rest" "on_receive type (lk_client l) = (Inr (), m)"
  shows "link_inv kind (l\<lparr>lk_client := m, lk_to_client := rest\<rparr>)"
proof -
  obtain c s to_s to_c c' s' where core: "core c s to_s to_c"
    and fit: "list_all (fits kind) to_s" "list_all (fits kind) to_c"
    and at: "lk_client l = client_at kind c'" "lk_server l = server_at kind s'"
    and sides: "side c' c (lk_to_server l) to_s" "side s' s (lk_to_client l) to_c"
    using assms(1) unfolding link_inv_def by blast
  from assms have framed: "c' \<noteq> CS_closing" "c' \<noteq> CS_relay"
    and step: "closes type \<and> m = client_at kind CS_closing \<or>
     fits kind type \<and> (\<exists>d. next_state (client_at kind c') Dir_receive type = Some d \<and> m = client_at kind d)"
    by (auto simp: on_receive_def at core_client_Inr)
  with sides have c': "c' = c" "lk_to_server l = to_s" by (auto dest: side_framed)
  from side_head [OF sides(2) [unfolded assms(2)] fit(2)] show ?thesis
  proof (elim disjE exE conjE)
    fix q assume q: "to_c = type # q" "fits kind type" "side s' s rest q"
    then obtain d where "next_state (client_at kind c) Dir_receive type = Some d" "core d s to_s q"
      using core_client_receives core framed c' by blast
    with q step fit at c' show ?thesis
      by (auto simp: fits_def intro!: link_invI side_refl)
  next
    assume "to_c = []" "rest = []" "closes type" "side s' s [] []"
    with core fit at c' step show ?thesis
      by (auto simp: fits_def intro!: link_invI side_close side_refl)
  qed
qed

lemma link_inv_server_receives:
  assumes "link_inv kind l" "lk_to_server l = type # rest" "on_receive type (lk_server l) = (Inr (), m)"
  shows "link_inv kind (l\<lparr>lk_server := m, lk_to_server := rest\<rparr>)"
proof -
  obtain c s to_s to_c c' s' where core: "core c s to_s to_c"
    and fit: "list_all (fits kind) to_s" "list_all (fits kind) to_c"
    and at: "lk_client l = client_at kind c'" "lk_server l = server_at kind s'"
    and sides: "side c' c (lk_to_server l) to_s" "side s' s (lk_to_client l) to_c"
    using assms(1) unfolding link_inv_def by blast
  from assms have framed: "s' \<noteq> CS_closing" "s' \<noteq> CS_relay"
    and step: "closes type \<and> m = server_at kind CS_closing \<or>
     fits kind type \<and> (\<exists>d. next_state (server_at kind s') Dir_receive type = Some d \<and> m = server_at kind d)"
    by (auto simp: on_receive_def at core_server_Inr)
  with sides have s': "s' = s" "lk_to_client l = to_c" by (auto dest: side_framed)
  from side_head [OF sides(1) [unfolded assms(2)] fit(1)] show ?thesis
  proof (elim disjE exE conjE)
    fix q assume q: "to_s = type # q" "fits kind type" "side c' c rest q"
    then obtain d where "next_state (server_at kind s) Dir_receive type = Some d" "core c d q to_c"
      using core_server_receives core framed s' by blast
    with q step fit at s' show ?thesis
      by (auto simp: fits_def intro!: link_invI side_refl)
  next
    assume "to_s = []" "rest = []" "closes type" "side c' c [] []"
    with core fit at s' step show ?thesis
      by (auto simp: fits_def intro!: link_invI side_close side_refl)
  qed
qed

lemma link_inv_step: "link_step l l' \<Longrightarrow> link_inv kind l \<Longrightarrow> link_inv kind l'"
  by (induction rule: link_step.induct)
     (blast intro: link_inv_client_sends link_inv_server_sends link_inv_client_receives
        link_inv_server_receives)+

lemma link_reachable_inv: "link_reachable kind l \<Longrightarrow> link_inv kind l"
  by (induction rule: link_reachable.induct) (auto intro: link_inv_new link_inv_step)

lemma link_inv_accepts:
  assumes "link_inv kind l"
  shows "(lk_to_server l = type # rest \<longrightarrow> framed_mode (lk_server l) \<longrightarrow>
      (\<exists>m. on_receive type (lk_server l) = (Inr (), m))) \<and>
    (lk_to_client l = type # rest \<longrightarrow> framed_mode (lk_client l) \<longrightarrow>
      (\<exists>m. on_receive type (lk_client l) = (Inr (), m)))"
proof -
  obtain c s to_s to_c c' s' where core: "core c s to_s to_c"
    and fit: "list_all (fits kind) to_s" "list_all (fits kind) to_c"
    and at: "lk_client l = client_at kind c'" "lk_server l = server_at kind s'"
    and sides: "side c' c (lk_to_server l) to_s" "side s' s (lk_to_client l) to_c"
    using assms(1) unfolding link_inv_def by blast
  show ?thesis
  proof (intro conjI impI)
    assume queue: "lk_to_server l = type # rest" and "framed_mode (lk_server l)"
    then have framed: "s' \<noteq> CS_relay" "s' \<noteq> CS_closing" by (auto simp: framed_mode_def at server_at_def)
    then have s: "s' = s" using sides by (auto dest: side_framed)
    from side_head [OF sides(1) [unfolded queue] fit(1)]
    show "\<exists>m. on_receive type (lk_server l) = (Inr (), m)"
      using core_server_receives [of c s type _ to_c kind] core framed s
      by (fastforce simp: on_receive_def at core_server_Inr)
  next
    assume queue: "lk_to_client l = type # rest" and "framed_mode (lk_client l)"
    then have framed: "c' \<noteq> CS_relay" "c' \<noteq> CS_closing" by (auto simp: framed_mode_def at client_at_def)
    then have c: "c' = c" using sides by (auto dest: side_framed)
    from side_head [OF sides(2) [unfolded queue] fit(2)]
    show "\<exists>m. on_receive type (lk_client l) = (Inr (), m)"
      using core_client_receives [of c s to_s type _ kind] core framed c
      by (fastforce simp: on_receive_def at core_client_Inr)
  qed
qed

section \<open>Properties\<close>

text \<open>
  C8: the message sequences that take a control connection to \<open>authenticated\<close> are exactly the four
  messages of the handshake, in order and in the right directions, followed by messages that an
  authenticated peer of this role may exchange; for a client and for a server.
\<close>

theorem control_authenticated_iff:
  "(\<exists>sm. machine_run (new_state_machine role CK_control) events = Some sm \<and>
          sm_state sm = CS_authenticated) \<longleftrightarrow>
   (\<exists>rest. events = control_handshake role @ rest \<and> list_all (authenticated_event role) rest)"
proof (cases role)
  case PR_client
  show ?thesis
    by (simp add: PR_client new_state_machine_def control_handshake_def outgoing_def incoming_def
        continues_run [OF control_continues(1)] continues_run [OF control_continues(2)]
        continues_run [OF control_continues(3)] continues_run [OF control_continues(4)]
        run_to_authenticated) blast
next
  case PR_server
  show ?thesis
    by (simp add: PR_server new_state_machine_def control_handshake_def outgoing_def incoming_def
        continues_run [OF control_continues(5)] continues_run [OF control_continues(6)]
        continues_run [OF control_continues(7)] continues_run [OF control_continues(8)]
        run_to_authenticated) blast
qed

text \<open>
  C9: a worker connection enters \<open>relay\<close> (raw bytes instead of frames) after exactly the messages
  WORKER_HELLO, WORKER_ACCEPTED, START_RELAY and LOCAL_CONNECT_OK in the right directions, and by
  no other sequence.
\<close>

theorem worker_relay_iff:
  "(\<exists>sm. machine_run (new_state_machine role CK_worker) events = Some sm \<and>
          sm_state sm = CS_relay) \<longleftrightarrow> events = worker_handshake role"
proof (cases role)
  case PR_client
  show ?thesis
    by (simp add: PR_client new_state_machine_def worker_handshake_def outgoing_def incoming_def
        continues_run [OF worker_continues(1)] continues_run [OF worker_continues(2)]
        continues_run [OF worker_continues(3)] continues_run [OF worker_continues(4)]
        machine_run_stuck cong: conj_cong)
next
  case PR_server
  show ?thesis
    by (simp add: PR_server new_state_machine_def worker_handshake_def outgoing_def incoming_def
        continues_run [OF worker_continues(5)] continues_run [OF worker_continues(6)]
        continues_run [OF worker_continues(7)] continues_run [OF worker_continues(8)]
        machine_run_stuck cong: conj_cong)
qed

text \<open>
  C2: A client and a server that send only what their own machine allows, connected by channels that
  keep the order: whatever the interleaving, the next frame under way is accepted by its receiver
  exactly when the receiver is still in framed mode.  A frame that is on its way when its receiver
  enters \<open>relay\<close>, or \<open>closing\<close> after GOAWAY, ERROR or AUTH_ERROR, is refused, and no other frame is.
\<close>

theorem link_accepts_iff_framed:
  assumes "link_reachable kind l"
  shows "(lk_to_server l = type # rest \<longrightarrow>
      has_value (fst (on_receive type (lk_server l))) = framed_mode (lk_server l)) \<and>
    (lk_to_client l = type # rest \<longrightarrow>
      has_value (fst (on_receive type (lk_client l))) = framed_mode (lk_client l))"
proof -
  have refused: "\<not> has_value (fst (on_receive type sm))" if "\<not> framed_mode sm" for sm
    using that by (simp add: on_receive_def transition_def framed_mode_def invalid_transition_def)
  show ?thesis
    using link_inv_accepts [OF link_reachable_inv [OF assms], of type rest] refused by fastforce
qed

theorem link_accepts_iff_framed_witness:
  "has_value (fst (on_receive MT_hello (new_state_machine PR_server CK_control))) \<and>
   \<not> has_value (fst (on_receive MT_hello (server_at CK_control CS_closing)))"
proof -
  let ?c = "client_at CK_control CS_client_wait_hello_ack"
  let ?l = "(new_link CK_control)\<lparr>lk_client := ?c, lk_to_server := lk_to_server (new_link CK_control) @ [MT_hello]\<rparr>"
  let ?k = "?l\<lparr>lk_server := server_at CK_control CS_closing, lk_to_client := lk_to_client ?l @ [MT_goaway]\<rparr>"
  have "on_send MT_hello (lk_client (new_link CK_control)) = (Inr (), ?c)"
    by (simp add: on_send_def new_link_def new_state_machine_def transition_def next_state_def
        client_at_def)
  then have l: "link_reachable CK_control ?l"
    by (intro link_next [OF link_new] client_sends)
  have "on_send MT_goaway (lk_server ?l) = (Inr (), server_at CK_control CS_closing)"
    by (simp add: on_send_def new_link_def new_state_machine_def transition_def server_at_def)
  then have k: "link_reachable CK_control ?k"
    by (intro link_next [OF l] server_sends)
  show ?thesis
    using link_accepts_iff_framed [OF l, of MT_hello "[]"] link_accepts_iff_framed [OF k, of MT_hello "[]"]
    by (simp add: new_link_def new_state_machine_def framed_mode_def server_at_def)
qed

text \<open>
  a refused message leaves the machine as it was and reports a protocol error; \<open>relay\<close> and
  \<open>closing\<close> refuse every message in both directions; in any other state GOAWAY and ERROR are
  accepted, sent or received, and close the connection.
\<close>

theorem transition_safe:
  "(\<forall>e sm'. transition direction type sm = (Inl e, sm') \<longrightarrow>
       sm' = sm \<and> code e = EC_protocol_error) \<and>
   (\<not> framed_mode sm \<longrightarrow> transition direction type sm = (invalid_transition, sm)) \<and>
   (framed_mode sm \<longrightarrow> type \<in> {MT_goaway, MT_error} \<longrightarrow>
      transition direction type sm = (Inr (), sm\<lparr>sm_state := CS_closing\<rparr>)) \<and>
   sm_role (snd (transition direction type sm)) = sm_role sm \<and>
   sm_kind (snd (transition direction type sm)) = sm_kind sm"
proof (intro conjI)
  show "\<forall>e sm'. transition direction type sm = (Inl e, sm') \<longrightarrow>
      sm' = sm \<and> code e = EC_protocol_error"
    using transition_refused by blast
  show "\<not> framed_mode sm \<longrightarrow> transition direction type sm = (invalid_transition, sm)"
    by (simp add: transition_def framed_mode_def)
  show "framed_mode sm \<longrightarrow> type \<in> {MT_goaway, MT_error} \<longrightarrow>
      transition direction type sm = (Inr (), sm\<lparr>sm_state := CS_closing\<rparr>)"
    by (simp add: transition_def framed_mode_def)
qed (use transition_keeps_identity [of direction type sm] in \<open>auto simp: prod_eq_iff\<close>)

theorem transition_safe_witness:
  "transition Dir_receive MT_goaway (new_state_machine PR_client CK_worker) =
     (Inr (), (new_state_machine PR_client CK_worker)\<lparr>sm_state := CS_closing\<rparr>)"
  using transition_safe [of Dir_receive MT_goaway "new_state_machine PR_client CK_worker"]
  by (simp add: framed_mode_def new_state_machine_def)

end
