(* ===== verification/Auth_Limiter.thy ===== *)
theory Auth_Limiter
  imports Auth "HOL-Library.Sublist"
begin

text \<open>
  The rate limiter of \<open>src/protocol/auth.cpp\<close>: its size stays bounded, enough failures within the
  window block a key, and a key is refused only because of such failures.
\<close>

section \<open>Sequences of operations\<close>

datatype LimiterOp =
  Failed string time_point
| Succeeded string
| Asked string time_point

fun limiter_step ::
  "((string \<times> LimiterEntry) list \<Rightarrow> (string \<times> LimiterEntry) list) \<Rightarrow> LimiterOp \<Rightarrow>
   AuthRateLimiter \<Rightarrow> AuthRateLimiter" where
  "limiter_step order (Failed key now) l = limiter_record_failure order key now l"
| "limiter_step order (Succeeded key) l = limiter_record_success key l"
| "limiter_step order (Asked key now) l = snd (limiter_allowed key now l)"

definition limiter_run ::
  "((string \<times> LimiterEntry) list \<Rightarrow> (string \<times> LimiterEntry) list) \<Rightarrow> LimiterOp list \<Rightarrow>
   AuthRateLimiter \<Rightarrow> AuthRateLimiter" where
  "limiter_run order ops l = fold (limiter_step order) ops l"

definition failure_times :: "string \<Rightarrow> LimiterOp list \<Rightarrow> time_point list" where
  "failure_times key ops =
     concat (map (\<lambda>op. case op of Failed k t \<Rightarrow> if k = key then [t] else [] | _ \<Rightarrow> []) ops)"

fun op_time :: "LimiterOp \<Rightarrow> time_point list" where
  "op_time (Failed key now) = [now]"
| "op_time (Succeeded key) = []"
| "op_time (Asked key now) = [now]"

text \<open>The clock starts at its epoch and does not run backwards.\<close>

definition clocked :: "LimiterOp list \<Rightarrow> bool" where
  "clocked ops \<longleftrightarrow> sorted (0 # concat (map op_time ops))"

section \<open>Size\<close>

lemma oldest_entry_mem: "oldest_entry e es \<in> insert e (set es)"
proof (induction es arbitrary: e)
  case (Cons f es)
  show ?case using Cons.IH [of e] Cons.IH [of f] by auto
qed simp

lemma evict_one_map:
  "map_of (evict_one order m) k = Some e \<Longrightarrow> map_of m k = Some e"
  by (auto simp: evict_one_def split: list.splits if_splits)

lemma evict_one_keys: "keys_ok m \<Longrightarrow> keys_ok (evict_one order m)"
  by (auto simp: evict_one_def split: list.splits)

lemma evict_one_size:
  assumes "arranges order" "keys_ok m" "m \<noteq> []"
  shows "length (evict_one order m) = length m - 1"
proof -
  obtain e es where order: "order m = e # es"
    using arranges_length [OF assms(1), of m] assms(3) by (cases "order m") auto
  let ?o = "oldest_entry e es"
  have "?o \<in> set m"
    using oldest_entry_mem [of e es] arranges_set [OF assms(1), of m] order by auto
  then have "map_of m (fst ?o) = Some (snd ?o)" using assms(2) by (simp add: find_Some_iff)
  then show ?thesis using assms(2) by (simp add: evict_one_def order size_delete)
qed

text \<open>An evicted entry is one that was seen least recently.\<close>

lemma oldest_entry_least:
  "\<forall>x \<in> insert e (set es). le_last_seen (snd (oldest_entry e es)) \<le> le_last_seen (snd x)"
proof (induction es arbitrary: e)
  case (Cons f es)
  show ?case using Cons.IH [of e] Cons.IH [of f] by auto
qed simp

definition limiter_ok :: "AuthRateLimiter \<Rightarrow> bool" where
  "limiter_ok l \<longleftrightarrow> keys_ok (rl_entries l) \<and> length (rl_entries l) \<le> rl_max_entries l \<and>
     0 < rl_max_entries l \<and> 0 < rl_max_failures l \<and> 0 < rl_failure_window l \<and> 0 < rl_block_duration l"

lemma new_rate_limiter_ok: "limiter_ok (new_rate_limiter n m w b)"
  by (auto simp: limiter_ok_def new_rate_limiter_def seconds_def)

lemma limiter_step_options [simp]:
  "rl_max_entries (limiter_step order op l) = rl_max_entries l"
  "rl_max_failures (limiter_step order op l) = rl_max_failures l"
  "rl_failure_window (limiter_step order op l) = rl_failure_window l"
  "rl_block_duration (limiter_step order op l) = rl_block_duration l"
  by (cases op; simp add: limiter_record_failure_def limiter_record_success_def limiter_allowed_def
      Let_def split: option.split)+

lemma limiter_run_options [simp]:
  "rl_max_entries (limiter_run order ops l) = rl_max_entries l"
  "rl_max_failures (limiter_run order ops l) = rl_max_failures l"
  "rl_failure_window (limiter_run order ops l) = rl_failure_window l"
  "rl_block_duration (limiter_run order ops l) = rl_block_duration l"
  unfolding limiter_run_def by (induction ops arbitrary: l) auto

lemma limiter_step_ok:
  assumes "arranges order" "limiter_ok l"
  shows "limiter_ok (limiter_step order op l)"
proof (cases op)
  case (Failed key now)
  let ?m = "if map_of (rl_entries l) key = None \<and> rl_max_entries l \<le> length (rl_entries l)
    then evict_one order (rl_entries l) else rl_entries l"
  have "keys_ok ?m" using assms(2) by (simp add: limiter_ok_def evict_one_keys)
  moreover have "length ?m \<le> rl_max_entries l \<and> (map_of ?m key = None \<longrightarrow> length ?m < rl_max_entries l)"
  proof (cases "map_of (rl_entries l) key = None \<and> rl_max_entries l \<le> length (rl_entries l)")
    case True
    then have "rl_entries l \<noteq> []" using assms(2) by (auto simp: limiter_ok_def)
    with True assms evict_one_size [of order "rl_entries l"] show ?thesis
      by (auto simp: limiter_ok_def)
  next
    case False
    then show ?thesis using assms(2) by (simp only: if_False) (auto simp: limiter_ok_def)
  qed
  ultimately show ?thesis
    using assms(2)
    by (auto simp: Failed limiter_record_failure_def Let_def limiter_ok_def size_update)
next
  case (Succeeded key)
  then show ?thesis
    using assms(2) size_delete_le [of key "rl_entries l"]
    by (simp add: limiter_record_success_def limiter_ok_def)
next
  case (Asked key now)
  then show ?thesis
    using assms(2)
    by (auto simp: limiter_allowed_def limiter_ok_def size_update Let_def split: option.split)
qed

lemma limiter_run_ok:
  "arranges order \<Longrightarrow> limiter_ok l \<Longrightarrow> limiter_ok (limiter_run order ops l)"
  unfolding limiter_run_def by (induction ops arbitrary: l) (auto simp: limiter_step_ok)

lemma limiter_run_snoc:
  "limiter_run order (ops @ [op]) l = limiter_step order op (limiter_run order ops l)"
  by (simp add: limiter_run_def)

section \<open>Only such failures block\<close>

definition block_justified :: "AuthRateLimiter \<Rightarrow> string \<Rightarrow> time_point \<Rightarrow> LimiterOp list \<Rightarrow> bool" where
  "block_justified l key until ops \<longleftrightarrow>
     (\<exists>t ts. until = t + rl_block_duration l \<and> subseq ts (failure_times key ops) \<and>
        rl_max_failures l \<le> length ts \<and> (\<forall>x \<in> set ts. t - rl_failure_window l < x \<and> x \<le> t))"

definition entry_justified :: "AuthRateLimiter \<Rightarrow> LimiterOp list \<Rightarrow> string \<Rightarrow> LimiterEntry \<Rightarrow> bool" where
  "entry_justified l ops key e \<longleftrightarrow>
     sorted (le_failures e) \<and> subseq (le_failures e) (failure_times key ops) \<and>
     (le_blocked_until e = 0 \<or> block_justified l key (le_blocked_until e) ops)"

lemma failure_times_snoc:
  "failure_times key (ops @ [op]) =
     failure_times key ops @ (case op of Failed k t \<Rightarrow> if k = key then [t] else [] | _ \<Rightarrow> [])"
  by (simp add: failure_times_def)

lemma subseq_failure_times_snoc:
  "subseq xs (failure_times key ops) \<Longrightarrow> subseq xs (failure_times key (ops @ [op]))"
  unfolding failure_times_snoc by (rule subseq_rev_drop_many)

lemma entry_justified_snoc: "entry_justified l ops key e \<Longrightarrow> entry_justified l (ops @ [op]) key e"
  unfolding entry_justified_def block_justified_def by (blast intro: subseq_failure_times_snoc)

lemma failure_times_bound:
  assumes "clocked (ops @ [op])" "op_time op = [now]" "t \<in> set (failure_times key ops)"
  shows "t \<le> now"
proof -
  have "t \<in> set (concat (map op_time ops))"
    using assms(3) by (force simp: failure_times_def split: LimiterOp.splits if_splits)
  with assms(1,2) show ?thesis by (auto simp: clocked_def sorted_append)
qed

lemma subseq_dropWhile: "subseq xs ys \<Longrightarrow> subseq (dropWhile P xs) ys"
  by (metis subseq_order.order_trans subseq_drop_many subseq_order.order_refl takeWhile_dropWhile_id)

lemma prune_justified:
  "entry_justified l ops key e \<Longrightarrow> entry_justified l ops key (prune_failures w now e)"
  by (simp add: entry_justified_def prune_failures_def sorted_dropWhile subseq_dropWhile)

lemma sorted_dropWhile_above:
  "sorted xs \<Longrightarrow> x \<in> set (dropWhile (\<lambda>t. t \<le> b) xs) \<Longrightarrow> \<not> x \<le> b" for b :: "'a :: linorder"
  by (induction xs) (auto split: if_splits)

definition all_justified :: "AuthRateLimiter \<Rightarrow> LimiterOp list \<Rightarrow> bool" where
  "all_justified l ops \<longleftrightarrow>
     (\<forall>key e. map_of (rl_entries l) key = Some e \<longrightarrow> entry_justified l ops key e)"

lemma entry_justified_options:
  "entry_justified (limiter_step order op l) ops key e \<longleftrightarrow> entry_justified l ops key e"
  by (simp add: entry_justified_def block_justified_def)

lemma new_entry_justified: "entry_justified l ops key new_limiter_entry"
  by (simp add: entry_justified_def new_limiter_entry_def)

lemma entry_failures_recorded:
  assumes "entry_justified l ops key e" "x \<in> set (le_failures e)"
  shows "x \<in> set (failure_times key ops)"
  using assms list_emb_set [of "(=)" "le_failures e" "failure_times key ops" x]
  by (auto simp: entry_justified_def)

definition failed_entry :: "AuthRateLimiter \<Rightarrow> time_point \<Rightarrow> LimiterEntry \<Rightarrow> LimiterEntry" where
  "failed_entry l now e =
     (let e1 = prune_failures (rl_failure_window l) now e
      in if rl_max_failures l \<le> length (le_failures e1 @ [now])
         then e1\<lparr>le_last_seen := now, le_blocked_until := now + rl_block_duration l, le_failures := []\<rparr>
         else e1\<lparr>le_failures := le_failures e1 @ [now], le_last_seen := now\<rparr>)"

lemma failed_entry_justified:
  assumes "clocked (ops @ [Failed key now])" "entry_justified l ops key e"
    and e1: "e1 = prune_failures (rl_failure_window l) now e" and window: "0 < rl_failure_window l"
  shows "entry_justified l (ops @ [Failed key now]) key
      (e1\<lparr>le_failures := le_failures e1 @ [now], le_last_seen := now\<rparr>)"
    and "rl_max_failures l \<le> length (le_failures e1 @ [now]) \<Longrightarrow>
      entry_justified l (ops @ [Failed key now]) key
        (e1\<lparr>le_last_seen := now, le_blocked_until := now + rl_block_duration l, le_failures := []\<rparr>)"
proof -
  have e1_ok: "entry_justified l ops key e1"
    unfolding e1 using assms(2) by (rule prune_justified)
  have old: "x \<le> now" if "x \<in> set (le_failures e1)" for x
    using that entry_failures_recorded [OF e1_ok] failure_times_bound [OF assms(1), of now x key] by simp
  have recent: "now - rl_failure_window l < x" if "x \<in> set (le_failures e1)" for x
    using that assms(2) sorted_dropWhile_above [of "le_failures e" x]
    by (auto simp: e1 prune_failures_def entry_justified_def not_le)
  have sub: "subseq (le_failures e1 @ [now]) (failure_times key (ops @ [Failed key now]))"
    using e1_ok by (simp add: failure_times_snoc entry_justified_def)
  show "entry_justified l (ops @ [Failed key now]) key
      (e1\<lparr>le_failures := le_failures e1 @ [now], le_last_seen := now\<rparr>)"
    using e1_ok sub old entry_justified_snoc [OF e1_ok]
    by (auto simp: entry_justified_def sorted_append)
  show "entry_justified l (ops @ [Failed key now]) key
        (e1\<lparr>le_last_seen := now, le_blocked_until := now + rl_block_duration l, le_failures := []\<rparr>)"
    if "rl_max_failures l \<le> length (le_failures e1 @ [now])"
  proof -
    have "block_justified l key (now + rl_block_duration l) (ops @ [Failed key now])"
      unfolding block_justified_def
      by (rule exI [of _ now], rule exI [of _ "le_failures e1 @ [now]"])
         (use that sub old recent window in auto)
    then show ?thesis by (simp add: entry_justified_def)
  qed
qed

lemma failed_entry_ok:
  assumes "clocked (ops @ [Failed key now])" "entry_justified l ops key e" "0 < rl_failure_window l"
  shows "entry_justified l (ops @ [Failed key now]) key (failed_entry l now e)"
  using failed_entry_justified [OF assms(1,2) refl assms(3)]
  unfolding failed_entry_def Let_def by (simp split: if_split)

text \<open>The table after room was made for an entry of the key.\<close>

definition with_room ::
  "((string \<times> LimiterEntry) list \<Rightarrow> (string \<times> LimiterEntry) list) \<Rightarrow> string \<Rightarrow> AuthRateLimiter \<Rightarrow>
   (string, LimiterEntry) umap" where
  "with_room order k l =
     (if map_of (rl_entries l) k = None \<and> rl_max_entries l \<le> length (rl_entries l)
      then evict_one order (rl_entries l) else rl_entries l)"

lemma with_room_map: "map_of (with_room order k l) k' = Some e \<Longrightarrow> map_of (rl_entries l) k' = Some e"
  by (auto simp: with_room_def dest: evict_one_map split: if_split_asm)

lemma with_room_same: "map_of (with_room order k l) k = map_of (rl_entries l) k"
proof (cases "map_of (rl_entries l) k")
  case None
  then show ?thesis using with_room_map [of order k l k] by (cases "map_of (with_room order k l) k") simp_all
next
  case (Some e)
  then show ?thesis by (simp add: with_room_def)
qed

lemma record_failure_room:
  "rl_entries (limiter_record_failure order k now l) =
     AList.update k (failed_entry l now (case map_of (rl_entries l) k of None \<Rightarrow> new_limiter_entry | Some e \<Rightarrow> e))
       (with_room order k l)"
  unfolding limiter_record_failure_def failed_entry_def Let_def with_room_def [symmetric] with_room_same
  by simp

lemma record_failure_entries:
  obtains m e where "rl_entries (limiter_record_failure order k now l) = AList.update k (failed_entry l now e) m"
    "\<And>k' e'. map_of m k' = Some e' \<Longrightarrow> map_of (rl_entries l) k' = Some e'"
    "e = new_limiter_entry \<or> map_of (rl_entries l) k = Some e"
proof (rule that [OF record_failure_room with_room_map])
  show "(case map_of (rl_entries l) k of None \<Rightarrow> new_limiter_entry | Some e \<Rightarrow> e) = new_limiter_entry \<or>
    map_of (rl_entries l) k = Some (case map_of (rl_entries l) k of None \<Rightarrow> new_limiter_entry | Some e \<Rightarrow> e)"
    by (cases "map_of (rl_entries l) k") simp_all
qed

lemma limiter_step_justified:
  assumes "clocked (ops @ [op])" "all_justified l ops" "limiter_ok l"
  shows "all_justified (limiter_step order op l) (ops @ [op])"
  unfolding all_justified_def entry_justified_options
proof (intro allI impI)
  fix key e
  assume e: "map_of (rl_entries (limiter_step order op l)) key = Some e"
  have old: "entry_justified l ops k e'" if "map_of (rl_entries l) k = Some e'" for k e'
    using assms(2) that by (simp add: all_justified_def)
  show "entry_justified l (ops @ [op]) key e"
  proof (cases op)
    case (Failed k now)
    obtain m e0 where m: "rl_entries (limiter_record_failure order k now l) =
        AList.update k (failed_entry l now e0) m"
      "\<And>k' e'. map_of m k' = Some e' \<Longrightarrow> map_of (rl_entries l) k' = Some e'"
      and e0: "e0 = new_limiter_entry \<or> map_of (rl_entries l) k = Some e0"
      by (rule record_failure_entries) blast
    have "entry_justified l ops k e0" using e0 old new_entry_justified by blast
    moreover have "0 < rl_failure_window l" using assms(3) by (simp add: limiter_ok_def)
    ultimately have "entry_justified l (ops @ [op]) k (failed_entry l now e0)"
      using assms(1) failed_entry_ok unfolding Failed by blast
    with e old m show ?thesis by (auto simp: Failed intro: entry_justified_snoc split: if_splits)
  next
    case (Succeeded k)
    with e show ?thesis
      using old by (auto simp: limiter_record_success_def entry_justified_snoc split: if_splits)
  next
    case (Asked k now)
    with e consider "map_of (rl_entries l) key = Some e"
      | e0 where "map_of (rl_entries l) key = Some e0"
        "e = (prune_failures (rl_failure_window l) now e0)\<lparr>le_last_seen := now\<rparr>"
      by (auto simp: limiter_allowed_def Let_def split: option.splits if_splits)
    then show ?thesis
    proof cases
      case 1
      then show ?thesis by (rule old [THEN entry_justified_snoc])
    next
      case 2
      then have "entry_justified l (ops @ [op]) key (prune_failures (rl_failure_window l) now e0)"
        by (intro prune_justified entry_justified_snoc old)
      with 2 show ?thesis by (simp add: entry_justified_def)
    qed
  qed
qed

lemma limiter_run_justified:
  assumes "arranges order" "clocked ops" "limiter_ok l" "rl_entries l = []"
  shows "all_justified (limiter_run order ops l) ops"
  using assms(2)
proof (induction ops rule: rev_induct)
  case Nil
  then show ?case using assms(4) by (simp add: limiter_run_def all_justified_def)
next
  case (snoc op ops)
  then have "clocked ops" by (simp add: clocked_def sorted_append)
  then show ?case
    using limiter_step_justified [OF snoc.prems snoc.IH limiter_run_ok [OF assms(1,3)]]
    by (simp add: limiter_run_snoc)
qed

text \<open>
  C21: Only such failures block.  Whatever operations a new limiter has seen under a clock that
  does not run backwards, and in whatever order its table is iterated, it holds at most the
  configured number of entries, and a key is refused only if the configured number of failures of
  that very key were recorded within one failure window and the block that they started has not
  ended.
\<close>

theorem limiter_refuses_only_offenders:
  assumes "arranges order" "clocked ops" "0 \<le> now"
    and l: "l = limiter_run order ops (new_rate_limiter n m w b)"
  shows "limiter_size l \<le> max n 1 \<and>
    (\<not> fst (limiter_allowed key now l) \<longrightarrow>
       (\<exists>t ts. subseq ts (failure_times key ops) \<and> max m 1 \<le> length ts \<and>
          (\<forall>x \<in> set ts. t - rl_failure_window l < x \<and> x \<le> t) \<and> now < t + rl_block_duration l))"
proof (intro conjI impI)
  have "limiter_ok l" unfolding l by (intro limiter_run_ok assms(1) new_rate_limiter_ok)
  moreover have options: "rl_max_entries l = max n 1" "rl_max_failures l = max m 1"
    by (simp_all add: l new_rate_limiter_def)
  ultimately show "limiter_size l \<le> max n 1" by (simp add: limiter_ok_def limiter_size_def)
  assume "\<not> fst (limiter_allowed key now l)"
  then obtain e where e: "map_of (rl_entries l) key = Some e" "now < le_blocked_until e"
    by (auto simp: limiter_allowed_def prune_failures_def Let_def split: option.splits)
  have "all_justified l ops"
    unfolding l by (intro limiter_run_justified assms new_rate_limiter_ok)
      (simp add: new_rate_limiter_def)
  with e(1) have "le_blocked_until e = 0 \<or> block_justified l key (le_blocked_until e) ops"
    unfolding all_justified_def entry_justified_def by blast
  with e(2) assms(3) have "block_justified l key (le_blocked_until e) ops" by auto
  then obtain t ts where "le_blocked_until e = t + rl_block_duration l" "subseq ts (failure_times key ops)"
    "max m 1 \<le> length ts" "\<forall>x \<in> set ts. t - rl_failure_window l < x \<and> x \<le> t"
    unfolding block_justified_def options by (elim exE conjE)
  with e(2) show "\<exists>t ts. subseq ts (failure_times key ops) \<and> max m 1 \<le> length ts \<and>
      (\<forall>x \<in> set ts. t - rl_failure_window l < x \<and> x \<le> t) \<and> now < t + rl_block_duration l"
    by (intro exI [of _ t] exI [of _ ts]) simp
qed

theorem limiter_refuses_only_offenders_witness:
  "\<exists>t ts. subseq ts [10, 11] \<and> max 2 1 \<le> length ts \<and>
     (\<forall>x \<in> set ts. t - 10 < x \<and> x \<le> t) \<and> 50 < t + (60 :: int)"
proof -
  define l where "l = limiter_run id (map (Failed ''10.0.0.1'') [10, 11]) (new_rate_limiter 8 2 10 60)"
  have blocked: "\<not> fst (limiter_allowed ''10.0.0.1'' 50 l)"
    by (simp add: l_def limiter_run_def limiter_record_failure_def limiter_allowed_def prune_failures_def
        new_rate_limiter_def new_limiter_entry_def Let_def)
  have ops: "arranges id" "clocked (map (Failed ''10.0.0.1'') [10, 11])"
    "failure_times ''10.0.0.1'' (map (Failed ''10.0.0.1'') [10, 11]) = [10, 11]"
    by (simp_all add: arranges_def clocked_def failure_times_def)
  have options: "rl_failure_window l = 10" "rl_block_duration l = 60"
    by (simp_all add: l_def) (simp_all add: new_rate_limiter_def)
  have "(0 :: int) \<le> 50" by simp
  from limiter_refuses_only_offenders [OF ops(1,2) this l_def, THEN conjunct2, THEN mp, OF blocked]
  show ?thesis unfolding ops(3) options .
qed

section \<open>Failures within the window block\<close>

text \<open>
  What the limiter has to remember of one key: the failures that count towards the next block and
  the end of the last one.  A failure counts together with those less than a window before it; a
  success forgets everything, and a question changes nothing.
\<close>

fun track :: "nat \<Rightarrow> int \<Rightarrow> int \<Rightarrow> string \<Rightarrow> LimiterOp \<Rightarrow> time_point list \<times> time_point \<Rightarrow> time_point list \<times> time_point" where
  "track m w b key (Failed k t) (fs, until) =
     (if k \<noteq> key then (fs, until)
      else (let fs' = filter (\<lambda>x. t - w < x) fs @ [t]
            in if m \<le> length fs' then ([], t + b) else (fs', until)))"
| "track m w b key (Succeeded k) (fs, until) = (if k \<noteq> key then (fs, until) else ([], 0))"
| "track m w b key (Asked k t) (fs, until) = (fs, until)"

definition tracked :: "AuthRateLimiter \<Rightarrow> string \<Rightarrow> LimiterOp list \<Rightarrow> time_point list \<times> time_point" where
  "tracked l key ops =
     fold (track (rl_max_failures l) (rl_failure_window l) (rl_block_duration l) key) ops ([], 0)"

text \<open>The keys and times of the operations that touch an entry.\<close>

definition touches :: "LimiterOp list \<Rightarrow> (string \<times> time_point) set" where
  "touches ops = set (concat (map (\<lambda>op. case op of Failed k t \<Rightarrow> [(k, t)] | Asked k t \<Rightarrow> [(k, t)] | _ \<Rightarrow> []) ops))"

definition others_since :: "string \<Rightarrow> time_point \<Rightarrow> LimiterOp list \<Rightarrow> string set" where
  "others_since key t ops = {k. k \<noteq> key \<and> (\<exists>s \<ge> t. (k, s) \<in> touches ops)}"

text \<open>No failure of the key since its last success.\<close>

definition clean :: "string \<Rightarrow> LimiterOp list \<Rightarrow> bool" where
  "clean key ops \<longleftrightarrow> failure_times key (takeWhile (\<lambda>op. op \<noteq> Succeeded key) (rev ops)) = []"

lemma touches_simps [simp]:
  "touches [] = {}" "touches (xs @ ys) = touches xs \<union> touches ys"
  "touches [Failed k t] = {(k, t)}" "touches [Asked k t] = {(k, t)}" "touches [Succeeded k] = {}"
  by (simp_all add: touches_def)

lemma tracked_snoc:
  "tracked l key (ops @ [op]) =
     track (rl_max_failures l) (rl_failure_window l) (rl_block_duration l) key op (tracked l key ops)"
  by (simp add: tracked_def)

lemma others_since_mono: "others_since key t ops \<subseteq> others_since key t (ops @ ops')"
  by (auto simp: others_since_def)

lemma others_since_finite: "finite (others_since key t ops)"
proof -
  have "others_since key t ops \<subseteq> fst ` touches ops" by (force simp: others_since_def)
  then show ?thesis by (rule finite_subset) (simp add: touches_def)
qed

lemma clean_snoc:
  "clean key (ops @ [op]) \<longleftrightarrow>
     op = Succeeded key \<or> clean key ops \<and> (\<forall>t. op \<noteq> Failed key t)"
  by (cases op) (auto simp: clean_def failure_times_def)

lemma dropWhile_window:
  "sorted xs \<Longrightarrow> dropWhile (\<lambda>x. x \<le> b) xs = filter (\<lambda>x. b < x) xs" for b :: "'a :: linorder"
proof (induction xs)
  case (Cons x xs)
  then show ?case by (cases "x \<le> b") (auto intro!: filter_True [symmetric])
qed simp

subsection \<open>Eviction\<close>

lemma evict_keeps:
  assumes "arranges order" "keys_ok m" "map_of m key = Some e"
    and "map_of m k = Some e'" "le_last_seen e' < le_last_seen e"
  shows "map_of (evict_one order m) key = Some e"
proof -
  have mem: "(k, e') \<in> set (order m)" "(key, e) \<in> set (order m)"
    using assms by (simp_all add: arranges_set find_Some_iff)
  then obtain f fs where order: "order m = f # fs" by (cases "order m") auto
  let ?o = "oldest_entry f fs"
  have "le_last_seen (snd ?o) \<le> le_last_seen e'"
    using oldest_entry_least [of f fs] mem(1) order by force
  moreover have "?o \<in> set m"
    using oldest_entry_mem [of f fs] arranges_set [OF assms(1), of m] order by auto
  ultimately have "fst ?o \<noteq> key"
    using assms(2,3,5) find_Some_iff [OF assms(2), of "fst ?o" "snd ?o"] by auto
  then show ?thesis using assms(3) by (auto simp: evict_one_def order)
qed

text \<open>Each entry was last seen by an operation of its key.\<close>

lemma entries_touched:
  assumes "rl_entries l = []" "map_of (rl_entries (limiter_run order ops l)) k = Some e"
  shows "(k, le_last_seen e) \<in> touches ops"
  using assms(2)
proof (induction ops arbitrary: k e rule: rev_induct)
  case Nil
  then show ?case using assms(1) by (simp add: limiter_run_def)
next
  case (snoc op ops)
  let ?l = "limiter_run order ops l"
  show ?case
  proof (cases op)
    case (Failed k' t)
    obtain m e0 where m: "rl_entries (limiter_record_failure order k' t ?l) =
        AList.update k' (failed_entry ?l t e0) m"
      "\<And>k e. map_of m k = Some e \<Longrightarrow> map_of (rl_entries ?l) k = Some e"
      by (rule record_failure_entries) blast
    have "le_last_seen (failed_entry ?l t e0) = t" by (simp add: failed_entry_def Let_def)
    with snoc m show ?thesis by (auto simp: Failed limiter_run_snoc split: if_splits)
  next
    case (Succeeded k')
    with snoc show ?thesis by (auto simp: limiter_run_snoc limiter_record_success_def split: if_splits)
  next
    case (Asked k' t)
    with snoc show ?thesis
      by (auto simp: limiter_run_snoc limiter_allowed_def Let_def split: option.splits if_splits)
  qed
qed

lemma clean_no_entry:
  assumes "rl_entries l = []" "clean key ops"
  shows "map_of (rl_entries (limiter_run order ops l)) key = None"
  using assms(2)
proof (induction ops rule: rev_induct)
  case Nil
  then show ?case using assms(1) by (simp add: limiter_run_def)
next
  case (snoc op ops)
  let ?l = "limiter_run order ops l"
  show ?case
  proof (cases op)
    case (Failed k t)
    obtain m e0 where m: "rl_entries (limiter_record_failure order k t ?l) =
        AList.update k (failed_entry ?l t e0) m"
      "\<And>k e. map_of m k = Some e \<Longrightarrow> map_of (rl_entries ?l) k = Some e"
      by (rule record_failure_entries) blast
    have "map_of (rl_entries ?l) key = None" "k \<noteq> key" using snoc by (auto simp: Failed clean_snoc)
    moreover from this m(2) [of key] have "map_of m key = None" by (cases "map_of m key") auto
    ultimately show ?thesis by (simp add: Failed limiter_run_snoc m(1))
  next
    case (Succeeded k)
    with snoc show ?thesis by (auto simp: limiter_run_snoc limiter_record_success_def clean_snoc)
  next
    case (Asked k t)
    with snoc show ?thesis
      by (auto simp: limiter_run_snoc limiter_allowed_def Let_def clean_snoc split: option.splits)
  qed
qed

text \<open>
  The entry of a key stays while fewer other keys than the table has room for are touched after it.
\<close>

lemma room_keeps:
  assumes "arranges order" "limiter_ok l" "map_of (rl_entries l) key = Some e" "t \<le> le_last_seen e"
    and touched: "\<And>k e. map_of (rl_entries l) k = Some e \<Longrightarrow> (k, le_last_seen e) \<in> touches ops"
    and "t \<le> s" "k \<noteq> key" "card (others_since key t (ops @ [Failed k s])) < rl_max_entries l"
  shows "map_of (with_room order k l) key = Some e"
proof (cases "map_of (rl_entries l) k = None \<and> rl_max_entries l \<le> length (rl_entries l)")
  case full: True
  have keys: "keys_ok (rl_entries l)" using assms(2) by (simp add: limiter_ok_def)
  have "\<exists>k' e'. map_of (rl_entries l) k' = Some e' \<and> le_last_seen e' < le_last_seen e"
  proof (rule ccontr)
    assume none: "\<not> ?thesis"
    have "insert k (dom (map_of (rl_entries l)) - {key}) \<subseteq> others_since key t (ops @ [Failed k s])"
    proof
      fix k' assume "k' \<in> insert k (dom (map_of (rl_entries l)) - {key})"
      then consider "k' = k" | e' where "k' \<noteq> key" "map_of (rl_entries l) k' = Some e'" by auto
      then show "k' \<in> others_since key t (ops @ [Failed k s])"
      proof cases
        case 1
        then show ?thesis using assms(6,7) by (auto simp: others_since_def)
      next
        case 2
        then have "le_last_seen e \<le> le_last_seen e'" using none by (meson not_le)
        with 2 touched [OF 2(2)] assms(4) show ?thesis
          by (auto simp: others_since_def intro!: exI [of _ "le_last_seen e'"])
      qed
    qed
    then have "card (insert k (dom (map_of (rl_entries l)) - {key})) \<le> card (others_since key t (ops @ [Failed k s]))"
      by (intro card_mono others_since_finite)
    moreover have "card (insert k (dom (map_of (rl_entries l)) - {key})) = length (rl_entries l)"
    proof -
      have "finite (dom (map_of (rl_entries l)))" "key \<in> dom (map_of (rl_entries l))"
        using assms(3) by (auto simp: finite_dom_map_of)
      then have "card (dom (map_of (rl_entries l)) - {key}) + 1 = length (rl_entries l)"
        using size_card_dom [OF keys] card_Suc_Diff1 [of "dom (map_of (rl_entries l))" key] by simp
      moreover have "k \<notin> dom (map_of (rl_entries l)) - {key}" using full by auto
      ultimately show ?thesis by (simp add: finite_dom_map_of)
    qed
    ultimately show False using assms(8) full by simp
  qed
  then show ?thesis using evict_keeps [OF assms(1) keys assms(3)] full by (auto simp: with_room_def)
next
  case False
  then show ?thesis using assms(3) by (simp only: with_room_def if_False)
qed

subsection \<open>The entry of a key follows what is remembered of it\<close>

definition follows :: "AuthRateLimiter \<Rightarrow> string \<Rightarrow> time_point \<Rightarrow> LimiterOp list \<Rightarrow> time_point list \<times> time_point \<Rightarrow> bool" where
  "follows l key t ops tr \<longleftrightarrow>
     (case map_of (rl_entries l) key of
        None \<Rightarrow> tr = ([], 0)
      | Some e \<Rightarrow> t \<le> le_last_seen e \<and> le_blocked_until e = snd tr \<and> sorted (fst tr) \<and>
          set (fst tr) \<subseteq> snd ` touches ops \<and>
          (\<exists>x \<in> snd ` touches ops. le_failures e = filter (\<lambda>y. x - rl_failure_window l < y) (fst tr)))"

lemma follows_more: "follows l key t ops tr \<Longrightarrow> follows l key t (ops @ ops') tr"
  by (auto simp: follows_def split: option.splits)

lemma follows_same:
  assumes "map_of (rl_entries l') key = map_of (rl_entries l) key" "rl_failure_window l' = rl_failure_window l"
  shows "follows l' key t ops tr = follows l key t ops tr"
  unfolding follows_def assms ..

lemma touches_before:
  assumes "clocked (ops @ [op])" "op_time op = [s]" "x \<in> snd ` touches ops"
  shows "x \<le> s"
proof -
  have "snd ` touches ops = set (concat (map op_time ops))"
    unfolding touches_def by (induction ops) (auto split: LimiterOp.split)
  then show ?thesis using assms by (auto simp: clocked_def sorted_append)
qed

lemma failed_entry_tracks:
  assumes "sorted fs" "le_failures e = filter (\<lambda>y. x - rl_failure_window l < y) fs" "x \<le> s"
    and "tr = track (rl_max_failures l) (rl_failure_window l) (rl_block_duration l) key (Failed key s) (fs, le_blocked_until e)"
  shows "le_failures (failed_entry l s e) = fst tr" "le_blocked_until (failed_entry l s e) = snd tr"
    "le_last_seen (failed_entry l s e) = s"
proof -
  have "dropWhile (\<lambda>y. y \<le> s - rl_failure_window l) (le_failures e) =
      filter (\<lambda>y. x - rl_failure_window l < y \<and> s - rl_failure_window l < y) fs"
    unfolding assms(2) using assms(1) by (simp add: dropWhile_window sorted_wrt_filter)
  also have "\<dots> = filter (\<lambda>y. s - rl_failure_window l < y) fs"
    using assms(3) by (intro filter_cong) auto
  finally show "le_failures (failed_entry l s e) = fst tr" "le_blocked_until (failed_entry l s e) = snd tr"
    "le_last_seen (failed_entry l s e) = s"
    using assms(4) by (simp_all add: failed_entry_def prune_failures_def Let_def)
qed

text \<open>What \<^const>\<open>follows\<close> needs of the state before a step.\<close>

definition step_ready ::
  "AuthRateLimiter \<Rightarrow> string \<Rightarrow> time_point \<Rightarrow> LimiterOp list \<Rightarrow> LimiterOp \<Rightarrow> bool" where
  "step_ready l key t ops op \<longleftrightarrow> limiter_ok l \<and> clocked (ops @ [op]) \<and> (\<forall>s \<in> set (op_time op). t \<le> s) \<and>
     (\<forall>k e. map_of (rl_entries l) k = Some e \<longrightarrow> (k, le_last_seen e) \<in> touches ops) \<and>
     card (others_since key t (ops @ [op])) < rl_max_entries l"

lemma follows_own_failure:
  assumes "step_ready l key t ops (Failed key s)" "follows l key t ops tr"
  shows "follows (limiter_record_failure order key s l) key t (ops @ [Failed key s])
    (track (rl_max_failures l) (rl_failure_window l) (rl_block_duration l) key (Failed key s) tr)"
proof -
  let ?e = "case map_of (rl_entries l) key of None \<Rightarrow> new_limiter_entry | Some e \<Rightarrow> e"
  let ?tr = "track (rl_max_failures l) (rl_failure_window l) (rl_block_duration l) key (Failed key s) tr"
  have window: "0 < rl_failure_window l" and clock: "clocked (ops @ [Failed key s])" and "t \<le> s"
    using assms(1) by (simp_all add: step_ready_def limiter_ok_def)
  have entry: "le_blocked_until ?e = snd tr" "sorted (fst tr)" "set (fst tr) \<subseteq> snd ` touches ops"
    "\<exists>x \<le> s. le_failures ?e = filter (\<lambda>y. x - rl_failure_window l < y) (fst tr)"
    using assms(2) touches_before [OF clock, of s]
    by (auto simp: follows_def new_limiter_entry_def split: option.splits)
  then obtain x where "x \<le> s" "le_failures ?e = filter (\<lambda>y. x - rl_failure_window l < y) (fst tr)" by blast
  note new = failed_entry_tracks [OF entry(2) this(2,1), of ?tr key]
  have fs: "sorted (fst ?tr)" "set (fst ?tr) \<subseteq> insert s (snd ` touches ops)"
    "filter (\<lambda>y. s - rl_failure_window l < y) (fst ?tr) = fst ?tr"
    using entry(2,3) window touches_before [OF clock, of s]
    by (cases tr; auto simp: Let_def sorted_append sorted_wrt_filter filter_id_conv)+
  have "follows (limiter_record_failure order key s l) key t (ops @ [Failed key s]) ?tr \<longleftrightarrow>
      t \<le> le_last_seen (failed_entry l s ?e) \<and> le_blocked_until (failed_entry l s ?e) = snd ?tr \<and>
      sorted (fst ?tr) \<and> set (fst ?tr) \<subseteq> insert s (snd ` touches ops) \<and>
      (\<exists>x \<in> insert s (snd ` touches ops). le_failures (failed_entry l s ?e) =
         filter (\<lambda>y. x - rl_failure_window l < y) (fst ?tr))"
    using limiter_step_options(3) [of order "Failed key s" l]
    unfolding follows_def record_failure_room by (simp del: track.simps)
  also have "\<dots>"
    using new \<open>t \<le> s\<close> fs entry(1) by (cases tr) (auto simp del: track.simps)
  finally show ?thesis .
qed

lemma follows_step:
  assumes "arranges order" "step_ready l key t ops op" "follows l key t ops tr"
  shows "follows (limiter_step order op l) key t (ops @ [op])
    (track (rl_max_failures l) (rl_failure_window l) (rl_block_duration l) key op tr)"
proof (cases op)
  case (Failed k s)
  show ?thesis
  proof (cases "k = key")
    case True
    then show ?thesis using follows_own_failure [OF _ assms(3)] assms(2) by (simp only: Failed limiter_step.simps)
  next
    case False
    have "map_of (with_room order k l) key = map_of (rl_entries l) key"
    proof (cases "map_of (rl_entries l) key")
      case None
      then show ?thesis using with_room_map [of order k l key] by (cases "map_of (with_room order k l) key") simp_all
    next
      case (Some e)
      then have "t \<le> le_last_seen e" using assms(3) by (simp add: follows_def)
      with Some False assms(1,2) room_keeps [of order l key e t ops s k] show ?thesis
        by (simp add: step_ready_def Failed)
    qed
    with False have "map_of (rl_entries (limiter_step order op l)) key = map_of (rl_entries l) key"
      by (simp add: Failed record_failure_room)
    then have "follows (limiter_step order op l) key t (ops @ [op]) tr"
      using follows_more [OF assms(3), of "[op]"] follows_same [of "limiter_step order op l" key l] by simp
    with False show ?thesis by (cases tr) (simp add: Failed)
  qed
next
  case (Succeeded k)
  show ?thesis
  proof (cases "k = key")
    case True
    with Succeeded show ?thesis by (cases tr) (simp add: follows_def limiter_record_success_def)
  next
    case False
    then have "follows (limiter_step order op l) key t (ops @ [op]) tr"
      using follows_more [OF assms(3), of "[op]"] follows_same [of "limiter_step order op l" key l]
      by (simp add: Succeeded limiter_record_success_def)
    with False show ?thesis by (cases tr) (simp add: Succeeded)
  qed
next
  case (Asked k s)
  then have clock: "clocked (ops @ [Asked k s])" "t \<le> s" using assms(2) by (simp_all add: step_ready_def)
  show ?thesis
  proof (cases "map_of (rl_entries l) key")
    case None
    then show ?thesis
      using assms(3) by (cases tr) (auto simp: Asked follows_def limiter_allowed_def Let_def split: option.splits)
  next
    case (Some e)
    obtain x where x: "x \<in> snd ` touches ops" "le_failures e = filter (\<lambda>y. x - rl_failure_window l < y) (fst tr)"
      "sorted (fst tr)"
      using assms(3) Some by (auto simp: follows_def)
    have "dropWhile (\<lambda>y. y \<le> s - rl_failure_window l) (le_failures e) =
        filter (\<lambda>y. s - rl_failure_window l < y) (fst tr)"
      unfolding x(2) using x(3) touches_before [OF clock(1) _ x(1)]
      by (simp add: dropWhile_window sorted_wrt_filter) (rule filter_cong, auto)
    with Some assms(3) clock(2) show ?thesis
      by (cases tr) (auto simp: Asked follows_def limiter_allowed_def prune_failures_def Let_def
          split: option.splits)
  qed
qed

lemma clocked_prefix: "clocked (ops @ ops') \<Longrightarrow> clocked ops"
  using sorted_append [of "0 # concat (map op_time ops)" "concat (map op_time ops')"] by (simp add: clocked_def)

lemma follows_run:
  assumes "arranges order" "limiter_ok l" "rl_entries l = []" "clean key pre"
    and "clocked (pre @ ops)" "\<forall>s \<in> set (concat (map op_time ops)). t \<le> s"
    and "card (others_since key t (pre @ ops)) < rl_max_entries l"
  shows "follows (limiter_run order (pre @ ops) l) key t (pre @ ops) (tracked l key ops)"
  using assms(5-7)
proof (induction ops rule: rev_induct)
  case Nil
  then show ?case using clean_no_entry [OF assms(3,4)] by (simp add: follows_def tracked_def)
next
  case (snoc op ops)
  let ?l = "limiter_run order (pre @ ops) l"
  have "card (others_since key t (pre @ ops)) \<le> card (others_since key t (pre @ ops @ [op]))"
    using others_since_mono [of key t "pre @ ops" "[op]"] by (intro card_mono others_since_finite) simp
  moreover have "clocked (pre @ ops)" using snoc.prems(1) by (intro clocked_prefix [of "pre @ ops" "[op]"]) simp
  ultimately have IH: "follows ?l key t (pre @ ops) (tracked l key ops)" using snoc by simp
  have "step_ready ?l key t (pre @ ops) op"
    using snoc.prems entries_touched [OF assms(3), of order "pre @ ops"] limiter_run_ok [OF assms(1,2)]
    by (simp add: step_ready_def del: touches_simps)
  from follows_step [OF assms(1) this IH] show ?case
    using limiter_run_snoc [of order "pre @ ops" op l] by (simp add: tracked_snoc)
qed

subsection \<open>What is remembered blocks\<close>

lemma tracked_failures:
  "Succeeded key \<notin> set ops \<Longrightarrow> tracked l key ops = tracked l key (map (Failed key) (failure_times key ops))"
proof (induction ops rule: rev_induct)
  case (snoc op ops)
  then have IH: "tracked l key ops = tracked l key (map (Failed key) (failure_times key ops))" by simp
  show ?case
    using snoc.prems by (cases op; cases "tracked l key ops")
      (auto simp: tracked_snoc IH [symmetric] failure_times_snoc)
qed (simp add: failure_times_def)

lemma track_stays_blocked:
  assumes "\<forall>x \<in> set ts. v \<le> x" "v + b \<le> snd tr"
  shows "v + b \<le> snd (fold (track m w b key) (map (Failed key) ts) tr)"
  using assms
proof (induction ts arbitrary: tr)
  case (Cons x ts)
  then show ?case by (cases tr) (auto simp: Let_def)
qed simp

lemma track_collects:
  assumes "length us < m" "\<forall>x \<in> set us. \<forall>y \<in> set us. y - w < x"
  shows "fold (track m w b key) (map (Failed key) us) ([], 0) = (us, 0)"
  using assms
proof (induction us rule: rev_induct)
  case (snoc y us)
  then have "filter (\<lambda>x. y - w < x) us = us" by (auto simp: filter_id_conv)
  with snoc show ?case by (simp add: Let_def)
qed simp

lemma track_blocks:
  assumes "sorted ts" "0 < m" "m \<le> length ts" "ts ! (m - 1) < hd ts + w"
  shows "ts ! (m - 1) + b \<le> snd (fold (track m w b key) (map (Failed key) ts) ([], 0))"
proof -
  define us where "us = take (m - 1) ts"
  let ?v = "ts ! (m - 1)"
  have ts: "ts = us @ ?v # drop m ts" and us: "length us = m - 1"
    using assms(2,3) id_take_nth_drop [of "m - 1" ts] by (simp_all add: us_def)
  have "sorted (us @ ?v # drop m ts)" using assms(1) ts by simp
  then have order: "\<forall>x \<in> set us. x \<le> ?v" "\<forall>x \<in> set (drop m ts). ?v \<le> x" by (auto simp: sorted_append)
  have "hd ts \<le> x" if "x \<in> set ts" for x
    using assms(1) that by (cases ts) auto
  then have recent: "\<forall>x \<in> set us. ?v - w < x" using assms(4) ts by (metis Un_iff diff_less_eq less_le_trans set_append add.commute add_le_cancel_left)
  then have "\<forall>x \<in> set us. \<forall>y \<in> set us. y - w < x" using order(1) by fastforce
  then have "fold (track m w b key) (map (Failed key) us) ([], 0) = (us, 0)"
    using us assms(2) by (intro track_collects) simp_all
  moreover have "filter (\<lambda>x. ?v - w < x) us = us" using recent by (simp add: filter_id_conv)
  ultimately have "fold (track m w b key) (map (Failed key) (us @ [?v])) ([], 0) = ([], ?v + b)"
    using us assms(2) by (simp add: Let_def)
  moreover have "fold (track m w b key) (map (Failed key) ts) ([], 0) =
      fold (track m w b key) (map (Failed key) (drop m ts)) (fold (track m w b key) (map (Failed key) (us @ [?v])) ([], 0))"
    by (subst (1) ts) simp
  ultimately show ?thesis using track_stays_blocked [OF order(2), of b "([], ?v + b)"] by simp
qed

lemma failure_times_sorted:
  assumes "clocked (pre @ ops)"
  shows "sorted (failure_times key ops)"
proof -
  have "subseq (failure_times key ops) (concat (map op_time ops))"
    unfolding failure_times_def by (induction ops) (auto split: LimiterOp.split intro: list_emb_append_mono)
  moreover have "sorted (concat (map op_time ops))" using assms by (simp add: clocked_def sorted_append)
  ultimately show ?thesis by (metis sorted_nths subseq_conv_nths)
qed

text \<open>
  C20: Failures within the window block, whatever happens in between.  A new limiter sees any
  operations, then a failure of a key at time \<open>t\<close> that has no failure since its last success, then
  any failures, successes and questions of this and of other keys, under a clock that does not run
  backwards.  Provided that fewer other keys than the table has entries are touched from \<open>t\<close> on (so
  that the entry of the key is not evicted), the answer for the key is exactly what its own failures
  and successes since \<open>t\<close> determine: questions and other keys have no influence.  In particular, if
  it has no success, and its configured number of failures falls within the failure window, the key
  is refused until the last of these failures plus the block duration.
\<close>

theorem limiter_blocks:
  assumes "arranges order" "clocked (pre @ Failed key t # post)" "clean key pre" "0 \<le> now"
    and "card (others_since key t (pre @ Failed key t # post)) < max n 1"
    and l: "l = limiter_run order (pre @ Failed key t # post) (new_rate_limiter n m w b)"
    and ts: "ts = failure_times key (Failed key t # post)"
  shows "(fst (limiter_allowed key now l) \<longleftrightarrow> snd (tracked l key (Failed key t # post)) \<le> now) \<and>
    (Succeeded key \<notin> set post \<and> max m 1 \<le> length ts \<and> ts ! (max m 1 - 1) < t + rl_failure_window l \<and>
       now < ts ! (max m 1 - 1) + rl_block_duration l \<longrightarrow> \<not> fst (limiter_allowed key now l))"
proof -
  let ?ops = "Failed key t # post" and ?new = "new_rate_limiter n m w b"
  have same: "tracked l key ops = tracked ?new key ops" for ops by (simp add: tracked_def l)
  have options: "rl_max_failures ?new = max m 1" "rl_max_entries ?new = max n 1" "rl_entries ?new = []"
    by (simp_all add: new_rate_limiter_def)
  have "\<forall>s \<in> set (concat (map op_time ?ops)). t \<le> s"
    using assms(2) by (auto simp: clocked_def sorted_append)
  then have "follows l key t (pre @ ?ops) (tracked l key ?ops)"
    unfolding same unfolding l
    by (intro follows_run assms(1-3) new_rate_limiter_ok) (use assms(5) options in simp_all)
  then have exact: "fst (limiter_allowed key now l) \<longleftrightarrow> snd (tracked l key ?ops) \<le> now"
    using assms(4) by (auto simp: follows_def limiter_allowed_def prune_failures_def Let_def split: option.splits)
  have "ts ! (max m 1 - 1) + rl_block_duration l \<le> snd (tracked l key ?ops)"
    if "Succeeded key \<notin> set post" "max m 1 \<le> length ts" "ts ! (max m 1 - 1) < t + rl_failure_window l"
  proof -
    have "hd ts = t" "rl_max_failures l = max m 1"
      by (simp_all add: ts failure_times_def l options)
    moreover have "tracked l key ?ops = tracked l key (map (Failed key) ts)"
      unfolding ts using that(1) by (intro tracked_failures) simp
    ultimately show ?thesis
      using track_blocks [of ts "rl_max_failures l" "rl_failure_window l" "rl_block_duration l" key]
        failure_times_sorted [OF assms(2), of key] that(2,3)
      by (simp add: tracked_def ts [symmetric])
  qed
  with exact show ?thesis by auto
qed

theorem limiter_blocks_witness:
  "\<not> fst (limiter_allowed ''a'' 78 (limiter_run id
     [Failed ''b'' 5, Failed ''a'' 10, Asked ''a'' 11, Failed ''a'' 12, Asked ''b'' 13, Failed ''a'' 19]
     (new_rate_limiter 2 3 10 60)))"
proof -
  let ?post = "[Asked ''a'' 11, Failed ''a'' 12, Asked ''b'' 13, Failed ''a'' 19]"
  let ?l = "limiter_run id ([Failed ''b'' 5] @ Failed ''a'' 10 # ?post) (new_rate_limiter 2 3 10 60)"
  have pre: "arranges id" "clocked ([Failed ''b'' 5] @ Failed ''a'' 10 # ?post)" "clean ''a'' [Failed ''b'' 5]"
    by (simp_all add: arranges_def clocked_def clean_def failure_times_def)
  have "others_since ''a'' 10 ([Failed ''b'' 5] @ Failed ''a'' 10 # ?post) \<subseteq> {''b''}"
    by (auto simp: others_since_def touches_def)
  then have "card (others_since ''a'' 10 ([Failed ''b'' 5] @ Failed ''a'' 10 # ?post)) \<le> 1"
    using card_mono [of "{''b''}"] by fastforce
  then have few: "card (others_since ''a'' 10 ([Failed ''b'' 5] @ Failed ''a'' 10 # ?post)) < max 2 1" by simp
  have options: "rl_failure_window ?l = 10" "rl_block_duration ?l = 60"
    unfolding limiter_run_options by (simp_all add: new_rate_limiter_def)
  have "failure_times ''a'' (Failed ''a'' 10 # ?post) = [10, 12, 19]" by (simp add: failure_times_def)
  with limiter_blocks [OF pre, of 78 2 _ 3 10 60, OF _ few refl refl, THEN conjunct2] options show ?thesis
    by (simp add: numeral_nat)
qed

end
