(* ===== verification/Tls_Admission.thy ===== *)
theory Tls_Admission
  imports Complex_Main Leases Auth_Limiter
begin

text \<open>
  \<open>include/minitun/server/tls_admission.hpp\<close> and \<open>src/server/tls_admission.cpp\<close>: which incoming
  connections may start a TLS handshake.  A token bucket paces \<open>accept\<close>, the pending handshakes are
  counted in total and per address, and addresses with too many failures are refused.

  All calls belong to one strand.  Time points are nanoseconds.  The bucket computes in \<open>double\<close>: its
  values are reals, and each operation rounds its exact result with \<open>binary64\<close>.
\<close>

section \<open>Double precision\<close>

text \<open>
  Rounding to the nearest IEEE 754 double, ties to even, with subnormals: a significand of 53 bits
  and units not below \<open>2 powr -1074\<close>.  The numbers of this component (rates below \<open>2 ^ 64\<close>, times below
  \<open>2 ^ 63\<close> nanoseconds) are far from the largest double, so there is no infinity.
\<close>

definition round_even :: "real \<Rightarrow> int" where
  "round_even x =
     (let n = \<lfloor>x\<rfloor>; part = x - real_of_int n
      in if part < 1 / 2 \<or> part = 1 / 2 \<and> even n then n else n + 1)"

definition binary64 :: "real \<Rightarrow> real" where
  "binary64 x =
     (if x = 0 then 0
      else (let unit = 2 powr real_of_int (max (\<lfloor>log 2 \<bar>x\<bar>\<rfloor> - 52) (- 1074))
            in real_of_int (round_even (x / unit)) * unit))"

text \<open>
  \<open>std::chrono::duration<double>\<close> of a number of nanoseconds, and \<open>std::chrono::ceil\<close> of a
  \<open>duration<double>\<close> to nanoseconds: the product is truncated, and one is added if that made it less.
\<close>

definition to_seconds :: "int \<Rightarrow> real" where
  "to_seconds d = binary64 (binary64 (real_of_int d) / 1000000000)"

definition ceil_nanoseconds :: "real \<Rightarrow> int" where
  "ceil_nanoseconds d =
     (let x = binary64 (d * 1000000000);
          n = (if x < 0 then \<lceil>x\<rceil> else \<lfloor>x\<rfloor>)
      in if binary64 (real_of_int n) < x then n + 1 else n)"

section \<open>The admission control\<close>

record TlsAdmission =
  ta_max_pending :: nat
  ta_max_pending_per_ip :: nat
  ta_rate :: real
  ta_tokens :: real
  ta_last_refill :: "time_point option"
  ta_sources :: "(string, nat) umap"
  ta_pending :: nat
  ta_failures :: AuthRateLimiter
  ta_last_log :: "time_point option"
  ta_suppressed :: nat

definition default_rate_limiter :: AuthRateLimiter where
  "default_rate_limiter = new_rate_limiter 4096 5 (seconds 60) (seconds 60)"

definition new_tls_admission :: "nat \<Rightarrow> nat \<Rightarrow> nat \<Rightarrow> TlsAdmission" where
  "new_tls_admission max_pending max_pending_per_ip max_per_second =
     \<lparr>ta_max_pending = max 1 max_pending, ta_max_pending_per_ip = max 1 max_pending_per_ip,
      ta_rate = binary64 (real (max 1 max_per_second)), ta_tokens = binary64 (real (max 1 max_per_second)),
      ta_last_refill = None, ta_sources = [], ta_pending = 0, ta_failures = default_rate_limiter,
      ta_last_log = None, ta_suppressed = 0\<rparr>"

definition tls_refill :: "time_point \<Rightarrow> TlsAdmission \<Rightarrow> TlsAdmission" where
  "tls_refill now s =
     (case ta_last_refill s of
        None \<Rightarrow> s\<lparr>ta_last_refill := Some now\<rparr>
      | Some previous \<Rightarrow>
          if previous < now
          then s\<lparr>ta_tokens := min (ta_rate s)
                   (binary64 (ta_tokens s + binary64 (to_seconds (now - previous) * ta_rate s))),
                 ta_last_refill := Some now\<rparr>
          else s)"

definition tls_accept_delay :: "time_point \<Rightarrow> TlsAdmission \<Rightarrow> int \<times> TlsAdmission" where
  "tls_accept_delay now s =
     (let s' = tls_refill now s;
          delay = (if ta_max_pending s' \<le> ta_pending s' then milliseconds 10 else 0)
      in (if ta_tokens s' < 1
          then max delay (ceil_nanoseconds (binary64 (binary64 (1 - ta_tokens s') / ta_rate s')))
          else delay, s'))"

definition tls_record_accept :: "time_point \<Rightarrow> TlsAdmission \<Rightarrow> TlsAdmission" where
  "tls_record_accept now s =
     (let s' = tls_refill now s in s'\<lparr>ta_tokens := max 0 (binary64 (ta_tokens s' - 1))\<rparr>)"

definition tls_try_acquire :: "string \<Rightarrow> time_point \<Rightarrow> TlsAdmission \<Rightarrow> bool \<times> TlsAdmission" where
  "tls_try_acquire address now s =
     (if address = [] \<or> ta_max_pending s \<le> ta_pending s then (False, s)
      else (case limiter_allowed address now (ta_failures s) of (allowed, failures) \<Rightarrow>
        let s' = s\<lparr>ta_failures := failures\<rparr>
        in if \<not> allowed then (False, s')
           else (case map_of (ta_sources s') address of
                   Some n \<Rightarrow>
                     if ta_max_pending_per_ip s' \<le> n then (False, s')
                     else (True, s'\<lparr>ta_sources := AList.update address (n + 1) (ta_sources s'),
                                    ta_pending := ta_pending s' + 1\<rparr>)
                 | None \<Rightarrow>
                     (True, s'\<lparr>ta_sources := AList.update address 1 (ta_sources s'),
                               ta_pending := ta_pending s' + 1\<rparr>))))"

definition tls_release :: "string \<Rightarrow> TlsAdmission \<Rightarrow> TlsAdmission" where
  "tls_release address s =
     (case map_of (ta_sources s) address of
        None \<Rightarrow> s
      | Some n \<Rightarrow>
          s\<lparr>ta_pending := size_sub (ta_pending s) 1,
            ta_sources := (if size_sub n 1 = 0 then AList.delete address (ta_sources s)
                           else AList.update address (size_sub n 1) (ta_sources s))\<rparr>)"

definition tls_record_failure ::
  "((string \<times> LimiterEntry) list \<Rightarrow> (string \<times> LimiterEntry) list) \<Rightarrow> string \<Rightarrow> time_point \<Rightarrow>
   TlsAdmission \<Rightarrow> nat option \<times> TlsAdmission" where
  "tls_record_failure order address now s =
     (let s' = s\<lparr>ta_failures := limiter_record_failure order address now (ta_failures s)\<rparr>
      in if (case ta_last_log s' of None \<Rightarrow> True | Some previous \<Rightarrow> seconds 5 \<le> now - previous)
         then (Some (ta_suppressed s'), s'\<lparr>ta_last_log := Some now, ta_suppressed := 0\<rparr>)
         else (None, s'\<lparr>ta_suppressed := ta_suppressed s' + 1\<rparr>))"

section \<open>Pending handshakes\<close>

definition pending_from :: "string \<Rightarrow> TlsAdmission \<Rightarrow> nat" where
  "pending_from address s = (case map_of (ta_sources s) address of None \<Rightarrow> 0 | Some n \<Rightarrow> n)"

definition tls_ok :: "TlsAdmission \<Rightarrow> bool" where
  "tls_ok s \<longleftrightarrow> keys_ok (ta_sources s) \<and> ta_pending s = counted (ta_sources s) \<and>
     ta_pending s \<le> ta_max_pending s \<and> 0 < ta_max_pending_per_ip s \<and>
     (\<forall>k n. map_of (ta_sources s) k = Some n \<longrightarrow> 0 < n \<and> n \<le> ta_max_pending_per_ip s)"

definition tls_acquire_slot :: "string \<times> time_point \<Rightarrow> TlsAdmission \<Rightarrow> TlsAdmission option" where
  "tls_acquire_slot = (\<lambda>(address, now) s.
     case tls_try_acquire address now s of (True, s') \<Rightarrow> Some s' | (False, _) \<Rightarrow> None)"

text \<open>The calls that neither take nor give back a slot.\<close>

inductive tls_other :: "TlsAdmission \<Rightarrow> TlsAdmission \<Rightarrow> bool" where
  refused: "tls_try_acquire address now s = (False, s') \<Longrightarrow> tls_other s s'"
| delay: "tls_accept_delay now s = (d, s') \<Longrightarrow> tls_other s s'"
| accepted: "tls_other s (tls_record_accept now s)"
| failed: "tls_record_failure order address now s = (r, s') \<Longrightarrow> tls_other s s'"

lemma tls_refill_fields [simp]:
  "ta_sources (tls_refill now s) = ta_sources s" "ta_pending (tls_refill now s) = ta_pending s"
  "ta_max_pending (tls_refill now s) = ta_max_pending s"
  "ta_max_pending_per_ip (tls_refill now s) = ta_max_pending_per_ip s"
  "ta_rate (tls_refill now s) = ta_rate s"
  by (simp_all add: tls_refill_def split: option.split)

lemma tls_other_fields:
  "tls_other s s' \<Longrightarrow> ta_sources s' = ta_sources s \<and> ta_pending s' = ta_pending s \<and>
     ta_max_pending s' = ta_max_pending s \<and> ta_max_pending_per_ip s' = ta_max_pending_per_ip s"
proof (induction rule: tls_other.induct)
  case (refused address now s s')
  then show ?case
    by (auto simp: tls_try_acquire_def Let_def split: if_splits prod.splits option.splits)
qed (auto simp: tls_accept_delay_def tls_record_accept_def tls_record_failure_def Let_def
    split: if_splits)

lemma tls_try_acquire_True:
  "tls_try_acquire address now s = (True, s') \<longleftrightarrow>
     address \<noteq> [] \<and> ta_pending s < ta_max_pending s \<and>
     fst (limiter_allowed address now (ta_failures s)) \<and>
     (map_of (ta_sources s) address \<noteq> None \<longrightarrow> pending_from address s < ta_max_pending_per_ip s) \<and>
     s' = s\<lparr>ta_failures := snd (limiter_allowed address now (ta_failures s)),
            ta_sources := AList.update address (pending_from address s + 1) (ta_sources s),
            ta_pending := ta_pending s + 1\<rparr>"
  by (auto simp: tls_try_acquire_def pending_from_def Let_def split: if_splits prod.splits option.splits)

lemma tls_acquire_ok:
  assumes "tls_ok s" "tls_try_acquire address now s = (True, s')"
  shows "tls_ok s' \<and> ta_pending s' = ta_pending s + 1 \<and>
    pending_from k s' = (if k = address then pending_from k s + 1 else pending_from k s)"
proof (cases "map_of (ta_sources s) address")
  case None
  with assms show ?thesis
    by (auto simp: tls_try_acquire_True tls_ok_def pending_from_def counted_update_new)
next
  case (Some n)
  with assms counted_update [OF Some, of "Suc n"] show ?thesis
    by (auto simp: tls_try_acquire_True tls_ok_def pending_from_def)
qed

lemma tls_release_ok:
  assumes "tls_ok s" "0 < pending_from address s"
  shows "tls_ok (tls_release address s) \<and> ta_pending (tls_release address s) = ta_pending s - 1 \<and>
    pending_from k (tls_release address s) =
      (if k = address then pending_from address s - 1 else pending_from k s)"
proof -
  obtain n where n: "map_of (ta_sources s) address = Some n" "0 < n"
    using assms(2) by (auto simp: pending_from_def split: option.splits)
  have ok: "keys_ok (ta_sources s)" "ta_pending s = counted (ta_sources s)" "n \<le> ta_pending s"
    "n \<le> ta_max_pending_per_ip s"
    using assms(1) n(1) counted_ge [OF n(1)] by (simp_all add: tls_ok_def)
  show ?thesis
  proof (cases "n = 1")
    case True
    then show ?thesis
      using assms(1) n ok(1,2) counted_delete [OF ok(1) n(1)]
      by (auto simp: tls_release_def tls_ok_def pending_from_def dest: spec [of _ address])
  next
    case False
    define m where "m = n - 2"
    with n(2) False have m: "n = Suc (Suc m)" by simp
    then have "Suc m \<le> ta_max_pending_per_ip s"
      "counted (AList.update address (Suc m) (ta_sources s)) + 1 = ta_pending s" "0 < ta_pending s"
      using ok counted_update [OF n(1), of "Suc m"] by simp_all
    with assms(1) n(1) show ?thesis
      unfolding m by (auto simp: tls_release_def tls_ok_def pending_from_def)
  qed
qed

interpretation handshakes: lease_counter tls_acquire_slot tls_release tls_other fst
  pending_from ta_pending tls_ok
proof
  fix s a s' k
  assume "tls_ok s" "tls_acquire_slot a s = Some s'"
  then show "tls_ok s' \<and> ta_pending s' = ta_pending s + 1 \<and>
      pending_from k s' = (if k = fst a then pending_from k s + 1 else pending_from k s)"
    using tls_acquire_ok
    by (auto simp: tls_acquire_slot_def split: prod.splits bool.splits)
next
  fix s k k'
  assume "tls_ok s" "0 < pending_from k s"
  then show "tls_ok (tls_release k s) \<and> ta_pending (tls_release k s) = ta_pending s - 1 \<and>
      pending_from k' (tls_release k s) =
        (if k' = k then pending_from k s - 1 else pending_from k' s)"
    by (rule tls_release_ok)
next
  fix s s' k
  assume "tls_ok s" "tls_other s s'"
  then show "tls_ok s' \<and> ta_pending s' = ta_pending s \<and> pending_from k s' = pending_from k s"
    using tls_other_fields [of s s'] by (simp add: tls_ok_def pending_from_def)
qed

lemma tls_run_limits:
  assumes "lease_run tls_acquire_slot tls_release tls_other fst s0 s h"
  shows "ta_max_pending s = ta_max_pending s0 \<and> ta_max_pending_per_ip s = ta_max_pending_per_ip s0"
  using assms
proof (induction rule: lease_run.induct)
  case (acquired s held a s')
  then show ?case
    by (auto simp: tls_acquire_slot_def tls_try_acquire_True split: prod.splits bool.splits)
next
  case (released s held k)
  then show ?case by (auto simp: tls_release_def split: option.split)
next
  case (stepped s held s')
  then show ?case by (simp add: tls_other_fields)
qed simp

text \<open>
  C23: The pending count is the number of reservations that are held.  For every sequence of calls
  that releases what it acquired, interleaved with any other calls, \<open>pending\<close> and the count of each
  address equal the reservations held and never exceed the configured limits.
\<close>

theorem tls_pending_exact:
  assumes "lease_run tls_acquire_slot tls_release tls_other fst (new_tls_admission m p r) s held"
  shows "ta_pending s = size held \<and> pending_from address s = count held address \<and>
    ta_pending s \<le> max 1 m \<and> pending_from address s \<le> max 1 p"
proof -
  let ?s0 = "new_tls_admission m p r"
  have start: "tls_ok ?s0" "ta_pending ?s0 = 0" "pending_from k ?s0 = 0" for k
    by (auto simp: new_tls_admission_def tls_ok_def pending_from_def)
  from handshakes.counts_held [OF assms start]
  have s: "tls_ok s" "ta_pending s = size held" "pending_from address s = count held address"
    by simp_all
  have limits: "ta_max_pending s = max 1 m" "ta_max_pending_per_ip s = max 1 p"
    using tls_run_limits [OF assms] by (simp_all add: new_tls_admission_def)
  have "pending_from address s \<le> max 1 p" "ta_pending s \<le> max 1 m"
    using s(1) unfolding limits [symmetric]
    by (auto simp: tls_ok_def pending_from_def split: option.split)
  with s show ?thesis by simp
qed

theorem tls_pending_exact_witness:
  "\<exists>s. lease_run tls_acquire_slot tls_release tls_other fst (new_tls_admission 4 2 10) s {#''10.0.0.1''#} \<and>
     ta_pending s = 1 \<and> pending_from ''10.0.0.1'' s = 1"
proof -
  obtain s where "tls_acquire_slot (''10.0.0.1'', 0) (new_tls_admission 4 2 10) = Some s"
    by (simp add: tls_acquire_slot_def tls_try_acquire_def new_tls_admission_def limiter_allowed_def
        default_rate_limiter_def new_rate_limiter_def)
  with lease_run.start
  have "lease_run tls_acquire_slot tls_release tls_other fst (new_tls_admission 4 2 10) s
      (add_mset (fst (''10.0.0.1'', 0 :: time_point)) {#})" by (rule lease_run.acquired)
  then have run: "lease_run tls_acquire_slot tls_release tls_other fst (new_tls_admission 4 2 10) s
      {#''10.0.0.1''#}" by simp
  with tls_pending_exact [OF run, of "''10.0.0.1''"] show ?thesis by (intro exI [of _ s]) simp
qed

section \<open>The token bucket\<close>

text \<open>Rounding keeps the sign and the whole numbers of at most 53 bits.\<close>

lemma round_even_int [simp]: "round_even (real_of_int n) = n"
  by (simp add: round_even_def)

lemma round_even_nonneg: "0 \<le> x \<Longrightarrow> 0 \<le> round_even x"
  by (simp add: round_even_def Let_def)

lemma binary64_nonneg: "0 \<le> x \<Longrightarrow> 0 \<le> binary64 x"
  by (simp add: binary64_def Let_def round_even_nonneg)

lemma to_seconds_nonneg: "0 \<le> d \<Longrightarrow> 0 \<le> to_seconds d"
  by (simp add: to_seconds_def binary64_nonneg)

lemma binary64_nat:
  assumes "n < 2 ^ 53"
  shows "binary64 (real n) = real n"
proof (cases "n = 0")
  case False
  define e where "e = \<lfloor>log 2 (real n)\<rfloor>"
  have "real n < 2 powr 53" using assms by (simp add: powr_realpow [symmetric])
  then have "log 2 (real n) < 53" using False by (simp add: log_less_iff)
  then have "e \<le> 52" "0 \<le> e" using False by (simp_all add: e_def)
  define j where "j = nat (52 - e)"
  have unit: "2 powr real_of_int (max (e - 52) (- 1074)) = 1 / 2 ^ j"
    using \<open>e \<le> 52\<close> \<open>0 \<le> e\<close> by (simp add: j_def powr_realpow [symmetric] powr_minus_divide [symmetric])
  have "real n / (1 / 2 ^ j) = real_of_int (int n * 2 ^ j)" by simp
  then have "round_even (real n / (1 / 2 ^ j)) = int n * 2 ^ j" by (simp only: round_even_int)
  then show ?thesis using False by (simp add: binary64_def Let_def e_def [symmetric] unit)
qed (simp add: binary64_def)

text \<open>The bucket holds between no token and one second of them.\<close>

definition bucket_ok :: "TlsAdmission \<Rightarrow> bool" where
  "bucket_ok s \<longleftrightarrow> 0 \<le> ta_rate s \<and> 0 \<le> ta_tokens s \<and> ta_tokens s \<le> ta_rate s"

lemma new_tls_admission_bucket: "bucket_ok (new_tls_admission m p r)"
  by (simp add: bucket_ok_def new_tls_admission_def binary64_nonneg)

lemma new_tls_admission_rate:
  "max 1 r < 2 ^ 53 \<Longrightarrow> ta_rate (new_tls_admission m p r) = real (max 1 r)"
  using binary64_nat [of "max 1 r"] by (simp add: new_tls_admission_def)

lemma refill_bucket: "bucket_ok s \<Longrightarrow> bucket_ok (tls_refill now s)"
  by (auto simp: bucket_ok_def tls_refill_def min_def intro!: binary64_nonneg add_nonneg_nonneg
      mult_nonneg_nonneg to_seconds_nonneg split: option.split)

end
