(* ===== verification/Storage_Database.thy ===== *)
theory Storage_Database
  imports Storage_Models
begin

text \<open>
  The database under the repositories: values, rows and tables, the constraints of the schema in
  \<open>src/storage/database.cpp\<close>, transactions, the reading of rows and the errors of
  \<open>src/storage/sqlite_internal.cpp\<close>.

  SQLite itself is not modelled.  A table is the list of its rows; what an SQL statement of the
  sources selects and assigns is written out as a function on rows, with the constraints of the
  tables it touches checked by \<open>insert_tunnel\<close>, \<open>update_tunnels\<close> and their counterparts for servers.
  Everything else that can go wrong (memory, disk, locks, permissions) is an argument: \<open>sq_fault\<close>
  says for the name of an operation whether its preparation, binding or execution fails and how,
  \<open>sq_detail\<close> is the text of \<open>sqlite3_errmsg\<close>, and \<open>sq_autocommit\<close> says whether SQLite had already
  left the transaction when a \<open>ROLLBACK\<close> failed.  \<open>db_begun\<close> holds the tables at \<open>BEGIN\<close> while
  SQLite is inside a transaction; \<open>db_durable\<close> is what the database file holds.
\<close>

section \<open>Values and failures\<close>

datatype SqlValue = SqlNull | SqlInteger int | SqlText string

datatype SqlFailure =
  SF_primary_key | SF_unique | SF_foreign_key | SF_constraint |
  SF_nomem | SF_full | SF_toobig | SF_perm | SF_auth | SF_readonly | SF_other

record Sqlite =
  sq_fault :: "string \<Rightarrow> SqlFailure option"
  sq_detail :: "SqlFailure \<Rightarrow> string"
  sq_autocommit :: bool

definition sqlite_error :: "Sqlite \<Rightarrow> SqlFailure \<Rightarrow> string \<Rightarrow> Error" where
  "sqlite_error sq f operation =
     Error (if f = SF_primary_key \<or> f = SF_unique then EC_already_exists
            else if f = SF_foreign_key then EC_not_found
            else if f = SF_constraint then EC_invalid_argument
            else if f = SF_nomem \<or> f = SF_full \<or> f = SF_toobig then EC_resource_exhausted
            else if f = SF_perm \<or> f = SF_auth \<or> f = SF_readonly then EC_permission_denied
            else EC_database_error)
       (if sq_detail sq f \<noteq> [] then operation @ '': '' @ sq_detail sq f else operation)"

definition run_statement :: "Sqlite \<Rightarrow> string \<Rightarrow> SqlFailure + 'a \<Rightarrow> 'a Result" where
  "run_statement sq operation outcome =
     (case sq_fault sq operation of
        Some f \<Rightarrow> Inl (sqlite_error sq f operation)
      | None \<Rightarrow> (case outcome of Inl f \<Rightarrow> Inl (sqlite_error sq f operation) | Inr v \<Rightarrow> Inr v))"

section \<open>Rows and their columns\<close>

record ServerRow =
  svr_id :: SqlValue
  svr_name :: SqlValue
  svr_endpoint :: SqlValue
  svr_credential_ref :: SqlValue
  svr_remote_server_id :: SqlValue
  svr_desired_state :: SqlValue
  svr_actual_state :: SqlValue
  svr_last_error_code :: SqlValue
  svr_last_error_message :: SqlValue
  svr_reconnect_attempt :: SqlValue
  svr_latency_ms :: SqlValue
  svr_created_at :: SqlValue
  svr_updated_at :: SqlValue
  svr_tls_server_name :: SqlValue
  svr_ca_credential_ref :: SqlValue
  svr_client_certificate_ref :: SqlValue
  svr_client_private_key_ref :: SqlValue
  svr_config_revision :: SqlValue
  svr_managed_by_config :: SqlValue

record TunnelRow =
  tnr_id :: SqlValue
  tnr_name :: SqlValue
  tnr_server_id :: SqlValue
  tnr_protocol :: SqlValue
  tnr_local_host :: SqlValue
  tnr_local_port :: SqlValue
  tnr_remote_host :: SqlValue
  tnr_remote_port :: SqlValue
  tnr_desired_state :: SqlValue
  tnr_actual_state :: SqlValue
  tnr_last_error_code :: SqlValue
  tnr_last_error_message :: SqlValue
  tnr_created_at :: SqlValue
  tnr_updated_at :: SqlValue
  tnr_last_synced_at :: SqlValue
  tnr_config_revision :: SqlValue
  tnr_managed_by_config :: SqlValue
  tnr_proxy_protocol :: SqlValue

definition bind_optional_text :: "string option \<Rightarrow> SqlValue" where
  "bind_optional_text value = (case value of None \<Rightarrow> SqlNull | Some v \<Rightarrow> SqlText v)"

definition bind_optional_error :: "ErrorCode option \<Rightarrow> SqlValue" where
  "bind_optional_error value =
     (case value of None \<Rightarrow> SqlNull | Some c \<Rightarrow> SqlText (error_code_to_string c))"

definition bind_optional_int64 :: "int option \<Rightarrow> SqlValue" where
  "bind_optional_int64 value = (case value of None \<Rightarrow> SqlNull | Some v \<Rightarrow> SqlInteger v)"

definition bind_bool :: "bool \<Rightarrow> SqlValue" where
  "bind_bool value = SqlInteger (if value then 1 else 0)"

definition server_bindings :: "ServerRecord \<Rightarrow> ServerRow" where
  "server_bindings r =
     \<lparr>svr_id = SqlText (id_text (sv_id r)), svr_name = bind_optional_text (sv_name r),
      svr_endpoint = SqlText (endpoint_to_string (sv_endpoint r)),
      svr_credential_ref = bind_optional_text (sv_credential_ref r),
      svr_remote_server_id = bind_optional_text (sv_remote_server_id r),
      svr_desired_state = SqlText (server_desired_state_to_string (sv_desired_state r)),
      svr_actual_state = SqlText (server_actual_state_to_string (sv_actual_state r)),
      svr_last_error_code = bind_optional_error (sv_last_error_code r),
      svr_last_error_message = bind_optional_text (sv_last_error_message r),
      svr_reconnect_attempt = SqlInteger (uint (sv_reconnect_attempt r)),
      svr_latency_ms = bind_optional_int64 (sv_latency_ms r),
      svr_created_at = SqlInteger (sv_created_at r), svr_updated_at = SqlInteger (sv_updated_at r),
      svr_tls_server_name = bind_optional_text (sv_tls_server_name r),
      svr_ca_credential_ref = bind_optional_text (sv_ca_credential_ref r),
      svr_client_certificate_ref = bind_optional_text (sv_client_certificate_ref r),
      svr_client_private_key_ref = bind_optional_text (sv_client_private_key_ref r),
      svr_config_revision = SqlInteger (sint (sv_config_revision r)),
      svr_managed_by_config = bind_bool (sv_managed_by_config r)\<rparr>"

definition tunnel_bindings :: "TunnelRecord \<Rightarrow> TunnelRow" where
  "tunnel_bindings r =
     \<lparr>tnr_id = SqlText (id_text (tn_id r)), tnr_name = bind_optional_text (tn_name r),
      tnr_server_id = SqlText (id_text (tn_server_id r)),
      tnr_protocol = SqlText (tunnel_protocol_to_string (tn_protocol r)),
      tnr_local_host = SqlText (ep_host (tn_local_endpoint r)),
      tnr_local_port = SqlInteger (uint (ep_port (tn_local_endpoint r))),
      tnr_remote_host = SqlText (ep_host (tn_remote_endpoint r)),
      tnr_remote_port = SqlInteger (uint (ep_port (tn_remote_endpoint r))),
      tnr_desired_state = SqlText (tunnel_desired_state_to_string (tn_desired_state r)),
      tnr_actual_state = SqlText (tunnel_actual_state_to_string (tn_actual_state r)),
      tnr_last_error_code = bind_optional_error (tn_last_error_code r),
      tnr_last_error_message = bind_optional_text (tn_last_error_message r),
      tnr_created_at = SqlInteger (tn_created_at r), tnr_updated_at = SqlInteger (tn_updated_at r),
      tnr_last_synced_at = bind_optional_int64 (tn_last_synced_at r),
      tnr_config_revision = SqlInteger (sint (tn_config_revision r)),
      tnr_managed_by_config = bind_bool (tn_managed_by_config r),
      tnr_proxy_protocol = bind_bool (tn_proxy_protocol r)\<rparr>"

section \<open>Reading rows\<close>

definition corrupt_field :: "string \<Rightarrow> 'a Result" where
  "corrupt_field field = failure EC_database_error (''database contains an invalid '' @ field)"

definition required_text :: "SqlValue \<Rightarrow> string \<Rightarrow> string Result" where
  "required_text v field = (case v of SqlText s \<Rightarrow> Inr s | _ \<Rightarrow> corrupt_field field)"

definition optional_text :: "SqlValue \<Rightarrow> string \<Rightarrow> string option Result" where
  "optional_text v field =
     (if v = SqlNull then Inr None else and_then (required_text v field) (\<lambda>s. Inr (Some s)))"

definition required_int64 :: "SqlValue \<Rightarrow> string \<Rightarrow> int Result" where
  "required_int64 v field = (case v of SqlInteger n \<Rightarrow> Inr n | _ \<Rightarrow> corrupt_field field)"

definition optional_int64 :: "SqlValue \<Rightarrow> string \<Rightarrow> int option Result" where
  "optional_int64 v field =
     (if v = SqlNull then Inr None else and_then (required_int64 v field) (\<lambda>n. Inr (Some n)))"

type_synonym endpoint_parser = "string \<Rightarrow> Endpoint Result"

definition endpoint_text :: "string \<Rightarrow> u16 \<Rightarrow> string" where
  "endpoint_text host port =
     (if CHR '':'' \<in> set host then CHR ''['' # host @ '']:'' @ decimal (unat port)
      else host @ CHR '':'' # decimal (unat port))"

definition read_endpoint :: "endpoint_parser \<Rightarrow> string \<Rightarrow> string \<Rightarrow> Endpoint Result" where
  "read_endpoint parse text field =
     (case parse text of
        Inl _ \<Rightarrow> corrupt_field field
      | Inr e \<Rightarrow> if endpoint_to_string e \<noteq> text then corrupt_field field else Inr e)"

definition read_split_endpoint ::
  "endpoint_parser \<Rightarrow> string \<Rightarrow> int \<Rightarrow> string \<Rightarrow> Endpoint Result" where
  "read_split_endpoint parse host port field =
     (if port < 1 \<or> 65535 < port then corrupt_field field
      else (case parse (endpoint_text host (word_of_int port)) of
              Inl _ \<Rightarrow> corrupt_field field
            | Inr e \<Rightarrow> if ep_host e \<noteq> host \<or> ep_port e \<noteq> word_of_int port then corrupt_field field
                      else Inr e))"

definition read_error_code :: "string option \<Rightarrow> string \<Rightarrow> ErrorCode option Result" where
  "read_error_code error_text field =
     (case error_text of
        None \<Rightarrow> Inr None
      | Some t \<Rightarrow> (case error_code_from_string t of
                    None \<Rightarrow> corrupt_field field
                  | Some c \<Rightarrow> if \<not> is_known_error_code c then corrupt_field field else Inr (Some c)))"

definition server_from_columns ::
  "endpoint_parser \<Rightarrow> string \<Rightarrow> string option \<Rightarrow> string \<Rightarrow> string option \<Rightarrow> string option \<Rightarrow> string \<Rightarrow> string \<Rightarrow>
   string option \<Rightarrow> string option \<Rightarrow> int \<Rightarrow> int option \<Rightarrow> int \<Rightarrow> int \<Rightarrow> string option \<Rightarrow> string option \<Rightarrow>
   string option \<Rightarrow> string option \<Rightarrow> int \<Rightarrow> int \<Rightarrow> ServerRecord Result" where
  "server_from_columns parse raw_id name endpoint_value credential_ref remote_server_id desired_text
     actual_text error_text error_message reconnect_attempt latency created_at updated_at
     tls_server_name ca_credential_ref client_certificate_ref client_private_key_ref config_revision
     managed_by_config =
     (case (id_parse_kind raw_id IK_server, read_endpoint parse endpoint_value ''servers.endpoint'',
            server_desired_state_from_string desired_text, server_actual_state_from_string actual_text) of
        (Inr i, Inr endpoint, Inr desired, Inr actual) \<Rightarrow>
          if reconnect_attempt < 0 \<or> 2147483647 < reconnect_attempt \<or>
             (case latency of None \<Rightarrow> False | Some l \<Rightarrow> l < 0 \<or> 2147483647 < l) \<or>
             config_revision \<le> 0 \<or> managed_by_config \<noteq> 0 \<and> managed_by_config \<noteq> 1
          then failure EC_database_error ''database contains an invalid server row''
          else and_then (read_error_code error_text ''servers.last_error_code'') (\<lambda>error_code.
            let record = \<lparr>sv_id = i, sv_name = name, sv_endpoint = endpoint,
                  sv_credential_ref = credential_ref, sv_remote_server_id = remote_server_id,
                  sv_desired_state = desired, sv_actual_state = actual,
                  sv_last_error_code = error_code, sv_last_error_message = error_message,
                  sv_reconnect_attempt = word_of_int reconnect_attempt, sv_latency_ms = latency,
                  sv_created_at = created_at, sv_updated_at = updated_at,
                  sv_tls_server_name = tls_server_name, sv_ca_credential_ref = ca_credential_ref,
                  sv_client_certificate_ref = client_certificate_ref,
                  sv_client_private_key_ref = client_private_key_ref,
                  sv_config_revision = word_of_int config_revision,
                  sv_managed_by_config = (managed_by_config \<noteq> 0)\<rparr>
            in if has_value (validate_server_record record) then Inr record
               else failure EC_database_error ''database contains a server row outside storage limits'')
      | _ \<Rightarrow> failure EC_database_error ''database contains an invalid server row'')"

definition read_server :: "endpoint_parser \<Rightarrow> ServerRow \<Rightarrow> ServerRecord Result" where
  "read_server parse r =
     (case
        and_then (required_text (svr_id r) ''servers.id'') (\<lambda>i.
        and_then (optional_text (svr_name r) ''servers.name'') (\<lambda>name.
        and_then (required_text (svr_endpoint r) ''servers.endpoint'') (\<lambda>endpoint_value.
        and_then (optional_text (svr_credential_ref r) ''servers.credential_ref'') (\<lambda>credential_ref.
        and_then (optional_text (svr_remote_server_id r) ''servers.remote_server_id'') (\<lambda>remote_server_id.
        and_then (required_text (svr_desired_state r) ''servers.desired_state'') (\<lambda>desired_text.
        and_then (required_text (svr_actual_state r) ''servers.actual_state'') (\<lambda>actual_text.
        and_then (optional_text (svr_last_error_code r) ''servers.last_error_code'') (\<lambda>error_text.
        and_then (optional_text (svr_last_error_message r) ''servers.last_error_message'') (\<lambda>error_message.
        and_then (required_int64 (svr_reconnect_attempt r) ''servers.reconnect_attempt'') (\<lambda>reconnect_attempt.
        and_then (optional_int64 (svr_latency_ms r) ''servers.latency_ms'') (\<lambda>latency.
        and_then (required_int64 (svr_created_at r) ''servers.created_at'') (\<lambda>created_at.
        and_then (required_int64 (svr_updated_at r) ''servers.updated_at'') (\<lambda>updated_at.
        and_then (optional_text (svr_tls_server_name r) ''servers.tls_server_name'') (\<lambda>tls_server_name.
        and_then (optional_text (svr_ca_credential_ref r) ''servers.ca_credential_ref'') (\<lambda>ca_credential_ref.
        and_then (optional_text (svr_client_certificate_ref r) ''servers.client_certificate_ref'') (\<lambda>certificate_ref.
        and_then (optional_text (svr_client_private_key_ref r) ''servers.client_private_key_ref'') (\<lambda>key_ref.
        and_then (required_int64 (svr_config_revision r) ''servers.config_revision'') (\<lambda>config_revision.
        and_then (required_int64 (svr_managed_by_config r) ''servers.managed_by_config'') (\<lambda>managed_by_config.
        Inr (server_from_columns parse i name endpoint_value credential_ref remote_server_id desired_text
               actual_text error_text error_message reconnect_attempt latency created_at updated_at
               tls_server_name ca_credential_ref certificate_ref key_ref config_revision
               managed_by_config)))))))))))))))))))) of
        Inl _ \<Rightarrow> failure EC_database_error ''database contains a malformed server row''
      | Inr result \<Rightarrow> result)"

definition tunnel_from_columns ::
  "endpoint_parser \<Rightarrow> string \<Rightarrow> string option \<Rightarrow> string \<Rightarrow> string \<Rightarrow> string \<Rightarrow> int \<Rightarrow> string \<Rightarrow> int \<Rightarrow> string \<Rightarrow>
   string \<Rightarrow> string option \<Rightarrow> string option \<Rightarrow> int \<Rightarrow> int \<Rightarrow> int option \<Rightarrow> int \<Rightarrow> int \<Rightarrow> int \<Rightarrow>
   TunnelRecord Result" where
  "tunnel_from_columns parse raw_id name server_id_text protocol_text local_host local_port remote_host
     remote_port desired_text actual_text error_text error_message created_at updated_at last_synced_at
     config_revision managed_by_config proxy_protocol =
     (case (id_parse_kind raw_id IK_tunnel, id_parse_kind server_id_text IK_server,
            read_split_endpoint parse local_host local_port ''tunnels.local_endpoint'',
            read_split_endpoint parse remote_host remote_port ''tunnels.remote_endpoint'',
            tunnel_protocol_from_string protocol_text, tunnel_desired_state_from_string desired_text,
            tunnel_actual_state_from_string actual_text) of
        (Inr i, Inr server_id, Inr local_endpoint, Inr remote_endpoint, Inr protocol, Inr desired,
         Inr actual) \<Rightarrow>
          if config_revision \<le> 0 \<or> managed_by_config \<noteq> 0 \<and> managed_by_config \<noteq> 1 \<or>
             proxy_protocol \<noteq> 0 \<and> proxy_protocol \<noteq> 1
          then failure EC_database_error ''database contains an invalid tunnel row''
          else and_then (read_error_code error_text ''tunnels.last_error_code'') (\<lambda>error_code.
            let record = \<lparr>tn_id = i, tn_name = name, tn_server_id = server_id, tn_protocol = protocol,
                  tn_local_endpoint = local_endpoint, tn_remote_endpoint = remote_endpoint,
                  tn_desired_state = desired, tn_actual_state = actual,
                  tn_last_error_code = error_code, tn_last_error_message = error_message,
                  tn_created_at = created_at, tn_updated_at = updated_at,
                  tn_last_synced_at = last_synced_at, tn_config_revision = word_of_int config_revision,
                  tn_managed_by_config = (managed_by_config \<noteq> 0),
                  tn_proxy_protocol = (proxy_protocol \<noteq> 0)\<rparr>
            in if has_value (validate_tunnel_record record) then Inr record
               else failure EC_database_error ''database contains a tunnel row outside storage limits'')
      | _ \<Rightarrow> failure EC_database_error ''database contains an invalid tunnel row'')"

definition read_tunnel :: "endpoint_parser \<Rightarrow> TunnelRow \<Rightarrow> TunnelRecord Result" where
  "read_tunnel parse r =
     (case
        and_then (required_text (tnr_id r) ''tunnels.id'') (\<lambda>i.
        and_then (optional_text (tnr_name r) ''tunnels.name'') (\<lambda>name.
        and_then (required_text (tnr_server_id r) ''tunnels.server_id'') (\<lambda>server_id_text.
        and_then (required_text (tnr_protocol r) ''tunnels.protocol'') (\<lambda>protocol_text.
        and_then (required_text (tnr_local_host r) ''tunnels.local_host'') (\<lambda>local_host.
        and_then (required_int64 (tnr_local_port r) ''tunnels.local_port'') (\<lambda>local_port.
        and_then (required_text (tnr_remote_host r) ''tunnels.remote_host'') (\<lambda>remote_host.
        and_then (required_int64 (tnr_remote_port r) ''tunnels.remote_port'') (\<lambda>remote_port.
        and_then (required_text (tnr_desired_state r) ''tunnels.desired_state'') (\<lambda>desired_text.
        and_then (required_text (tnr_actual_state r) ''tunnels.actual_state'') (\<lambda>actual_text.
        and_then (optional_text (tnr_last_error_code r) ''tunnels.last_error_code'') (\<lambda>error_text.
        and_then (optional_text (tnr_last_error_message r) ''tunnels.last_error_message'') (\<lambda>error_message.
        and_then (required_int64 (tnr_created_at r) ''tunnels.created_at'') (\<lambda>created_at.
        and_then (required_int64 (tnr_updated_at r) ''tunnels.updated_at'') (\<lambda>updated_at.
        and_then (optional_int64 (tnr_last_synced_at r) ''tunnels.last_synced_at'') (\<lambda>last_synced_at.
        and_then (required_int64 (tnr_config_revision r) ''tunnels.config_revision'') (\<lambda>config_revision.
        and_then (required_int64 (tnr_managed_by_config r) ''tunnels.managed_by_config'') (\<lambda>managed_by_config.
        and_then (required_int64 (tnr_proxy_protocol r) ''tunnels.proxy_protocol'') (\<lambda>proxy_protocol.
        Inr (tunnel_from_columns parse i name server_id_text protocol_text local_host local_port
               remote_host remote_port desired_text actual_text error_text error_message created_at
               updated_at last_synced_at config_revision managed_by_config
               proxy_protocol))))))))))))))))))) of
        Inl _ \<Rightarrow> failure EC_database_error ''database contains a malformed tunnel row''
      | Inr result \<Rightarrow> result)"

section \<open>The schema\<close>

definition text_between :: "SqlValue \<Rightarrow> nat \<Rightarrow> nat \<Rightarrow> bool" where
  "text_between v low high \<longleftrightarrow> (case v of SqlText s \<Rightarrow> low \<le> length s \<and> length s \<le> high | _ \<Rightarrow> False)"

definition null_or :: "(SqlValue \<Rightarrow> bool) \<Rightarrow> SqlValue \<Rightarrow> bool" where
  "null_or p v \<longleftrightarrow> v = SqlNull \<or> p v"

definition integer_between :: "SqlValue \<Rightarrow> int \<Rightarrow> int \<Rightarrow> bool" where
  "integer_between v low high \<longleftrightarrow> (case v of SqlInteger n \<Rightarrow> low \<le> n \<and> n \<le> high | _ \<Rightarrow> False)"

definition id_check :: "string \<Rightarrow> SqlValue \<Rightarrow> bool" where
  "id_check prefix v \<longleftrightarrow>
     (case v of SqlText s \<Rightarrow> length s = 36 \<and> take 4 s = prefix \<and> list_all is_lowercase_hex (drop 4 s)
              | _ \<Rightarrow> False)"

definition kPersistedErrorCodes :: "string list" where
  "kPersistedErrorCodes =
     [''invalid_argument'', ''not_found'', ''already_exists'', ''permission_denied'',
      ''not_authenticated'', ''authentication_failed'', ''connection_failed'',
      ''connection_timeout'', ''remote_port_in_use'', ''local_connect_failed'', ''protocol_error'',
      ''frame_too_large'', ''unsupported_version'', ''resource_exhausted'', ''database_error'',
      ''tls_error'', ''ipc_error'', ''internal_error'']"

definition server_checks :: "ServerRow \<Rightarrow> bool" where
  "server_checks r \<longleftrightarrow>
     id_check ''srv_'' (svr_id r) \<and>
     null_or (\<lambda>v. text_between v 1 64) (svr_name r) \<and>
     text_between (svr_endpoint r) 1 260 \<and>
     null_or (\<lambda>v. text_between v 1 256) (svr_credential_ref r) \<and>
     null_or (\<lambda>v. text_between v 1 256) (svr_remote_server_id r) \<and>
     svr_desired_state r \<in> SqlText ` {''enabled'', ''disabled'', ''removed''} \<and>
     svr_actual_state r \<in> SqlText `
       {''not_authenticated'', ''disconnected'', ''connecting'', ''tls_handshake'', ''authenticating'',
        ''online'', ''backoff'', ''disabled'', ''error''} \<and>
     null_or (\<lambda>v. v \<in> SqlText ` set kPersistedErrorCodes) (svr_last_error_code r) \<and>
     null_or (\<lambda>v. text_between v 0 4096) (svr_last_error_message r) \<and>
     integer_between (svr_reconnect_attempt r) 0 2147483647 \<and>
     null_or (\<lambda>v. integer_between v 0 2147483647) (svr_latency_ms r) \<and>
     (case (svr_created_at r, svr_updated_at r) of
        (SqlInteger created, SqlInteger updated) \<Rightarrow> 0 \<le> created \<and> created \<le> updated
      | _ \<Rightarrow> False) \<and>
     null_or (\<lambda>v. text_between v 1 253) (svr_tls_server_name r) \<and>
     null_or (\<lambda>v. text_between v 1 256) (svr_ca_credential_ref r) \<and>
     null_or (\<lambda>v. text_between v 1 256) (svr_client_certificate_ref r) \<and>
     null_or (\<lambda>v. text_between v 1 256) (svr_client_private_key_ref r) \<and>
     integer_between (svr_config_revision r) 1 9223372036854775807 \<and>
     integer_between (svr_managed_by_config r) 0 1"

definition tunnel_checks :: "TunnelRow \<Rightarrow> bool" where
  "tunnel_checks r \<longleftrightarrow>
     id_check ''tun_'' (tnr_id r) \<and>
     null_or (\<lambda>v. text_between v 1 64) (tnr_name r) \<and>
     id_check ''srv_'' (tnr_server_id r) \<and>
     tnr_protocol r \<in> SqlText ` {''tcp'', ''udp'', ''socks5'', ''p2p''} \<and>
     text_between (tnr_local_host r) 1 254 \<and> integer_between (tnr_local_port r) 1 65535 \<and>
     text_between (tnr_remote_host r) 1 254 \<and> integer_between (tnr_remote_port r) 1 65535 \<and>
     tnr_desired_state r \<in> SqlText ` {''active'', ''disabled'', ''removed''} \<and>
     tnr_actual_state r \<in> SqlText `
       {''pending'', ''registering'', ''active'', ''failed'', ''removing'', ''disabled''} \<and>
     null_or (\<lambda>v. v \<in> SqlText ` set kPersistedErrorCodes) (tnr_last_error_code r) \<and>
     null_or (\<lambda>v. text_between v 0 4096) (tnr_last_error_message r) \<and>
     (case (tnr_created_at r, tnr_updated_at r) of
        (SqlInteger created, SqlInteger updated) \<Rightarrow>
          0 \<le> created \<and> created \<le> updated \<and>
          null_or (\<lambda>v. integer_between v created updated) (tnr_last_synced_at r)
      | _ \<Rightarrow> False) \<and>
     integer_between (tnr_config_revision r) 1 9223372036854775807 \<and>
     integer_between (tnr_managed_by_config r) 0 1 \<and> integer_between (tnr_proxy_protocol r) 0 1"

record Tables =
  tb_servers :: "ServerRow list"
  tb_tunnels :: "TunnelRow list"
  tb_identity :: "SqlValue list"

definition tunnel_route :: "TunnelRow \<Rightarrow> SqlValue \<times> SqlValue \<times> SqlValue \<times> SqlValue" where
  "tunnel_route r = (tnr_server_id r, tnr_protocol r, tnr_remote_host r, tnr_remote_port r)"

text \<open>\<open>UNIQUE\<close> treats no two \<open>NULL\<close>s as equal.\<close>

definition names_unique :: "ServerRow list \<Rightarrow> bool" where
  "names_unique rows \<longleftrightarrow> distinct (filter (\<lambda>v. v \<noteq> SqlNull) (map svr_name rows))"

definition insert_server :: "ServerRow \<Rightarrow> Tables \<Rightarrow> SqlFailure + Tables" where
  "insert_server r t =
     (if \<not> server_checks r then Inl SF_constraint
      else if svr_id r \<in> svr_id ` set (tb_servers t) then Inl SF_primary_key
      else if \<not> names_unique (tb_servers t @ [r]) then Inl SF_unique
      else Inr (t\<lparr>tb_servers := tb_servers t @ [r]\<rparr>))"

definition insert_tunnel :: "TunnelRow \<Rightarrow> Tables \<Rightarrow> SqlFailure + Tables" where
  "insert_tunnel r t =
     (if \<not> tunnel_checks r then Inl SF_constraint
      else if tnr_id r \<in> tnr_id ` set (tb_tunnels t) then Inl SF_primary_key
      else if tunnel_route r \<in> tunnel_route ` set (tb_tunnels t) then Inl SF_unique
      else if tnr_server_id r \<notin> svr_id ` set (tb_servers t) then Inl SF_foreign_key
      else Inr (t\<lparr>tb_tunnels := tb_tunnels t @ [r]\<rparr>))"

definition update_where :: "('r \<Rightarrow> bool) \<Rightarrow> ('r \<Rightarrow> 'r) \<Rightarrow> 'r list \<Rightarrow> 'r list" where
  "update_where p f rows = map (\<lambda>r. if p r then f r else r) rows"

text \<open>
  An \<open>UPDATE\<close> yields the number of rows it changed and the new tables.  No statement of the sources
  assigns the primary key.
\<close>

definition update_servers ::
  "(ServerRow \<Rightarrow> bool) \<Rightarrow> (ServerRow \<Rightarrow> ServerRow) \<Rightarrow> Tables \<Rightarrow> SqlFailure + nat \<times> Tables" where
  "update_servers p f t =
     (let changed = filter p (tb_servers t); rows = update_where p f (tb_servers t)
      in if \<not> list_all (\<lambda>r. server_checks (f r)) changed then Inl SF_constraint
         else if \<not> names_unique rows then Inl SF_unique
         else Inr (length changed, t\<lparr>tb_servers := rows\<rparr>))"

definition update_tunnels ::
  "(TunnelRow \<Rightarrow> bool) \<Rightarrow> (TunnelRow \<Rightarrow> TunnelRow) \<Rightarrow> Tables \<Rightarrow> SqlFailure + nat \<times> Tables" where
  "update_tunnels p f t =
     (let changed = filter p (tb_tunnels t); rows = update_where p f (tb_tunnels t)
      in if \<not> list_all (\<lambda>r. tunnel_checks (f r)) changed then Inl SF_constraint
         else if \<not> distinct (map tunnel_route rows) then Inl SF_unique
         else if \<not> list_all (\<lambda>r. tnr_server_id (f r) \<in> svr_id ` set (tb_servers t)) changed
         then Inl SF_foreign_key
         else Inr (length changed, t\<lparr>tb_tunnels := rows\<rparr>))"

text \<open>Deleting a server cascades to its tunnels.\<close>

definition delete_server :: "SqlValue \<Rightarrow> Tables \<Rightarrow> nat \<times> Tables" where
  "delete_server i t =
     (length (filter (\<lambda>r. svr_id r = i) (tb_servers t)),
      t\<lparr>tb_servers := filter (\<lambda>r. svr_id r \<noteq> i) (tb_servers t),
        tb_tunnels := (if i \<in> svr_id ` set (tb_servers t)
                       then filter (\<lambda>r. tnr_server_id r \<noteq> i) (tb_tunnels t) else tb_tunnels t)\<rparr>)"

definition delete_tunnel :: "SqlValue \<Rightarrow> Tables \<Rightarrow> nat \<times> Tables" where
  "delete_tunnel i t =
     (length (filter (\<lambda>r. tnr_id r = i) (tb_tunnels t)),
      t\<lparr>tb_tunnels := filter (\<lambda>r. tnr_id r \<noteq> i) (tb_tunnels t)\<rparr>)"

section \<open>Transactions\<close>

record Database =
  db_tables :: Tables
  db_begun :: "Tables option"
  db_transaction_active :: bool
  db_poisoned :: bool

record Transaction =
  tx_failure :: "Error option"
  tx_active :: bool

definition db_durable :: "Database \<Rightarrow> Tables" where
  "db_durable db = (case db_begun db of None \<Rightarrow> db_tables db | Some t \<Rightarrow> t)"

definition db_restore :: "Database \<Rightarrow> Database" where
  "db_restore db = db\<lparr>db_tables := db_durable db, db_begun := None\<rparr>"

definition begin_transaction :: "Sqlite \<Rightarrow> Database \<Rightarrow> (Transaction \<times> Database) Result" where
  "begin_transaction sq db =
     (if db_poisoned db
      then failure EC_database_error ''SQLite connection is unusable after a rollback failure''
      else if db_transaction_active db
      then failure EC_invalid_argument ''nested SQLite transactions are not supported''
      else and_then (run_statement sq ''begin SQLite transaction'' (Inr ())) (\<lambda>_.
        Inr (\<lparr>tx_failure = None, tx_active = True\<rparr>,
             db\<lparr>db_begun := Some (db_tables db), db_transaction_active := True\<rparr>)))"

definition mark_failed :: "Error \<Rightarrow> Transaction \<Rightarrow> Transaction" where
  "mark_failed e tx = (if tx_failure tx = None then tx\<lparr>tx_failure := Some e\<rparr> else tx)"

definition transaction_rollback ::
  "Sqlite \<Rightarrow> Transaction \<Rightarrow> Database \<Rightarrow> unit Result \<times> Transaction \<times> Database" where
  "transaction_rollback sq tx db =
     (if \<not> tx_active tx
      then (failure EC_invalid_argument ''transaction is no longer active'', tx, db)
      else (let rolled_back = run_statement sq ''roll back SQLite transaction'' (Inr ())
            in if has_value rolled_back \<or> sq_autocommit sq
               then (rolled_back, tx\<lparr>tx_active := False\<rparr>,
                     (db_restore db)\<lparr>db_transaction_active := False\<rparr>)
               else (rolled_back, tx, db)))"

definition transaction_commit ::
  "Sqlite \<Rightarrow> Transaction \<Rightarrow> Database \<Rightarrow> unit Result \<times> Transaction \<times> Database" where
  "transaction_commit sq tx db =
     (if \<not> tx_active tx
      then (failure EC_invalid_argument ''transaction is no longer active'', tx, db)
      else (case tx_failure tx of
              Some original \<Rightarrow>
                (case transaction_rollback sq tx db of
                   (Inl _, tx', db') \<Rightarrow>
                     (failure (code original)
                        (message original @ ''; the transaction rollback also failed''), tx', db')
                 | (Inr _, tx', db') \<Rightarrow> (Inl original, tx', db'))
            | None \<Rightarrow>
                (case run_statement sq ''commit SQLite transaction'' (Inr ()) of
                   Inl original \<Rightarrow>
                     (case transaction_rollback sq (tx\<lparr>tx_failure := Some original\<rparr>) db of
                        (Inl _, tx', db') \<Rightarrow>
                          (failure (code original)
                             (message original @ ''; the failed commit could not be rolled back''),
                           tx', db')
                      | (Inr _, tx', db') \<Rightarrow> (Inl original, tx', db'))
                 | Inr _ \<Rightarrow>
                     (Inr (), tx\<lparr>tx_active := False\<rparr>,
                      db\<lparr>db_begun := None, db_transaction_active := False\<rparr>))))"

definition rollback_noexcept :: "Sqlite \<Rightarrow> Transaction \<Rightarrow> Database \<Rightarrow> Database" where
  "rollback_noexcept sq tx db =
     (if \<not> tx_active tx then db
      else if sq_fault sq ''roll back SQLite transaction'' \<noteq> None \<and> \<not> sq_autocommit sq
      then db\<lparr>db_poisoned := True, db_transaction_active := False\<rparr>
      else (db_restore db)\<lparr>db_transaction_active := False\<rparr>)"

text \<open>
  The shape of every public operation that changes the database: begin, run the body, commit if it
  succeeded; the destructor of the transaction runs in any case.
\<close>

definition with_transaction ::
  "Sqlite \<Rightarrow> (Transaction \<Rightarrow> Database \<Rightarrow> 'a Result \<times> Transaction \<times> Database) \<Rightarrow> Database \<Rightarrow>
   'a Result \<times> Database" where
  "with_transaction sq body db =
     (case begin_transaction sq db of
        Inl e \<Rightarrow> (Inl e, db)
      | Inr (tx, db1) \<Rightarrow>
          (case body tx db1 of
             (Inl e, tx2, db2) \<Rightarrow> (Inl e, rollback_noexcept sq tx2 db2)
           | (Inr v, tx2, db2) \<Rightarrow>
               (case transaction_commit sq tx2 db2 of
                  (Inl e, tx3, db3) \<Rightarrow> (Inl e, rollback_noexcept sq tx3 db3)
                | (Inr _, tx3, db3) \<Rightarrow> (Inr v, rollback_noexcept sq tx3 db3))))"

definition transaction_error :: Error where
  "transaction_error =
     Error EC_invalid_argument ''transaction is inactive, failed, or belongs to another database''"

text \<open>The shape of an operation inside a transaction of the caller.\<close>

definition in_transaction ::
  "(Database \<Rightarrow> Tables Result) \<Rightarrow> Transaction \<Rightarrow> Database \<Rightarrow> unit Result \<times> Transaction \<times> Database" where
  "in_transaction op tx db =
     (if \<not> tx_active tx \<or> tx_failure tx \<noteq> None then (Inl transaction_error, tx, db)
      else (case op db of
              Inl e \<Rightarrow> (Inl e, mark_failed e tx, db)
            | Inr t \<Rightarrow> (Inr (), tx, db\<lparr>db_tables := t\<rparr>)))"

section \<open>Atomicity\<close>

definition db_ready :: "Database \<Rightarrow> bool" where
  "db_ready db \<longleftrightarrow>
     \<not> db_transaction_active db \<and> (if db_poisoned db then db_begun db \<noteq> None else db_begun db = None)"

lemma db_durable_simps [simp]:
  "db_durable (db_restore db) = db_durable db"
  "db_durable (db\<lparr>db_transaction_active := a\<rparr>) = db_durable db"
  "db_durable (db\<lparr>db_poisoned := b\<rparr>) = db_durable db"
  by (simp_all add: db_durable_def db_restore_def split: option.splits)

text \<open>What a body leaves behind when it ran inside its transaction.\<close>

definition body_ok :: "(Transaction \<Rightarrow> Database \<Rightarrow> 'a Result \<times> Transaction \<times> Database) \<Rightarrow> bool" where
  "body_ok body \<longleftrightarrow>
     (\<forall>tx db. tx_active tx \<and> \<not> db_poisoned db \<longrightarrow>
        (case body tx db of (r, tx', db') \<Rightarrow>
           tx_active tx' \<and> db_begun db' = db_begun db \<and> \<not> db_poisoned db' \<and>
           (has_value r \<longrightarrow> tx_failure tx' = tx_failure tx)))"

lemma body_okD:
  assumes "body_ok body" "tx_active tx" "\<not> db_poisoned db" "body tx db = (r, tx', db')"
  shows "tx_active tx'" "db_begun db' = db_begun db" "\<not> db_poisoned db'"
    "has_value r \<Longrightarrow> tx_failure tx' = tx_failure tx"
  using assms unfolding body_ok_def by fastforce+

lemma in_transaction_ok: "body_ok (in_transaction op)"
  by (auto simp: body_ok_def in_transaction_def mark_failed_def has_value_iff split: sum.splits)

lemma rollback_noexcept_durable:
  assumes "db_begun db = Some t" "tx_active tx" "\<not> db_poisoned db"
  shows "db_durable (rollback_noexcept sq tx db) = t" "db_ready (rollback_noexcept sq tx db)"
  using assms
  by (auto simp: rollback_noexcept_def db_durable_def db_restore_def db_ready_def)

lemma commit_failed:
  assumes "transaction_commit sq tx db = (Inl e, tx', db')" "tx_active tx" "db_begun db = Some t"
    "\<not> db_poisoned db"
  shows "db_durable (rollback_noexcept sq tx' db') = t \<and> db_ready (rollback_noexcept sq tx' db')"
  using assms
  by (auto simp: transaction_commit_def transaction_rollback_def rollback_noexcept_def db_durable_def
      db_restore_def db_ready_def Let_def has_value_iff run_statement_def
      split: option.splits sum.splits if_splits)

lemma commit_done:
  assumes "transaction_commit sq tx db = (Inr u, tx', db')" "tx_active tx" "\<not> db_poisoned db"
  shows "tx_failure tx = None \<and> db_durable (rollback_noexcept sq tx' db') = db_tables db \<and>
    db_ready (rollback_noexcept sq tx' db') \<and> \<not> db_poisoned (rollback_noexcept sq tx' db')"
  using assms
  by (auto simp: transaction_commit_def transaction_rollback_def rollback_noexcept_def db_durable_def
      db_ready_def Let_def split: option.splits sum.splits if_splits)

text \<open>
  An operation either returns a value and has made the tables of its body durable, or returns an
  error and has left the durable tables as they were.
\<close>

lemma with_transaction_atomic:
  assumes "body_ok body" "db_ready db"
  shows "(case with_transaction sq body db of
      (Inl e, db') \<Rightarrow> db_durable db' = db_durable db \<and> db_ready db'
    | (Inr v, db') \<Rightarrow> \<not> db_poisoned db \<and> db_ready db' \<and> \<not> db_poisoned db' \<and>
        (\<exists>tx db1 tx2 db2. body tx db1 = (Inr v, tx2, db2) \<and> tx_active tx \<and> tx_failure tx = None \<and>
           db_tables db1 = db_tables db \<and> \<not> db_poisoned db1 \<and> db_durable db' = db_tables db2))"
proof (cases "begin_transaction sq db")
  case (Inl e)
  then show ?thesis using assms(2) by (simp add: with_transaction_def)
next
  case (Inr txdb)
  then obtain tx db1 where txdb: "txdb = (tx, db1)" by fastforce
  with Inr have b: "tx_active tx" "tx_failure tx = None" "\<not> db_poisoned db"
    "db1 = db\<lparr>db_begun := Some (db_tables db), db_transaction_active := True\<rparr>"
    by (auto simp: begin_transaction_def and_then_Inr_iff split: if_splits)
  have durable: "db_durable db = db_tables db" using assms(2) b(3) by (simp add: db_ready_def db_durable_def)
  obtain r tx2 db2 where body: "body tx db1 = (r, tx2, db2)" by (metis prod_cases3)
  have ok: "tx_active tx2" "db_begun db2 = Some (db_tables db)" "\<not> db_poisoned db2"
    using body_okD [OF assms(1) b(1) _ body] b(3,4) by simp_all
  show ?thesis
  proof (cases r)
    case (Inl e)
    then show ?thesis
      using Inr txdb body rollback_noexcept_durable [OF ok(2,1,3)] durable
      by (simp add: with_transaction_def)
  next
    case val: (Inr v)
    obtain c tx3 db3 where c: "transaction_commit sq tx2 db2 = (c, tx3, db3)" by (metis prod_cases3)
    show ?thesis
    proof (cases c)
      case (Inl e)
      then show ?thesis
        using Inr txdb body val c commit_failed [OF c [unfolded Inl] ok(1,2,3)] durable
        by (simp add: with_transaction_def)
    next
      case committed: (Inr u)
      have "body tx db1 = (Inr v, tx2, db2) \<and> tx_active tx \<and> tx_failure tx = None \<and>
          db_tables db1 = db_tables db \<and> \<not> db_poisoned db1"
        using body val b by simp
      then show ?thesis
        using Inr txdb body val c committed commit_done [OF c [unfolded committed] ok(1,3)] b(3)
        by (simp add: with_transaction_def) blast
    qed
  qed
qed

end
