(* ===== verification/Storage_Repositories.thy ===== *)
theory Storage_Repositories
  imports Storage_Database "HOL-Library.List_Lexorder" "HOL-Library.Char_ord"
begin

text \<open>
  \<open>src/storage/server_repository.cpp\<close>, \<open>src/storage/tunnel_repository.cpp\<close> and
  \<open>src/storage/state_repository.cpp\<close>: the operations on persisted servers and tunnels, the daemon's
  identity and the recovery of the state after a restart.

  The overloads with a \<open>Transaction\<close> argument are the functions with \<open>_in\<close>; the others wrap them in
  a transaction of their own.  The argument \<open>parse\<close> is \<open>Endpoint::parse\<close>.
\<close>

section \<open>Statements and queries\<close>

definition unusable :: "'a Result" where
  "unusable = failure EC_database_error ''SQLite connection is unusable''"

definition sql_max :: "SqlValue \<Rightarrow> SqlValue \<Rightarrow> SqlValue" where
  "sql_max a b = (case (a, b) of (SqlInteger x, SqlInteger y) \<Rightarrow> SqlInteger (max x y) | _ \<Rightarrow> SqlNull)"

definition integer_of :: "SqlValue \<Rightarrow> int" where
  "integer_of v = (case v of SqlInteger n \<Rightarrow> n | _ \<Rightarrow> 0)"

definition text_of :: "SqlValue \<Rightarrow> string" where
  "text_of v = (case v of SqlText s \<Rightarrow> s | _ \<Rightarrow> [])"

text \<open>The loop of \<open>list\<close>, with the number of records it already holds.\<close>

fun read_rows :: "('row \<Rightarrow> 'a Result) \<Rightarrow> nat \<Rightarrow> string \<Rightarrow> nat \<Rightarrow> 'row list \<Rightarrow> 'a list Result" where
  "read_rows read max_records limit_message n [] = Inr []"
| "read_rows read max_records limit_message n (r # rs) =
     (if max_records \<le> n then failure EC_resource_exhausted limit_message
      else and_then (read r) (\<lambda>x.
        and_then (read_rows read max_records limit_message (Suc n) rs) (\<lambda>xs. Inr (x # xs))))"

definition single_row :: "('row \<Rightarrow> 'a Result) \<Rightarrow> string \<Rightarrow> string \<Rightarrow> 'row list \<Rightarrow> 'a Result" where
  "single_row read missing_message duplicate_message rows =
     (case rows of
        [] \<Rightarrow> failure EC_not_found missing_message
      | r # rest \<Rightarrow> and_then (read r) (\<lambda>x.
          if rest \<noteq> [] then failure EC_database_error duplicate_message else Inr x))"

definition changed_one :: "string \<Rightarrow> nat \<times> Tables \<Rightarrow> Tables Result" where
  "changed_one missing_message = (\<lambda>(n, t). if n \<noteq> 1 then failure EC_not_found missing_message else Inr t)"

section \<open>Tunnels\<close>

definition tunnel_get_by_id ::
  "Sqlite \<Rightarrow> endpoint_parser \<Rightarrow> Id \<Rightarrow> Database \<Rightarrow> TunnelRecord Result" where
  "tunnel_get_by_id sq parse i db =
     (if id_kind i \<noteq> IK_tunnel then failure EC_invalid_argument ''tunnel lookup requires a tunnel ID''
      else if db_poisoned db then unusable
      else and_then (run_statement sq ''select tunnel by ID''
             (Inr (filter (\<lambda>r. tnr_id r = SqlText (id_text i)) (tb_tunnels (db_tables db)))))
           (single_row (read_tunnel parse) ''tunnel record was not found''
              ''tunnel ID lookup returned duplicate rows''))"

definition tunnel_get_by_name ::
  "Sqlite \<Rightarrow> endpoint_parser \<Rightarrow> string \<Rightarrow> Database \<Rightarrow> TunnelRecord Result" where
  "tunnel_get_by_name sq parse name db =
     and_then (validate_text name 1 kMaxNameBytes ''tunnel name'') (\<lambda>_.
       if db_poisoned db then unusable
       else and_then (run_statement sq ''select tunnel by name''
              (Inr (take 2 (sort_key (\<lambda>r. text_of (tnr_id r))
                (filter (\<lambda>r. tnr_name r = SqlText name) (tb_tunnels (db_tables db)))))))
            (\<lambda>rows. case rows of
                 [] \<Rightarrow> failure EC_not_found ''tunnel record was not found''
               | r # rest \<Rightarrow> and_then (read_tunnel parse r) (\<lambda>record.
                   case rest of
                     [] \<Rightarrow> Inr record
                   | duplicate # _ \<Rightarrow> and_then (read_tunnel parse duplicate) (\<lambda>_.
                       failure EC_invalid_argument
                         ''tunnel name is ambiguous; use the tunnel ID or a server-qualified list''))))"

definition tunnel_order :: "TunnelRow list \<Rightarrow> TunnelRow list" where
  "tunnel_order rows =
     sort_key (\<lambda>r. integer_of (tnr_created_at r)) (sort_key (\<lambda>r. text_of (tnr_id r)) rows)"

definition tunnel_list ::
  "Sqlite \<Rightarrow> endpoint_parser \<Rightarrow> nat \<Rightarrow> Database \<Rightarrow> TunnelRecord list Result" where
  "tunnel_list sq parse max_records db =
     (if db_poisoned db then unusable
      else and_then (run_statement sq ''list tunnels'' (Inr (tunnel_order (tb_tunnels (db_tables db)))))
        (read_rows (read_tunnel parse) max_records
           ''persisted tunnel count exceeds the configured limit'' 0))"

definition tunnel_list_by_server ::
  "Sqlite \<Rightarrow> endpoint_parser \<Rightarrow> nat \<Rightarrow> Id \<Rightarrow> Database \<Rightarrow> TunnelRecord list Result" where
  "tunnel_list_by_server sq parse max_records server_id db =
     (if id_kind server_id \<noteq> IK_server
      then failure EC_invalid_argument ''tunnel list requires a server ID''
      else if db_poisoned db then unusable
      else and_then (run_statement sq ''list tunnels by server''
             (Inr (tunnel_order (filter (\<lambda>r. tnr_server_id r = SqlText (id_text server_id))
                (tb_tunnels (db_tables db))))))
        (read_rows (read_tunnel parse) max_records
           ''persisted tunnel count exceeds the configured limit'' 0))"

definition tunnel_create_in ::
  "Sqlite \<Rightarrow> nat \<Rightarrow> TunnelRecord \<Rightarrow> Transaction \<Rightarrow> Database \<Rightarrow> unit Result \<times> Transaction \<times> Database" where
  "tunnel_create_in sq max_records record = in_transaction (\<lambda>db.
     and_then (validate_tunnel_record record) (\<lambda>_.
     and_then (run_statement sq ''count persisted tunnels'' (Inr (length (tb_tunnels (db_tables db))))) (\<lambda>count.
     if max_records \<le> count
     then failure EC_resource_exhausted ''configured tunnel storage limit reached''
     else run_statement sq ''insert tunnel record''
            (insert_tunnel (tunnel_bindings record) (db_tables db)))))"

definition tunnel_create ::
  "Sqlite \<Rightarrow> nat \<Rightarrow> TunnelRecord \<Rightarrow> Database \<Rightarrow> unit Result \<times> Database" where
  "tunnel_create sq max_records record = with_transaction sq (tunnel_create_in sq max_records record)"

definition tunnel_assign :: "TunnelRecord \<Rightarrow> TunnelRow \<Rightarrow> TunnelRow" where
  "tunnel_assign record r =
     (tunnel_bindings record)\<lparr>tnr_id := tnr_id r, tnr_created_at := tnr_created_at r\<rparr>"

definition tunnel_update_in ::
  "Sqlite \<Rightarrow> endpoint_parser \<Rightarrow> TunnelRecord \<Rightarrow> Transaction \<Rightarrow> Database \<Rightarrow>
   unit Result \<times> Transaction \<times> Database" where
  "tunnel_update_in sq parse record = in_transaction (\<lambda>db.
     and_then (validate_tunnel_record record) (\<lambda>_.
     and_then (tunnel_get_by_id sq parse (tn_id record) db) (\<lambda>existing.
     if tn_created_at record \<noteq> tn_created_at existing \<or>
        tn_updated_at record < tn_updated_at existing \<or>
        tn_config_revision record < tn_config_revision existing
     then failure EC_invalid_argument
            ''tunnel creation time is immutable and update time/revision must not move backward''
     else and_then (run_statement sq ''update tunnel record''
            (update_tunnels (\<lambda>r. tnr_id r = SqlText (id_text (tn_id record))) (tunnel_assign record)
               (db_tables db)))
          (changed_one ''tunnel record was not found''))))"

definition tunnel_update ::
  "Sqlite \<Rightarrow> endpoint_parser \<Rightarrow> TunnelRecord \<Rightarrow> Database \<Rightarrow> unit Result \<times> Database" where
  "tunnel_update sq parse record = with_transaction sq (tunnel_update_in sq parse record)"

definition plain_statement ::
  "(Tables \<Rightarrow> (nat \<times> Tables) Result) \<Rightarrow> Transaction \<Rightarrow> Database \<Rightarrow> nat Result \<times> Transaction \<times> Database" where
  "plain_statement op tx db =
     (case op (db_tables db) of
        Inl e \<Rightarrow> (Inl e, tx, db)
      | Inr (n, t) \<Rightarrow> (Inr n, tx, db\<lparr>db_tables := t\<rparr>))"

definition pending_row :: "Error option \<Rightarrow> int \<Rightarrow> TunnelRow \<Rightarrow> TunnelRow" where
  "pending_row error updated_at r =
     r\<lparr>tnr_actual_state := SqlText ''pending'',
       tnr_last_error_code := bind_optional_error (map_option code error),
       tnr_last_error_message := bind_optional_text (map_option message error),
       tnr_updated_at := sql_max (tnr_updated_at r) (SqlInteger updated_at)\<rparr>"

definition mark_active_pending_by_server ::
  "Sqlite \<Rightarrow> Id \<Rightarrow> Error option \<Rightarrow> int \<Rightarrow> Database \<Rightarrow> nat Result \<times> Database" where
  "mark_active_pending_by_server sq server_id error updated_at db =
     (if id_kind server_id \<noteq> IK_server \<or> updated_at < 0
      then (failure EC_invalid_argument
              ''batch tunnel update requires a server ID and non-negative time'', db)
      else if case error of None \<Rightarrow> False | Some e \<Rightarrow> \<not> is_known_error_code (code e)
      then (failure EC_invalid_argument ''batch tunnel update requires a known non-ok error code'', db)
      else (case validate_optional_text (map_option message error) 0 kMaxErrorMessageBytes
                   ''last_error_message'' of
              Inl e \<Rightarrow> (Inl e, db)
            | Inr _ \<Rightarrow> with_transaction sq (plain_statement (\<lambda>t.
                run_statement sq ''mark active server tunnels pending''
                  (update_tunnels (\<lambda>r. tnr_server_id r = SqlText (id_text server_id) \<and>
                     tnr_desired_state r = SqlText ''active'') (pending_row error updated_at) t))) db))"

definition runtime_row ::
  "TunnelActualState \<Rightarrow> Error option \<Rightarrow> int \<Rightarrow> bool \<Rightarrow> TunnelRow \<Rightarrow> TunnelRow" where
  "runtime_row actual_state error updated_at synchronized r =
     r\<lparr>tnr_actual_state := SqlText (tunnel_actual_state_to_string actual_state),
       tnr_last_error_code := bind_optional_error (map_option code error),
       tnr_last_error_message := bind_optional_text (map_option message error),
       tnr_updated_at := sql_max (tnr_updated_at r) (SqlInteger updated_at),
       tnr_last_synced_at := (if synchronized then sql_max (tnr_updated_at r) (SqlInteger updated_at)
                              else tnr_last_synced_at r)\<rparr>"

definition runtime_matches :: "Id \<Rightarrow> Id \<Rightarrow> u64 \<Rightarrow> TunnelActualState \<Rightarrow> TunnelRow \<Rightarrow> bool" where
  "runtime_matches i server_id expected_revision actual_state r \<longleftrightarrow>
     tnr_id r = SqlText (id_text i) \<and> tnr_server_id r = SqlText (id_text server_id) \<and>
     (if actual_state = TAS_disabled then tnr_desired_state r = SqlText ''disabled''
      else tnr_desired_state r = SqlText ''active'') \<and>
     tnr_config_revision r = SqlInteger (sint expected_revision)"

definition update_runtime_state_if_revision ::
  "Sqlite \<Rightarrow> Id \<Rightarrow> Id \<Rightarrow> u64 \<Rightarrow> TunnelActualState \<Rightarrow> Error option \<Rightarrow> int \<Rightarrow> bool \<Rightarrow> Database \<Rightarrow>
   bool Result \<times> Database" where
  "update_runtime_state_if_revision sq i server_id expected_revision actual_state error updated_at
     synchronized db =
     (if id_kind i \<noteq> IK_tunnel \<or> id_kind server_id \<noteq> IK_server \<or> expected_revision = 0 \<or>
         9223372036854775807 < expected_revision \<or> updated_at < 0 \<or>
         actual_state \<notin> {TAS_pending, TAS_registering, TAS_active, TAS_failed, TAS_disabled}
      then (failure EC_invalid_argument ''conditional tunnel transition arguments are invalid'', db)
      else if case error of None \<Rightarrow> False
                          | Some e \<Rightarrow> code e = EC_ok \<or> kMaxErrorMessageBytes < length (message e)
      then (failure EC_invalid_argument ''conditional tunnel transition error is invalid'', db)
      else apfst (map_sum (\<lambda>e. e) (\<lambda>n. n = 1))
        (with_transaction sq (plain_statement (\<lambda>t.
           run_statement sq ''conditionally update tunnel runtime state''
             (update_tunnels (runtime_matches i server_id expected_revision actual_state)
                (runtime_row actual_state error updated_at synchronized) t))) db))"

definition removed_row :: "SqlValue \<Rightarrow> TunnelRow \<Rightarrow> TunnelRow" where
  "removed_row updated_at r =
     r\<lparr>tnr_desired_state := SqlText ''removed'', tnr_actual_state := SqlText ''removing'',
       tnr_updated_at := updated_at\<rparr>"

definition tunnel_mark_removed_in ::
  "Sqlite \<Rightarrow> endpoint_parser \<Rightarrow> Id \<Rightarrow> int \<Rightarrow> Transaction \<Rightarrow> Database \<Rightarrow>
   unit Result \<times> Transaction \<times> Database" where
  "tunnel_mark_removed_in sq parse i updated_at = in_transaction (\<lambda>db.
     if id_kind i \<noteq> IK_tunnel \<or> updated_at < 0
     then failure EC_invalid_argument ''tunnel removal requires a tunnel ID and non-negative time''
     else and_then (tunnel_get_by_id sq parse i db) (\<lambda>existing.
       if updated_at < tn_updated_at existing
       then failure EC_invalid_argument ''tunnel update time must not move backward''
       else and_then (run_statement sq ''mark tunnel removed''
              (update_tunnels (\<lambda>r. tnr_id r = SqlText (id_text i)) (removed_row (SqlInteger updated_at))
                 (db_tables db)))
            (changed_one ''tunnel record was not found'')))"

definition tunnel_mark_removed ::
  "Sqlite \<Rightarrow> endpoint_parser \<Rightarrow> Id \<Rightarrow> int \<Rightarrow> Database \<Rightarrow> unit Result \<times> Database" where
  "tunnel_mark_removed sq parse i updated_at =
     with_transaction sq (tunnel_mark_removed_in sq parse i updated_at)"

definition tunnel_erase_in ::
  "Sqlite \<Rightarrow> endpoint_parser \<Rightarrow> Id \<Rightarrow> Transaction \<Rightarrow> Database \<Rightarrow> unit Result \<times> Transaction \<times> Database" where
  "tunnel_erase_in sq parse i = in_transaction (\<lambda>db.
     if id_kind i \<noteq> IK_tunnel then failure EC_invalid_argument ''tunnel erase requires a tunnel ID''
     else and_then (tunnel_get_by_id sq parse i db) (\<lambda>existing.
       if tn_desired_state existing \<noteq> TDS_removed \<or> tn_actual_state existing \<noteq> TAS_removing
       then failure EC_invalid_argument
              ''tunnel must be a reconciled removal tombstone before physical erase''
       else and_then (run_statement sq ''erase tunnel record''
              (Inr (delete_tunnel (SqlText (id_text i)) (db_tables db))))
            (changed_one ''tunnel record was not found'')))"

definition tunnel_erase ::
  "Sqlite \<Rightarrow> endpoint_parser \<Rightarrow> Id \<Rightarrow> Database \<Rightarrow> unit Result \<times> Database" where
  "tunnel_erase sq parse i = with_transaction sq (tunnel_erase_in sq parse i)"

section \<open>Servers\<close>

definition has_non_tombstone_children ::
  "Sqlite \<Rightarrow> Id \<Rightarrow> int option \<Rightarrow> Tables \<Rightarrow> bool Result" where
  "has_non_tombstone_children sq server_id newer_than t =
     run_statement sq ''inspect child tunnel tombstones''
       (Inr (list_ex (\<lambda>r. tnr_server_id r = SqlText (id_text server_id) \<and>
          (tnr_desired_state r \<noteq> SqlText ''removed'' \<or> tnr_actual_state r \<noteq> SqlText ''removing'') \<and>
          (case newer_than of None \<Rightarrow> True | Some n \<Rightarrow> n < integer_of (tnr_updated_at r)))
        (tb_tunnels t)))"

definition server_get_by_id ::
  "Sqlite \<Rightarrow> endpoint_parser \<Rightarrow> Id \<Rightarrow> Database \<Rightarrow> ServerRecord Result" where
  "server_get_by_id sq parse i db =
     (if id_kind i \<noteq> IK_server then failure EC_invalid_argument ''server lookup requires a server ID''
      else if db_poisoned db then unusable
      else and_then (run_statement sq ''select server by ID''
             (Inr (filter (\<lambda>r. svr_id r = SqlText (id_text i)) (tb_servers (db_tables db)))))
           (single_row (read_server parse) ''server record was not found''
              ''server ID lookup returned duplicate rows''))"

definition server_get_by_name ::
  "Sqlite \<Rightarrow> endpoint_parser \<Rightarrow> string \<Rightarrow> Database \<Rightarrow> ServerRecord Result" where
  "server_get_by_name sq parse name db =
     and_then (validate_text name 1 kMaxNameBytes ''server name'') (\<lambda>_.
       if db_poisoned db then unusable
       else and_then (run_statement sq ''select server by name''
              (Inr (filter (\<lambda>r. svr_name r = SqlText name) (tb_servers (db_tables db)))))
            (single_row (read_server parse) ''server record was not found''
               ''server name uniqueness is corrupted''))"

definition server_order :: "ServerRow list \<Rightarrow> ServerRow list" where
  "server_order rows =
     sort_key (\<lambda>r. integer_of (svr_created_at r)) (sort_key (\<lambda>r. text_of (svr_id r)) rows)"

definition server_list ::
  "Sqlite \<Rightarrow> endpoint_parser \<Rightarrow> nat \<Rightarrow> Database \<Rightarrow> ServerRecord list Result" where
  "server_list sq parse max_records db =
     (if db_poisoned db then unusable
      else and_then (run_statement sq ''list servers'' (Inr (server_order (tb_servers (db_tables db)))))
        (read_rows (read_server parse) max_records
           ''persisted server count exceeds the configured limit'' 0))"

definition server_create_in ::
  "Sqlite \<Rightarrow> nat \<Rightarrow> ServerRecord \<Rightarrow> Transaction \<Rightarrow> Database \<Rightarrow> unit Result \<times> Transaction \<times> Database" where
  "server_create_in sq max_records record = in_transaction (\<lambda>db.
     and_then (validate_server_record record) (\<lambda>_.
     and_then (run_statement sq ''count persisted servers'' (Inr (length (tb_servers (db_tables db))))) (\<lambda>count.
     if max_records \<le> count
     then failure EC_resource_exhausted ''configured server storage limit reached''
     else run_statement sq ''insert server record''
            (insert_server (server_bindings record) (db_tables db)))))"

definition server_create ::
  "Sqlite \<Rightarrow> nat \<Rightarrow> ServerRecord \<Rightarrow> Database \<Rightarrow> unit Result \<times> Database" where
  "server_create sq max_records record = with_transaction sq (server_create_in sq max_records record)"

definition server_assign :: "ServerRecord \<Rightarrow> ServerRow \<Rightarrow> ServerRow" where
  "server_assign record r =
     (server_bindings record)\<lparr>svr_id := svr_id r, svr_created_at := svr_created_at r\<rparr>"

definition server_update_in ::
  "Sqlite \<Rightarrow> endpoint_parser \<Rightarrow> ServerRecord \<Rightarrow> Transaction \<Rightarrow> Database \<Rightarrow>
   unit Result \<times> Transaction \<times> Database" where
  "server_update_in sq parse record = in_transaction (\<lambda>db.
     and_then (validate_server_record record) (\<lambda>_.
     and_then (server_get_by_id sq parse (sv_id record) db) (\<lambda>existing.
     if sv_created_at record \<noteq> sv_created_at existing \<or>
        sv_updated_at record < sv_updated_at existing \<or>
        sv_config_revision record < sv_config_revision existing
     then failure EC_invalid_argument
            ''server creation time is immutable and update time/revision must not move backward''
     else and_then (run_statement sq ''update server record''
            (update_servers (\<lambda>r. svr_id r = SqlText (id_text (sv_id record))) (server_assign record)
               (db_tables db)))
          (changed_one ''server record was not found''))))"

definition server_update ::
  "Sqlite \<Rightarrow> endpoint_parser \<Rightarrow> ServerRecord \<Rightarrow> Database \<Rightarrow> unit Result \<times> Database" where
  "server_update sq parse record = with_transaction sq (server_update_in sq parse record)"

definition removed_server_row :: "int \<Rightarrow> ServerRow \<Rightarrow> ServerRow" where
  "removed_server_row updated_at r =
     r\<lparr>svr_desired_state := SqlText ''removed'', svr_actual_state := SqlText ''disabled'',
       svr_reconnect_attempt := SqlInteger 0, svr_latency_ms := SqlNull,
       svr_updated_at := SqlInteger updated_at\<rparr>"

definition server_mark_removed_in ::
  "Sqlite \<Rightarrow> endpoint_parser \<Rightarrow> Id \<Rightarrow> int \<Rightarrow> Transaction \<Rightarrow> Database \<Rightarrow>
   unit Result \<times> Transaction \<times> Database" where
  "server_mark_removed_in sq parse i updated_at = in_transaction (\<lambda>db.
     if id_kind i \<noteq> IK_server \<or> updated_at < 0
     then failure EC_invalid_argument ''server removal requires a server ID and non-negative time''
     else and_then (server_get_by_id sq parse i db) (\<lambda>existing.
       if updated_at < sv_updated_at existing
       then failure EC_invalid_argument ''server update time must not move backward''
       else and_then (has_non_tombstone_children sq i (Some updated_at) (db_tables db)) (\<lambda>newer_children.
         if newer_children
         then failure EC_invalid_argument ''server removal time precedes a child tunnel update''
         else and_then (run_statement sq ''mark child tunnels removed''
                (update_tunnels (\<lambda>r. tnr_server_id r = SqlText (id_text i) \<and>
                     (tnr_desired_state r \<noteq> SqlText ''removed'' \<or>
                      tnr_actual_state r \<noteq> SqlText ''removing''))
                   (removed_row (SqlInteger updated_at)) (db_tables db)))
              (\<lambda>(_, t). and_then (run_statement sq ''mark server removed''
                  (update_servers (\<lambda>r. svr_id r = SqlText (id_text i)) (removed_server_row updated_at) t))
                (changed_one ''server record was not found'')))))"

definition server_mark_removed ::
  "Sqlite \<Rightarrow> endpoint_parser \<Rightarrow> Id \<Rightarrow> int \<Rightarrow> Database \<Rightarrow> unit Result \<times> Database" where
  "server_mark_removed sq parse i updated_at =
     with_transaction sq (server_mark_removed_in sq parse i updated_at)"

definition server_erase_in ::
  "Sqlite \<Rightarrow> endpoint_parser \<Rightarrow> Id \<Rightarrow> Transaction \<Rightarrow> Database \<Rightarrow> unit Result \<times> Transaction \<times> Database" where
  "server_erase_in sq parse i = in_transaction (\<lambda>db.
     if id_kind i \<noteq> IK_server then failure EC_invalid_argument ''server erase requires a server ID''
     else and_then (server_get_by_id sq parse i db) (\<lambda>existing.
       if sv_desired_state existing \<noteq> SDS_removed \<or> sv_actual_state existing \<noteq> SAS_disabled
       then failure EC_invalid_argument
              ''server must be a reconciled removal tombstone before physical erase''
       else and_then (has_non_tombstone_children sq i None (db_tables db)) (\<lambda>live_children.
         if live_children
         then failure EC_invalid_argument
                ''server still has child tunnels that are not removal tombstones''
         else and_then (run_statement sq ''erase server record''
                (Inr (delete_server (SqlText (id_text i)) (db_tables db))))
              (changed_one ''server record was not found''))))"

definition server_erase ::
  "Sqlite \<Rightarrow> endpoint_parser \<Rightarrow> Id \<Rightarrow> Database \<Rightarrow> unit Result \<times> Database" where
  "server_erase sq parse i = with_transaction sq (server_erase_in sq parse i)"

section \<open>Identity and recovery\<close>

text \<open>
  \<open>client_id\<close> and \<open>recover\<close> end a failed transaction themselves: their lambda \<open>fail\<close> marks it failed
  and calls \<open>commit\<close>, which rolls back and reports the original error.
\<close>

definition with_checked_transaction ::
  "Sqlite \<Rightarrow> (Transaction \<Rightarrow> Database \<Rightarrow> 'a Result \<times> Transaction \<times> Database) \<Rightarrow> Database \<Rightarrow>
   'a Result \<times> Database" where
  "with_checked_transaction sq body db =
     (case begin_transaction sq db of
        Inl e \<Rightarrow> (Inl e, db)
      | Inr (tx, db1) \<Rightarrow>
          (case body tx db1 of
             (Inl e, tx2, db2) \<Rightarrow>
               (case transaction_commit sq (mark_failed e tx2) db2 of
                  (Inl e', tx3, db3) \<Rightarrow> (Inl e', rollback_noexcept sq tx3 db3)
                | (Inr _, tx3, db3) \<Rightarrow> (Inl e, rollback_noexcept sq tx3 db3))
           | (Inr v, tx2, db2) \<Rightarrow>
               (case transaction_commit sq tx2 db2 of
                  (Inl e, tx3, db3) \<Rightarrow> (Inl e, rollback_noexcept sq tx3 db3)
                | (Inr _, tx3, db3) \<Rightarrow> (Inr v, rollback_noexcept sq tx3 db3))))"

definition identity_check :: "SqlValue \<Rightarrow> bool" where
  "identity_check v \<longleftrightarrow>
     (case v of SqlText s \<Rightarrow> length s = 39 \<and> take 7 s = ''client_'' \<and> list_all is_lowercase_hex (drop 7 s)
              | _ \<Rightarrow> False)"

definition insert_identity :: "SqlValue \<Rightarrow> Tables \<Rightarrow> SqlFailure + Tables" where
  "insert_identity v t =
     (if \<not> identity_check v then Inl SF_constraint
      else if tb_identity t \<noteq> [] then Inl SF_primary_key
      else Inr (t\<lparr>tb_identity := [v]\<rparr>))"

definition state_client_id :: "Sqlite \<Rightarrow> bytes option \<Rightarrow> Database \<Rightarrow> Id Result \<times> Database" where
  "state_client_id sq random = with_checked_transaction sq (\<lambda>tx db.
     (case run_statement sq ''read daemon identity'' (Inr (tb_identity (db_tables db))) of
        Inl e \<Rightarrow> (Inl e, tx, db)
      | Inr (v # rest) \<Rightarrow>
          ((case required_text v ''daemon client ID'' of
              Inl e \<Rightarrow> Inl e
            | Inr value \<Rightarrow>
                (case id_parse_kind value IK_client of
                   Inl _ \<Rightarrow> failure EC_database_error ''persisted daemon client ID is invalid''
                 | Inr parsed \<Rightarrow>
                     if rest \<noteq> []
                     then failure EC_database_error ''daemon identity query returned extra rows''
                     else Inr parsed)), tx, db)
      | Inr [] \<Rightarrow>
          (case id_generate random IK_client of
             Inl e \<Rightarrow> (Inl e, tx, db)
           | Inr generated \<Rightarrow>
               (case run_statement sq ''persist daemon identity''
                       (insert_identity (SqlText (id_text generated)) (db_tables db)) of
                  Inl e \<Rightarrow> (Inl e, tx, db)
                | Inr t \<Rightarrow> (Inr generated, tx, db\<lparr>db_tables := t\<rparr>)))))"

definition recovered_server_state :: "ServerRow \<Rightarrow> SqlValue" where
  "recovered_server_state r =
     (if svr_desired_state r = SqlText ''enabled'' \<and> svr_credential_ref r = SqlNull
      then SqlText ''not_authenticated''
      else if svr_desired_state r = SqlText ''enabled'' then SqlText ''disconnected''
      else SqlText ''disabled'')"

definition recovered_server_row :: "int \<Rightarrow> ServerRow \<Rightarrow> ServerRow" where
  "recovered_server_row recovered_at r =
     r\<lparr>svr_actual_state := recovered_server_state r, svr_reconnect_attempt := SqlInteger 0,
       svr_latency_ms := SqlNull, svr_updated_at := sql_max (svr_updated_at r) (SqlInteger recovered_at)\<rparr>"

definition recovered_tunnel_state :: "TunnelRow \<Rightarrow> SqlValue" where
  "recovered_tunnel_state r =
     (if tnr_desired_state r = SqlText ''active'' then SqlText ''pending''
      else if tnr_desired_state r = SqlText ''disabled'' then SqlText ''disabled''
      else SqlText ''removing'')"

definition recover_tables :: "Sqlite \<Rightarrow> int \<Rightarrow> Tables \<Rightarrow> Tables Result" where
  "recover_tables sq recovered_at t =
     and_then (run_statement sq ''normalize recovered server state''
       (update_servers (\<lambda>r. svr_actual_state r \<noteq> recovered_server_state r \<or>
            svr_reconnect_attempt r \<noteq> SqlInteger 0 \<or> svr_latency_ms r \<noteq> SqlNull)
          (recovered_server_row recovered_at) t)) (\<lambda>(_, t1).
     and_then (run_statement sq ''propagate removed server tombstones''
       (update_tunnels (\<lambda>r. tnr_server_id r \<in>
              svr_id ` set (filter (\<lambda>s. svr_desired_state s = SqlText ''removed'') (tb_servers t1)) \<and>
            (tnr_desired_state r \<noteq> SqlText ''removed'' \<or> tnr_actual_state r \<noteq> SqlText ''removing''))
          (\<lambda>r. removed_row (sql_max (tnr_updated_at r) (SqlInteger recovered_at)) r) t1)) (\<lambda>(_, t2).
     and_then (run_statement sq ''normalize recovered tunnel state''
       (update_tunnels (\<lambda>r. tnr_actual_state r \<noteq> recovered_tunnel_state r)
          (\<lambda>r. r\<lparr>tnr_actual_state := recovered_tunnel_state r,
                 tnr_updated_at := sql_max (tnr_updated_at r) (SqlInteger recovered_at)\<rparr>) t2)) (\<lambda>(_, t3).
     Inr t3)))"

text \<open>
  \<open>recover\<close> lists both tables before and after the updates; \<open>sq'\<close> are the faults of the second
  listing.
\<close>

definition state_recover ::
  "Sqlite \<Rightarrow> Sqlite \<Rightarrow> endpoint_parser \<Rightarrow> nat \<Rightarrow> nat \<Rightarrow> int \<Rightarrow> Database \<Rightarrow>
   (ServerRecord list \<times> TunnelRecord list) Result \<times> Database" where
  "state_recover sq sq' parse max_servers max_tunnels recovered_at = with_checked_transaction sq (\<lambda>tx db.
     (case and_then (server_list sq parse max_servers db) (\<lambda>_.
           and_then (tunnel_list sq parse max_tunnels db) (\<lambda>_.
           recover_tables sq recovered_at (db_tables db))) of
        Inl e \<Rightarrow> (Inl e, tx, db)
      | Inr t \<Rightarrow>
          (let db' = db\<lparr>db_tables := t\<rparr>
           in (and_then (server_list sq' parse max_servers db') (\<lambda>servers.
               and_then (tunnel_list sq' parse max_tunnels db') (\<lambda>tunnels.
               Inr (servers, tunnels))), tx, db'))))"

end
