(* ===== verification/Storage_Integrity.thy ===== *)
theory Storage_Integrity
  imports Storage_Repositories
begin

text \<open>
  The integrity of the persisted state: records survive being stored and read, every operation
  keeps the constraints that make every row readable, and an operation that fails leaves the
  durable tables unchanged.
\<close>

section \<open>Records that can be stored\<close>

text \<open>
  \<open>Id\<close> and \<open>Endpoint\<close> have no public constructors: an identifier in memory was parsed or generated,
  an endpoint was parsed, so both are accepted by their parsers again.
\<close>

definition parsed_id :: "IdKind \<Rightarrow> Id \<Rightarrow> bool" where
  "parsed_id k i \<longleftrightarrow> id_parse_kind (id_text i) k = Inr i"

definition parsed_endpoint :: "endpoint_parser \<Rightarrow> Endpoint \<Rightarrow> bool" where
  "parsed_endpoint parse e \<longleftrightarrow>
     parse (endpoint_to_string e) = Inr e \<and> ep_port e \<noteq> 0 \<and> ep_host e \<noteq> [] \<and> length (ep_host e) \<le> 254 \<and>
     (CHR '':'' \<in> set (ep_host e) \<longleftrightarrow> ep_kind e = EK_ipv6) \<and> length (endpoint_to_string e) \<le> 260"

definition storable_tunnel :: "endpoint_parser \<Rightarrow> TunnelRecord \<Rightarrow> bool" where
  "storable_tunnel parse r \<longleftrightarrow>
     validate_tunnel_record r = Inr () \<and> parsed_id IK_tunnel (tn_id r) \<and>
     parsed_id IK_server (tn_server_id r) \<and> parsed_endpoint parse (tn_local_endpoint r) \<and>
     parsed_endpoint parse (tn_remote_endpoint r)"

text \<open>What holds of every record in memory, before it is validated.\<close>

definition tunnel_in_memory :: "endpoint_parser \<Rightarrow> TunnelRecord \<Rightarrow> bool" where
  "tunnel_in_memory parse r \<longleftrightarrow>
     parsed_id (id_kind (tn_id r)) (tn_id r) \<and> parsed_id (id_kind (tn_server_id r)) (tn_server_id r) \<and>
     parsed_endpoint parse (tn_local_endpoint r) \<and> parsed_endpoint parse (tn_remote_endpoint r)"

definition server_in_memory :: "endpoint_parser \<Rightarrow> ServerRecord \<Rightarrow> bool" where
  "server_in_memory parse r \<longleftrightarrow>
     parsed_id (id_kind (sv_id r)) (sv_id r) \<and> parsed_endpoint parse (sv_endpoint r)"

definition storable_server :: "endpoint_parser \<Rightarrow> ServerRecord \<Rightarrow> bool" where
  "storable_server parse r \<longleftrightarrow>
     validate_server_record r = Inr () \<and> parsed_id IK_server (sv_id r) \<and>
     parsed_endpoint parse (sv_endpoint r)"

lemma parse_endpoint_parsed:
  assumes "quads_exact make_v4" "v6_canonical make_v6" "parse_endpoint make_v4 make_v6 value = Inr e"
  shows "parsed_endpoint (parse_endpoint make_v4 make_v6) e"
proof -
  have "parse_endpoint make_v4 make_v6 (endpoint_to_string e) = Inr e" "ep_port e \<noteq> 0"
    using endpoint_reparse [OF assms] by auto
  moreover from this(1) have "length (endpoint_to_string e) \<le> 260"
    by (auto simp: parse_endpoint_def max_endpoint_text_length_def invalid_endpoint_def split: if_splits)
  ultimately show ?thesis using endpoint_shape [OF assms] by (simp add: parsed_endpoint_def)
qed

subsection \<open>Columns\<close>

lemma column_simps [simp]:
  "required_text (SqlText s) field = Inr s"
  "optional_text (bind_optional_text v) field = Inr v"
  "optional_text (bind_optional_error c) field = Inr (map_option error_code_to_string c)"
  "required_int64 (SqlInteger n) field = Inr n"
  "required_int64 (bind_bool b) field = Inr (if b then 1 else 0)"
  "optional_int64 (bind_optional_int64 w) field = Inr w"
  by (cases v; cases c; cases w;
      simp add: required_text_def optional_text_def required_int64_def optional_int64_def
        bind_optional_text_def bind_optional_error_def bind_optional_int64_def bind_bool_def)+

lemma known_enums [simp]:
  "is_known_enum tunnel_protocol_to_string tunnel_protocol_from_string p"
  "is_known_enum tunnel_desired_state_to_string tunnel_desired_state_from_string d"
  "is_known_enum tunnel_actual_state_to_string tunnel_actual_state_from_string a"
  "is_known_enum server_desired_state_to_string server_desired_state_from_string d'"
  "is_known_enum server_actual_state_to_string server_actual_state_from_string a'"
  using tunnel_protocol.from_to tunnel_desired_state.from_to tunnel_actual_state.from_to
    server_desired_state.from_to server_actual_state.from_to
  by (simp_all add: is_known_enum_def)

lemma state_texts [simp]:
  "tunnel_protocol_from_string (tunnel_protocol_to_string p) = Inr p"
  "tunnel_desired_state_from_string (tunnel_desired_state_to_string d) = Inr d"
  "tunnel_actual_state_from_string (tunnel_actual_state_to_string a) = Inr a"
  "server_desired_state_from_string (server_desired_state_to_string d') = Inr d'"
  "server_actual_state_from_string (server_actual_state_to_string a') = Inr a'"
  using known_enums by (simp_all add: is_known_enum_def)

lemma read_error_code_bound:
  "validate_error_fields c m = Inr () \<Longrightarrow> read_error_code (map_option error_code_to_string c) field = Inr c"
  by (cases c)
     (auto simp: read_error_code_def validate_error_fields_def is_known_error_code_def error_code_from_to
       split: if_splits)

lemma revision_column:
  assumes "valid_revision r"
  shows "0 < sint r" "sint r \<le> 9223372036854775807" "sint r = uint r"
proof -
  have u: "uint r \<le> 9223372036854775807" "uint r \<noteq> 0"
    using assms by (simp_all add: valid_revision_def word_le_def unsigned_eq_0_iff)
  have "- (2 ^ 63) \<le> uint r" by (rule order_trans [of _ 0]) simp_all
  moreover have "uint r < 2 ^ 63" using u(1) by simp
  ultimately have "signed_take_bit 63 (uint r) = uint r" by (rule signed_take_bit_int_eq_self)
  then show s: "sint r = uint r" by (simp add: sint_uint)
  show "0 < sint r" "sint r \<le> 9223372036854775807" using u uint_ge_0 [of r] by (simp_all add: s less_le)
qed

lemma read_split_endpoint_column:
  assumes "parsed_endpoint parse e"
  shows "read_split_endpoint parse (ep_host e) (uint (ep_port e)) field = Inr e"
proof -
  have "uint (ep_port e) < 65536" "uint (ep_port e) \<noteq> 0"
    using uint_lt2p [of "ep_port e"] assms by (simp_all add: parsed_endpoint_def unsigned_eq_0_iff)
  then have "\<not> (uint (ep_port e) < 1 \<or> 65535 < uint (ep_port e))" using uint_ge_0 [of "ep_port e"] by linarith
  moreover have "endpoint_text (ep_host e) (ep_port e) = endpoint_to_string e"
    using assms by (simp add: endpoint_text_def endpoint_to_string_def parsed_endpoint_def)
  ultimately show ?thesis
    using assms by (simp add: read_split_endpoint_def parsed_endpoint_def)
qed

lemma read_endpoint_column:
  "parsed_endpoint parse e \<Longrightarrow> read_endpoint parse (endpoint_to_string e) field = Inr e"
  by (simp add: read_endpoint_def parsed_endpoint_def)

lemma validate_tunnel_record_iff:
  "validate_tunnel_record r = Inr () \<longleftrightarrow>
     id_kind (tn_id r) = IK_tunnel \<and> id_kind (tn_server_id r) = IK_server \<and>
     validate_optional_text (tn_name r) 1 kMaxNameBytes ''tunnel name'' = Inr () \<and>
     validate_error_fields (tn_last_error_code r) (tn_last_error_message r) = Inr () \<and>
     valid_revision (tn_config_revision r) \<and> 0 \<le> tn_created_at r \<and> tn_created_at r \<le> tn_updated_at r \<and>
     (case tn_last_synced_at r of None \<Rightarrow> True | Some t \<Rightarrow> tn_created_at r \<le> t \<and> t \<le> tn_updated_at r)"
  by (auto simp: validate_tunnel_record_def and_then_Inr_iff not_less split: option.splits)

lemma validate_server_record_iff:
  "validate_server_record r = Inr () \<longleftrightarrow>
     id_kind (sv_id r) = IK_server \<and>
     validate_optional_text (sv_name r) 1 kMaxNameBytes ''server name'' = Inr () \<and>
     validate_optional_text (sv_credential_ref r) 1 kMaxCredentialReferenceBytes
       ''credential reference'' = Inr () \<and>
     validate_optional_text (sv_remote_server_id r) 1 kMaxRemoteServerIdBytes
       ''remote server ID'' = Inr () \<and>
     validate_optional_text (sv_tls_server_name r) 1 kMaxTlsServerNameBytes ''TLS server name'' = Inr () \<and>
     validate_optional_text (sv_ca_credential_ref r) 1 kMaxCredentialReferenceBytes
       ''CA credential reference'' = Inr () \<and>
     validate_optional_text (sv_client_certificate_ref r) 1 kMaxCredentialReferenceBytes
       ''client certificate reference'' = Inr () \<and>
     validate_optional_text (sv_client_private_key_ref r) 1 kMaxCredentialReferenceBytes
       ''client private-key reference'' = Inr () \<and>
     (sv_client_certificate_ref r = None \<longleftrightarrow> sv_client_private_key_ref r = None) \<and>
     valid_revision (sv_config_revision r) \<and>
     validate_error_fields (sv_last_error_code r) (sv_last_error_message r) = Inr () \<and>
     sv_reconnect_attempt r \<le> 2147483647 \<and>
     (case sv_latency_ms r of None \<Rightarrow> True | Some l \<Rightarrow> 0 \<le> l \<and> l \<le> 2147483647) \<and>
     0 \<le> sv_created_at r \<and> sv_created_at r \<le> sv_updated_at r"
  by (simp add: validate_server_record_def and_then_Inr_iff not_less split: option.splits) (blast dest: leD)

lemma read_tunnel_bindings:
  assumes "storable_tunnel parse r"
  shows "read_tunnel parse (tunnel_bindings r) = Inr r"
proof -
  have v: "validate_error_fields (tn_last_error_code r) (tn_last_error_message r) = Inr ()"
    "valid_revision (tn_config_revision r)"
    using assms by (simp_all add: storable_tunnel_def validate_tunnel_record_iff)
  have ids: "id_parse_kind (id_text (tn_id r)) IK_tunnel = Inr (tn_id r)"
    "id_parse_kind (id_text (tn_server_id r)) IK_server = Inr (tn_server_id r)"
    using assms by (simp_all add: storable_tunnel_def parsed_id_def)
  have eps: "read_split_endpoint parse (ep_host (tn_local_endpoint r)) (uint (ep_port (tn_local_endpoint r))) field = Inr (tn_local_endpoint r)"
    "read_split_endpoint parse (ep_host (tn_remote_endpoint r)) (uint (ep_port (tn_remote_endpoint r))) field = Inr (tn_remote_endpoint r)"
    for field
    using assms by (simp_all add: storable_tunnel_def read_split_endpoint_column)
  have "tunnel_from_columns parse (id_text (tn_id r)) (tn_name r) (id_text (tn_server_id r))
      (tunnel_protocol_to_string (tn_protocol r)) (ep_host (tn_local_endpoint r))
      (uint (ep_port (tn_local_endpoint r))) (ep_host (tn_remote_endpoint r))
      (uint (ep_port (tn_remote_endpoint r))) (tunnel_desired_state_to_string (tn_desired_state r))
      (tunnel_actual_state_to_string (tn_actual_state r))
      (map_option error_code_to_string (tn_last_error_code r)) (tn_last_error_message r)
      (tn_created_at r) (tn_updated_at r) (tn_last_synced_at r) (sint (tn_config_revision r))
      (if tn_managed_by_config r then 1 else 0) (if tn_proxy_protocol r then 1 else 0) = Inr r"
    using assms ids eps revision_column [OF v(2)] read_error_code_bound [OF v(1)]
    by (cases r; cases "tn_managed_by_config r"; cases "tn_proxy_protocol r")
       (simp_all add: tunnel_from_columns_def storable_tunnel_def has_value_iff Let_def)
  then show ?thesis
    by (simp add: read_tunnel_def tunnel_bindings_def)
qed

lemma read_server_bindings:
  assumes "storable_server parse r"
  shows "read_server parse (server_bindings r) = Inr r"
proof -
  have v: "validate_error_fields (sv_last_error_code r) (sv_last_error_message r) = Inr ()"
    "valid_revision (sv_config_revision r)" "sv_reconnect_attempt r \<le> 2147483647"
    "case sv_latency_ms r of None \<Rightarrow> True | Some l \<Rightarrow> 0 \<le> l \<and> l \<le> 2147483647"
    using assms by (simp_all add: storable_server_def validate_server_record_iff)
  have attempt: "uint (sv_reconnect_attempt r) \<le> 2147483647" "0 \<le> uint (sv_reconnect_attempt r)"
    using v(3) by (simp_all add: word_le_def)
  have ids: "id_parse_kind (id_text (sv_id r)) IK_server = Inr (sv_id r)"
    using assms by (simp add: storable_server_def parsed_id_def)
  have ep: "read_endpoint parse (endpoint_to_string (sv_endpoint r)) field = Inr (sv_endpoint r)" for field
    using assms by (simp add: storable_server_def read_endpoint_column)
  have "server_from_columns parse (id_text (sv_id r)) (sv_name r) (endpoint_to_string (sv_endpoint r))
      (sv_credential_ref r) (sv_remote_server_id r)
      (server_desired_state_to_string (sv_desired_state r))
      (server_actual_state_to_string (sv_actual_state r))
      (map_option error_code_to_string (sv_last_error_code r)) (sv_last_error_message r)
      (uint (sv_reconnect_attempt r)) (sv_latency_ms r) (sv_created_at r) (sv_updated_at r)
      (sv_tls_server_name r) (sv_ca_credential_ref r) (sv_client_certificate_ref r)
      (sv_client_private_key_ref r) (sint (sv_config_revision r))
      (if sv_managed_by_config r then 1 else 0) = Inr r"
    using assms ids ep attempt v(4) revision_column [OF v(2)] read_error_code_bound [OF v(1)]
    by (cases r; cases "sv_managed_by_config r")
       (simp_all add: server_from_columns_def storable_server_def has_value_iff Let_def split: option.splits)
  then show ?thesis
    by (simp add: read_server_def server_bindings_def)
qed

subsection \<open>Constraints\<close>

lemma validate_optional_text_length:
  "validate_optional_text v low high field = Inr () \<Longrightarrow> null_or (\<lambda>x. text_between x low high) (bind_optional_text v)"
  by (cases v)
     (auto simp: validate_optional_text_def validate_text_def null_or_def text_between_def bind_optional_text_def
       split: if_splits)

lemma parsed_id_check:
  assumes "parsed_id k i" "length (id_prefix k) = 4"
  shows "id_check (id_prefix k) (SqlText (id_text i))"
proof -
  have "valid_id_text k (id_text i)" using assms(1) by (auto simp: parsed_id_def id_parse_kind_Inr_iff)
  then show ?thesis using assms(2) by (auto simp: id_check_def valid_id_text_iff kIdHexCharacters_32)
qed

lemma error_column_check:
  "validate_error_fields c m = Inr () \<Longrightarrow>
   null_or (\<lambda>v. v \<in> SqlText ` set kPersistedErrorCodes) (bind_optional_error c) \<and>
   null_or (\<lambda>v. text_between v 0 4096) (bind_optional_text m)"
proof
  assume v: "validate_error_fields c m = Inr ()"
  then have "validate_optional_text m 0 kMaxErrorMessageBytes ''last_error_message'' = Inr ()"
    by (auto simp: validate_error_fields_def split: if_splits)
  from validate_optional_text_length [OF this]
  show "null_or (\<lambda>v. text_between v 0 4096) (bind_optional_text m)" by (simp add: kMaxErrorMessageBytes_def)
  show "null_or (\<lambda>v. v \<in> SqlText ` set kPersistedErrorCodes) (bind_optional_error c)"
  proof (cases c)
    case (Some e)
    then have "e \<noteq> EC_ok" using v by (auto simp: validate_error_fields_def is_known_error_code_def)
    with Some show ?thesis
      by (cases e) (simp_all add: null_or_def bind_optional_error_def kPersistedErrorCodes_def)
  qed (simp add: null_or_def bind_optional_error_def)
qed

lemma port_column_check:
  "parsed_endpoint parse e \<Longrightarrow>
   integer_between (SqlInteger (uint (ep_port e))) 1 65535 \<and> text_between (SqlText (ep_host e)) 1 254"
proof -
  assume "parsed_endpoint parse e"
  then have "ep_port e \<noteq> 0" "ep_host e \<noteq> []" "length (ep_host e) \<le> 254" by (simp_all add: parsed_endpoint_def)
  moreover have "uint (ep_port e) < 65536" using uint_lt2p [of "ep_port e"] by simp
  moreover have "uint (ep_port e) \<noteq> 0" using calculation(1) by (simp add: unsigned_eq_0_iff)
  moreover have "1 \<le> uint (ep_port e)" using calculation(5) uint_ge_0 [of "ep_port e"] by linarith
  ultimately show ?thesis by (simp add: integer_between_def text_between_def Suc_le_eq)
qed

lemma tunnel_checks_bindings:
  assumes "storable_tunnel parse r"
  shows "tunnel_checks (tunnel_bindings r)"
proof -
  have v: "validate_optional_text (tn_name r) 1 kMaxNameBytes ''tunnel name'' = Inr ()"
    "validate_error_fields (tn_last_error_code r) (tn_last_error_message r) = Inr ()"
    "valid_revision (tn_config_revision r)" "0 \<le> tn_created_at r" "tn_created_at r \<le> tn_updated_at r"
    "case tn_last_synced_at r of None \<Rightarrow> True | Some t \<Rightarrow> tn_created_at r \<le> t \<and> t \<le> tn_updated_at r"
    using assms by (simp_all add: storable_tunnel_def validate_tunnel_record_iff)
  have ids: "id_check ''tun_'' (SqlText (id_text (tn_id r)))" "id_check ''srv_'' (SqlText (id_text (tn_server_id r)))"
    using assms parsed_id_check [of IK_tunnel "tn_id r"] parsed_id_check [of IK_server "tn_server_id r"]
    by (simp_all add: storable_tunnel_def)
  have sync: "null_or (\<lambda>v. integer_between v (tn_created_at r) (tn_updated_at r))
      (bind_optional_int64 (tn_last_synced_at r))"
    using v(6) by (cases "tn_last_synced_at r")
      (simp_all add: null_or_def integer_between_def bind_optional_int64_def)
  have texts: "SqlText (tunnel_protocol_to_string p) \<in> SqlText ` {''tcp'', ''udp'', ''socks5'', ''p2p''}"
    "SqlText (tunnel_desired_state_to_string d) \<in> SqlText ` {''active'', ''disabled'', ''removed''}"
    "SqlText (tunnel_actual_state_to_string a) \<in> SqlText `
       {''pending'', ''registering'', ''active'', ''failed'', ''removing'', ''disabled''}" for p d a
    by (cases p; cases d; cases a; simp add: tunnel_protocol_to_string_def tunnel_desired_state_to_string_def
        tunnel_actual_state_to_string_def enum_to_string_def kTunnelProtocols_def kTunnelDesiredStates_def
        kTunnelActualStates_def)+
  have flags: "integer_between (bind_bool b) 0 1" for b
    by (simp add: integer_between_def bind_bool_def)
  have rev: "integer_between (SqlInteger (sint (tn_config_revision r))) 1 9223372036854775807"
    using revision_column [OF v(3)] by (simp add: integer_between_def)
  have name: "null_or (\<lambda>v. text_between v 1 64) (bind_optional_text (tn_name r))"
    using validate_optional_text_length [OF v(1)] by (simp add: kMaxNameBytes_def)
  have eps: "integer_between (SqlInteger (uint (ep_port e))) 1 65535" "text_between (SqlText (ep_host e)) 1 254"
    if "e = tn_local_endpoint r \<or> e = tn_remote_endpoint r" for e
    using that assms port_column_check by (auto simp: storable_tunnel_def)
  show ?thesis
    using ids sync texts flags rev name eps error_column_check [OF v(2)] v(4,5)
    unfolding tunnel_checks_def tunnel_bindings_def by (simp only: TunnelRow.simps prod.case SqlValue.case) blast
qed

section \<open>The invariant of the tables\<close>

definition tables_ok :: "endpoint_parser \<Rightarrow> Tables \<Rightarrow> bool" where
  "tables_ok parse t \<longleftrightarrow>
     (\<forall>r \<in> set (tb_servers t). \<exists>x. storable_server parse x \<and> r = server_bindings x) \<and>
     (\<forall>r \<in> set (tb_tunnels t). \<exists>x. storable_tunnel parse x \<and> r = tunnel_bindings x) \<and>
     distinct (map svr_id (tb_servers t)) \<and> distinct (map tnr_id (tb_tunnels t)) \<and>
     names_unique (tb_servers t) \<and> distinct (map tunnel_route (tb_tunnels t)) \<and>
     (\<forall>r \<in> set (tb_tunnels t). tnr_server_id r \<in> svr_id ` set (tb_servers t))"

definition empty_tables :: Tables where
  "empty_tables = \<lparr>tb_servers = [], tb_tunnels = [], tb_identity = []\<rparr>"

lemma empty_tables_ok: "tables_ok parse empty_tables"
  by (simp add: tables_ok_def empty_tables_def names_unique_def)

text \<open>
  What no operation takes back: a row keeps its creation time, and its update time and revision do
  not decrease.
\<close>

definition tunnel_advances :: "TunnelRow \<Rightarrow> TunnelRow \<Rightarrow> bool" where
  "tunnel_advances r r' \<longleftrightarrow>
     tnr_id r' = tnr_id r \<and> tnr_created_at r' = tnr_created_at r \<and>
     integer_of (tnr_updated_at r) \<le> integer_of (tnr_updated_at r') \<and>
     integer_of (tnr_config_revision r) \<le> integer_of (tnr_config_revision r')"

definition server_advances :: "ServerRow \<Rightarrow> ServerRow \<Rightarrow> bool" where
  "server_advances r r' \<longleftrightarrow>
     svr_id r' = svr_id r \<and> svr_created_at r' = svr_created_at r \<and>
     integer_of (svr_updated_at r) \<le> integer_of (svr_updated_at r') \<and>
     integer_of (svr_config_revision r) \<le> integer_of (svr_config_revision r')"

definition advances :: "Tables \<Rightarrow> Tables \<Rightarrow> bool" where
  "advances t t' \<longleftrightarrow>
     (\<forall>r \<in> set (tb_tunnels t). \<forall>r' \<in> set (tb_tunnels t'). tnr_id r' = tnr_id r \<longrightarrow> tunnel_advances r r') \<and>
     (\<forall>r \<in> set (tb_servers t). \<forall>r' \<in> set (tb_servers t'). svr_id r' = svr_id r \<longrightarrow> server_advances r r')"

lemma advances_refl: "tables_ok parse t \<Longrightarrow> advances t t"
proof -
  assume "tables_ok parse t"
  then have "inj_on svr_id (set (tb_servers t))" "inj_on tnr_id (set (tb_tunnels t))"
    by (simp_all add: tables_ok_def distinct_map)
  then show ?thesis
    unfolding advances_def tunnel_advances_def server_advances_def by (metis inj_onD order_refl)
qed

subsection \<open>Updates\<close>

lemma update_where_ids:
  "(\<And>r. r \<in> set rows \<Longrightarrow> p r \<Longrightarrow> k (f r) = k r) \<Longrightarrow> map k (update_where p f rows) = map k rows"
  by (simp add: update_where_def)

lemma set_update_where: "set (update_where p f rows) = f ` {r \<in> set rows. p r} \<union> {r \<in> set rows. \<not> p r}"
  by (auto simp: update_where_def)

lemma update_where_mem:
  assumes "r \<in> set (update_where p f rows)"
  obtains r0 where "r0 \<in> set rows" "r = (if p r0 then f r0 else r0)"
  using assms by (auto simp: update_where_def)

lemma tables_ok_tunnel:
  "tables_ok parse t \<Longrightarrow> r \<in> set (tb_tunnels t) \<Longrightarrow> \<exists>x. storable_tunnel parse x \<and> r = tunnel_bindings x"
  by (simp add: tables_ok_def)

lemma tables_ok_server:
  "tables_ok parse t \<Longrightarrow> r \<in> set (tb_servers t) \<Longrightarrow> \<exists>x. storable_server parse x \<and> r = server_bindings x"
  by (simp add: tables_ok_def)

lemma tables_ok_reference:
  "tables_ok parse t \<Longrightarrow> r \<in> set (tb_tunnels t) \<Longrightarrow> tnr_server_id r \<in> svr_id ` set (tb_servers t)"
  by (simp add: tables_ok_def)

lemma tables_okD:
  assumes "tables_ok parse t"
  shows "\<forall>r \<in> set (tb_servers t). \<exists>x. storable_server parse x \<and> r = server_bindings x"
    "\<forall>r \<in> set (tb_tunnels t). \<exists>x. storable_tunnel parse x \<and> r = tunnel_bindings x"
    "distinct (map svr_id (tb_servers t))" "distinct (map tnr_id (tb_tunnels t))"
    "names_unique (tb_servers t)" "distinct (map tunnel_route (tb_tunnels t))"
    "\<forall>r \<in> set (tb_tunnels t). tnr_server_id r \<in> svr_id ` set (tb_servers t)"
  using assms unfolding tables_ok_def by - (elim conjE; assumption)+

lemma distinct_key_eq: "distinct (map k rows) \<Longrightarrow> a \<in> set rows \<Longrightarrow> b \<in> set rows \<Longrightarrow> k a = k b \<Longrightarrow> a = b"
  by (simp add: distinct_map inj_on_def)

lemma update_tunnels_ok:
  assumes ok: "tables_ok parse t" and upd: "update_tunnels p f t = Inr (n, t')"
    and keep: "\<And>x. storable_tunnel parse x \<Longrightarrow> tunnel_bindings x \<in> set (tb_tunnels t) \<Longrightarrow> p (tunnel_bindings x) \<Longrightarrow>
      \<exists>y. storable_tunnel parse y \<and> f (tunnel_bindings x) = tunnel_bindings y \<and>
        tunnel_advances (tunnel_bindings x) (tunnel_bindings y)"
  shows "tables_ok parse t' \<and> advances t t' \<and> tb_servers t' = tb_servers t \<and> tb_identity t' = tb_identity t \<and>
    tb_tunnels t' = update_where p f (tb_tunnels t) \<and> n = length (filter p (tb_tunnels t))"
proof -
  let ?rows = "update_where p f (tb_tunnels t)"
  have t': "t' = t\<lparr>tb_tunnels := ?rows\<rparr>" "distinct (map tunnel_route ?rows)" "n = length (filter p (tb_tunnels t))"
    "\<And>r. r \<in> set (tb_tunnels t) \<Longrightarrow> p r \<Longrightarrow> tnr_server_id (f r) \<in> svr_id ` set (tb_servers t)"
    using upd by (simp_all add: update_tunnels_def Let_def list_all_iff split: if_splits)
  have sel: "tb_servers t' = tb_servers t" "tb_tunnels t' = ?rows" by (simp_all add: t'(1))
  have step: "\<exists>y. storable_tunnel parse y \<and> f r = tunnel_bindings y \<and> tunnel_advances r (f r)"
    if r: "r \<in> set (tb_tunnels t)" "p r" for r
  proof -
    obtain x where "storable_tunnel parse x" "r = tunnel_bindings x"
      using tables_ok_tunnel [OF ok r(1)] by blast
    with keep [of x] r show ?thesis by auto
  qed
  then have ids: "map tnr_id ?rows = map tnr_id (tb_tunnels t)"
    by (intro update_where_ids) (auto simp: tunnel_advances_def)
  have refs: "\<forall>r \<in> set ?rows. tnr_server_id r \<in> svr_id ` set (tb_servers t)"
  proof
    fix r assume "r \<in> set ?rows"
    then show "tnr_server_id r \<in> svr_id ` set (tb_servers t)"
    proof (rule update_where_mem)
      fix r0 assume "r0 \<in> set (tb_tunnels t)" "r = (if p r0 then f r0 else r0)"
      then show ?thesis using t'(4) [of r0] tables_ok_reference [OF ok, of r0] by (cases "p r0") simp_all
    qed
  qed
  have rows: "\<forall>r \<in> set ?rows. \<exists>x. storable_tunnel parse x \<and> r = tunnel_bindings x"
  proof
    fix r assume "r \<in> set ?rows"
    then show "\<exists>x. storable_tunnel parse x \<and> r = tunnel_bindings x"
    proof (rule update_where_mem)
      fix r0 assume "r0 \<in> set (tb_tunnels t)" "r = (if p r0 then f r0 else r0)"
      then show ?thesis using step [of r0] tables_ok_tunnel [OF ok, of r0] by (cases "p r0") auto
    qed
  qed
  have dist: "distinct (map tnr_id (tb_tunnels t))" using ok by (rule tables_okD)
  have adv: "tunnel_advances r r'" if "r \<in> set (tb_tunnels t)" "r' \<in> set ?rows" "tnr_id r' = tnr_id r" for r r'
  proof -
    obtain r0 where r0: "r0 \<in> set (tb_tunnels t)" "r' = (if p r0 then f r0 else r0)"
      using \<open>r' \<in> set ?rows\<close> by (rule update_where_mem)
    have adv0: "tunnel_advances r0 r'"
    proof (cases "p r0")
      case True
      then show ?thesis using step [OF r0(1) True] r0(2) by auto
    qed (simp add: r0(2) tunnel_advances_def)
    then have "tnr_id r0 = tnr_id r" using that(3) by (simp add: tunnel_advances_def)
    then have "r0 = r" by (rule distinct_key_eq [OF dist r0(1) that(1)])
    with adv0 show ?thesis by simp
  qed
  have "advances t t'"
    using adv advances_refl [OF ok] unfolding advances_def sel by blast
  moreover have "tables_ok parse t'"
    unfolding tables_ok_def sel ids using tables_okD [OF ok] rows refs t'(2) by (intro conjI)
  ultimately show ?thesis using t'(1,3) by simp
qed

lemma update_servers_ok:
  assumes ok: "tables_ok parse t" and upd: "update_servers p f t = Inr (n, t')"
    and keep: "\<And>x. storable_server parse x \<Longrightarrow> server_bindings x \<in> set (tb_servers t) \<Longrightarrow> p (server_bindings x) \<Longrightarrow>
      \<exists>y. storable_server parse y \<and> f (server_bindings x) = server_bindings y \<and>
        server_advances (server_bindings x) (server_bindings y)"
  shows "tables_ok parse t' \<and> advances t t' \<and> tb_tunnels t' = tb_tunnels t \<and> tb_identity t' = tb_identity t \<and>
    tb_servers t' = update_where p f (tb_servers t) \<and> n = length (filter p (tb_servers t))"
proof -
  let ?rows = "update_where p f (tb_servers t)"
  have t': "t' = t\<lparr>tb_servers := ?rows\<rparr>" "names_unique ?rows" "n = length (filter p (tb_servers t))"
    using upd by (simp_all add: update_servers_def Let_def split: if_splits)
  have sel: "tb_tunnels t' = tb_tunnels t" "tb_servers t' = ?rows" by (simp_all add: t'(1))
  have step: "\<exists>y. storable_server parse y \<and> f r = server_bindings y \<and> server_advances r (f r)"
    if r: "r \<in> set (tb_servers t)" "p r" for r
  proof -
    obtain x where "storable_server parse x" "r = server_bindings x"
      using tables_ok_server [OF ok r(1)] by blast
    with keep [of x] r show ?thesis by auto
  qed
  then have ids: "map svr_id ?rows = map svr_id (tb_servers t)"
    by (intro update_where_ids) (auto simp: server_advances_def)
  then have "svr_id ` set ?rows = svr_id ` set (tb_servers t)" by (metis set_map)
  then have refs: "\<forall>r \<in> set (tb_tunnels t). tnr_server_id r \<in> svr_id ` set ?rows"
    using tables_okD(7) [OF ok] by simp
  have rows: "\<forall>r \<in> set ?rows. \<exists>x. storable_server parse x \<and> r = server_bindings x"
  proof
    fix r assume "r \<in> set ?rows"
    then show "\<exists>x. storable_server parse x \<and> r = server_bindings x"
    proof (rule update_where_mem)
      fix r0 assume "r0 \<in> set (tb_servers t)" "r = (if p r0 then f r0 else r0)"
      then show ?thesis using step [of r0] tables_ok_server [OF ok, of r0] by (cases "p r0") auto
    qed
  qed
  have dist: "distinct (map svr_id (tb_servers t))" using ok by (rule tables_okD)
  have adv: "server_advances r r'" if "r \<in> set (tb_servers t)" "r' \<in> set ?rows" "svr_id r' = svr_id r" for r r'
  proof -
    obtain r0 where r0: "r0 \<in> set (tb_servers t)" "r' = (if p r0 then f r0 else r0)"
      using \<open>r' \<in> set ?rows\<close> by (rule update_where_mem)
    have adv0: "server_advances r0 r'"
    proof (cases "p r0")
      case True
      then show ?thesis using step [OF r0(1) True] r0(2) by auto
    qed (simp add: r0(2) server_advances_def)
    then have "svr_id r0 = svr_id r" using that(3) by (simp add: server_advances_def)
    then have "r0 = r" by (rule distinct_key_eq [OF dist r0(1) that(1)])
    with adv0 show ?thesis by simp
  qed
  have "advances t t'"
    using adv advances_refl [OF ok] unfolding advances_def sel by blast
  moreover have "tables_ok parse t'"
    unfolding tables_ok_def sel ids using tables_okD [OF ok] rows refs t'(2) by (intro conjI)
  ultimately show ?thesis using t'(1,3) by simp
qed

subsection \<open>Assignments on records\<close>

definition pending_record :: "Error option \<Rightarrow> int \<Rightarrow> TunnelRecord \<Rightarrow> TunnelRecord" where
  "pending_record error updated_at x =
     x\<lparr>tn_actual_state := TAS_pending, tn_last_error_code := map_option code error,
       tn_last_error_message := map_option message error,
       tn_updated_at := max (tn_updated_at x) updated_at\<rparr>"

definition runtime_record ::
  "TunnelActualState \<Rightarrow> Error option \<Rightarrow> int \<Rightarrow> bool \<Rightarrow> TunnelRecord \<Rightarrow> TunnelRecord" where
  "runtime_record actual_state error updated_at synchronized x =
     x\<lparr>tn_actual_state := actual_state, tn_last_error_code := map_option code error,
       tn_last_error_message := map_option message error,
       tn_updated_at := max (tn_updated_at x) updated_at,
       tn_last_synced_at := (if synchronized then Some (max (tn_updated_at x) updated_at)
                             else tn_last_synced_at x)\<rparr>"

definition removed_record :: "int \<Rightarrow> TunnelRecord \<Rightarrow> TunnelRecord" where
  "removed_record updated_at x =
     x\<lparr>tn_desired_state := TDS_removed, tn_actual_state := TAS_removing, tn_updated_at := updated_at\<rparr>"

lemma state_literals:
  "tunnel_actual_state_to_string TAS_pending = ''pending''"
  "tunnel_actual_state_to_string TAS_removing = ''removing''"
  "tunnel_actual_state_to_string TAS_disabled = ''disabled''"
  "tunnel_desired_state_to_string TDS_removed = ''removed''"
  "tunnel_desired_state_to_string TDS_active = ''active''"
  "tunnel_desired_state_to_string TDS_disabled = ''disabled''"
  "server_desired_state_to_string SDS_removed = ''removed''"
  "server_desired_state_to_string SDS_enabled = ''enabled''"
  "server_desired_state_to_string SDS_disabled = ''disabled''"
  "server_actual_state_to_string SAS_disabled = ''disabled''"
  "server_actual_state_to_string SAS_disconnected = ''disconnected''"
  "server_actual_state_to_string SAS_not_authenticated = ''not_authenticated''"
  by (simp_all add: tunnel_actual_state_to_string_def tunnel_desired_state_to_string_def
      server_desired_state_to_string_def server_actual_state_to_string_def enum_to_string_def
      kTunnelActualStates_def kTunnelDesiredStates_def kServerDesiredStates_def kServerActualStates_def)

lemma row_assignments:
  "pending_row error u (tunnel_bindings x) = tunnel_bindings (pending_record error u x)"
  "runtime_row a error u b (tunnel_bindings x) = tunnel_bindings (runtime_record a error u b x)"
  "removed_row (SqlInteger u) (tunnel_bindings x) = tunnel_bindings (removed_record u x)"
  by (simp_all add: pending_row_def pending_record_def runtime_row_def runtime_record_def removed_row_def
      removed_record_def tunnel_bindings_def sql_max_def state_literals bind_optional_int64_def)

lemma tunnel_advances_iff:
  "storable_tunnel parse x \<Longrightarrow> storable_tunnel parse y \<Longrightarrow>
   tunnel_advances (tunnel_bindings x) (tunnel_bindings y) \<longleftrightarrow>
     id_text (tn_id y) = id_text (tn_id x) \<and> tn_created_at y = tn_created_at x \<and>
     tn_updated_at x \<le> tn_updated_at y \<and> tn_config_revision x \<le> tn_config_revision y"
  by (simp add: tunnel_advances_def tunnel_bindings_def integer_of_def storable_tunnel_def
      validate_tunnel_record_iff revision_column word_le_def)

lemma server_advances_iff:
  "storable_server parse x \<Longrightarrow> storable_server parse y \<Longrightarrow>
   server_advances (server_bindings x) (server_bindings y) \<longleftrightarrow>
     id_text (sv_id y) = id_text (sv_id x) \<and> sv_created_at y = sv_created_at x \<and>
     sv_updated_at x \<le> sv_updated_at y \<and> sv_config_revision x \<le> sv_config_revision y"
  by (simp add: server_advances_def server_bindings_def integer_of_def storable_server_def
      validate_server_record_iff revision_column word_le_def)

lemma runtime_record_storable:
  assumes "storable_tunnel parse x"
    and "validate_error_fields (map_option code error) (map_option message error) = Inr ()"
  shows "storable_tunnel parse (runtime_record a error u b x)"
    "tunnel_advances (tunnel_bindings x) (tunnel_bindings (runtime_record a error u b x))"
proof -
  show y: "storable_tunnel parse (runtime_record a error u b x)"
    using assms
    by (auto simp: storable_tunnel_def validate_tunnel_record_iff runtime_record_def split: option.splits)
  show "tunnel_advances (tunnel_bindings x) (tunnel_bindings (runtime_record a error u b x))"
    using tunnel_advances_iff [OF assms(1) y] by (simp add: runtime_record_def)
qed

lemma pending_record_runtime: "pending_record error u x = runtime_record TAS_pending error u False x"
  by (simp add: pending_record_def runtime_record_def)

lemma removed_record_storable:
  assumes "storable_tunnel parse x" "tn_updated_at x \<le> u"
  shows "storable_tunnel parse (removed_record u x)"
    "tunnel_advances (tunnel_bindings x) (tunnel_bindings (removed_record u x))"
proof -
  show y: "storable_tunnel parse (removed_record u x)"
    using assms
    by (auto simp: storable_tunnel_def validate_tunnel_record_iff removed_record_def split: option.splits)
  show "tunnel_advances (tunnel_bindings x) (tunnel_bindings (removed_record u x))"
    using tunnel_advances_iff [OF assms(1) y] assms(2) by (simp add: removed_record_def)
qed

subsection \<open>Lookups\<close>

lemma run_statement_Inr:
  "run_statement sq operation outcome = Inr v \<longleftrightarrow> sq_fault sq operation = None \<and> outcome = Inr v"
  by (auto simp: run_statement_def split: option.splits sum.splits)

lemma single_row_Inr:
  "single_row read m1 m2 rows = Inr x \<longleftrightarrow> (\<exists>r. rows = [r] \<and> read r = Inr x)"
  by (auto simp: single_row_def and_then_Inr_iff split: list.splits)

lemma tunnel_get_by_id_Inr:
  assumes "tunnel_get_by_id sq parse i db = Inr x" "tables_ok parse (db_tables db)"
  shows "storable_tunnel parse x \<and> tunnel_bindings x \<in> set (tb_tunnels (db_tables db)) \<and>
    id_text (tn_id x) = id_text i \<and> id_kind i = IK_tunnel"
proof -
  obtain r where r: "filter (\<lambda>r. tnr_id r = SqlText (id_text i)) (tb_tunnels (db_tables db)) = [r]"
    "read_tunnel parse r = Inr x" and kind: "id_kind i = IK_tunnel"
    using assms(1)
    by (auto simp: tunnel_get_by_id_def unusable_def and_then_Inr_iff run_statement_Inr single_row_Inr
        split: if_splits)
  have mem: "r \<in> set (tb_tunnels (db_tables db))" "tnr_id r = SqlText (id_text i)"
    using arg_cong [OF r(1), of set] by auto
  obtain y where y: "storable_tunnel parse y" "r = tunnel_bindings y"
    using tables_ok_tunnel [OF assms(2) mem(1)] by blast
  then have "x = y" using r(2) read_tunnel_bindings [OF y(1)] by simp
  with y mem kind show ?thesis by (simp add: tunnel_bindings_def)
qed

lemma server_get_by_id_Inr:
  assumes "server_get_by_id sq parse i db = Inr x" "tables_ok parse (db_tables db)"
  shows "storable_server parse x \<and> server_bindings x \<in> set (tb_servers (db_tables db)) \<and>
    id_text (sv_id x) = id_text i \<and> id_kind i = IK_server"
proof -
  obtain r where r: "filter (\<lambda>r. svr_id r = SqlText (id_text i)) (tb_servers (db_tables db)) = [r]"
    "read_server parse r = Inr x" and kind: "id_kind i = IK_server"
    using assms(1)
    by (auto simp: server_get_by_id_def unusable_def and_then_Inr_iff run_statement_Inr single_row_Inr
        split: if_splits)
  have mem: "r \<in> set (tb_servers (db_tables db))" "svr_id r = SqlText (id_text i)"
    using arg_cong [OF r(1), of set] by auto
  obtain y where y: "storable_server parse y" "r = server_bindings y"
    using tables_ok_server [OF assms(2) mem(1)] by blast
  then have "x = y" using r(2) read_server_bindings [OF y(1)] by simp
  with y mem kind show ?thesis by (simp add: server_bindings_def)
qed

text \<open>Two stored records with the same identifier are one.\<close>

lemma tunnel_binding_unique:
  assumes "tables_ok parse t" "storable_tunnel parse x" "storable_tunnel parse y"
    and "tunnel_bindings x \<in> set (tb_tunnels t)" "tunnel_bindings y \<in> set (tb_tunnels t)"
    and "id_text (tn_id x) = id_text (tn_id y)"
  shows "x = y"
proof -
  have "tnr_id (tunnel_bindings x) = tnr_id (tunnel_bindings y)"
    by (simp only: tunnel_bindings_def TunnelRow.simps assms(6))
  then have "tunnel_bindings x = tunnel_bindings y"
    by (rule distinct_key_eq [OF tables_okD(4) [OF assms(1)] assms(4,5)])
  with read_tunnel_bindings [OF assms(2)] have "read_tunnel parse (tunnel_bindings y) = Inr x" by (simp only:)
  then show ?thesis by (simp only: read_tunnel_bindings [OF assms(3)] sum.inject)
qed

lemma server_binding_unique:
  assumes "tables_ok parse t" "storable_server parse x" "storable_server parse y"
    and "server_bindings x \<in> set (tb_servers t)" "server_bindings y \<in> set (tb_servers t)"
    and "id_text (sv_id x) = id_text (sv_id y)"
  shows "x = y"
proof -
  have "svr_id (server_bindings x) = svr_id (server_bindings y)"
    by (simp only: server_bindings_def ServerRow.simps assms(6))
  then have "server_bindings x = server_bindings y"
    by (rule distinct_key_eq [OF tables_okD(3) [OF assms(1)] assms(4,5)])
  with read_server_bindings [OF assms(2)] have "read_server parse (server_bindings y) = Inr x" by (simp only:)
  then show ?thesis by (simp only: read_server_bindings [OF assms(3)] sum.inject)
qed

end
