(* ===== verification/Storage_Invariants.thy ===== *)
theory Storage_Invariants
  imports Storage_Integrity
begin

text \<open>
  Every operation of the repositories keeps the invariant of the tables and the progress of the
  rows, and is atomic.
\<close>

section \<open>Inserts and deletes\<close>

lemma storable_tunnelI:
  "validate_tunnel_record r = Inr () \<Longrightarrow> tunnel_in_memory parse r \<Longrightarrow> storable_tunnel parse r"
  by (auto simp: storable_tunnel_def tunnel_in_memory_def validate_tunnel_record_iff)

lemma storable_serverI:
  "validate_server_record r = Inr () \<Longrightarrow> server_in_memory parse r \<Longrightarrow> storable_server parse r"
  by (auto simp: storable_server_def server_in_memory_def validate_server_record_iff)

lemma advances_rows:
  assumes "tables_ok parse t"
    and "set (tb_tunnels t') \<subseteq> set (tb_tunnels t) \<union> {r. tnr_id r \<notin> tnr_id ` set (tb_tunnels t)}"
    and "set (tb_servers t') \<subseteq> set (tb_servers t) \<union> {r. svr_id r \<notin> svr_id ` set (tb_servers t)}"
  shows "advances t t'"
proof -
  have "tunnel_advances r r'"
    if "r \<in> set (tb_tunnels t)" "r' \<in> set (tb_tunnels t')" "tnr_id r' = tnr_id r" for r r'
  proof -
    have "r' \<in> set (tb_tunnels t)" using that assms(2) by (metis (mono_tags, lifting) Un_iff image_eqI mem_Collect_eq subsetD)
    then show ?thesis using advances_refl [OF assms(1)] that unfolding advances_def by blast
  qed
  moreover have "server_advances r r'"
    if "r \<in> set (tb_servers t)" "r' \<in> set (tb_servers t')" "svr_id r' = svr_id r" for r r'
  proof -
    have "r' \<in> set (tb_servers t)" using that assms(3) by (metis (mono_tags, lifting) Un_iff image_eqI mem_Collect_eq subsetD)
    then show ?thesis using advances_refl [OF assms(1)] that unfolding advances_def by blast
  qed
  ultimately show ?thesis unfolding advances_def by blast
qed

lemma insert_tunnel_ok:
  assumes ok: "tables_ok parse t" and x: "storable_tunnel parse x"
    and ins: "insert_tunnel (tunnel_bindings x) t = Inr t'"
  shows "tables_ok parse t' \<and> advances t t' \<and> t' = t\<lparr>tb_tunnels := tb_tunnels t @ [tunnel_bindings x]\<rparr>"
proof -
  let ?r = "tunnel_bindings x"
  have t': "t' = t\<lparr>tb_tunnels := tb_tunnels t @ [?r]\<rparr>" "tnr_id ?r \<notin> tnr_id ` set (tb_tunnels t)"
    "tunnel_route ?r \<notin> tunnel_route ` set (tb_tunnels t)" "tnr_server_id ?r \<in> svr_id ` set (tb_servers t)"
    using ins by (simp_all add: insert_tunnel_def split: if_splits)
  have sel: "tb_servers t' = tb_servers t" "tb_tunnels t' = tb_tunnels t @ [?r]" by (simp_all add: t'(1))
  note okD = tables_okD [OF ok]
  have "\<forall>r \<in> set (tb_tunnels t @ [?r]). \<exists>x. storable_tunnel parse x \<and> r = tunnel_bindings x"
    using okD(2) x by (simp only: set_append list.set Un_iff insert_iff empty_iff) blast
  moreover have "\<forall>r \<in> set (tb_tunnels t @ [?r]). tnr_server_id r \<in> svr_id ` set (tb_servers t)"
    using okD(7) t'(4) by simp
  moreover have "distinct (map tnr_id (tb_tunnels t @ [?r]))" "distinct (map tunnel_route (tb_tunnels t @ [?r]))"
    using okD(4,6) t'(2,3) by simp_all
  ultimately have "tables_ok parse t'" unfolding tables_ok_def sel using okD(1,3,5) by (intro conjI)
  moreover have "advances t t'"
    by (rule advances_rows [OF ok]) (use t'(2) in \<open>auto simp: sel\<close>)
  ultimately show ?thesis using t'(1) by simp
qed

lemma insert_server_ok:
  assumes ok: "tables_ok parse t" and x: "storable_server parse x"
    and ins: "insert_server (server_bindings x) t = Inr t'"
  shows "tables_ok parse t' \<and> advances t t' \<and> t' = t\<lparr>tb_servers := tb_servers t @ [server_bindings x]\<rparr>"
proof -
  let ?r = "server_bindings x"
  have t': "t' = t\<lparr>tb_servers := tb_servers t @ [?r]\<rparr>" "svr_id ?r \<notin> svr_id ` set (tb_servers t)"
    "names_unique (tb_servers t @ [?r])"
    using ins by (simp_all add: insert_server_def split: if_splits)
  have sel: "tb_servers t' = tb_servers t @ [?r]" "tb_tunnels t' = tb_tunnels t" by (simp_all add: t'(1))
  note okD = tables_okD [OF ok]
  have "\<forall>r \<in> set (tb_servers t @ [?r]). \<exists>x. storable_server parse x \<and> r = server_bindings x"
    using okD(1) x by (simp only: set_append list.set Un_iff insert_iff empty_iff) blast
  moreover have "\<forall>r \<in> set (tb_tunnels t). tnr_server_id r \<in> svr_id ` set (tb_servers t @ [?r])"
    using okD(7) by simp
  moreover have "distinct (map svr_id (tb_servers t @ [?r]))" using okD(3) t'(2) by simp
  ultimately have "tables_ok parse t'" unfolding tables_ok_def sel using okD(2,4,6) t'(3) by (intro conjI)
  moreover have "advances t t'"
    by (rule advances_rows [OF ok]) (use t'(2) in \<open>auto simp: sel\<close>)
  ultimately show ?thesis using t'(1) by simp
qed

lemma names_unique_iff:
  "names_unique rows \<longleftrightarrow> distinct (map svr_name (filter (\<lambda>r. svr_name r \<noteq> SqlNull) rows))"
  by (simp add: names_unique_def filter_map comp_def)

lemma filter_tables_ok:
  assumes ok: "tables_ok parse t"
    and refs: "\<forall>r \<in> set (filter p (tb_tunnels t)). tnr_server_id r \<in> svr_id ` set (filter q (tb_servers t))"
    and t': "tb_tunnels t' = filter p (tb_tunnels t)" "tb_servers t' = filter q (tb_servers t)"
  shows "tables_ok parse t' \<and> advances t t'"
proof
  note okD = tables_okD [OF ok]
  have "distinct (map svr_name (filter q (filter (\<lambda>r. svr_name r \<noteq> SqlNull) (tb_servers t))))"
    by (rule distinct_map_filter) (use okD(5) in \<open>simp add: names_unique_iff\<close>)
  then have names: "names_unique (filter q (tb_servers t))"
    by (simp add: names_unique_iff conj_commute)
  show "tables_ok parse t'"
    unfolding tables_ok_def t' using okD(1,2) refs names
    by (intro conjI distinct_map_filter okD(3,4,6)) auto
  show "advances t t'" by (rule advances_rows [OF ok]) (auto simp: t')
qed

lemma delete_tunnel_ok:
  assumes "tables_ok parse t" "delete_tunnel i t = (n, t')"
  shows "tables_ok parse t' \<and> advances t t'"
proof (rule filter_tables_ok [OF assms(1), where p = "\<lambda>r. tnr_id r \<noteq> i" and q = "\<lambda>_. True"])
  show "tb_tunnels t' = filter (\<lambda>r. tnr_id r \<noteq> i) (tb_tunnels t)" "tb_servers t' = filter (\<lambda>_. True) (tb_servers t)"
    using assms(2) by (auto simp: delete_tunnel_def)
  show "\<forall>r \<in> set (filter (\<lambda>r. tnr_id r \<noteq> i) (tb_tunnels t)). tnr_server_id r \<in> svr_id ` set (filter (\<lambda>_. True) (tb_servers t))"
    using tables_okD(7) [OF assms(1)] by simp
qed

lemma delete_server_ok:
  assumes "tables_ok parse t" "delete_server i t = (n, t')"
  shows "tables_ok parse t' \<and> advances t t'"
proof -
  have sel: "tb_servers t' = filter (\<lambda>r. svr_id r \<noteq> i) (tb_servers t)"
    "tb_tunnels t' = filter (\<lambda>r. tnr_server_id r \<noteq> i) (tb_tunnels t)"
  proof -
    have "filter (\<lambda>r. tnr_server_id r \<noteq> i) (tb_tunnels t) = tb_tunnels t"
      if "i \<notin> svr_id ` set (tb_servers t)"
      using that tables_okD(7) [OF assms(1)] by (auto simp: filter_id_conv)
    then show "tb_servers t' = filter (\<lambda>r. svr_id r \<noteq> i) (tb_servers t)"
      "tb_tunnels t' = filter (\<lambda>r. tnr_server_id r \<noteq> i) (tb_tunnels t)"
      using assms(2) by (auto simp: delete_server_def)
  qed
  show ?thesis
  proof (rule filter_tables_ok [OF assms(1) _ sel(2,1)])
    show "\<forall>r \<in> set (filter (\<lambda>r. tnr_server_id r \<noteq> i) (tb_tunnels t)).
        tnr_server_id r \<in> svr_id ` set (filter (\<lambda>r. svr_id r \<noteq> i) (tb_servers t))"
      using tables_okD(7) [OF assms(1)] by (auto simp: image_iff)
  qed
qed

section \<open>Operations on the tables\<close>

definition op_ok :: "endpoint_parser \<Rightarrow> (Database \<Rightarrow> Tables Result) \<Rightarrow> bool" where
  "op_ok parse op \<longleftrightarrow>
     (\<forall>db t'. tables_ok parse (db_tables db) \<longrightarrow> op db = Inr t' \<longrightarrow>
        tables_ok parse t' \<and> advances (db_tables db) t')"

lemma changed_one_Inr: "changed_one m nt = Inr t \<longleftrightarrow> nt = (1, t)"
  by (cases nt) (auto simp: changed_one_def)

lemma tunnel_update_keeps:
  assumes ok: "tables_ok parse t" and y: "storable_tunnel parse y"
    and e: "storable_tunnel parse e" "tunnel_bindings e \<in> set (tb_tunnels t)" "id_text (tn_id e) = id_text (tn_id y)"
    and mono: "tn_created_at y = tn_created_at e" "tn_updated_at e \<le> tn_updated_at y"
      "tn_config_revision e \<le> tn_config_revision y"
    and upd: "update_tunnels (\<lambda>r. tnr_id r = SqlText (id_text (tn_id y))) (tunnel_assign y) t = Inr (n, t')"
  shows "tables_ok parse t' \<and> advances t t'"
proof -
  have "tables_ok parse t' \<and> advances t t' \<and> tb_servers t' = tb_servers t \<and> tb_identity t' = tb_identity t \<and>
    tb_tunnels t' = update_where (\<lambda>r. tnr_id r = SqlText (id_text (tn_id y))) (tunnel_assign y) (tb_tunnels t) \<and>
    n = length (filter (\<lambda>r. tnr_id r = SqlText (id_text (tn_id y))) (tb_tunnels t))"
  proof (rule update_tunnels_ok [OF ok upd])
    fix x
    assume x: "storable_tunnel parse x" "tunnel_bindings x \<in> set (tb_tunnels t)"
      "tnr_id (tunnel_bindings x) = SqlText (id_text (tn_id y))"
    have "id_text (tn_id x) = id_text (tn_id e)" using x(3) e(3) by (simp add: tunnel_bindings_def)
    then have "x = e" by (rule tunnel_binding_unique [OF ok x(1) e(1) x(2) e(2)])
    then have "tunnel_assign y (tunnel_bindings x) = tunnel_bindings y"
      using e(3) mono(1) by (simp add: tunnel_assign_def tunnel_bindings_def)
    moreover have "tunnel_advances (tunnel_bindings x) (tunnel_bindings y)"
      using tunnel_advances_iff [OF x(1) y] \<open>x = e\<close> e(3) mono by simp
    ultimately show "\<exists>z. storable_tunnel parse z \<and> tunnel_assign y (tunnel_bindings x) = tunnel_bindings z \<and>
        tunnel_advances (tunnel_bindings x) (tunnel_bindings z)"
      using y by blast
  qed
  then show ?thesis by blast
qed

lemma server_update_keeps:
  assumes ok: "tables_ok parse t" and y: "storable_server parse y"
    and e: "storable_server parse e" "server_bindings e \<in> set (tb_servers t)" "id_text (sv_id e) = id_text (sv_id y)"
    and mono: "sv_created_at y = sv_created_at e" "sv_updated_at e \<le> sv_updated_at y"
      "sv_config_revision e \<le> sv_config_revision y"
    and upd: "update_servers (\<lambda>r. svr_id r = SqlText (id_text (sv_id y))) (server_assign y) t = Inr (n, t')"
  shows "tables_ok parse t' \<and> advances t t'"
proof -
  have "tables_ok parse t' \<and> advances t t' \<and> tb_tunnels t' = tb_tunnels t \<and> tb_identity t' = tb_identity t \<and>
    tb_servers t' = update_where (\<lambda>r. svr_id r = SqlText (id_text (sv_id y))) (server_assign y) (tb_servers t) \<and>
    n = length (filter (\<lambda>r. svr_id r = SqlText (id_text (sv_id y))) (tb_servers t))"
  proof (rule update_servers_ok [OF ok upd])
    fix x
    assume x: "storable_server parse x" "server_bindings x \<in> set (tb_servers t)"
      "svr_id (server_bindings x) = SqlText (id_text (sv_id y))"
    have "id_text (sv_id x) = id_text (sv_id e)" using x(3) e(3) by (simp add: server_bindings_def)
    then have "x = e" by (rule server_binding_unique [OF ok x(1) e(1) x(2) e(2)])
    then have "server_assign y (server_bindings x) = server_bindings y"
      using e(3) mono(1) by (simp add: server_assign_def server_bindings_def)
    moreover have "server_advances (server_bindings x) (server_bindings y)"
      using server_advances_iff [OF x(1) y] \<open>x = e\<close> e(3) mono by simp
    ultimately show "\<exists>z. storable_server parse z \<and> server_assign y (server_bindings x) = server_bindings z \<and>
        server_advances (server_bindings x) (server_bindings z)"
      using y by blast
  qed
  then show ?thesis by blast
qed

lemma update_tunnels_removed:
  assumes ok: "tables_ok parse t"
    and upd: "update_tunnels p (\<lambda>r. removed_row (u r) r) t = Inr (n, t')"
    and u: "\<And>x. storable_tunnel parse x \<Longrightarrow> tunnel_bindings x \<in> set (tb_tunnels t) \<Longrightarrow> p (tunnel_bindings x) \<Longrightarrow>
      \<exists>v \<ge> tn_updated_at x. u (tunnel_bindings x) = SqlInteger v"
  shows "tables_ok parse t' \<and> advances t t' \<and> tb_servers t' = tb_servers t \<and> tb_identity t' = tb_identity t \<and>
    tb_tunnels t' = update_where p (\<lambda>r. removed_row (u r) r) (tb_tunnels t) \<and> n = length (filter p (tb_tunnels t))"
proof (rule update_tunnels_ok [OF ok upd])
  fix x
  assume x: "storable_tunnel parse x" "tunnel_bindings x \<in> set (tb_tunnels t)" "p (tunnel_bindings x)"
  then obtain v where "tn_updated_at x \<le> v" "u (tunnel_bindings x) = SqlInteger v" using u by blast
  then show "\<exists>y. storable_tunnel parse y \<and> removed_row (u (tunnel_bindings x)) (tunnel_bindings x) = tunnel_bindings y \<and>
      tunnel_advances (tunnel_bindings x) (tunnel_bindings y)"
    using removed_record_storable [OF x(1)] row_assignments(3) [of v x] by auto
qed

lemma update_tunnels_runtime:
  assumes ok: "tables_ok parse t"
    and upd: "update_tunnels p (runtime_row a error u b) t = Inr (n, t')"
    and error: "validate_error_fields (map_option code error) (map_option message error) = Inr ()"
  shows "tables_ok parse t' \<and> advances t t' \<and> tb_servers t' = tb_servers t \<and> tb_identity t' = tb_identity t \<and>
    tb_tunnels t' = update_where p (runtime_row a error u b) (tb_tunnels t) \<and> n = length (filter p (tb_tunnels t))"
proof (rule update_tunnels_ok [OF ok upd])
  fix x
  assume x: "storable_tunnel parse x"
  show "\<exists>y. storable_tunnel parse y \<and> runtime_row a error u b (tunnel_bindings x) = tunnel_bindings y \<and>
      tunnel_advances (tunnel_bindings x) (tunnel_bindings y)"
    using runtime_record_storable [OF x error, of a u b] row_assignments(2) [of a error u b x] by blast
qed

lemma tunnel_create_op:
  assumes "tunnel_in_memory parse x"
  shows "op_ok parse (\<lambda>db. and_then (validate_tunnel_record x) (\<lambda>_.
     and_then (run_statement sq ''count persisted tunnels'' (Inr (length (tb_tunnels (db_tables db))))) (\<lambda>count.
     if limit \<le> count then failure EC_resource_exhausted ''configured tunnel storage limit reached''
     else run_statement sq ''insert tunnel record'' (insert_tunnel (tunnel_bindings x) (db_tables db)))))"
  using insert_tunnel_ok storable_tunnelI [OF _ assms]
  by (auto simp: op_ok_def and_then_Inr_iff run_statement_Inr split: if_splits)

lemma server_create_op:
  assumes "server_in_memory parse x"
  shows "op_ok parse (\<lambda>db. and_then (validate_server_record x) (\<lambda>_.
     and_then (run_statement sq ''count persisted servers'' (Inr (length (tb_servers (db_tables db))))) (\<lambda>count.
     if limit \<le> count then failure EC_resource_exhausted ''configured server storage limit reached''
     else run_statement sq ''insert server record'' (insert_server (server_bindings x) (db_tables db)))))"
  using insert_server_ok storable_serverI [OF _ assms]
  by (auto simp: op_ok_def and_then_Inr_iff run_statement_Inr split: if_splits)

section \<open>Steps of the database\<close>

definition storage_step_ok :: "endpoint_parser \<Rightarrow> Database \<Rightarrow> bool \<Rightarrow> Database \<Rightarrow> bool" where
  "storage_step_ok parse db succeeded db' \<longleftrightarrow>
     db_ready db' \<and> tables_ok parse (db_durable db') \<and>
     (if succeeded then advances (db_durable db) (db_durable db') else db_durable db' = db_durable db)"

lemma durable_tables: "db_ready db \<Longrightarrow> \<not> db_poisoned db \<Longrightarrow> db_durable db = db_tables db"
  by (simp add: db_ready_def db_durable_def)

lemma in_transaction_step:
  assumes op: "op_ok parse op" and ready: "db_ready db" and ok: "tables_ok parse (db_durable db)"
    and run: "with_transaction sq (in_transaction op) db = (r, db')"
  shows "storage_step_ok parse db (has_value r) db'"
proof (cases r)
  case (Inl e)
  then show ?thesis
    using with_transaction_atomic [OF in_transaction_ok [of op] ready, of sq] run ok
    by (simp add: storage_step_ok_def has_value_iff)
next
  case (Inr v)
  then obtain tx db1 tx2 db2 where b: "in_transaction op tx db1 = (Inr v, tx2, db2)" "tx_active tx"
    "tx_failure tx = None" "db_tables db1 = db_tables db" "db_durable db' = db_tables db2"
    "db_ready db'" "\<not> db_poisoned db"
    using with_transaction_atomic [OF in_transaction_ok [of op] ready, of sq] run by auto
  then obtain t where t: "op db1 = Inr t" "db_tables db2 = t"
    by (auto simp: in_transaction_def split: sum.splits)
  have "db_tables db1 = db_durable db" using b(4,7) durable_tables [OF ready] by simp
  with op t ok have "tables_ok parse t \<and> advances (db_durable db) t" unfolding op_ok_def by metis
  with b t Inr show ?thesis by (simp add: storage_step_ok_def has_value_iff)
qed

lemma plain_statement_ok: "body_ok (plain_statement op)"
  by (auto simp: body_ok_def plain_statement_def split: sum.splits)

lemma plain_statement_step:
  assumes op: "\<And>t n t'. tables_ok parse t \<Longrightarrow> op t = Inr (n, t') \<Longrightarrow> tables_ok parse t' \<and> advances t t'"
    and ready: "db_ready db" and ok: "tables_ok parse (db_durable db)"
    and run: "with_transaction sq (plain_statement op) db = (r, db')"
  shows "storage_step_ok parse db (has_value r) db' \<and> (\<forall>n. r = Inr n \<longrightarrow> op (db_durable db) = Inr (n, db_durable db'))"
proof (cases r)
  case (Inl e)
  then show ?thesis
    using with_transaction_atomic [OF plain_statement_ok [of op] ready, of sq] run ok
    by (simp add: storage_step_ok_def has_value_iff)
next
  case (Inr v)
  then obtain tx db1 tx2 db2 where b: "plain_statement op tx db1 = (Inr v, tx2, db2)"
    "db_tables db1 = db_tables db" "db_durable db' = db_tables db2" "db_ready db'" "\<not> db_poisoned db"
    using with_transaction_atomic [OF plain_statement_ok [of op] ready, of sq] run by auto
  then have t: "op (db_tables db1) = Inr (v, db_tables db2)"
    by (auto simp: plain_statement_def split: sum.splits)
  have "db_tables db1 = db_durable db" using b(2,5) durable_tables [OF ready] by simp
  with op [of "db_durable db" v "db_tables db2"] t ok b(3,4) Inr show ?thesis
    by (simp add: storage_step_ok_def has_value_iff)
qed

section \<open>Every operation\<close>

lemma op_okI:
  "(\<And>db t'. tables_ok parse (db_tables db) \<Longrightarrow> op db = Inr t' \<Longrightarrow>
     tables_ok parse t' \<and> advances (db_tables db) t') \<Longrightarrow> op_ok parse op"
  unfolding op_ok_def by blast

lemma tunnel_create_step:
  assumes "tunnel_in_memory parse x" "db_ready db" "tables_ok parse (db_durable db)"
    and "tunnel_create sq limit x db = (r, db')"
  shows "storage_step_ok parse db (has_value r) db'"
  by (rule in_transaction_step [OF tunnel_create_op [OF assms(1)] assms(2,3)])
     (use assms(4) in \<open>simp add: tunnel_create_def tunnel_create_in_def\<close>)

lemma server_create_step:
  assumes "server_in_memory parse x" "db_ready db" "tables_ok parse (db_durable db)"
    and "server_create sq limit x db = (r, db')"
  shows "storage_step_ok parse db (has_value r) db'"
  by (rule in_transaction_step [OF server_create_op [OF assms(1)] assms(2,3)])
     (use assms(4) in \<open>simp add: server_create_def server_create_in_def\<close>)

lemma tunnel_update_step:
  assumes x: "tunnel_in_memory parse x" and db: "db_ready db" "tables_ok parse (db_durable db)"
    and run: "tunnel_update sq parse x db = (r, db')"
  shows "storage_step_ok parse db (has_value r) db'"
proof (rule in_transaction_step [OF op_okI db run [unfolded tunnel_update_def tunnel_update_in_def]])
  fix db t'
  assume ok: "tables_ok parse (db_tables db)"
    and "and_then (validate_tunnel_record x) (\<lambda>_.
     and_then (tunnel_get_by_id sq parse (tn_id x) db) (\<lambda>existing.
     if tn_created_at x \<noteq> tn_created_at existing \<or> tn_updated_at x < tn_updated_at existing \<or>
        tn_config_revision x < tn_config_revision existing
     then failure EC_invalid_argument
            ''tunnel creation time is immutable and update time/revision must not move backward''
     else and_then (run_statement sq ''update tunnel record''
            (update_tunnels (\<lambda>r. tnr_id r = SqlText (id_text (tn_id x))) (tunnel_assign x) (db_tables db)))
          (changed_one ''tunnel record was not found''))) = Inr t'"
  then obtain e n where v: "validate_tunnel_record x = Inr ()"
    and e: "tunnel_get_by_id sq parse (tn_id x) db = Inr e"
    and mono: "tn_created_at x = tn_created_at e" "tn_updated_at e \<le> tn_updated_at x"
      "tn_config_revision e \<le> tn_config_revision x"
    and upd: "update_tunnels (\<lambda>r. tnr_id r = SqlText (id_text (tn_id x))) (tunnel_assign x) (db_tables db) = Inr (n, t')"
    by (auto simp: and_then_Inr_iff run_statement_Inr changed_one_Inr not_less split: if_splits)
  from tunnel_get_by_id_Inr [OF e ok] have ex: "storable_tunnel parse e"
    "tunnel_bindings e \<in> set (tb_tunnels (db_tables db))" "id_text (tn_id e) = id_text (tn_id x)" by auto
  show "tables_ok parse t' \<and> advances (db_tables db) t'"
    by (rule tunnel_update_keeps [OF ok storable_tunnelI [OF v x] ex mono upd])
qed

lemma server_update_step:
  assumes x: "server_in_memory parse x" and db: "db_ready db" "tables_ok parse (db_durable db)"
    and run: "server_update sq parse x db = (r, db')"
  shows "storage_step_ok parse db (has_value r) db'"
proof (rule in_transaction_step [OF op_okI db run [unfolded server_update_def server_update_in_def]])
  fix db t'
  assume ok: "tables_ok parse (db_tables db)"
    and "and_then (validate_server_record x) (\<lambda>_.
     and_then (server_get_by_id sq parse (sv_id x) db) (\<lambda>existing.
     if sv_created_at x \<noteq> sv_created_at existing \<or> sv_updated_at x < sv_updated_at existing \<or>
        sv_config_revision x < sv_config_revision existing
     then failure EC_invalid_argument
            ''server creation time is immutable and update time/revision must not move backward''
     else and_then (run_statement sq ''update server record''
            (update_servers (\<lambda>r. svr_id r = SqlText (id_text (sv_id x))) (server_assign x) (db_tables db)))
          (changed_one ''server record was not found''))) = Inr t'"
  then obtain e n where v: "validate_server_record x = Inr ()"
    and e: "server_get_by_id sq parse (sv_id x) db = Inr e"
    and mono: "sv_created_at x = sv_created_at e" "sv_updated_at e \<le> sv_updated_at x"
      "sv_config_revision e \<le> sv_config_revision x"
    and upd: "update_servers (\<lambda>r. svr_id r = SqlText (id_text (sv_id x))) (server_assign x) (db_tables db) = Inr (n, t')"
    by (auto simp: and_then_Inr_iff run_statement_Inr changed_one_Inr not_less split: if_splits)
  from server_get_by_id_Inr [OF e ok] have ex: "storable_server parse e"
    "server_bindings e \<in> set (tb_servers (db_tables db))" "id_text (sv_id e) = id_text (sv_id x)" by auto
  show "tables_ok parse t' \<and> advances (db_tables db) t'"
    by (rule server_update_keeps [OF ok storable_serverI [OF v x] ex mono upd])
qed

lemma tunnel_mark_removed_step:
  assumes db: "db_ready db" "tables_ok parse (db_durable db)"
    and run: "tunnel_mark_removed sq parse i u db = (r, db')"
  shows "storage_step_ok parse db (has_value r) db'"
proof (rule in_transaction_step [OF op_okI db run [unfolded tunnel_mark_removed_def tunnel_mark_removed_in_def]])
  fix db t'
  assume ok: "tables_ok parse (db_tables db)"
    and "(if id_kind i \<noteq> IK_tunnel \<or> u < 0
     then failure EC_invalid_argument ''tunnel removal requires a tunnel ID and non-negative time''
     else and_then (tunnel_get_by_id sq parse i db) (\<lambda>existing.
       if u < tn_updated_at existing
       then failure EC_invalid_argument ''tunnel update time must not move backward''
       else and_then (run_statement sq ''mark tunnel removed''
              (update_tunnels (\<lambda>r. tnr_id r = SqlText (id_text i)) (removed_row (SqlInteger u)) (db_tables db)))
            (changed_one ''tunnel record was not found''))) = Inr t'"
  then obtain e n where e: "tunnel_get_by_id sq parse i db = Inr e" and mono: "tn_updated_at e \<le> u"
    and upd: "update_tunnels (\<lambda>r. tnr_id r = SqlText (id_text i)) (\<lambda>r. removed_row (SqlInteger u) r) (db_tables db) = Inr (n, t')"
    by (auto simp: and_then_Inr_iff run_statement_Inr changed_one_Inr not_less split: if_splits)
  have "tables_ok parse t' \<and> advances (db_tables db) t' \<and> tb_servers t' = tb_servers (db_tables db) \<and>
    tb_identity t' = tb_identity (db_tables db) \<and> tb_tunnels t' =
      update_where (\<lambda>r. tnr_id r = SqlText (id_text i)) (\<lambda>r. removed_row (SqlInteger u) r) (tb_tunnels (db_tables db)) \<and>
    n = length (filter (\<lambda>r. tnr_id r = SqlText (id_text i)) (tb_tunnels (db_tables db)))"
  proof (rule update_tunnels_removed [OF ok upd])
    fix x assume x: "storable_tunnel parse x" "tunnel_bindings x \<in> set (tb_tunnels (db_tables db))"
      "tnr_id (tunnel_bindings x) = SqlText (id_text i)"
    have "id_text (tn_id x) = id_text (tn_id e)"
      using x(3) tunnel_get_by_id_Inr [OF e ok] by (simp add: tunnel_bindings_def)
    then have "x = e" using tunnel_binding_unique [OF ok x(1) _ x(2)] tunnel_get_by_id_Inr [OF e ok] by blast
    then show "\<exists>v \<ge> tn_updated_at x. SqlInteger u = SqlInteger v" using mono by blast
  qed
  then show "tables_ok parse t' \<and> advances (db_tables db) t'" by blast
qed

lemma tunnel_erase_step:
  assumes db: "db_ready db" "tables_ok parse (db_durable db)"
    and run: "tunnel_erase sq parse i db = (r, db')"
  shows "storage_step_ok parse db (has_value r) db'"
proof (rule in_transaction_step [OF op_okI db run [unfolded tunnel_erase_def tunnel_erase_in_def]])
  fix db t'
  assume ok: "tables_ok parse (db_tables db)"
    and "(if id_kind i \<noteq> IK_tunnel then failure EC_invalid_argument ''tunnel erase requires a tunnel ID''
     else and_then (tunnel_get_by_id sq parse i db) (\<lambda>existing.
       if tn_desired_state existing \<noteq> TDS_removed \<or> tn_actual_state existing \<noteq> TAS_removing
       then failure EC_invalid_argument
              ''tunnel must be a reconciled removal tombstone before physical erase''
       else and_then (run_statement sq ''erase tunnel record''
              (Inr (delete_tunnel (SqlText (id_text i)) (db_tables db))))
            (changed_one ''tunnel record was not found''))) = Inr t'"
  then obtain n where "delete_tunnel (SqlText (id_text i)) (db_tables db) = (n, t')"
    by (auto simp: and_then_Inr_iff run_statement_Inr changed_one_Inr split: if_splits)
  then show "tables_ok parse t' \<and> advances (db_tables db) t'" by (rule delete_tunnel_ok [OF ok])
qed

lemma server_erase_step:
  assumes db: "db_ready db" "tables_ok parse (db_durable db)"
    and run: "server_erase sq parse i db = (r, db')"
  shows "storage_step_ok parse db (has_value r) db'"
proof (rule in_transaction_step [OF op_okI db run [unfolded server_erase_def server_erase_in_def]])
  fix db t'
  assume ok: "tables_ok parse (db_tables db)"
    and "(if id_kind i \<noteq> IK_server then failure EC_invalid_argument ''server erase requires a server ID''
     else and_then (server_get_by_id sq parse i db) (\<lambda>existing.
       if sv_desired_state existing \<noteq> SDS_removed \<or> sv_actual_state existing \<noteq> SAS_disabled
       then failure EC_invalid_argument
              ''server must be a reconciled removal tombstone before physical erase''
       else and_then (has_non_tombstone_children sq i None (db_tables db)) (\<lambda>live_children.
         if live_children
         then failure EC_invalid_argument
                ''server still has child tunnels that are not removal tombstones''
         else and_then (run_statement sq ''erase server record''
                (Inr (delete_server (SqlText (id_text i)) (db_tables db))))
              (changed_one ''server record was not found'')))) = Inr t'"
  then obtain n where "delete_server (SqlText (id_text i)) (db_tables db) = (n, t')"
    by (auto simp: and_then_Inr_iff run_statement_Inr changed_one_Inr split: if_splits)
  then show "tables_ok parse t' \<and> advances (db_tables db) t'" by (rule delete_server_ok [OF ok])
qed

lemma advances_compose:
  assumes "advances t t1" "advances t1 t2"
    and "tnr_id ` set (tb_tunnels t) \<subseteq> tnr_id ` set (tb_tunnels t1)"
    and "svr_id ` set (tb_servers t) \<subseteq> svr_id ` set (tb_servers t1)"
  shows "advances t t2"
proof -
  have "tunnel_advances r r''"
    if r: "r \<in> set (tb_tunnels t)" "r'' \<in> set (tb_tunnels t2)" "tnr_id r'' = tnr_id r" for r r''
  proof -
    have "tnr_id r \<in> tnr_id ` set (tb_tunnels t1)" using r(1) assms(3) by blast
    then obtain r' where r': "r' \<in> set (tb_tunnels t1)" "tnr_id r' = tnr_id r" by auto
    then have "tunnel_advances r r'" "tunnel_advances r' r''"
      using assms(1,2) r unfolding advances_def by simp_all
    then show ?thesis by (simp add: tunnel_advances_def)
  qed
  moreover have "server_advances r r''"
    if r: "r \<in> set (tb_servers t)" "r'' \<in> set (tb_servers t2)" "svr_id r'' = svr_id r" for r r''
  proof -
    have "svr_id r \<in> svr_id ` set (tb_servers t1)" using r(1) assms(4) by blast
    then obtain r' where r': "r' \<in> set (tb_servers t1)" "svr_id r' = svr_id r" by auto
    then have "server_advances r r'" "server_advances r' r''"
      using assms(1,2) r unfolding advances_def by simp_all
    then show ?thesis by (simp add: server_advances_def)
  qed
  ultimately show ?thesis unfolding advances_def by blast
qed

lemma update_where_id_set:
  "(\<And>r. k (f r) = k r) \<Longrightarrow> k ` set (update_where p f rows) = k ` set rows"
  by (metis set_map update_where_ids)

lemma removed_row_id: "tnr_id (removed_row u r) = tnr_id r"
  by (simp add: removed_row_def)

definition removed_server_record :: "int \<Rightarrow> ServerRecord \<Rightarrow> ServerRecord" where
  "removed_server_record u x =
     x\<lparr>sv_desired_state := SDS_removed, sv_actual_state := SAS_disabled, sv_reconnect_attempt := 0,
       sv_latency_ms := None, sv_updated_at := u\<rparr>"

lemma removed_server_row_bindings:
  "removed_server_row u (server_bindings x) = server_bindings (removed_server_record u x)"
  by (simp add: removed_server_row_def removed_server_record_def server_bindings_def state_literals
      bind_optional_int64_def)

lemma removed_server_storable:
  assumes "storable_server parse x" "sv_updated_at x \<le> u"
  shows "storable_server parse (removed_server_record u x)"
    "server_advances (server_bindings x) (server_bindings (removed_server_record u x))"
proof -
  show y: "storable_server parse (removed_server_record u x)"
    using assms by (simp add: storable_server_def validate_server_record_iff removed_server_record_def)
  show "server_advances (server_bindings x) (server_bindings (removed_server_record u x))"
    using server_advances_iff [OF assms(1) y] assms(2) by (simp add: removed_server_record_def)
qed

lemma remove_children_ok:
  assumes ok: "tables_ok parse t"
    and newer: "has_non_tombstone_children sq i (Some u) t = Inr False"
    and upd: "update_tunnels (\<lambda>r. tnr_server_id r = SqlText (id_text i) \<and>
        (tnr_desired_state r \<noteq> SqlText ''removed'' \<or> tnr_actual_state r \<noteq> SqlText ''removing''))
      (\<lambda>r. removed_row (SqlInteger u) r) t = Inr (n, t1)"
  shows "tables_ok parse t1 \<and> advances t t1 \<and> tb_servers t1 = tb_servers t \<and>
    tnr_id ` set (tb_tunnels t1) = tnr_id ` set (tb_tunnels t)"
proof -
  have none: "\<not> (tnr_server_id r = SqlText (id_text i) \<and>
      (tnr_desired_state r \<noteq> SqlText ''removed'' \<or> tnr_actual_state r \<noteq> SqlText ''removing'') \<and>
      u < integer_of (tnr_updated_at r))" if "r \<in> set (tb_tunnels t)" for r
    using newer that by (simp add: has_non_tombstone_children_def run_statement_Inr list_ex_iff)
  have old: "\<exists>v \<ge> tn_updated_at x. SqlInteger u = SqlInteger v"
    if "tunnel_bindings x \<in> set (tb_tunnels t)"
      "tnr_server_id (tunnel_bindings x) = SqlText (id_text i) \<and>
        (tnr_desired_state (tunnel_bindings x) \<noteq> SqlText ''removed'' \<or>
         tnr_actual_state (tunnel_bindings x) \<noteq> SqlText ''removing'')" for x
  proof -
    have "\<not> u < integer_of (tnr_updated_at (tunnel_bindings x))" using none [OF that(1)] that(2) by blast
    then have "tn_updated_at x \<le> u" by (simp add: tunnel_bindings_def integer_of_def)
    then show ?thesis by blast
  qed
  have "tb_tunnels t1 = update_where (\<lambda>r. tnr_server_id r = SqlText (id_text i) \<and>
        (tnr_desired_state r \<noteq> SqlText ''removed'' \<or> tnr_actual_state r \<noteq> SqlText ''removing''))
      (\<lambda>r. removed_row (SqlInteger u) r) (tb_tunnels t)"
    "tables_ok parse t1" "advances t t1" "tb_servers t1 = tb_servers t"
    using update_tunnels_removed [OF ok upd] old by blast+
  then show ?thesis by (simp add: update_where_id_set removed_row_id)
qed

lemma server_mark_removed_step:
  assumes db: "db_ready db" "tables_ok parse (db_durable db)"
    and run: "server_mark_removed sq parse i u db = (r, db')"
  shows "storage_step_ok parse db (has_value r) db'"
proof (rule in_transaction_step [OF op_okI db run [unfolded server_mark_removed_def server_mark_removed_in_def]])
  fix db t'
  assume ok: "tables_ok parse (db_tables db)"
    and "(if id_kind i \<noteq> IK_server \<or> u < 0
     then failure EC_invalid_argument ''server removal requires a server ID and non-negative time''
     else and_then (server_get_by_id sq parse i db) (\<lambda>existing.
       if u < sv_updated_at existing
       then failure EC_invalid_argument ''server update time must not move backward''
       else and_then (has_non_tombstone_children sq i (Some u) (db_tables db)) (\<lambda>newer_children.
         if newer_children
         then failure EC_invalid_argument ''server removal time precedes a child tunnel update''
         else and_then (run_statement sq ''mark child tunnels removed''
                (update_tunnels (\<lambda>r. tnr_server_id r = SqlText (id_text i) \<and>
                     (tnr_desired_state r \<noteq> SqlText ''removed'' \<or>
                      tnr_actual_state r \<noteq> SqlText ''removing''))
                   (removed_row (SqlInteger u)) (db_tables db)))
              (\<lambda>(_, t). and_then (run_statement sq ''mark server removed''
                  (update_servers (\<lambda>r. svr_id r = SqlText (id_text i)) (removed_server_row u) t))
                (changed_one ''server record was not found''))))) = Inr t'"
  then obtain e n n1 t1 where e: "server_get_by_id sq parse i db = Inr e" and mono: "sv_updated_at e \<le> u"
    and newer: "has_non_tombstone_children sq i (Some u) (db_tables db) = Inr False"
    and u1: "update_tunnels (\<lambda>r. tnr_server_id r = SqlText (id_text i) \<and>
        (tnr_desired_state r \<noteq> SqlText ''removed'' \<or> tnr_actual_state r \<noteq> SqlText ''removing''))
      (\<lambda>r. removed_row (SqlInteger u) r) (db_tables db) = Inr (n, t1)"
    and u2: "update_servers (\<lambda>r. svr_id r = SqlText (id_text i)) (removed_server_row u) t1 = Inr (n1, t')"
    by (auto simp: and_then_Inr_iff run_statement_Inr changed_one_Inr not_less split: if_splits prod.splits)
  have t1: "tables_ok parse t1" "advances (db_tables db) t1" "tb_servers t1 = tb_servers (db_tables db)"
    "tnr_id ` set (tb_tunnels t1) = tnr_id ` set (tb_tunnels (db_tables db))"
    using remove_children_ok [OF ok newer u1] by auto
  have "tables_ok parse t' \<and> advances t1 t' \<and> tb_tunnels t' = tb_tunnels t1 \<and> tb_identity t' = tb_identity t1 \<and>
    tb_servers t' = update_where (\<lambda>r. svr_id r = SqlText (id_text i)) (removed_server_row u) (tb_servers t1) \<and>
    n1 = length (filter (\<lambda>r. svr_id r = SqlText (id_text i)) (tb_servers t1))"
  proof (rule update_servers_ok [OF t1(1) u2])
    fix x assume x: "storable_server parse x" "server_bindings x \<in> set (tb_servers t1)"
      "svr_id (server_bindings x) = SqlText (id_text i)"
    have "id_text (sv_id x) = id_text (sv_id e)"
      using x(3) server_get_by_id_Inr [OF e ok] by (simp add: server_bindings_def)
    then have "x = e"
      using server_binding_unique [OF ok x(1) _ x(2) [unfolded t1(3)]] server_get_by_id_Inr [OF e ok] by blast
    then show "\<exists>y. storable_server parse y \<and> removed_server_row u (server_bindings x) = server_bindings y \<and>
        server_advances (server_bindings x) (server_bindings y)"
      using removed_server_storable [OF x(1)] mono removed_server_row_bindings by blast
  qed
  then have "tables_ok parse t'" "advances t1 t'" by blast+
  with advances_compose [OF t1(2) \<open>advances t1 t'\<close>] t1(3,4)
  show "tables_ok parse t' \<and> advances (db_tables db) t'" by simp
qed

lemma runtime_statement_step:
  assumes e: "validate_error_fields (map_option code error) (map_option message error) = Inr ()"
    and db: "db_ready db" "tables_ok parse (db_durable db)"
    and run: "with_transaction sq (plain_statement (\<lambda>t.
      run_statement sq m (update_tunnels p (runtime_row a error u b) t))) db = (r, db')"
  shows "storage_step_ok parse db (has_value r) db' \<and>
    (\<forall>n. r = Inr n \<longrightarrow> update_tunnels p (runtime_row a error u b) (db_durable db) = Inr (n, db_durable db'))"
proof -
  have "tables_ok parse t' \<and> advances t t'"
    if t: "tables_ok parse t" "run_statement sq m (update_tunnels p (runtime_row a error u b) t) = Inr (n, t')"
    for t n t'
  proof -
    have "update_tunnels p (runtime_row a error u b) t = Inr (n, t')" using t(2) by (simp add: run_statement_Inr)
    from update_tunnels_runtime [OF t(1) this e] show ?thesis by blast
  qed
  from plain_statement_step [OF this db run] show ?thesis by (simp add: run_statement_Inr)
qed

lemma pending_row_runtime: "pending_row error u = runtime_row TAS_pending error u False"
  by (rule ext) (simp add: pending_row_def runtime_row_def state_literals)

lemma mark_active_pending_step:
  assumes db: "db_ready db" "tables_ok parse (db_durable db)"
    and run: "mark_active_pending_by_server sq i error u db = (r, db')"
  shows "storage_step_ok parse db (has_value r) db'"
proof (cases "(id_kind i \<noteq> IK_server \<or> u < 0) \<or> (case error of None \<Rightarrow> False | Some e \<Rightarrow> \<not> is_known_error_code (code e)) \<or>
    \<not> has_value (validate_optional_text (map_option message error) 0 kMaxErrorMessageBytes ''last_error_message'')")
  case True
  then have "db' = db \<and> \<not> has_value r"
    using run unfolding mark_active_pending_by_server_def
    by (elim disjE) (simp_all add: has_value_iff split: if_splits sum.splits, auto)
  with db show ?thesis by (simp add: storage_step_ok_def)
next
  case False
  then have v: "validate_optional_text (map_option message error) 0 kMaxErrorMessageBytes ''last_error_message'' = Inr ()"
    by (simp add: has_value_iff)
  then have e: "validate_error_fields (map_option code error) (map_option message error) = Inr ()"
    using False by (cases error) (simp_all add: validate_error_fields_def)
  have "with_transaction sq (plain_statement (\<lambda>t.
      run_statement sq ''mark active server tunnels pending''
        (update_tunnels (\<lambda>r. tnr_server_id r = SqlText (id_text i) \<and> tnr_desired_state r = SqlText ''active'')
           (runtime_row TAS_pending error u False) t))) db = (r, db')"
    using run False v by (simp add: mark_active_pending_by_server_def pending_row_runtime split: option.splits)
  from runtime_statement_step [OF e db this] show ?thesis by blast
qed

lemma update_runtime_cases:
  assumes "update_runtime_state_if_revision sq i s n a error u b db = (r, db')"
  obtains (refused) e where "r = Inl e" "db' = db"
  | (stored) c where "with_transaction sq (plain_statement (\<lambda>t.
      run_statement sq ''conditionally update tunnel runtime state''
        (update_tunnels (runtime_matches i s n a) (runtime_row a error u b) t))) db = (c, db')"
      "r = map_sum (\<lambda>e. e) (\<lambda>k. k = 1) c"
proof (cases "\<exists>e. r = Inl e \<and> db' = db")
  case True
  then show ?thesis using refused by blast
next
  case False
  then have "apfst (map_sum (\<lambda>e. e) (\<lambda>k. k = 1)) (with_transaction sq (plain_statement (\<lambda>t.
      run_statement sq ''conditionally update tunnel runtime state''
        (update_tunnels (runtime_matches i s n a) (runtime_row a error u b) t))) db) = (r, db')"
    using assms unfolding update_runtime_state_if_revision_def by (auto split: if_splits)
  then show ?thesis using stored by (cases "with_transaction sq (plain_statement (\<lambda>t.
      run_statement sq ''conditionally update tunnel runtime state''
        (update_tunnels (runtime_matches i s n a) (runtime_row a error u b) t))) db") simp
qed

lemma has_value_map_sum: "has_value (map_sum (\<lambda>e. e) f c) = has_value c"
  by (cases c) (simp_all add: has_value_iff)

lemma update_runtime_step:
  assumes e: "validate_error_fields (map_option code error) (map_option message error) = Inr ()"
    and db: "db_ready db" "tables_ok parse (db_durable db)"
    and run: "update_runtime_state_if_revision sq i s n a error u b db = (r, db')"
  shows "storage_step_ok parse db (has_value r) db'"
  using run
proof (cases rule: update_runtime_cases)
  case (refused e)
  with db show ?thesis by (simp add: storage_step_ok_def has_value_iff)
next
  case (stored c)
  from runtime_statement_step [OF e db stored(1)] show ?thesis by (simp add: stored(2) has_value_map_sum)
qed

end
