(* ===== verification/Storage_Recovery.thy ===== *)
theory Storage_Recovery
  imports Storage_Invariants
begin

text \<open>
  The daemon's identity and the recovery after a restart (\<open>src/storage/state_repository.cpp\<close>):
  both are all-or-nothing, keep the tables well formed, and recovery brings every row to the state
  its desired state calls for.
\<close>

section \<open>A transaction that ends in a commit on every path\<close>

lemma mark_failed_failure: "tx_failure (mark_failed e tx) \<noteq> None" "tx_active (mark_failed e tx) = tx_active tx"
  by (simp_all add: mark_failed_def split: option.splits)

lemma with_checked_transaction_atomic:
  assumes "body_ok body" "db_ready db"
  shows "(case with_checked_transaction sq body db of
      (Inl e, db') \<Rightarrow> db_durable db' = db_durable db \<and> db_ready db'
    | (Inr v, db') \<Rightarrow> \<not> db_poisoned db \<and> db_ready db' \<and> \<not> db_poisoned db' \<and>
        (\<exists>tx db1 tx2 db2. body tx db1 = (Inr v, tx2, db2) \<and> tx_active tx \<and> tx_failure tx = None \<and>
           db_tables db1 = db_tables db \<and> \<not> db_poisoned db1 \<and> db_durable db' = db_tables db2))"
proof (cases "begin_transaction sq db")
  case (Inl e)
  then show ?thesis using assms(2) by (simp add: with_checked_transaction_def)
next
  case (Inr txdb)
  then obtain tx db1 where txdb: "txdb = (tx, db1)" by fastforce
  with Inr have b: "tx_active tx" "tx_failure tx = None" "\<not> db_poisoned db"
    "db1 = db\<lparr>db_begun := Some (db_tables db), db_transaction_active := True\<rparr>"
    by (auto simp: begin_transaction_def and_then_Inr_iff split: if_splits)
  have durable: "db_durable db = db_tables db" using assms(2) b(3) by (simp add: db_ready_def db_durable_def)
  obtain r tx2 db2 where body: "body tx db1 = (r, tx2, db2)" by (metis prod_cases3)
  have ok: "tx_active tx2" "db_begun db2 = Some (db_tables db)" "\<not> db_poisoned db2"
    using body_okD [OF assms(1) b(1) _ body] b(3,4) by simp_all
  show ?thesis
  proof (cases r)
    case (Inl e)
    obtain c tx3 db3 where c: "transaction_commit sq (mark_failed e tx2) db2 = (c, tx3, db3)"
      by (metis prod_cases3)
    show ?thesis
    proof (cases c)
      case failed: (Inl e')
      then show ?thesis
        using Inr txdb body Inl c commit_failed [OF c [unfolded failed] _ ok(2,3)] mark_failed_failure ok(1) durable
        by (simp add: with_checked_transaction_def)
    next
      case (Inr u)
      then show ?thesis
        using commit_done [of sq "mark_failed e tx2" db2 u tx3 db3] c ok mark_failed_failure by simp
    qed
  next
    case val: (Inr v)
    obtain c tx3 db3 where c: "transaction_commit sq tx2 db2 = (c, tx3, db3)" by (metis prod_cases3)
    show ?thesis
    proof (cases c)
      case (Inl e)
      then show ?thesis
        using Inr txdb body val c commit_failed [OF c [unfolded Inl] ok(1,2,3)] durable
        by (simp add: with_checked_transaction_def)
    next
      case committed: (Inr u)
      have "body tx db1 = (Inr v, tx2, db2) \<and> tx_active tx \<and> tx_failure tx = None \<and>
          db_tables db1 = db_tables db \<and> \<not> db_poisoned db1"
        using body val b by simp
      then show ?thesis
        using Inr txdb body val c committed commit_done [OF c [unfolded committed] ok(1,3)] b(3)
        by (simp add: with_checked_transaction_def) blast
    qed
  qed
qed

lemma checked_step:
  assumes body: "body_ok body"
    and op: "\<And>tx db1 v tx2 db2. tables_ok parse (db_tables db1) \<Longrightarrow> body tx db1 = (Inr v, tx2, db2) \<Longrightarrow>
      tables_ok parse (db_tables db2) \<and> advances (db_tables db1) (db_tables db2)"
    and ready: "db_ready db" and ok: "tables_ok parse (db_durable db)"
    and run: "with_checked_transaction sq body db = (r, db')"
  shows "storage_step_ok parse db (has_value r) db'"
proof (cases r)
  case (Inl e)
  then show ?thesis
    using with_checked_transaction_atomic [OF body ready, of sq] run ok
    by (simp add: storage_step_ok_def has_value_iff)
next
  case (Inr v)
  then obtain tx db1 tx2 db2 where b: "body tx db1 = (Inr v, tx2, db2)"
    "db_tables db1 = db_tables db" "db_durable db' = db_tables db2" "db_ready db'" "\<not> db_poisoned db"
    using with_checked_transaction_atomic [OF body ready, of sq] run by auto
  have "db_tables db1 = db_durable db" using b(2,5) durable_tables [OF ready] by simp
  with op [OF _ b(1)] b ok Inr show ?thesis by (simp add: storage_step_ok_def has_value_iff)
qed

section \<open>The daemon's identity\<close>

lemma identity_tables_ok:
  "tables_ok parse (t\<lparr>tb_identity := l\<rparr>) = tables_ok parse t" "advances t (t\<lparr>tb_identity := l\<rparr>) = advances t t"
  by (simp_all add: tables_ok_def advances_def)

lemma state_client_id_step:
  assumes db: "db_ready db" "tables_ok parse (db_durable db)"
    and run: "state_client_id sq random db = (r, db')"
  shows "storage_step_ok parse db (has_value r) db'"
proof (rule checked_step [OF _ _ db run [unfolded state_client_id_def]])
  show "body_ok (\<lambda>tx db.
     (case run_statement sq ''read daemon identity'' (Inr (tb_identity (db_tables db))) of
        Inl e \<Rightarrow> (Inl e, tx, db)
      | Inr (v # rest) \<Rightarrow>
          ((case required_text v ''daemon client ID'' of
              Inl e \<Rightarrow> Inl e
            | Inr value \<Rightarrow>
                (case id_parse_kind value IK_client of
                   Inl _ \<Rightarrow> failure EC_database_error ''persisted daemon client ID is invalid''
                 | Inr parsed \<Rightarrow>
                     if rest \<noteq> []
                     then failure EC_database_error ''daemon identity query returned extra rows''
                     else Inr parsed)), tx, db)
      | Inr [] \<Rightarrow>
          (case id_generate random IK_client of
             Inl e \<Rightarrow> (Inl e, tx, db)
           | Inr generated \<Rightarrow>
               (case run_statement sq ''persist daemon identity''
                       (insert_identity (SqlText (id_text generated)) (db_tables db)) of
                  Inl e \<Rightarrow> (Inl e, tx, db)
                | Inr t \<Rightarrow> (Inr generated, tx, db\<lparr>db_tables := t\<rparr>)))))"
    by (auto simp: body_ok_def split: sum.splits list.splits)
qed (auto simp: insert_identity_def run_statement_Inr identity_tables_ok advances_refl
      split: sum.splits list.splits if_splits)

section \<open>Recovery\<close>

lemma server_checks_bindings:
  assumes "storable_server parse r"
  shows "server_checks (server_bindings r)"
proof -
  have v: "validate_error_fields (sv_last_error_code r) (sv_last_error_message r) = Inr ()"
    "valid_revision (sv_config_revision r)" "0 \<le> sv_created_at r" "sv_created_at r \<le> sv_updated_at r"
    "sv_reconnect_attempt r \<le> 2147483647"
    "case sv_latency_ms r of None \<Rightarrow> True | Some l \<Rightarrow> 0 \<le> l \<and> l \<le> 2147483647"
    using assms by (simp_all add: storable_server_def validate_server_record_iff)
  have texts: "null_or (\<lambda>v. text_between v 1 64) (bind_optional_text (sv_name r))"
    "null_or (\<lambda>v. text_between v 1 256) (bind_optional_text (sv_credential_ref r))"
    "null_or (\<lambda>v. text_between v 1 256) (bind_optional_text (sv_remote_server_id r))"
    "null_or (\<lambda>v. text_between v 1 253) (bind_optional_text (sv_tls_server_name r))"
    "null_or (\<lambda>v. text_between v 1 256) (bind_optional_text (sv_ca_credential_ref r))"
    "null_or (\<lambda>v. text_between v 1 256) (bind_optional_text (sv_client_certificate_ref r))"
    "null_or (\<lambda>v. text_between v 1 256) (bind_optional_text (sv_client_private_key_ref r))"
    using assms unfolding storable_server_def validate_server_record_iff
    by (auto dest!: validate_optional_text_length simp: kMaxNameBytes_def kMaxCredentialReferenceBytes_def
        kMaxRemoteServerIdBytes_def kMaxTlsServerNameBytes_def)
  have ids: "id_check ''srv_'' (SqlText (id_text (sv_id r)))"
    using assms parsed_id_check [of IK_server "sv_id r"] by (simp add: storable_server_def)
  have ep: "text_between (SqlText (endpoint_to_string (sv_endpoint r))) 1 260"
    using assms by (auto simp: storable_server_def parsed_endpoint_def text_between_def endpoint_to_string_def
        Suc_le_eq)
  have numbers: "integer_between (SqlInteger (uint (sv_reconnect_attempt r))) 0 2147483647"
    "null_or (\<lambda>v. integer_between v 0 2147483647) (bind_optional_int64 (sv_latency_ms r))"
    "integer_between (SqlInteger (sint (sv_config_revision r))) 1 9223372036854775807"
    "integer_between (bind_bool b) 0 1" for b
    using v(5,6) revision_column [OF v(2)]
    by (auto simp: integer_between_def null_or_def bind_optional_int64_def bind_bool_def word_le_def
        split: option.splits)
  have states: "SqlText (server_desired_state_to_string d) \<in> SqlText ` {''enabled'', ''disabled'', ''removed''}"
    "SqlText (server_actual_state_to_string a) \<in> SqlText `
       {''not_authenticated'', ''disconnected'', ''connecting'', ''tls_handshake'', ''authenticating'',
        ''online'', ''backoff'', ''disabled'', ''error''}" for d a
    by (cases d; cases a; simp add: server_desired_state_to_string_def server_actual_state_to_string_def
        enum_to_string_def kServerDesiredStates_def kServerActualStates_def)+
  show ?thesis
    using texts ids ep numbers states error_column_check [OF v(1)] v(3,4)
    unfolding server_checks_def server_bindings_def by (simp only: ServerRow.simps prod.case SqlValue.case)
qed

text \<open>The two assignments of the recovery, on records.\<close>

definition recovered_server_record :: "int \<Rightarrow> ServerRecord \<Rightarrow> ServerRecord" where
  "recovered_server_record u x =
     x\<lparr>sv_actual_state :=
         (case sv_desired_state x of
            SDS_enabled \<Rightarrow> (if sv_credential_ref x = None then SAS_not_authenticated else SAS_disconnected)
          | _ \<Rightarrow> SAS_disabled),
       sv_reconnect_attempt := 0, sv_latency_ms := None, sv_updated_at := max (sv_updated_at x) u\<rparr>"

definition recovered_tunnel_record :: "int \<Rightarrow> TunnelRecord \<Rightarrow> TunnelRecord" where
  "recovered_tunnel_record u x =
     x\<lparr>tn_actual_state :=
         (case tn_desired_state x of TDS_active \<Rightarrow> TAS_pending | TDS_disabled \<Rightarrow> TAS_disabled
          | TDS_removed \<Rightarrow> TAS_removing),
       tn_updated_at := max (tn_updated_at x) u\<rparr>"

definition recovered_tunnel_row :: "int \<Rightarrow> TunnelRow \<Rightarrow> TunnelRow" where
  "recovered_tunnel_row u r =
     r\<lparr>tnr_actual_state := recovered_tunnel_state r, tnr_updated_at := sql_max (tnr_updated_at r) (SqlInteger u)\<rparr>"

lemma recovered_rows:
  "recovered_server_row u (server_bindings x) = server_bindings (recovered_server_record u x)"
  "recovered_tunnel_row u (tunnel_bindings y) = tunnel_bindings (recovered_tunnel_record u y)"
  by (cases "sv_desired_state x"; cases "sv_credential_ref x"; cases "tn_desired_state y";
      simp add: recovered_server_row_def server_bindings_def recovered_server_record_def recovered_server_state_def
        recovered_tunnel_row_def tunnel_bindings_def recovered_tunnel_record_def recovered_tunnel_state_def
        state_literals sql_max_def bind_optional_int64_def bind_optional_text_def)+

lemma recovered_server_storable:
  assumes "storable_server parse x"
  shows "storable_server parse (recovered_server_record u x)"
    "server_advances (server_bindings x) (server_bindings (recovered_server_record u x))"
proof -
  show y: "storable_server parse (recovered_server_record u x)"
    using assms
    by (simp add: storable_server_def validate_server_record_iff recovered_server_record_def le_max_iff_disj)
  show "server_advances (server_bindings x) (server_bindings (recovered_server_record u x))"
    using server_advances_iff [OF assms y] by (simp add: recovered_server_record_def)
qed

lemma recovered_tunnel_storable:
  assumes "storable_tunnel parse x"
  shows "storable_tunnel parse (recovered_tunnel_record u x)"
    "tunnel_advances (tunnel_bindings x) (tunnel_bindings (recovered_tunnel_record u x))"
proof -
  show y: "storable_tunnel parse (recovered_tunnel_record u x)"
    using assms
    by (auto simp: storable_tunnel_def validate_tunnel_record_iff recovered_tunnel_record_def split: option.splits)
  show "tunnel_advances (tunnel_bindings x) (tunnel_bindings (recovered_tunnel_record u x))"
    using tunnel_advances_iff [OF assms y] by (simp add: recovered_tunnel_record_def)
qed

text \<open>Tables whose rows are all in the state recovery leaves them in.\<close>

definition server_recovered :: "ServerRow \<Rightarrow> bool" where
  "server_recovered r \<longleftrightarrow>
     svr_actual_state r = recovered_server_state r \<and> svr_reconnect_attempt r = SqlInteger 0 \<and> svr_latency_ms r = SqlNull"

definition removed_servers :: "Tables \<Rightarrow> SqlValue set" where
  "removed_servers t = svr_id ` set (filter (\<lambda>s. svr_desired_state s = SqlText ''removed'') (tb_servers t))"

definition tables_recovered :: "Tables \<Rightarrow> bool" where
  "tables_recovered t \<longleftrightarrow>
     list_all server_recovered (tb_servers t) \<and>
     list_all (\<lambda>r. tnr_actual_state r = recovered_tunnel_state r \<and>
       (tnr_server_id r \<in> removed_servers t \<longrightarrow> tnr_desired_state r = SqlText ''removed'')) (tb_tunnels t)"

lemma recover_tables_Inr:
  "recover_tables sq u t = Inr t3 \<longleftrightarrow>
     sq_fault sq ''normalize recovered server state'' = None \<and>
     sq_fault sq ''propagate removed server tombstones'' = None \<and>
     sq_fault sq ''normalize recovered tunnel state'' = None \<and>
     (\<exists>n1 t1 n2 t2 n3.
       update_servers (\<lambda>r. \<not> server_recovered r) (recovered_server_row u) t = Inr (n1, t1) \<and>
       update_tunnels (\<lambda>r. tnr_server_id r \<in> removed_servers t1 \<and>
            (tnr_desired_state r \<noteq> SqlText ''removed'' \<or> tnr_actual_state r \<noteq> SqlText ''removing''))
          (\<lambda>r. removed_row (sql_max (tnr_updated_at r) (SqlInteger u)) r) t1 = Inr (n2, t2) \<and>
       update_tunnels (\<lambda>r. tnr_actual_state r \<noteq> recovered_tunnel_state r) (recovered_tunnel_row u) t2 = Inr (n3, t3))"
proof -
  have "(\<lambda>r. \<not> server_recovered r) = (\<lambda>r. svr_actual_state r \<noteq> recovered_server_state r \<or>
      svr_reconnect_attempt r \<noteq> SqlInteger 0 \<or> svr_latency_ms r \<noteq> SqlNull)"
    by (rule ext) (simp add: server_recovered_def)
  moreover have "recovered_tunnel_row u = (\<lambda>r. r\<lparr>tnr_actual_state := recovered_tunnel_state r,
      tnr_updated_at := sql_max (tnr_updated_at r) (SqlInteger u)\<rparr>)"
    by (rule ext) (simp add: recovered_tunnel_row_def)
  ultimately have "recover_tables sq u t =
     and_then (run_statement sq ''normalize recovered server state''
       (update_servers (\<lambda>r. \<not> server_recovered r) (recovered_server_row u) t)) (\<lambda>(_, t1).
     and_then (run_statement sq ''propagate removed server tombstones''
       (update_tunnels (\<lambda>r. tnr_server_id r \<in> removed_servers t1 \<and>
            (tnr_desired_state r \<noteq> SqlText ''removed'' \<or> tnr_actual_state r \<noteq> SqlText ''removing''))
          (\<lambda>r. removed_row (sql_max (tnr_updated_at r) (SqlInteger u)) r) t1)) (\<lambda>(_, t2).
     and_then (run_statement sq ''normalize recovered tunnel state''
       (update_tunnels (\<lambda>r. tnr_actual_state r \<noteq> recovered_tunnel_state r) (recovered_tunnel_row u) t2))
     (\<lambda>(_, t3). Inr t3)))"
    by (simp only: recover_tables_def removed_servers_def)
  then show ?thesis by (simp add: and_then_Inr_iff run_statement_Inr) blast
qed

lemma recovered_row_simps [simp]:
  "server_recovered (recovered_server_row u r)" "svr_id (recovered_server_row u r) = svr_id r"
  "svr_desired_state (recovered_server_row u r) = svr_desired_state r"
  "svr_name (recovered_server_row u r) = svr_name r"
  "tnr_id (recovered_tunnel_row u q) = tnr_id q" "tnr_server_id (recovered_tunnel_row u q) = tnr_server_id q"
  "tnr_desired_state (recovered_tunnel_row u q) = tnr_desired_state q"
  "tnr_actual_state (recovered_tunnel_row u q) = recovered_tunnel_state (recovered_tunnel_row u q)"
  "tunnel_route (recovered_tunnel_row u q) = tunnel_route q"
  "tnr_id (removed_row v q) = tnr_id q" "tnr_server_id (removed_row v q) = tnr_server_id q"
  "tnr_desired_state (removed_row v q) = SqlText ''removed''"
  "tnr_actual_state (removed_row v q) = SqlText ''removing''" "tunnel_route (removed_row v q) = tunnel_route q"
  by (simp_all add: server_recovered_def recovered_server_row_def recovered_server_state_def
      recovered_tunnel_row_def recovered_tunnel_state_def removed_row_def tunnel_route_def)

lemma removed_servers_cong: "tb_servers t' = tb_servers t \<Longrightarrow> removed_servers t' = removed_servers t"
  by (simp add: removed_servers_def)

lemma tables_recovered_updates:
  assumes "tb_servers t1 = update_where (\<lambda>r. \<not> server_recovered r) (recovered_server_row u) (tb_servers t)"
    "tb_servers t2 = tb_servers t1" "tb_servers t3 = tb_servers t2"
    "tb_tunnels t2 = update_where (\<lambda>r. tnr_server_id r \<in> removed_servers t1 \<and>
        (tnr_desired_state r \<noteq> SqlText ''removed'' \<or> tnr_actual_state r \<noteq> SqlText ''removing''))
      (\<lambda>r. removed_row (sql_max (tnr_updated_at r) (SqlInteger u)) r) l"
    "tb_tunnels t3 = update_where (\<lambda>r. tnr_actual_state r \<noteq> recovered_tunnel_state r) (recovered_tunnel_row u)
      (tb_tunnels t2)"
  shows "tables_recovered t3"
proof -
  have "removed_servers t3 = removed_servers t1" using assms(2,3) by (simp add: removed_servers_def)
  then show ?thesis
    unfolding tables_recovered_def assms(1,2,3,5) assms(4) update_where_def
    unfolding list.pred_map comp_def by (simp add: list_all_iff recovered_tunnel_state_def) auto
qed

lemma recover_tables_step:
  assumes ok: "tables_ok parse t" and run: "recover_tables sq u t = Inr t'"
  shows "tables_ok parse t' \<and> advances t t' \<and> tables_recovered t' \<and> tb_identity t' = tb_identity t \<and>
    map svr_id (tb_servers t') = map svr_id (tb_servers t) \<and> map tnr_id (tb_tunnels t') = map tnr_id (tb_tunnels t)"
proof -
  obtain n1 t1 n2 t2 n3 where
    u1: "update_servers (\<lambda>r. \<not> server_recovered r) (recovered_server_row u) t = Inr (n1, t1)" and
    u2: "update_tunnels (\<lambda>r. tnr_server_id r \<in> removed_servers t1 \<and>
        (tnr_desired_state r \<noteq> SqlText ''removed'' \<or> tnr_actual_state r \<noteq> SqlText ''removing''))
      (\<lambda>r. removed_row (sql_max (tnr_updated_at r) (SqlInteger u)) r) t1 = Inr (n2, t2)" and
    u3: "update_tunnels (\<lambda>r. tnr_actual_state r \<noteq> recovered_tunnel_state r) (recovered_tunnel_row u) t2 = Inr (n3, t')"
    using run unfolding recover_tables_Inr by blast
  have s1: "tables_ok parse t1" "advances t t1" "tb_tunnels t1 = tb_tunnels t" "tb_identity t1 = tb_identity t"
    "tb_servers t1 = update_where (\<lambda>r. \<not> server_recovered r) (recovered_server_row u) (tb_servers t)"
    using update_servers_ok [OF ok u1] recovered_rows(1) recovered_server_storable by blast+
  have "\<exists>v \<ge> tn_updated_at x. sql_max (tnr_updated_at (tunnel_bindings x)) (SqlInteger u) = SqlInteger v" for x
    by (rule exI [of _ "max (tn_updated_at x) u"]) (simp add: sql_max_def tunnel_bindings_def)
  then have s2: "tables_ok parse t2" "advances t1 t2" "tb_servers t2 = tb_servers t1" "tb_identity t2 = tb_identity t1"
    "tb_tunnels t2 = update_where (\<lambda>r. tnr_server_id r \<in> removed_servers t1 \<and>
        (tnr_desired_state r \<noteq> SqlText ''removed'' \<or> tnr_actual_state r \<noteq> SqlText ''removing''))
      (\<lambda>r. removed_row (sql_max (tnr_updated_at r) (SqlInteger u)) r) (tb_tunnels t1)"
    using update_tunnels_removed [OF s1(1) u2] by blast+
  have s3: "tables_ok parse t'" "advances t2 t'" "tb_servers t' = tb_servers t2" "tb_identity t' = tb_identity t2"
    "tb_tunnels t' = update_where (\<lambda>r. tnr_actual_state r \<noteq> recovered_tunnel_state r) (recovered_tunnel_row u)
      (tb_tunnels t2)"
    using update_tunnels_ok [OF s2(1) u3] recovered_rows(2) recovered_tunnel_storable by blast+
  have ids: "map svr_id (tb_servers t1) = map svr_id (tb_servers t)" "map tnr_id (tb_tunnels t2) = map tnr_id (tb_tunnels t1)"
    "map tnr_id (tb_tunnels t') = map tnr_id (tb_tunnels t2)"
    unfolding s1(5) s2(5) s3(5) by (rule update_where_ids; simp)+
  have idsets: "svr_id ` set (tb_servers t1) = svr_id ` set (tb_servers t)"
    "tnr_id ` set (tb_tunnels t2) = tnr_id ` set (tb_tunnels t1)"
    using arg_cong [OF ids(1), of set] arg_cong [OF ids(2), of set] by simp_all
  have "advances t t2" using advances_compose [OF s1(2) s2(2)] s1(3) idsets(1) by simp
  then have "advances t t'" using advances_compose [OF _ s3(2)] s1(3) s2(3) idsets by simp
  moreover have "tables_recovered t'"
    by (rule tables_recovered_updates [OF s1(5) s2(3) s3(3) s2(5) s3(5)])
  ultimately show ?thesis using s1(3,4) s2(3,4) s3(1,3,4) ids by simp
qed

subsection \<open>Recovery succeeds on well-formed tables\<close>

lemma names_unique_map: "map svr_name l' = map svr_name l \<Longrightarrow> names_unique l' = names_unique l"
  by (simp add: names_unique_def)

lemma update_servers_total:
  assumes ok: "tables_ok parse t"
    and keep: "\<And>x. storable_server parse x \<Longrightarrow> \<exists>y. storable_server parse y \<and> f (server_bindings x) = server_bindings y"
    and name: "\<And>r. svr_name (f r) = svr_name r"
  shows "\<exists>n t'. update_servers p f t = Inr (n, t')"
proof -
  have "server_checks (f r)" if r: "r \<in> set (tb_servers t)" for r
  proof -
    obtain x where x: "storable_server parse x" "r = server_bindings x" using tables_okD(1) [OF ok] r by blast
    obtain y where y: "storable_server parse y" "f (server_bindings x) = server_bindings y" using keep [OF x(1)] by blast
    show ?thesis unfolding x(2) y(2) by (rule server_checks_bindings [OF y(1)])
  qed
  moreover have "map svr_name (update_where p f (tb_servers t)) = map svr_name (tb_servers t)"
    by (rule update_where_ids) (rule name)
  then have "names_unique (update_where p f (tb_servers t))"
    using names_unique_map tables_okD(5) [OF ok] by blast
  ultimately show ?thesis by (simp add: update_servers_def Let_def list_all_iff)
qed

lemma update_tunnels_total:
  assumes ok: "tables_ok parse t"
    and keep: "\<And>x. storable_tunnel parse x \<Longrightarrow> \<exists>y. storable_tunnel parse y \<and> f (tunnel_bindings x) = tunnel_bindings y"
    and route: "\<And>r. tunnel_route (f r) = tunnel_route r"
  shows "\<exists>n t'. update_tunnels p f t = Inr (n, t')"
proof -
  have "tunnel_checks (f r)" if r: "r \<in> set (tb_tunnels t)" for r
  proof -
    obtain x where x: "storable_tunnel parse x" "r = tunnel_bindings x" using tables_okD(2) [OF ok] r by blast
    obtain y where y: "storable_tunnel parse y" "f (tunnel_bindings x) = tunnel_bindings y" using keep [OF x(1)] by blast
    show ?thesis unfolding x(2) y(2) by (rule tunnel_checks_bindings [OF y(1)])
  qed
  moreover have "map tunnel_route (update_where p f (tb_tunnels t)) = map tunnel_route (tb_tunnels t)"
    by (rule update_where_ids) (rule route)
  then have "distinct (map tunnel_route (update_where p f (tb_tunnels t)))"
    using tables_okD(6) [OF ok] by (simp only:)
  moreover have "tnr_server_id (f r) = tnr_server_id r" for r
    using route [of r] by (simp add: tunnel_route_def)
  ultimately show ?thesis
    using tables_okD(7) [OF ok] by (simp add: update_tunnels_def Let_def list_all_iff)
qed

lemma removed_row_storable:
  assumes "storable_tunnel parse x"
  shows "\<exists>y. storable_tunnel parse y \<and>
    removed_row (sql_max (tnr_updated_at (tunnel_bindings x)) (SqlInteger u)) (tunnel_bindings x) = tunnel_bindings y"
proof -
  have "sql_max (tnr_updated_at (tunnel_bindings x)) (SqlInteger u) = SqlInteger (max (tn_updated_at x) u)"
    by (simp add: sql_max_def tunnel_bindings_def)
  then show ?thesis
    using removed_record_storable(1) [OF assms, of "max (tn_updated_at x) u"] row_assignments(3) by auto
qed

lemma recovered_rows_storable:
  "storable_server parse x \<Longrightarrow> \<exists>y. storable_server parse y \<and> recovered_server_row u (server_bindings x) = server_bindings y"
  "storable_tunnel parse z \<Longrightarrow> \<exists>y. storable_tunnel parse y \<and> recovered_tunnel_row u (tunnel_bindings z) = tunnel_bindings y"
  using recovered_rows recovered_server_storable(1) recovered_tunnel_storable(1) by blast+

lemma recover_tables_total:
  assumes ok: "tables_ok parse t" and faults: "\<And>operation. sq_fault sq operation = None"
  shows "\<exists>t'. recover_tables sq u t = Inr t'"
proof -
  obtain n1 t1 where u1: "update_servers (\<lambda>r. \<not> server_recovered r) (recovered_server_row u) t = Inr (n1, t1)"
    using update_servers_total [OF ok, of "recovered_server_row u"] recovered_rows_storable(1) recovered_row_simps(4)
    by blast
  have ok1: "tables_ok parse t1"
    using update_servers_ok [OF ok u1] recovered_rows(1) recovered_server_storable by blast
  have "\<exists>n t'. update_tunnels (\<lambda>r. tnr_server_id r \<in> removed_servers t1 \<and>
        (tnr_desired_state r \<noteq> SqlText ''removed'' \<or> tnr_actual_state r \<noteq> SqlText ''removing''))
      (\<lambda>r. removed_row (sql_max (tnr_updated_at r) (SqlInteger u)) r) t1 = Inr (n, t')"
    by (rule update_tunnels_total [OF ok1]) (use removed_row_storable in blast, simp)
  then obtain n2 t2 where u2: "update_tunnels (\<lambda>r. tnr_server_id r \<in> removed_servers t1 \<and>
        (tnr_desired_state r \<noteq> SqlText ''removed'' \<or> tnr_actual_state r \<noteq> SqlText ''removing''))
      (\<lambda>r. removed_row (sql_max (tnr_updated_at r) (SqlInteger u)) r) t1 = Inr (n2, t2)" by blast
  have "\<exists>v \<ge> tn_updated_at x. sql_max (tnr_updated_at (tunnel_bindings x)) (SqlInteger u) = SqlInteger v" for x
    by (rule exI [of _ "max (tn_updated_at x) u"]) (simp add: sql_max_def tunnel_bindings_def)
  then have ok2: "tables_ok parse t2" using update_tunnels_removed [OF ok1 u2] by blast
  obtain n3 t3 where u3: "update_tunnels (\<lambda>r. tnr_actual_state r \<noteq> recovered_tunnel_state r)
      (recovered_tunnel_row u) t2 = Inr (n3, t3)"
    using update_tunnels_total [OF ok2, of "recovered_tunnel_row u"] recovered_rows_storable(2) recovered_row_simps(9)
    by blast
  show ?thesis using u1 u2 u3 faults unfolding recover_tables_Inr by blast
qed

lemma update_where_none: "(\<And>r. r \<in> set l \<Longrightarrow> \<not> p r) \<Longrightarrow> update_where p f l = l"
  by (simp add: update_where_def map_idI)

lemma update_none:
  "tables_ok parse t \<Longrightarrow> (\<And>r. r \<in> set (tb_servers t) \<Longrightarrow> \<not> p r) \<Longrightarrow> update_servers p f t = Inr (0, t)"
  "tables_ok parse t \<Longrightarrow> (\<And>r. r \<in> set (tb_tunnels t) \<Longrightarrow> \<not> q r) \<Longrightarrow> update_tunnels q g t = Inr (0, t)"
  by (simp_all add: update_servers_def update_tunnels_def Let_def update_where_none filter_False tables_okD(5,6))

lemma recover_tables_stable:
  assumes "tables_ok parse t" "tables_recovered t" and faults: "\<And>operation. sq_fault sq operation = None"
  shows "recover_tables sq u t = Inr t"
proof -
  have "server_recovered r" if "r \<in> set (tb_servers t)" for r
    using assms(2) that by (simp add: tables_recovered_def list_all_iff)
  then have 1: "update_servers (\<lambda>r. \<not> server_recovered r) (recovered_server_row u) t = Inr (0, t)"
    by (intro update_none(1) [OF assms(1)]) simp
  have rec: "tnr_actual_state r = recovered_tunnel_state r"
    "tnr_server_id r \<in> removed_servers t \<Longrightarrow> tnr_desired_state r = SqlText ''removed''"
    if "r \<in> set (tb_tunnels t)" for r
    using assms(2) that by (simp_all add: tables_recovered_def list_all_iff)
  have kept: "\<not> (tnr_server_id r \<in> removed_servers t \<and>
      (tnr_desired_state r \<noteq> SqlText ''removed'' \<or> tnr_actual_state r \<noteq> SqlText ''removing''))"
    if r: "r \<in> set (tb_tunnels t)" for r
    using rec [OF r] by (auto simp: recovered_tunnel_state_def)
  have 2: "update_tunnels (\<lambda>r. tnr_server_id r \<in> removed_servers t \<and>
        (tnr_desired_state r \<noteq> SqlText ''removed'' \<or> tnr_actual_state r \<noteq> SqlText ''removing''))
      (\<lambda>r. removed_row (sql_max (tnr_updated_at r) (SqlInteger u)) r) t = Inr (0, t)"
    by (rule update_none(2) [OF assms(1)]) (rule kept)
  have 3: "update_tunnels (\<lambda>r. tnr_actual_state r \<noteq> recovered_tunnel_state r) (recovered_tunnel_row u) t = Inr (0, t)"
    by (rule update_none(2) [OF assms(1)]) (use rec(1) in blast)
  show ?thesis unfolding recover_tables_Inr by (intro conjI exI faults) (rule 1 2 3)+
qed

subsection \<open>Listing well-formed tables\<close>

lemma read_rows_map:
  "(\<And>x. x \<in> set xs \<Longrightarrow> read (bind x) = Inr x) \<Longrightarrow> n + length xs \<le> limit \<Longrightarrow>
   read_rows read limit m n (map bind xs) = Inr xs"
  by (induction xs arbitrary: n) (simp_all add: and_then_def)

lemma storable_rows:
  assumes "\<forall>r \<in> set rows. \<exists>x. P x \<and> r = bind x"
  shows "\<exists>xs. rows = map bind xs \<and> list_all P xs"
  using assms
proof (induction rows)
  case (Cons r rows)
  then obtain x xs where "P x" "r = bind x" "rows = map bind xs" "list_all P xs" by auto
  then show ?case by (intro exI [of _ "x # xs"]) simp
qed simp

lemma server_list_total:
  assumes ok: "tables_ok parse (db_tables db)" and "\<not> db_poisoned db" "sq_fault sq ''list servers'' = None"
    "length (tb_servers (db_tables db)) \<le> limit"
  obtains xs where "server_list sq parse limit db = Inr xs"
    "server_order (tb_servers (db_tables db)) = map server_bindings xs" "list_all (storable_server parse) xs"
proof -
  have order: "set (server_order (tb_servers (db_tables db))) = set (tb_servers (db_tables db))"
    "length (server_order (tb_servers (db_tables db))) = length (tb_servers (db_tables db))"
    by (simp_all add: server_order_def)
  obtain xs where xs: "server_order (tb_servers (db_tables db)) = map server_bindings xs"
    "list_all (storable_server parse) xs"
    using storable_rows [OF tables_okD(1) [OF ok, folded order(1)]] by blast
  have "read_rows (read_server parse) limit m 0 (map server_bindings xs) = Inr xs" for m
    by (rule read_rows_map)
       (use xs assms(4) order(2) read_server_bindings in \<open>simp_all add: list_all_iff\<close>)
  then have "server_list sq parse limit db = Inr xs"
    using assms(2,3) xs(1) by (simp add: server_list_def and_then_def run_statement_def)
  then show ?thesis using that xs by blast
qed

lemma tunnel_list_total:
  assumes ok: "tables_ok parse (db_tables db)" and "\<not> db_poisoned db" "sq_fault sq ''list tunnels'' = None"
    "length (tb_tunnels (db_tables db)) \<le> limit"
  obtains xs where "tunnel_list sq parse limit db = Inr xs"
    "tunnel_order (tb_tunnels (db_tables db)) = map tunnel_bindings xs" "list_all (storable_tunnel parse) xs"
proof -
  have order: "set (tunnel_order (tb_tunnels (db_tables db))) = set (tb_tunnels (db_tables db))"
    "length (tunnel_order (tb_tunnels (db_tables db))) = length (tb_tunnels (db_tables db))"
    by (simp_all add: tunnel_order_def)
  obtain xs where xs: "tunnel_order (tb_tunnels (db_tables db)) = map tunnel_bindings xs"
    "list_all (storable_tunnel parse) xs"
    using storable_rows [OF tables_okD(2) [OF ok, folded order(1)]] by blast
  have "read_rows (read_tunnel parse) limit m 0 (map tunnel_bindings xs) = Inr xs" for m
    by (rule read_rows_map)
       (use xs assms(4) order(2) read_tunnel_bindings in \<open>simp_all add: list_all_iff\<close>)
  then have "tunnel_list sq parse limit db = Inr xs"
    using assms(2,3) xs(1) by (simp add: tunnel_list_def and_then_def run_statement_def)
  then show ?thesis using that xs by blast
qed

lemma checked_success:
  assumes "\<And>operation. sq_fault sq operation = None" "db_ready db" "\<not> db_poisoned db"
    and body: "\<And>tx (db1 :: Database). db_tables db1 = db_tables db \<Longrightarrow> \<not> db_poisoned db1 \<Longrightarrow>
      body tx db1 = (Inr v, tx, db1\<lparr>db_tables := t\<rparr>)"
  shows "with_checked_transaction sq body db = (Inr v, db\<lparr>db_tables := t\<rparr>)"
proof -
  let ?db1 = "db\<lparr>db_begun := Some (db_tables db), db_transaction_active := True\<rparr>"
  have "begin_transaction sq db = Inr (\<lparr>tx_failure = None, tx_active = True\<rparr>, ?db1)"
    using assms(1-3) by (simp add: begin_transaction_def db_ready_def and_then_def run_statement_def)
  moreover have "body \<lparr>tx_failure = None, tx_active = True\<rparr> ?db1 =
      (Inr v, \<lparr>tx_failure = None, tx_active = True\<rparr>, ?db1\<lparr>db_tables := t\<rparr>)"
    using assms(3) by (intro body) simp_all
  ultimately show ?thesis
    using assms(1-3)
    by (simp add: with_checked_transaction_def transaction_commit_def run_statement_def rollback_noexcept_def
        db_ready_def)
qed

lemma state_recover_body_ok:
  "body_ok (\<lambda>tx db.
     (case and_then (server_list sq parse max_servers db) (\<lambda>_.
           and_then (tunnel_list sq parse max_tunnels db) (\<lambda>_.
           recover_tables sq recovered_at (db_tables db))) of
        Inl e \<Rightarrow> (Inl e, tx, db)
      | Inr t \<Rightarrow>
          (let db' = db\<lparr>db_tables := t\<rparr>
           in (and_then (server_list sq' parse max_servers db') (\<lambda>servers.
               and_then (tunnel_list sq' parse max_tunnels db') (\<lambda>tunnels.
               Inr (servers, tunnels))), tx, db'))))"
  by (auto simp: body_ok_def Let_def split: sum.splits)

lemma state_recover_step:
  assumes db: "db_ready db" "tables_ok parse (db_durable db)"
    and run: "state_recover sq sq' parse max_servers max_tunnels u db = (r, db')"
  shows "storage_step_ok parse db (has_value r) db'"
proof (rule checked_step [OF state_recover_body_ok _ db run [unfolded state_recover_def]])
  fix tx db1 v tx2 db2
  assume ok: "tables_ok parse (db_tables db1)"
    and "(case and_then (server_list sq parse max_servers db1) (\<lambda>_.
           and_then (tunnel_list sq parse max_tunnels db1) (\<lambda>_.
           recover_tables sq u (db_tables db1))) of
        Inl e \<Rightarrow> (Inl e, tx, db1)
      | Inr t \<Rightarrow>
          (let db' = db1\<lparr>db_tables := t\<rparr>
           in (and_then (server_list sq' parse max_servers db') (\<lambda>servers.
               and_then (tunnel_list sq' parse max_tunnels db') (\<lambda>tunnels.
               Inr (servers, tunnels))), tx, db'))) = (Inr v, tx2, db2)"
  then obtain t where "recover_tables sq u (db_tables db1) = Inr t" "db_tables db2 = t"
    by (auto simp: and_then_Inr_iff Let_def split: sum.splits)
  with recover_tables_step [OF ok] show "tables_ok parse (db_tables db2) \<and> advances (db_tables db1) (db_tables db2)"
    by blast
qed

lemma state_recover_success:
  assumes ok: "tables_ok parse (db_tables db)" and ready: "db_ready db" "\<not> db_poisoned db"
    and faults: "\<And>operation. sq_fault sq operation = None" "\<And>operation. sq_fault sq' operation = None"
    and limits: "length (tb_servers (db_tables db)) \<le> max_servers" "length (tb_tunnels (db_tables db)) \<le> max_tunnels"
  obtains t servers tunnels where "recover_tables sq u (db_tables db) = Inr t"
    "state_recover sq sq' parse max_servers max_tunnels u db = (Inr (servers, tunnels), db\<lparr>db_tables := t\<rparr>)"
    "server_order (tb_servers t) = map server_bindings servers" "list_all (storable_server parse) servers"
    "tunnel_order (tb_tunnels t) = map tunnel_bindings tunnels" "list_all (storable_tunnel parse) tunnels"
proof -
  obtain t where t: "recover_tables sq u (db_tables db) = Inr t" using recover_tables_total [OF ok faults(1)] by blast
  have okt: "tables_ok parse t" and ids: "map svr_id (tb_servers t) = map svr_id (tb_servers (db_tables db))"
    "map tnr_id (tb_tunnels t) = map tnr_id (tb_tunnels (db_tables db))"
    using recover_tables_step [OF ok t] by blast+
  have counts: "length (tb_servers t) \<le> max_servers" "length (tb_tunnels t) \<le> max_tunnels"
    using arg_cong [OF ids(1), of length] arg_cong [OF ids(2), of length] limits by simp_all
  let ?db = "\<lambda>b. b\<lparr>db_tables := t\<rparr>"
  obtain xs where before: "server_list sq parse max_servers db = Inr xs"
    using server_list_total [OF ok ready(2) faults(1) limits(1)] by blast
  obtain ys where before': "tunnel_list sq parse max_tunnels db = Inr ys"
    using tunnel_list_total [OF ok ready(2) faults(1) limits(2)] by blast
  have ok': "tables_ok parse (db_tables (?db db))" "\<not> db_poisoned (?db db)" using okt ready(2) by simp_all
  have counts': "length (tb_servers (db_tables (?db db))) \<le> max_servers"
    "length (tb_tunnels (db_tables (?db db))) \<le> max_tunnels"
    using counts by simp_all
  obtain servers where servers: "server_list sq' parse max_servers (?db db) = Inr servers"
    "server_order (tb_servers t) = map server_bindings servers" "list_all (storable_server parse) servers"
    by (rule server_list_total [OF ok' faults(2) counts'(1)]) simp
  obtain tunnels where tunnels: "tunnel_list sq' parse max_tunnels (?db db) = Inr tunnels"
    "tunnel_order (tb_tunnels t) = map tunnel_bindings tunnels" "list_all (storable_tunnel parse) tunnels"
    by (rule tunnel_list_total [OF ok' faults(2) counts'(2)]) simp
  have same: "server_list q parse l b1 = server_list q parse l b2" "tunnel_list q parse l b1 = tunnel_list q parse l b2"
    if "db_tables b1 = db_tables b2" "db_poisoned b1 = db_poisoned b2" for q l b1 b2
    using that by (simp_all add: server_list_def tunnel_list_def)
  have "state_recover sq sq' parse max_servers max_tunnels u db = (Inr (servers, tunnels), ?db db)"
    unfolding state_recover_def
  proof (rule checked_success [OF faults(1) ready])
    fix tx :: Transaction and db1 :: Database
    assume b: "db_tables db1 = db_tables db" "\<not> db_poisoned db1"
    have "server_list sq parse max_servers db1 = Inr xs" "tunnel_list sq parse max_tunnels db1 = Inr ys"
      "server_list sq' parse max_servers (?db db1) = Inr servers" "tunnel_list sq' parse max_tunnels (?db db1) = Inr tunnels"
      using same [of db1 db] same [of "?db db1" "?db db"] b ready(2) before before' servers(1) tunnels(1) by simp_all
    then show "(case and_then (server_list sq parse max_servers db1) (\<lambda>_.
           and_then (tunnel_list sq parse max_tunnels db1) (\<lambda>_. recover_tables sq u (db_tables db1))) of
        Inl e \<Rightarrow> (Inl e, tx, db1)
      | Inr t \<Rightarrow>
          (let db' = db1\<lparr>db_tables := t\<rparr>
           in (and_then (server_list sq' parse max_servers db') (\<lambda>servers.
               and_then (tunnel_list sq' parse max_tunnels db') (\<lambda>tunnels.
               Inr (servers, tunnels))), tx, db'))) = (Inr (servers, tunnels), tx, ?db db1)"
      using t b(1) by (simp add: and_then_def Let_def)
  qed
  from that [OF t this servers(2,3) tunnels(2,3)] show ?thesis .
qed

end
