(* ===== verification/Storage_Operations.thy ===== *)
theory Storage_Operations
  imports Storage_Recovery
begin

text \<open>
  The public operations that change the database, as one datatype, and what any sequence of them
  does under any faults of SQLite: integrity and atomicity of the stored tables, the round trip of a
  stored record, the guard of the conditional runtime update, and recovery.
\<close>

section \<open>Sequences of operations\<close>

datatype StorageOp =
    CreateServer nat ServerRecord
  | UpdateServer ServerRecord
  | RemoveServer Id int
  | EraseServer Id
  | CreateTunnel nat TunnelRecord
  | UpdateTunnel TunnelRecord
  | RemoveTunnel Id int
  | EraseTunnel Id
  | MarkPending Id "Error option" int
  | UpdateRuntime Id Id u64 TunnelActualState "Error option" int bool
  | ClientId "bytes option"
  | Recover nat nat int

text \<open>\<open>sq\<close> are the faults of the call, \<open>sq'\<close> those of the second listing of a recovery.\<close>

primrec storage_step :: "endpoint_parser \<Rightarrow> Sqlite \<Rightarrow> Sqlite \<Rightarrow> StorageOp \<Rightarrow> Database \<Rightarrow> bool \<times> Database" where
  "storage_step parse sq sq' (CreateServer n x) db = apfst has_value (server_create sq n x db)"
| "storage_step parse sq sq' (UpdateServer x) db = apfst has_value (server_update sq parse x db)"
| "storage_step parse sq sq' (RemoveServer i u) db = apfst has_value (server_mark_removed sq parse i u db)"
| "storage_step parse sq sq' (EraseServer i) db = apfst has_value (server_erase sq parse i db)"
| "storage_step parse sq sq' (CreateTunnel n x) db = apfst has_value (tunnel_create sq n x db)"
| "storage_step parse sq sq' (UpdateTunnel x) db = apfst has_value (tunnel_update sq parse x db)"
| "storage_step parse sq sq' (RemoveTunnel i u) db = apfst has_value (tunnel_mark_removed sq parse i u db)"
| "storage_step parse sq sq' (EraseTunnel i) db = apfst has_value (tunnel_erase sq parse i db)"
| "storage_step parse sq sq' (MarkPending i e u) db = apfst has_value (mark_active_pending_by_server sq i e u db)"
| "storage_step parse sq sq' (UpdateRuntime i s n a e u b) db =
     apfst has_value (update_runtime_state_if_revision sq i s n a e u b db)"
| "storage_step parse sq sq' (ClientId random) db = apfst has_value (state_client_id sq random db)"
| "storage_step parse sq sq' (Recover n m u) db = apfst has_value (state_recover sq sq' parse n m u db)"

text \<open>The records a caller passes hold parsed identifiers and endpoints.\<close>

primrec op_in_memory :: "endpoint_parser \<Rightarrow> StorageOp \<Rightarrow> bool" where
  "op_in_memory parse (CreateServer n x) = server_in_memory parse x"
| "op_in_memory parse (UpdateServer x) = server_in_memory parse x"
| "op_in_memory parse (RemoveServer i u) = True"
| "op_in_memory parse (EraseServer i) = True"
| "op_in_memory parse (CreateTunnel n x) = tunnel_in_memory parse x"
| "op_in_memory parse (UpdateTunnel x) = tunnel_in_memory parse x"
| "op_in_memory parse (RemoveTunnel i u) = True"
| "op_in_memory parse (EraseTunnel i) = True"
| "op_in_memory parse (MarkPending i e u) = True"
| "op_in_memory parse (UpdateRuntime i s n a e u b) = True"
| "op_in_memory parse (ClientId random) = True"
| "op_in_memory parse (Recover n m u) = True"

text \<open>
  The error of a conditional runtime update is one that the validation of records accepts.  The
  repository itself checks only its code and its length (tunnel_repository.cpp, lines 480 to 486),
  so this is a condition on the caller, and integrity depends on it.
\<close>

definition reports_valid_error :: "StorageOp \<Rightarrow> bool" where
  "reports_valid_error op \<longleftrightarrow>
     (case op of UpdateRuntime i s n a e u b \<Rightarrow>
        validate_error_fields (map_option code e) (map_option message e) = Inr () | _ \<Rightarrow> True)"

lemma storage_step_ok_all:
  assumes "op_in_memory parse op" "reports_valid_error op" "db_ready db" "tables_ok parse (db_durable db)"
    and "storage_step parse sq sq' op db = (ok, db')"
  shows "storage_step_ok parse db ok db'"
  using assms
  by (cases op)
     (auto simp: apfst_def map_prod_def reports_valid_error_def split: prod.splits
       intro: server_create_step server_update_step server_mark_removed_step server_erase_step
         tunnel_create_step tunnel_update_step tunnel_mark_removed_step tunnel_erase_step
         mark_active_pending_step update_runtime_step state_client_id_step state_recover_step)

fun storage_run :: "endpoint_parser \<Rightarrow> (Sqlite \<times> Sqlite \<times> StorageOp) list \<Rightarrow> Database \<Rightarrow> bool list \<times> Database" where
  "storage_run parse [] db = ([], db)"
| "storage_run parse ((sq, sq', op) # rest) db =
     (let (ok, db1) = storage_step parse sq sq' op db; (oks, db2) = storage_run parse rest db1
      in (ok # oks, db2))"

definition opened_database :: Database where
  "opened_database = \<lparr>db_tables = empty_tables, db_begun = None, db_transaction_active = False, db_poisoned = False\<rparr>"

lemma storage_run_append:
  "storage_run parse (xs @ ys) db =
     (let (a, db1) = storage_run parse xs db; (b, db2) = storage_run parse ys db1 in (a @ b, db2))"
  by (induction xs arbitrary: db) (auto simp: split_def Let_def)

lemma storage_run_ok:
  assumes "list_all (\<lambda>(sq, sq', op). op_in_memory parse op \<and> reports_valid_error op) ops"
    "db_ready db" "tables_ok parse (db_durable db)"
  shows "db_ready (snd (storage_run parse ops db)) \<and> tables_ok parse (db_durable (snd (storage_run parse ops db)))"
  using assms
proof (induction ops arbitrary: db)
  case (Cons c ops)
  obtain sq sq' op where c: "c = (sq, sq', op)" by (metis prod_cases3)
  obtain ok db1 where s: "storage_step parse sq sq' op db = (ok, db1)" by fastforce
  have "storage_step_ok parse db ok db1"
    using storage_step_ok_all [OF _ _ Cons.prems(2,3) s] Cons.prems(1) c by simp
  then have "db_ready db1" "tables_ok parse (db_durable db1)" by (simp_all add: storage_step_ok_def)
  then have "db_ready (snd (storage_run parse ops db1)) \<and> tables_ok parse (db_durable (snd (storage_run parse ops db1)))"
    using Cons.IH Cons.prems(1) by simp
  then show ?case by (simp add: c s split_def Let_def)
qed simp

section \<open>What was stored is what is read\<close>

lemma in_transaction_success:
  assumes ready: "db_ready db" and run: "with_transaction sq (in_transaction op) db = (Inr v, db')"
  shows "\<exists>db1. db_tables db1 = db_durable db \<and> op db1 = Inr (db_tables db') \<and> \<not> db_poisoned db' \<and>
    db_durable db' = db_tables db'"
proof -
  from with_transaction_atomic [OF in_transaction_ok [of op] ready, of sq] run
  obtain tx db1 tx2 db2 where b: "in_transaction op tx db1 = (Inr v, tx2, db2)"
    "tx_active tx" "tx_failure tx = None" "db_tables db1 = db_tables db" "db_durable db' = db_tables db2"
    "db_ready db'" "\<not> db_poisoned db" "\<not> db_poisoned db'" by auto
  then obtain t where t: "op db1 = Inr t" "db_tables db2 = t" by (auto simp: in_transaction_def split: sum.splits)
  have "db_durable db' = db_tables db'" using durable_tables [OF b(6,8)] .
  moreover have "db_tables db1 = db_durable db" using b(4,7) durable_tables [OF ready] by simp
  ultimately show ?thesis using t b(5,8) by (intro exI [of _ db1]) simp
qed

lemma filter_unique: "distinct (map k l) \<Longrightarrow> x \<in> set l \<Longrightarrow> filter (\<lambda>r. k r = k x) l = [x]"
  by (induction l) (auto simp: filter_empty_conv image_iff)

lemma tunnel_get_present:
  assumes "tables_ok parse (db_tables db)" "storable_tunnel parse x" "tunnel_bindings x \<in> set (tb_tunnels (db_tables db))"
    and "\<not> db_poisoned db" "sq_fault sq ''select tunnel by ID'' = None"
  shows "tunnel_get_by_id sq parse (tn_id x) db = Inr x"
proof -
  have "tnr_id (tunnel_bindings x) = SqlText (id_text (tn_id x))" by (simp add: tunnel_bindings_def)
  then have "filter (\<lambda>r. tnr_id r = SqlText (id_text (tn_id x))) (tb_tunnels (db_tables db)) = [tunnel_bindings x]"
    using filter_unique [OF tables_okD(4) [OF assms(1)] assms(3)] by simp
  moreover have "id_kind (tn_id x) = IK_tunnel"
    using assms(2) by (simp add: storable_tunnel_def validate_tunnel_record_iff)
  ultimately show ?thesis
    using assms(4,5) read_tunnel_bindings [OF assms(2)]
    by (simp add: tunnel_get_by_id_def and_then_def run_statement_def single_row_def)
qed

lemma server_get_present:
  assumes "tables_ok parse (db_tables db)" "storable_server parse x" "server_bindings x \<in> set (tb_servers (db_tables db))"
    and "\<not> db_poisoned db" "sq_fault sq ''select server by ID'' = None"
  shows "server_get_by_id sq parse (sv_id x) db = Inr x"
proof -
  have "svr_id (server_bindings x) = SqlText (id_text (sv_id x))" by (simp add: server_bindings_def)
  then have "filter (\<lambda>r. svr_id r = SqlText (id_text (sv_id x))) (tb_servers (db_tables db)) = [server_bindings x]"
    using filter_unique [OF tables_okD(3) [OF assms(1)] assms(3)] by simp
  moreover have "id_kind (sv_id x) = IK_server"
    using assms(2) by (simp add: storable_server_def validate_server_record_iff)
  ultimately show ?thesis
    using assms(4,5) read_server_bindings [OF assms(2)]
    by (simp add: server_get_by_id_def and_then_def run_statement_def single_row_def)
qed

lemma update_where_member: "r \<in> set l \<Longrightarrow> p r \<Longrightarrow> f r \<in> set (update_where p f l)"
  by (auto simp: update_where_def intro!: image_eqI [of _ _ r])

lemma tunnel_update_present:
  assumes ok: "tables_ok parse (db_tables db)" and e: "tunnel_get_by_id sq parse (tn_id x) db = Inr e"
    and created: "tn_created_at x = tn_created_at e"
    and upd: "update_tunnels (\<lambda>r. tnr_id r = SqlText (id_text (tn_id x))) (tunnel_assign x) (db_tables db) = Inr (n, t')"
  shows "tunnel_bindings x \<in> set (tb_tunnels t')"
proof -
  have ex: "tunnel_bindings e \<in> set (tb_tunnels (db_tables db))" "id_text (tn_id e) = id_text (tn_id x)"
    using tunnel_get_by_id_Inr [OF e ok] by auto
  have "tunnel_assign x (tunnel_bindings e) = tunnel_bindings x"
    using ex(2) created by (simp add: tunnel_assign_def tunnel_bindings_def)
  moreover have "tb_tunnels t' = update_where (\<lambda>r. tnr_id r = SqlText (id_text (tn_id x))) (tunnel_assign x) (tb_tunnels (db_tables db))"
    using upd unfolding update_tunnels_def Let_def by (simp split: if_splits) (clarify, simp)
  moreover have key: "tnr_id (tunnel_bindings e) = SqlText (id_text (tn_id x))" by (simp add: tunnel_bindings_def ex(2))
  moreover note update_where_member [of _ _ "\<lambda>r. tnr_id r = SqlText (id_text (tn_id x))", OF ex(1) key, of "tunnel_assign x"]
  ultimately show ?thesis by simp
qed

lemma server_update_present:
  assumes ok: "tables_ok parse (db_tables db)" and e: "server_get_by_id sq parse (sv_id x) db = Inr e"
    and created: "sv_created_at x = sv_created_at e"
    and upd: "update_servers (\<lambda>r. svr_id r = SqlText (id_text (sv_id x))) (server_assign x) (db_tables db) = Inr (n, t')"
  shows "server_bindings x \<in> set (tb_servers t')"
proof -
  have ex: "server_bindings e \<in> set (tb_servers (db_tables db))" "id_text (sv_id e) = id_text (sv_id x)"
    using server_get_by_id_Inr [OF e ok] by auto
  have "server_assign x (server_bindings e) = server_bindings x"
    using ex(2) created by (simp add: server_assign_def server_bindings_def)
  moreover have "tb_servers t' = update_where (\<lambda>r. svr_id r = SqlText (id_text (sv_id x))) (server_assign x) (tb_servers (db_tables db))"
    using upd unfolding update_servers_def Let_def by (simp split: if_splits) (clarify, simp)
  moreover have key: "svr_id (server_bindings e) = SqlText (id_text (sv_id x))" by (simp add: server_bindings_def ex(2))
  moreover note update_where_member [of _ _ "\<lambda>r. svr_id r = SqlText (id_text (sv_id x))", OF ex(1) key, of "server_assign x"]
  ultimately show ?thesis by simp
qed

lemma tunnel_stored:
  assumes x: "tunnel_in_memory parse x" and db: "db_ready db" "tables_ok parse (db_durable db)"
    and run: "tunnel_create sq limit x db = (Inr (), db') \<or> tunnel_update sq parse x db = (Inr (), db')"
    and sel: "sq_fault sq' ''select tunnel by ID'' = None"
  shows "tunnel_get_by_id sq' parse (tn_id x) db' = Inr x"
proof -
  have "storable_tunnel parse x \<and> tunnel_bindings x \<in> set (tb_tunnels (db_tables db')) \<and> \<not> db_poisoned db' \<and>
      db_durable db' = db_tables db'"
    using run
  proof
    assume "tunnel_create sq limit x db = (Inr (), db')"
    from in_transaction_success [OF db(1) this [unfolded tunnel_create_def tunnel_create_in_def]]
    have b: "validate_tunnel_record x = Inr ()"
      "insert_tunnel (tunnel_bindings x) (db_durable db) = Inr (db_tables db')" "\<not> db_poisoned db'"
      "db_durable db' = db_tables db'"
      by (auto simp: and_then_Inr_iff run_statement_Inr split: if_splits)
    have s: "storable_tunnel parse x" using storable_tunnelI [OF b(1) x] .
    have "tb_tunnels (db_tables db') = tb_tunnels (db_durable db) @ [tunnel_bindings x]"
      using insert_tunnel_ok [OF db(2) s b(2)] by simp
    then show ?thesis using s b(3,4) by simp
  next
    assume "tunnel_update sq parse x db = (Inr (), db')"
    from in_transaction_success [OF db(1) this [unfolded tunnel_update_def tunnel_update_in_def]]
    obtain db1 where db1: "db_tables db1 = db_durable db" "\<not> db_poisoned db'" "db_durable db' = db_tables db'"
      and op: "and_then (validate_tunnel_record x) (\<lambda>_.
       and_then (tunnel_get_by_id sq parse (tn_id x) db1) (\<lambda>existing.
       if tn_created_at x \<noteq> tn_created_at existing \<or> tn_updated_at x < tn_updated_at existing \<or>
          tn_config_revision x < tn_config_revision existing
       then failure EC_invalid_argument
              ''tunnel creation time is immutable and update time/revision must not move backward''
       else and_then (run_statement sq ''update tunnel record''
              (update_tunnels (\<lambda>r. tnr_id r = SqlText (id_text (tn_id x))) (tunnel_assign x) (db_tables db1)))
            (changed_one ''tunnel record was not found''))) = Inr (db_tables db')" by blast
    from op obtain e n where b: "validate_tunnel_record x = Inr ()"
      "tunnel_get_by_id sq parse (tn_id x) db1 = Inr e" "tn_created_at x = tn_created_at e"
      "update_tunnels (\<lambda>r. tnr_id r = SqlText (id_text (tn_id x))) (tunnel_assign x) (db_tables db1) = Inr (n, db_tables db')"
      by (auto simp: and_then_Inr_iff run_statement_Inr changed_one_Inr split: if_splits)
    have "tables_ok parse (db_tables db1)" using db1(1) db(2) by simp
    from tunnel_update_present [OF this b(2,3,4)] storable_tunnelI [OF b(1) x] db1(2,3) show ?thesis by simp
  qed
  moreover have "tables_ok parse (db_durable db')"
    using run tunnel_create_step [OF x db] tunnel_update_step [OF x db] by (auto simp: storage_step_ok_def)
  ultimately show ?thesis using tunnel_get_present [of parse db' x sq'] sel by simp
qed

lemma server_stored:
  assumes x: "server_in_memory parse x" and db: "db_ready db" "tables_ok parse (db_durable db)"
    and run: "server_create sq limit x db = (Inr (), db') \<or> server_update sq parse x db = (Inr (), db')"
    and sel: "sq_fault sq' ''select server by ID'' = None"
  shows "server_get_by_id sq' parse (sv_id x) db' = Inr x"
proof -
  have "storable_server parse x \<and> server_bindings x \<in> set (tb_servers (db_tables db')) \<and> \<not> db_poisoned db' \<and>
      db_durable db' = db_tables db'"
    using run
  proof
    assume "server_create sq limit x db = (Inr (), db')"
    from in_transaction_success [OF db(1) this [unfolded server_create_def server_create_in_def]]
    have b: "validate_server_record x = Inr ()"
      "insert_server (server_bindings x) (db_durable db) = Inr (db_tables db')" "\<not> db_poisoned db'"
      "db_durable db' = db_tables db'"
      by (auto simp: and_then_Inr_iff run_statement_Inr split: if_splits)
    have s: "storable_server parse x" using storable_serverI [OF b(1) x] .
    have "tb_servers (db_tables db') = tb_servers (db_durable db) @ [server_bindings x]"
      using insert_server_ok [OF db(2) s b(2)] by simp
    then show ?thesis using s b(3,4) by simp
  next
    assume "server_update sq parse x db = (Inr (), db')"
    from in_transaction_success [OF db(1) this [unfolded server_update_def server_update_in_def]]
    obtain db1 where db1: "db_tables db1 = db_durable db" "\<not> db_poisoned db'" "db_durable db' = db_tables db'"
      and op: "and_then (validate_server_record x) (\<lambda>_.
       and_then (server_get_by_id sq parse (sv_id x) db1) (\<lambda>existing.
       if sv_created_at x \<noteq> sv_created_at existing \<or> sv_updated_at x < sv_updated_at existing \<or>
          sv_config_revision x < sv_config_revision existing
       then failure EC_invalid_argument
              ''server creation time is immutable and update time/revision must not move backward''
       else and_then (run_statement sq ''update server record''
              (update_servers (\<lambda>r. svr_id r = SqlText (id_text (sv_id x))) (server_assign x) (db_tables db1)))
            (changed_one ''server record was not found''))) = Inr (db_tables db')" by blast
    from op obtain e n where b: "validate_server_record x = Inr ()"
      "server_get_by_id sq parse (sv_id x) db1 = Inr e" "sv_created_at x = sv_created_at e"
      "update_servers (\<lambda>r. svr_id r = SqlText (id_text (sv_id x))) (server_assign x) (db_tables db1) = Inr (n, db_tables db')"
      by (auto simp: and_then_Inr_iff run_statement_Inr changed_one_Inr split: if_splits)
    have "tables_ok parse (db_tables db1)" using db1(1) db(2) by simp
    from server_update_present [OF this b(2,3,4)] storable_serverI [OF b(1) x] db1(2,3) show ?thesis by simp
  qed
  moreover have "tables_ok parse (db_durable db')"
    using run server_create_step [OF x db] server_update_step [OF x db] by (auto simp: storage_step_ok_def)
  ultimately show ?thesis using server_get_present [of parse db' x sq'] sel by simp
qed

section \<open>Recovered records\<close>

text \<open>
  What recovery at time \<open>u\<close> makes of one record.  A server waits for its connection (or for its
  credentials) if it is enabled and is disabled otherwise, with no connection attempts and no latency.
  A tunnel is marked removed exactly if its server is; an active tunnel is pending, a disabled one
  disabled, a removed one being removed.  A record that is already so is not touched.
\<close>

definition recover_server :: "int \<Rightarrow> ServerRecord \<Rightarrow> ServerRecord" where
  "recover_server u x =
     (let y = recovered_server_record u x
      in if sv_actual_state x = sv_actual_state y \<and> sv_reconnect_attempt x = 0 \<and> sv_latency_ms x = None
         then x else y)"

definition server_gone :: "ServerRecord list \<Rightarrow> TunnelRecord \<Rightarrow> bool" where
  "server_gone servers x \<longleftrightarrow>
     list_ex (\<lambda>s. sv_id s = tn_server_id x \<and> sv_desired_state s = SDS_removed) servers"

definition recover_tunnel :: "int \<Rightarrow> bool \<Rightarrow> TunnelRecord \<Rightarrow> TunnelRecord" where
  "recover_tunnel u gone x =
     (let y = recovered_tunnel_record u (if gone then x\<lparr>tn_desired_state := TDS_removed\<rparr> else x)
      in if tn_desired_state x = tn_desired_state y \<and> tn_actual_state x = tn_actual_state y then x else y)"

definition recover_server_row :: "int \<Rightarrow> ServerRow \<Rightarrow> ServerRow" where
  "recover_server_row u r = (if server_recovered r then r else recovered_server_row u r)"

definition recover_tunnel_row :: "int \<Rightarrow> SqlValue set \<Rightarrow> TunnelRow \<Rightarrow> TunnelRow" where
  "recover_tunnel_row u removed r =
     (let r1 = (if tnr_server_id r \<in> removed \<and>
                   (tnr_desired_state r \<noteq> SqlText ''removed'' \<or> tnr_actual_state r \<noteq> SqlText ''removing'')
                then removed_row (sql_max (tnr_updated_at r) (SqlInteger u)) r else r)
      in if tnr_actual_state r1 \<noteq> recovered_tunnel_state r1 then recovered_tunnel_row u r1 else r1)"

lemma update_shape:
  "update_servers p f t = Inr (n, t') \<Longrightarrow>
     tb_servers t' = update_where p f (tb_servers t) \<and> tb_tunnels t' = tb_tunnels t"
  "update_tunnels q g t = Inr (n, t') \<Longrightarrow>
     tb_tunnels t' = update_where q g (tb_tunnels t) \<and> tb_servers t' = tb_servers t"
  unfolding update_servers_def update_tunnels_def Let_def by (simp_all split: if_splits) (clarify, simp)+

lemma recover_tables_rows:
  assumes "recover_tables sq u t = Inr t'"
  shows "tb_servers t' = map (recover_server_row u) (tb_servers t)"
    "tb_tunnels t' = map (recover_tunnel_row u (removed_servers t)) (tb_tunnels t)"
proof -
  obtain n1 t1 n2 t2 n3 where
    u1: "update_servers (\<lambda>r. \<not> server_recovered r) (recovered_server_row u) t = Inr (n1, t1)" and
    u2: "update_tunnels (\<lambda>r. tnr_server_id r \<in> removed_servers t1 \<and>
        (tnr_desired_state r \<noteq> SqlText ''removed'' \<or> tnr_actual_state r \<noteq> SqlText ''removing''))
      (\<lambda>r. removed_row (sql_max (tnr_updated_at r) (SqlInteger u)) r) t1 = Inr (n2, t2)" and
    u3: "update_tunnels (\<lambda>r. tnr_actual_state r \<noteq> recovered_tunnel_state r) (recovered_tunnel_row u) t2 = Inr (n3, t')"
    using assms unfolding recover_tables_Inr by blast
  note rows = update_shape(1) [OF u1] update_shape(2) [OF u2] update_shape(2) [OF u3]
  show servers: "tb_servers t' = map (recover_server_row u) (tb_servers t)"
    using rows unfolding update_where_def recover_server_row_def by simp
  have same: "svr_id (recover_server_row u r) = svr_id r"
    "svr_desired_state (recover_server_row u r) = svr_desired_state r" for r
    by (simp_all add: recover_server_row_def)
  have "tb_servers t1 = map (recover_server_row u) (tb_servers t)" using rows servers by simp
  then have "removed_servers t1 = removed_servers t"
    by (simp add: removed_servers_def same filter_map comp_def image_image)
  with rows show "tb_tunnels t' = map (recover_tunnel_row u (removed_servers t)) (tb_tunnels t)"
    unfolding update_where_def recover_tunnel_row_def Let_def by simp
qed

lemma sort_key_map_keep:
  assumes "\<And>x. f (g x) = f x"
  shows "sort_key f (map g xs) = map g (sort_key f xs)"
proof -
  have "insort_key f (g x) (map g ys) = map g (insort_key f x ys)" for x ys
    by (induction ys) (simp_all add: assms)
  then show ?thesis by (induction xs) simp_all
qed

lemma recovered_order:
  "server_order (map (recover_server_row u) rows) = map (recover_server_row u) (server_order rows)"
  "tunnel_order (map (recover_tunnel_row u removed) rows') = map (recover_tunnel_row u removed) (tunnel_order rows')"
proof -
  have "svr_id (recover_server_row u r) = svr_id r" "svr_created_at (recover_server_row u r) = svr_created_at r" for r
    by (simp_all add: recover_server_row_def recovered_server_row_def)
  then show "server_order (map (recover_server_row u) rows) = map (recover_server_row u) (server_order rows)"
    by (simp add: server_order_def sort_key_map_keep)
  have "tnr_id (recover_tunnel_row u removed r) = tnr_id r"
    "tnr_created_at (recover_tunnel_row u removed r) = tnr_created_at r" for r
    by (simp_all add: recover_tunnel_row_def recovered_tunnel_row_def removed_row_def Let_def)
  then show "tunnel_order (map (recover_tunnel_row u removed) rows') = map (recover_tunnel_row u removed) (tunnel_order rows')"
    by (simp add: tunnel_order_def sort_key_map_keep)
qed

lemma bindings_inj_list:
  assumes "\<And>x. P x \<Longrightarrow> read (bind x) = Inr x"
  shows "map bind xs = map bind ys \<Longrightarrow> list_all P xs \<Longrightarrow> list_all P ys \<Longrightarrow> xs = ys"
proof -
  assume l: "map bind xs = map bind ys" "list_all P xs" "list_all P ys"
  have inr: "map (read \<circ> bind) zs = map Inr zs" if zs: "list_all P zs" for zs
    using zs assms by (simp add: list_all_iff)
  note inr [OF l(2), symmetric]
  also have "map (read \<circ> bind) xs = map (read \<circ> bind) ys"
    using arg_cong [OF l(1), of "map read"] by (simp only: map_map)
  also have "\<dots> = map Inr ys" using inr [OF l(3)] .
  finally show "xs = ys" by (rule map_injective) (simp add: inj_def)
qed

lemma state_strings_inj:
  "server_actual_state_to_string a = server_actual_state_to_string b \<longleftrightarrow> a = b"
  "tunnel_actual_state_to_string c = tunnel_actual_state_to_string d \<longleftrightarrow> c = d"
  "tunnel_desired_state_to_string e = tunnel_desired_state_to_string f \<longleftrightarrow> e = f"
  "server_desired_state_to_string g = ''removed'' \<longleftrightarrow> g = SDS_removed"
proof -
  show "server_actual_state_to_string a = server_actual_state_to_string b \<longleftrightarrow> a = b"
    by (cases a; cases b; simp add: server_actual_state_to_string_def enum_to_string_def kServerActualStates_def)
  show "tunnel_actual_state_to_string c = tunnel_actual_state_to_string d \<longleftrightarrow> c = d"
    by (cases c; cases d; simp add: tunnel_actual_state_to_string_def enum_to_string_def kTunnelActualStates_def)
  show "tunnel_desired_state_to_string e = tunnel_desired_state_to_string f \<longleftrightarrow> e = f"
    by (cases e; cases f; simp add: tunnel_desired_state_to_string_def enum_to_string_def kTunnelDesiredStates_def)
  show "server_desired_state_to_string g = ''removed'' \<longleftrightarrow> g = SDS_removed"
    by (cases g; simp add: server_desired_state_to_string_def enum_to_string_def kServerDesiredStates_def)
qed

lemma recover_server_row_bindings:
  "recover_server_row u (server_bindings x) = server_bindings (recover_server u x)"
proof -
  have "recovered_server_state (server_bindings x) =
      SqlText (server_actual_state_to_string (sv_actual_state (recovered_server_record u x)))"
    using arg_cong [OF recovered_rows(1) [of u x], of svr_actual_state]
    by (simp add: recovered_server_row_def server_bindings_def)
  then have "server_recovered (server_bindings x) \<longleftrightarrow>
      sv_actual_state x = sv_actual_state (recovered_server_record u x) \<and> sv_reconnect_attempt x = 0 \<and>
      sv_latency_ms x = None"
    by (auto simp: server_recovered_def server_bindings_def state_strings_inj bind_optional_int64_def
        uint_0_iff split: option.splits)
  then show ?thesis
    by (simp add: recover_server_row_def recover_server_def Let_def recovered_rows(1))
qed

lemma tunnel_binding_states:
  "tnr_server_id (tunnel_bindings z) = SqlText (id_text (tn_server_id z))"
  "tnr_desired_state (tunnel_bindings z) = SqlText ''removed'' \<longleftrightarrow> tn_desired_state z = TDS_removed"
  "tnr_actual_state (tunnel_bindings z) = SqlText ''removing'' \<longleftrightarrow> tn_actual_state z = TAS_removing"
  "tnr_actual_state (tunnel_bindings z) = recovered_tunnel_state (tunnel_bindings z) \<longleftrightarrow>
     tn_actual_state z = tn_actual_state (recovered_tunnel_record u z)"
  "removed_row (sql_max (tnr_updated_at (tunnel_bindings z)) (SqlInteger u)) (tunnel_bindings z) =
     tunnel_bindings (removed_record (max (tn_updated_at z) u) z)"
proof -
  show "tnr_server_id (tunnel_bindings z) = SqlText (id_text (tn_server_id z))" by (simp add: tunnel_bindings_def)
  show "tnr_desired_state (tunnel_bindings z) = SqlText ''removed'' \<longleftrightarrow> tn_desired_state z = TDS_removed"
    using state_strings_inj(3) [of "tn_desired_state z" TDS_removed] by (simp add: tunnel_bindings_def state_literals)
  show "tnr_actual_state (tunnel_bindings z) = SqlText ''removing'' \<longleftrightarrow> tn_actual_state z = TAS_removing"
    using state_strings_inj(2) [of "tn_actual_state z" TAS_removing] by (simp add: tunnel_bindings_def state_literals)
  show "tnr_actual_state (tunnel_bindings z) = recovered_tunnel_state (tunnel_bindings z) \<longleftrightarrow>
     tn_actual_state z = tn_actual_state (recovered_tunnel_record u z)"
    using arg_cong [OF recovered_rows(2) [of u z], of tnr_actual_state]
    by (simp add: recovered_tunnel_row_def tunnel_bindings_def state_strings_inj(2))
  have "sql_max (tnr_updated_at (tunnel_bindings z)) (SqlInteger u) = SqlInteger (max (tn_updated_at z) u)"
    by (simp add: sql_max_def tunnel_bindings_def)
  then show "removed_row (sql_max (tnr_updated_at (tunnel_bindings z)) (SqlInteger u)) (tunnel_bindings z) =
     tunnel_bindings (removed_record (max (tn_updated_at z) u) z)"
    by (simp only: row_assignments(3))
qed

lemma recover_tunnel_row_bindings:
  "recover_tunnel_row u removed (tunnel_bindings x) =
     tunnel_bindings (recover_tunnel u (SqlText (id_text (tn_server_id x)) \<in> removed) x)"
proof -
  have mark: "recovered_tunnel_record u (x\<lparr>tn_desired_state := TDS_removed\<rparr>) = removed_record (max (tn_updated_at x) u) x"
    by (simp add: recovered_tunnel_record_def removed_record_def)
  have states: "tn_actual_state (removed_record v x) = TAS_removing" "tn_desired_state (removed_record v x) = TDS_removed"
    "tn_actual_state (recovered_tunnel_record u (removed_record v x)) = TAS_removing"
    "tn_desired_state (recovered_tunnel_record u x) = tn_desired_state x"
    "tn_desired_state x = TDS_removed \<Longrightarrow> tn_actual_state (recovered_tunnel_record u x) = TAS_removing" for v
    by (simp_all add: removed_record_def recovered_tunnel_record_def)
  consider (gone) "SqlText (id_text (tn_server_id x)) \<in> removed"
      "tn_desired_state x \<noteq> TDS_removed \<or> tn_actual_state x \<noteq> TAS_removing"
    | (settled) "SqlText (id_text (tn_server_id x)) \<in> removed" "tn_desired_state x = TDS_removed" "tn_actual_state x = TAS_removing"
    | (other) "SqlText (id_text (tn_server_id x)) \<notin> removed" by blast
  then show ?thesis
  proof cases
    case gone
    then show ?thesis
      by (simp only: recover_tunnel_row_def recover_tunnel_def Let_def tunnel_binding_states tunnel_binding_states(4) [of _ u]
          simp_thms if_True if_False states mark)
         (metis (full_types))
  next
    case settled
    then show ?thesis
      by (simp only: recover_tunnel_row_def recover_tunnel_def Let_def tunnel_binding_states tunnel_binding_states(4) [of _ u]
          simp_thms if_True if_False states mark)
  next
    case other
    then show ?thesis
      by (simp only: recover_tunnel_row_def recover_tunnel_def Let_def tunnel_binding_states tunnel_binding_states(4) [of _ u]
          simp_thms if_True if_False states recovered_rows(2) if_distrib [of tunnel_bindings]) auto
  qed
qed

lemma recover_storable:
  "storable_server parse x \<Longrightarrow> storable_server parse (recover_server u x)"
  "storable_tunnel parse y \<Longrightarrow> storable_tunnel parse (recover_tunnel u gone y)"
proof -
  show "storable_server parse x \<Longrightarrow> storable_server parse (recover_server u x)"
    using recovered_server_storable(1) by (simp add: recover_server_def Let_def)
  have "recovered_tunnel_record u (y\<lparr>tn_desired_state := TDS_removed\<rparr>) = removed_record (max (tn_updated_at y) u) y"
    by (simp add: recovered_tunnel_record_def removed_record_def)
  then show "storable_tunnel parse y \<Longrightarrow> storable_tunnel parse (recover_tunnel u gone y)"
    using recovered_tunnel_storable(1) removed_record_storable(1) by (simp add: recover_tunnel_def Let_def)
qed

lemma server_gone_iff:
  assumes "map server_bindings servers = server_order (tb_servers t)" "list_all (storable_server parse) servers"
    and "storable_tunnel parse x"
  shows "SqlText (id_text (tn_server_id x)) \<in> removed_servers t \<longleftrightarrow> server_gone servers x"
proof -
  have rows: "set (tb_servers t) = server_bindings ` set servers"
    using arg_cong [OF assms(1), of set] by (simp add: server_order_def)
  have "sv_id s = tn_server_id x \<longleftrightarrow> id_text (sv_id s) = id_text (tn_server_id x)" if "s \<in> set servers" for s
    using assms(2,3) that
    by (cases "sv_id s"; cases "tn_server_id x")
       (auto simp: list_all_iff storable_server_def storable_tunnel_def validate_server_record_iff validate_tunnel_record_iff)
  then show ?thesis
    unfolding removed_servers_def server_gone_def list_ex_iff set_filter rows
    by (auto simp: server_bindings_def state_strings_inj image_iff)
qed

lemma state_recover_stable:
  assumes ok: "tables_ok parse (db_tables db)" "tables_recovered (db_tables db)"
    and ready: "db_ready db" "\<not> db_poisoned db"
    and faults: "\<And>operation. sq_fault sq operation = None" "\<And>operation. sq_fault sq' operation = None"
    and limits: "length (tb_servers (db_tables db)) \<le> max_servers" "length (tb_tunnels (db_tables db)) \<le> max_tunnels"
    and s: "server_order (tb_servers (db_tables db)) = map server_bindings servers" "list_all (storable_server parse) servers"
    and n: "tunnel_order (tb_tunnels (db_tables db)) = map tunnel_bindings tunnels" "list_all (storable_tunnel parse) tunnels"
  shows "state_recover sq sq' parse max_servers max_tunnels u db = (Inr (servers, tunnels), db)"
proof -
  obtain t ss ns where r: "recover_tables sq u (db_tables db) = Inr t"
    "state_recover sq sq' parse max_servers max_tunnels u db = (Inr (ss, ns), db\<lparr>db_tables := t\<rparr>)"
    "server_order (tb_servers t) = map server_bindings ss" "list_all (storable_server parse) ss"
    "tunnel_order (tb_tunnels t) = map tunnel_bindings ns" "list_all (storable_tunnel parse) ns"
    by (rule state_recover_success [OF ok(1) ready faults limits])
  have t: "t = db_tables db" using recover_tables_stable [OF ok faults(1), of u] r(1) by simp
  have "map server_bindings ss = map server_bindings servers" "map tunnel_bindings ns = map tunnel_bindings tunnels"
    using r(3,5) s(1) n(1) t by simp_all
  then have "ss = servers" "ns = tunnels"
    using bindings_inj_list [where P = "storable_server parse" and read = "read_server parse", OF read_server_bindings _ r(4) s(2)]
      bindings_inj_list [where P = "storable_tunnel parse" and read = "read_tunnel parse", OF read_tunnel_bindings _ r(6) n(2)]
    by simp_all
  then show ?thesis using r(2) t by simp
qed

lemma state_recover_exact:
  assumes ok: "tables_ok parse (db_tables db)" and ready: "db_ready db" "\<not> db_poisoned db"
    and faults: "\<And>operation. sq_fault sq operation = None"
    and limits: "length (tb_servers (db_tables db)) \<le> max_servers" "length (tb_tunnels (db_tables db)) \<le> max_tunnels"
    and servers: "server_list sq parse max_servers db = Inr servers"
    and tunnels: "tunnel_list sq parse max_tunnels db = Inr tunnels"
  obtains t where "recover_tables sq u (db_tables db) = Inr t"
    "state_recover sq sq parse max_servers max_tunnels u db =
       (Inr (map (recover_server u) servers, map (\<lambda>x. recover_tunnel u (server_gone servers x) x) tunnels),
        db\<lparr>db_tables := t\<rparr>)"
    "server_order (tb_servers t) = map server_bindings (map (recover_server u) servers)"
    "tunnel_order (tb_tunnels t) = map tunnel_bindings (map (\<lambda>x. recover_tunnel u (server_gone servers x) x) tunnels)"
    "list_all (storable_server parse) (map (recover_server u) servers)"
    "list_all (storable_tunnel parse) (map (\<lambda>x. recover_tunnel u (server_gone servers x) x) tunnels)"
proof -
  obtain t ss ns where r: "recover_tables sq u (db_tables db) = Inr t"
    "state_recover sq sq parse max_servers max_tunnels u db = (Inr (ss, ns), db\<lparr>db_tables := t\<rparr>)"
    "server_order (tb_servers t) = map server_bindings ss" "list_all (storable_server parse) ss"
    "tunnel_order (tb_tunnels t) = map tunnel_bindings ns" "list_all (storable_tunnel parse) ns"
    by (rule state_recover_success [OF ok ready faults faults limits])
  have s: "server_order (tb_servers (db_tables db)) = map server_bindings servers" "list_all (storable_server parse) servers"
    using server_list_total [OF ok ready(2) faults limits(1)] servers by auto
  have n: "tunnel_order (tb_tunnels (db_tables db)) = map tunnel_bindings tunnels" "list_all (storable_tunnel parse) tunnels"
    using tunnel_list_total [OF ok ready(2) faults limits(2)] tunnels by auto
  let ?ss = "map (recover_server u) servers" and ?ns = "map (\<lambda>x. recover_tunnel u (server_gone servers x) x) tunnels"
  have st: "list_all (storable_server parse) ?ss" "list_all (storable_tunnel parse) ?ns"
    using s(2) n(2) recover_storable by (simp_all add: list_all_iff)
  have "server_order (tb_servers t) = map server_bindings ?ss"
    unfolding recover_tables_rows(1) [OF r(1)] recovered_order s(1) by (simp add: recover_server_row_bindings)
  then have ss: "ss = ?ss"
    using bindings_inj_list [where P = "storable_server parse" and read = "read_server parse", OF read_server_bindings _ r(4) st(1)]
      r(3) by simp
  have "recover_tunnel_row u (removed_servers (db_tables db)) (tunnel_bindings x) =
      tunnel_bindings (recover_tunnel u (server_gone servers x) x)" if "x \<in> set tunnels" for x
    using server_gone_iff [OF s(1) [symmetric] s(2), of x] n(2) that
    by (simp add: recover_tunnel_row_bindings list_all_iff)
  then have "tunnel_order (tb_tunnels t) = map tunnel_bindings ?ns"
    unfolding recover_tables_rows(2) [OF r(1)] recovered_order n(1) by simp
  then have "ns = ?ns"
    using bindings_inj_list [where P = "storable_tunnel parse" and read = "read_tunnel parse", OF read_tunnel_bindings _ r(6) st(2)]
      r(5) by simp
  with that [OF r(1)] r(2,3,5) st ss show ?thesis by simp
qed

end
