(* ===== verification/Storage_Properties.thy ===== *)
theory Storage_Properties
  imports Storage_Operations
begin

text \<open>
  The properties of the storage: integrity and atomicity of every sequence of operations under every
  fault of SQLite, the round trip of a stored record, recovery, and the text that the conditional
  runtime update lets into the table.
\<close>

section \<open>A sample database\<close>

definition no_faults :: Sqlite where
  "no_faults = \<lparr>sq_fault = (\<lambda>_. None), sq_detail = (\<lambda>_. []), sq_autocommit = True\<rparr>"

definition sample_endpoint :: Endpoint where
  "sample_endpoint = \<lparr>ep_host = ''a'', ep_port = 1, ep_kind = EK_domain_name\<rparr>"

definition sample_parse :: endpoint_parser where
  "sample_parse s = (if s = ''a:1'' then Inr sample_endpoint else failure EC_invalid_argument ''unknown'')"

definition sample_server :: ServerRecord where
  "sample_server =
     \<lparr>sv_id = \<lparr>id_kind = IK_server, id_text = sample_id IK_server\<rparr>, sv_name = None, sv_endpoint = sample_endpoint,
      sv_credential_ref = None, sv_remote_server_id = None, sv_desired_state = SDS_enabled,
      sv_actual_state = SAS_online, sv_last_error_code = None, sv_last_error_message = None,
      sv_reconnect_attempt = 0, sv_latency_ms = None, sv_created_at = 1, sv_updated_at = 2,
      sv_tls_server_name = None, sv_ca_credential_ref = None, sv_client_certificate_ref = None,
      sv_client_private_key_ref = None, sv_config_revision = 1, sv_managed_by_config = False\<rparr>"

definition sample_tunnel :: TunnelRecord where
  "sample_tunnel =
     \<lparr>tn_id = \<lparr>id_kind = IK_tunnel, id_text = sample_id IK_tunnel\<rparr>, tn_name = None,
      tn_server_id = \<lparr>id_kind = IK_server, id_text = sample_id IK_server\<rparr>, tn_protocol = TP_tcp,
      tn_local_endpoint = sample_endpoint, tn_remote_endpoint = sample_endpoint,
      tn_desired_state = TDS_active, tn_actual_state = TAS_active, tn_last_error_code = None,
      tn_last_error_message = None, tn_created_at = 1, tn_updated_at = 2, tn_last_synced_at = None,
      tn_config_revision = 1, tn_managed_by_config = False, tn_proxy_protocol = False\<rparr>"

lemma sample_endpoint_parsed: "parsed_endpoint sample_parse sample_endpoint"
proof -
  have "decimal (unat (1 :: u16)) = ''1''" by code_simp
  then have "endpoint_to_string sample_endpoint = ''a:1''"
    by (simp add: endpoint_to_string_def sample_endpoint_def)
  then show ?thesis by (simp add: parsed_endpoint_def sample_parse_def sample_endpoint_def)
qed

lemma sample_ids: "parsed_id k \<lparr>id_kind = k, id_text = sample_id k\<rparr>"
  by (simp add: parsed_id_def id_parse_kind_Inr_iff)

lemma sample_in_memory:
  "server_in_memory sample_parse sample_server" "tunnel_in_memory sample_parse sample_tunnel"
  by (simp_all add: server_in_memory_def tunnel_in_memory_def sample_server_def sample_tunnel_def
      sample_endpoint_parsed sample_ids)

lemma sample_storable: "storable_server sample_parse sample_server" "storable_tunnel sample_parse sample_tunnel"
proof -
  have "validate_server_record sample_server = Inr ()" "validate_tunnel_record sample_tunnel = Inr ()"
    by (simp_all add: validate_server_record_iff validate_tunnel_record_iff sample_server_def sample_tunnel_def
        validate_optional_text_def validate_error_fields_def valid_revision_def)
  then show "storable_server sample_parse sample_server" "storable_tunnel sample_parse sample_tunnel"
    using storable_serverI storable_tunnelI sample_in_memory by blast+
qed

lemma no_faults_simps [simp]:
  "sq_fault no_faults operation = None" "run_statement no_faults operation (Inr v) = Inr v"
  by (simp_all add: no_faults_def run_statement_def)

definition sample_tables :: Tables where
  "sample_tables = \<lparr>tb_servers = [server_bindings sample_server], tb_tunnels = [], tb_identity = []\<rparr>"

definition sample_database :: Database where
  "sample_database = opened_database\<lparr>db_tables := sample_tables\<rparr>"

lemma opened_database_ready: "db_ready opened_database" "tables_ok parse (db_durable opened_database)"
  using empty_tables_ok by (simp_all add: opened_database_def db_ready_def db_durable_def)

lemma sample_create: "server_create no_faults 4 sample_server opened_database = (Inr (), sample_database)"
proof -
  have "insert_server (server_bindings sample_server) empty_tables = Inr sample_tables"
    using server_checks_bindings [OF sample_storable(1)]
    by (simp add: insert_server_def empty_tables_def names_unique_def sample_tables_def)
  moreover have "validate_server_record sample_server = Inr ()" using sample_storable(1) by (simp add: storable_server_def)
  ultimately show ?thesis
    by (simp add: server_create_def server_create_in_def with_transaction_def begin_transaction_def and_then_def
        in_transaction_def transaction_commit_def rollback_noexcept_def opened_database_def sample_database_def
        empty_tables_def)
qed

lemma sample_database_ok: "db_ready sample_database" "tables_ok sample_parse (db_durable sample_database)"
  using server_create_step [OF sample_in_memory(1) opened_database_ready sample_create]
  by (simp_all add: storage_step_ok_def)

section \<open>Properties\<close>

text \<open>
  C4: start from an empty database and run any sequence of storage operations, each with any faults
  of SQLite, in which every conditional runtime update carries an error that the validation of
  records accepts (the repository does not check that).  After one more such operation the stored
  tables are well formed: every row is the image of a valid record, primary keys, server names and
  tunnel routes are unique, every tunnel's server is stored.  If the operation failed the stored
  tables are as before; if it succeeded, no remaining row's creation time (\<open>created_at\<close>) changed and
  no \<open>updated_at\<close> and no configuration revision moved backward.  Nothing is said of
  \<open>last_synced_at\<close>, which an update may set freely.
\<close>

theorem storage_integrity:
  assumes "list_all (\<lambda>(sq, sq', op). op_in_memory parse op \<and> reports_valid_error op) ops"
    and "op_in_memory parse op" "reports_valid_error op"
    and "storage_run parse ops opened_database = (oks, db)" "storage_step parse sq sq' op db = (ok, db')"
  shows "tables_ok parse (db_durable db') \<and>
    (if ok then advances (db_durable db) (db_durable db') else db_durable db' = db_durable db)"
proof -
  have "db_ready db" "tables_ok parse (db_durable db)"
    using storage_run_ok [OF assms(1) opened_database_ready] assms(4) by simp_all
  from storage_step_ok_all [OF assms(2,3) this assms(5)] show ?thesis by (simp add: storage_step_ok_def)
qed

theorem storage_integrity_witness:
  "tables_ok sample_parse (db_durable (snd (storage_step sample_parse no_faults no_faults (CreateTunnel 4 sample_tunnel)
     sample_database)))"
proof -
  have "storage_run sample_parse [(no_faults, no_faults, CreateServer 4 sample_server)] opened_database = ([True], sample_database)"
    by (simp add: sample_create has_value_iff)
  note run = this
  obtain ok db' where
    s: "storage_step sample_parse no_faults no_faults (CreateTunnel 4 sample_tunnel) sample_database = (ok, db')"
    by fastforce
  have "tables_ok sample_parse (db_durable db')"
    using storage_integrity [OF _ _ _ run s] sample_in_memory by (simp add: reports_valid_error_def)
  then show ?thesis unfolding s by simp
qed

text \<open>
  C10: a server or tunnel record that \<open>create\<close> or \<open>update\<close> accepted is what \<open>get_by_id\<close> returns
  afterwards, field by field.
\<close>

theorem stored_record_read_back:
  assumes "db_ready db" "tables_ok parse (db_durable db)"
    and "sq_fault sq' ''select server by ID'' = None" "sq_fault sq' ''select tunnel by ID'' = None"
  shows "(server_in_memory parse s \<and>
       (server_create sq n s db = (Inr (), db') \<or> server_update sq parse s db = (Inr (), db')) \<longrightarrow>
       server_get_by_id sq' parse (sv_id s) db' = Inr s) \<and>
     (tunnel_in_memory parse x \<and>
       (tunnel_create sq n x db = (Inr (), db') \<or> tunnel_update sq parse x db = (Inr (), db')) \<longrightarrow>
       tunnel_get_by_id sq' parse (tn_id x) db' = Inr x)"
  using server_stored [OF _ assms(1,2) _ assms(3)] tunnel_stored [OF _ assms(1,2) _ assms(4)] by blast

theorem stored_record_read_back_witness:
  "server_get_by_id no_faults sample_parse (sv_id sample_server) sample_database = Inr sample_server"
  using stored_record_read_back [OF opened_database_ready, of no_faults sample_parse sample_server no_faults 4 sample_database]
    sample_in_memory(1) sample_create by simp

text \<open>
  C11: on well-formed tables within the configured limits and without faults, recovery at time \<open>u\<close>
  succeeds whatever state the daemon died in.  It returns exactly the records listed before, in the
  same order, each brought to the state its desired state calls for and otherwise unchanged: exactly
  the tunnels of removed servers are marked removed, and a record already in its state is not
  touched.  The stored tables are well formed and list these records, the identity is kept, and
  recovering again, at any time, changes nothing and returns the same records.  (A tunnel row with an
  error text that the validation refuses is not well formed: such a row makes the listing fail.)
\<close>

theorem recovery_normalises:
  assumes "tables_ok parse (db_tables db)" "db_ready db" "\<not> db_poisoned db"
    and "\<And>operation. sq_fault sq operation = None"
    and "length (tb_servers (db_tables db)) \<le> max_servers" "length (tb_tunnels (db_tables db)) \<le> max_tunnels"
  shows "\<exists>servers tunnels servers' tunnels' t.
    server_list sq parse max_servers db = Inr servers \<and> tunnel_list sq parse max_tunnels db = Inr tunnels \<and>
    servers' = map (recover_server u) servers \<and>
    tunnels' = map (\<lambda>x. recover_tunnel u (server_gone servers x) x) tunnels \<and>
    state_recover sq sq parse max_servers max_tunnels u db = (Inr (servers', tunnels'), db\<lparr>db_tables := t\<rparr>) \<and>
    tables_ok parse t \<and> tb_identity t = tb_identity (db_tables db) \<and>
    server_order (tb_servers t) = map server_bindings servers' \<and>
    tunnel_order (tb_tunnels t) = map tunnel_bindings tunnels' \<and>
    state_recover sq sq parse max_servers max_tunnels v (db\<lparr>db_tables := t\<rparr>) =
      (Inr (servers', tunnels'), db\<lparr>db_tables := t\<rparr>)"
proof -
  obtain servers where servers: "server_list sq parse max_servers db = Inr servers"
    by (rule server_list_total [OF assms(1,3,4,5)])
  obtain tunnels where tunnels: "tunnel_list sq parse max_tunnels db = Inr tunnels"
    by (rule tunnel_list_total [OF assms(1,3,4,6)])
  obtain t where r: "recover_tables sq u (db_tables db) = Inr t"
    "state_recover sq sq parse max_servers max_tunnels u db =
       (Inr (map (recover_server u) servers, map (\<lambda>x. recover_tunnel u (server_gone servers x) x) tunnels),
        db\<lparr>db_tables := t\<rparr>)"
    "server_order (tb_servers t) = map server_bindings (map (recover_server u) servers)"
    "tunnel_order (tb_tunnels t) = map tunnel_bindings (map (\<lambda>x. recover_tunnel u (server_gone servers x) x) tunnels)"
    "list_all (storable_server parse) (map (recover_server u) servers)"
    "list_all (storable_tunnel parse) (map (\<lambda>x. recover_tunnel u (server_gone servers x) x) tunnels)"
    by (rule state_recover_exact [OF assms servers tunnels])
  have t: "tables_ok parse t" "tables_recovered t" "tb_identity t = tb_identity (db_tables db)"
    "map svr_id (tb_servers t) = map svr_id (tb_servers (db_tables db))"
    "map tnr_id (tb_tunnels t) = map tnr_id (tb_tunnels (db_tables db))"
    using recover_tables_step [OF assms(1) r(1)] by blast+
  have "length (tb_servers t) \<le> max_servers" "length (tb_tunnels t) \<le> max_tunnels"
    using arg_cong [OF t(4), of length] arg_cong [OF t(5), of length] assms(5,6) by simp_all
  then have "state_recover sq sq parse max_servers max_tunnels v (db\<lparr>db_tables := t\<rparr>) =
      (Inr (map (recover_server u) servers, map (\<lambda>x. recover_tunnel u (server_gone servers x) x) tunnels),
       db\<lparr>db_tables := t\<rparr>)"
    using assms(2-4) t(1,2) r(3-6) by (intro state_recover_stable) (simp_all add: db_ready_def)
  then show ?thesis
    using servers tunnels r(2-4) t(1,3) by blast
qed

section \<open>The text of a runtime error\<close>

lemma read_tunnel_message:
  assumes "read_tunnel parse r = Inr y" "tnr_last_error_message r = SqlText m"
  shows "validate_tunnel_record y = Inr () \<and> tn_last_error_message y = Some m"
proof -
  obtain a1 a2 a3 a4 a5 a6 a7 a8 a9 a10 a11 a13 a14 a15 a16 a17 a18 where
    "tunnel_from_columns parse a1 a2 a3 a4 a5 a6 a7 a8 a9 a10 a11 (Some m) a13 a14 a15 a16 a17 a18 = Inr y"
    using assms by (auto simp: read_tunnel_def and_then_Inr_iff optional_text_def split: sum.splits if_splits)
  then show ?thesis
    by (auto simp: tunnel_from_columns_def and_then_Inr_iff Let_def has_value_iff split: sum.splits if_splits)
qed

lemma transaction_success:
  assumes "\<And>operation. sq_fault sq operation = None" "db_ready db" "\<not> db_poisoned db" "op (db_tables db) = Inr (n, t)"
  shows "with_transaction sq (plain_statement op) db = (Inr n, db\<lparr>db_tables := t\<rparr>)"
  using assms
  by (simp add: with_transaction_def begin_transaction_def db_ready_def and_then_def run_statement_def
      plain_statement_def transaction_commit_def rollback_noexcept_def)

lemma runtime_row_message:
  "runtime_row a (Some (Error c m)) u b r =
     (runtime_row a (Some (Error c [])) u b r)\<lparr>tnr_last_error_message := SqlText m\<rparr>"
  by (simp add: runtime_row_def bind_optional_text_def)

lemma checks_message:
  "tunnel_checks r \<Longrightarrow> length m \<le> 4096 \<Longrightarrow> tunnel_checks (r\<lparr>tnr_last_error_message := SqlText m\<rparr>)"
proof -
  assume r: "tunnel_checks r" and "length m \<le> 4096"
  then have "null_or (\<lambda>v. text_between v 0 4096) (SqlText m)" by (simp add: null_or_def text_between_def)
  with r show ?thesis by (cases r) (simp only: tunnel_checks_def TunnelRow.simps prod.case)
qed

lemma runtime_row_checks:
  assumes "storable_tunnel parse x" "c \<noteq> EC_ok" "length m \<le> 4096"
  shows "tunnel_checks (runtime_row a (Some (Error c m)) u b (tunnel_bindings x))"
proof -
  have "validate_error_fields (map_option code (Some (Error c []))) (map_option message (Some (Error c []))) = Inr ()"
    using assms(2) by (simp add: validate_error_fields_def is_known_error_code_def error_code_from_to
        validate_optional_text_def validate_text_def storage_is_valid_utf8_def bytes_of_string_def)
  from tunnel_checks_bindings [OF runtime_record_storable(1) [OF assms(1) this, of a u b]]
  have "tunnel_checks (runtime_row a (Some (Error c [])) u b (tunnel_bindings x))" by (simp only: row_assignments(2))
  from checks_message [OF this assms(3)] show ?thesis by (simp only: runtime_row_message [of a c m])
qed

lemma update_one:
  assumes ok: "tables_ok parse t" and x: "storable_tunnel parse x" "tunnel_bindings x \<in> set (tb_tunnels t)"
    and p: "p (tunnel_bindings x)" "\<And>r. p r \<Longrightarrow> tnr_id r = tnr_id (tunnel_bindings x)"
    and f: "tunnel_checks (f (tunnel_bindings x))" "\<And>r. tunnel_route (f r) = tunnel_route r"
  shows "update_tunnels p f t = Inr (1, t\<lparr>tb_tunnels := update_where p f (tb_tunnels t)\<rparr>)"
proof -
  have "filter p (tb_tunnels t) = filter (\<lambda>r. tnr_id r = tnr_id (tunnel_bindings x)) (tb_tunnels t)"
  proof (rule filter_cong [OF refl])
    fix r assume "r \<in> set (tb_tunnels t)"
    then have "tnr_id r = tnr_id (tunnel_bindings x) \<Longrightarrow> r = tunnel_bindings x"
      by (rule distinct_key_eq [OF tables_okD(4) [OF ok] _ x(2)])
    then show "p r = (tnr_id r = tnr_id (tunnel_bindings x))" using p by blast
  qed
  then have one: "filter p (tb_tunnels t) = [tunnel_bindings x]"
    using filter_unique [OF tables_okD(4) [OF ok] x(2)] by simp
  have "map tunnel_route (update_where p f (tb_tunnels t)) = map tunnel_route (tb_tunnels t)"
    by (rule update_where_ids) (rule f(2))
  then have "distinct (map tunnel_route (update_where p f (tb_tunnels t)))" using tables_okD(6) [OF ok] by (simp only:)
  moreover have "tnr_server_id (f (tunnel_bindings x)) = tnr_server_id (tunnel_bindings x)"
    using f(2) [of "tunnel_bindings x"] by (simp add: tunnel_route_def)
  ultimately show ?thesis
    using one f(1) tables_okD(7) [OF ok] x(2) by (simp add: update_tunnels_def Let_def)
qed

text \<open>
  C40: \<open>update_runtime_state_if_revision\<close> checks the length of an error text but not its encoding.  A
  text that \<open>validate_text\<close> refuses (a NUL byte, malformed UTF-8) is stored, reported as stored, and
  from then on the tunnel can no longer be read by its identifier.
\<close>

theorem runtime_message_unreadable:
  assumes db: "db_ready db" "\<not> db_poisoned db" "tables_ok parse (db_tables db)" "\<And>operation. sq_fault sq operation = None"
    and x: "storable_tunnel parse x" "tunnel_bindings x \<in> set (tb_tunnels (db_tables db))" "tn_desired_state x = TDS_active"
    and e: "c \<noteq> EC_ok" "length m \<le> kMaxErrorMessageBytes" "validate_text m 0 kMaxErrorMessageBytes ''last_error_message'' \<noteq> Inr ()"
    and u: "0 \<le> u"
  shows "\<exists>db'. update_runtime_state_if_revision sq (tn_id x) (tn_server_id x) (tn_config_revision x) TAS_failed
      (Some (Error c m)) u b db = (Inr True, db') \<and> \<not> has_value (tunnel_get_by_id sq parse (tn_id x) db')"
proof -
  let ?p = "runtime_matches (tn_id x) (tn_server_id x) (tn_config_revision x) TAS_failed"
  let ?f = "runtime_row TAS_failed (Some (Error c m)) u b"
  let ?t = "(db_tables db)\<lparr>tb_tunnels := update_where ?p ?f (tb_tunnels (db_tables db))\<rparr>"
  have v: "valid_revision (tn_config_revision x)" "id_kind (tn_id x) = IK_tunnel" "id_kind (tn_server_id x) = IK_server"
    using x(1) by (simp_all add: storable_tunnel_def validate_tunnel_record_iff)
  have match: "?p (tunnel_bindings x)"
    using x(3) by (simp add: runtime_matches_def tunnel_bindings_def state_literals)
  have upd: "update_tunnels ?p ?f (db_tables db) = Inr (1, ?t)"
  proof (rule update_one [where p = ?p, OF db(3) x(1,2) match])
    show "tunnel_checks (?f (tunnel_bindings x))"
      using runtime_row_checks [OF x(1) e(1)] e(2) by (simp add: kMaxErrorMessageBytes_def)
  qed (simp_all add: runtime_matches_def tunnel_bindings_def runtime_row_def tunnel_route_def)
  have run: "update_runtime_state_if_revision sq (tn_id x) (tn_server_id x) (tn_config_revision x) TAS_failed
      (Some (Error c m)) u b db = (Inr True, db\<lparr>db_tables := ?t\<rparr>)"
    using transaction_success [OF db(4,1,2), of "\<lambda>t. run_statement sq ''conditionally update tunnel runtime state''
        (update_tunnels ?p ?f t)" 1 ?t] upd v e(1,2) u db(4)
    by (simp add: update_runtime_state_if_revision_def valid_revision_def run_statement_def not_less)
  have "map tnr_id (tb_tunnels ?t) = map tnr_id (tb_tunnels (db_tables db))"
    by (simp add: update_where_def runtime_row_def)
  then have "distinct (map tnr_id (tb_tunnels ?t))" using tables_okD(4) [OF db(3)] by (simp only:)
  moreover have "?f (tunnel_bindings x) \<in> set (tb_tunnels ?t)" using update_where_member [where p = ?p, OF x(2) match] by simp
  moreover have id: "tnr_id (?f (tunnel_bindings x)) = SqlText (id_text (tn_id x))"
    by (simp add: runtime_row_def tunnel_bindings_def)
  ultimately have one: "filter (\<lambda>r. tnr_id r = SqlText (id_text (tn_id x))) (tb_tunnels ?t) = [?f (tunnel_bindings x)]"
    using filter_unique [of tnr_id "tb_tunnels ?t" "?f (tunnel_bindings x)"] by simp
  have "\<not> has_value (read_tunnel parse (?f (tunnel_bindings x)))"
  proof
    assume "has_value (read_tunnel parse (?f (tunnel_bindings x)))"
    then obtain y where y: "read_tunnel parse (?f (tunnel_bindings x)) = Inr y" by (auto simp: has_value_iff)
    have "tnr_last_error_message (?f (tunnel_bindings x)) = SqlText m"
      by (simp add: runtime_row_def bind_optional_text_def)
    from read_tunnel_message [OF y this] have "validate_error_fields (tn_last_error_code y) (Some m) = Inr ()"
      by (auto simp: validate_tunnel_record_iff)
    then show False using e(3) by (auto simp: validate_error_fields_def validate_optional_text_def split: if_splits)
  qed
  then have "\<not> has_value (tunnel_get_by_id sq parse (tn_id x) (db\<lparr>db_tables := ?t\<rparr>))"
    using one db(2,4) v(2)
    by (simp add: tunnel_get_by_id_def run_statement_def single_row_def and_then_def has_value_iff split: sum.splits)
  with run show ?thesis by blast
qed

definition sample_full_database :: Database where
  "sample_full_database = opened_database\<lparr>db_tables := sample_tables\<lparr>tb_tunnels := [tunnel_bindings sample_tunnel]\<rparr>\<rparr>"

lemma sample_full_ok: "db_ready sample_full_database" "tables_ok sample_parse (db_tables sample_full_database)"
proof -
  show "db_ready sample_full_database" by (simp add: sample_full_database_def db_ready_def opened_database_def)
  have ok: "tables_ok sample_parse sample_tables"
    using sample_database_ok(2) by (simp add: sample_database_def opened_database_def db_durable_def)
  have "insert_tunnel (tunnel_bindings sample_tunnel) sample_tables =
      Inr (sample_tables\<lparr>tb_tunnels := [tunnel_bindings sample_tunnel]\<rparr>)"
    using tunnel_checks_bindings [OF sample_storable(2)]
    by (simp add: insert_tunnel_def sample_tables_def sample_tunnel_def sample_server_def tunnel_bindings_def server_bindings_def)
  from insert_tunnel_ok [OF ok sample_storable(2) this, THEN conjunct1] show "tables_ok sample_parse (db_tables sample_full_database)"
    by (simp add: sample_full_database_def)
qed

theorem recovery_normalises_witness:
  "(\<exists>db'. state_recover no_faults no_faults sample_parse 4 4 9 sample_full_database =
      (Inr ([recover_server 9 sample_server], [recover_tunnel 9 False sample_tunnel]), db')) \<and>
   sv_actual_state (recover_server 9 sample_server) = SAS_not_authenticated \<and>
   tn_actual_state (recover_tunnel 9 False sample_tunnel) = TAS_pending \<and>
   tn_desired_state (recover_tunnel 9 False sample_tunnel) = TDS_active"
proof -
  have db: "\<not> db_poisoned sample_full_database" "length (tb_servers (db_tables sample_full_database)) \<le> 4"
    "length (tb_tunnels (db_tables sample_full_database)) \<le> 4"
    by (simp_all add: sample_full_database_def opened_database_def sample_tables_def)
  have lists: "server_list no_faults sample_parse 4 sample_full_database = Inr [sample_server]"
    "tunnel_list no_faults sample_parse 4 sample_full_database = Inr [sample_tunnel]"
    using read_server_bindings [OF sample_storable(1)] read_tunnel_bindings [OF sample_storable(2)]
    by (simp_all add: sample_full_database_def opened_database_def sample_tables_def server_list_def tunnel_list_def
        server_order_def tunnel_order_def and_then_def)
  have states: "sv_actual_state (recover_server 9 sample_server) = SAS_not_authenticated"
    "tn_actual_state (recover_tunnel 9 False sample_tunnel) = TAS_pending"
    "tn_desired_state (recover_tunnel 9 False sample_tunnel) = TDS_active" "\<not> server_gone [sample_server] sample_tunnel"
    by (simp_all add: recover_server_def recovered_server_record_def recover_tunnel_def recovered_tunnel_record_def
        server_gone_def sample_server_def sample_tunnel_def)
  from recovery_normalises [OF sample_full_ok(2,1) db(1) no_faults_simps(1) db(2,3), of 9 0] lists states
  show ?thesis by auto
qed

theorem runtime_message_unreadable_witness:
  "\<exists>db'. update_runtime_state_if_revision no_faults (tn_id sample_tunnel) (tn_server_id sample_tunnel)
      (tn_config_revision sample_tunnel) TAS_failed (Some (Error EC_internal_error [char_of (0 :: nat)])) 9 True
      sample_full_database = (Inr True, db') \<and>
    \<not> has_value (tunnel_get_by_id no_faults sample_parse (tn_id sample_tunnel) db')"
proof (rule runtime_message_unreadable)
  show "validate_text [char_of (0 :: nat)] 0 kMaxErrorMessageBytes ''last_error_message'' \<noteq> Inr ()"
    by (simp add: validate_text_def kMaxErrorMessageBytes_def)
qed (simp_all add: sample_full_ok sample_storable, simp_all add: sample_full_database_def opened_database_def
      sample_tunnel_def kMaxErrorMessageBytes_def)

end
