(* ===== verification/Tunnel_Reconciler.thy ===== *)
theory Tunnel_Reconciler
  imports Generation_Fences Storage_Properties
begin

text \<open>
  \<open>include/minitun/daemon/tunnel_reconciler.hpp\<close> and \<open>src/daemon/tunnel_reconciler.cpp\<close>: the boundary
  between network sessions and the persisted state of tunnels.  The mutex is held for the whole of an
  operation, so a concurrent execution is a sequence of these operations.  \<open>now\<close> is the value of
  \<open>unix_milliseconds_now\<close>; \<open>std::bad_alloc\<close> is not modelled.
\<close>

record TunnelReconciler =
  rt_generations :: "(string, u64) umap"

definition new_tunnel_reconciler :: TunnelReconciler where
  "new_tunnel_reconciler = \<lparr>rt_generations = []\<rparr>"

definition following_generation :: "u64 \<Rightarrow> u64" where
  "following_generation generation =
     (let next_value = (if generation = 0xFFFFFFFFFFFFFFFF then 1 else generation + 1)
      in if next_value = 0 then 1 else next_value)"

definition next_generation_locked :: "string \<Rightarrow> TunnelReconciler \<Rightarrow> u64 \<times> TunnelReconciler" where
  "next_generation_locked server_id t =
     (let generation = following_generation (case map_of (rt_generations t) server_id of None \<Rightarrow> 0 | Some g \<Rightarrow> g)
      in (generation, t\<lparr>rt_generations := AList.update server_id generation (rt_generations t)\<rparr>))"

definition begin_generation ::
  "Sqlite \<Rightarrow> int \<Rightarrow> Id \<Rightarrow> TunnelReconciler \<times> Database \<Rightarrow> u64 Result \<times> TunnelReconciler \<times> Database" where
  "begin_generation sq now server_id = (\<lambda>(t, db).
     if id_kind server_id \<noteq> IK_server
     then (failure EC_invalid_argument ''tunnel generation requires a server ID'', t, db)
     else (let (generation, t') = next_generation_locked (id_text server_id) t
           in (case mark_active_pending_by_server sq server_id None now db of
                 (Inl e, db') \<Rightarrow> (Inl e, t', db')
               | (Inr _, db') \<Rightarrow> (Inr generation, t', db'))))"

definition found_current :: "Id \<Rightarrow> u64 \<Rightarrow> TunnelReconciler \<Rightarrow> bool" where
  "found_current server_id generation t \<longleftrightarrow> map_of (rt_generations t) (id_text server_id) = Some generation"

definition end_generation ::
  "Sqlite \<Rightarrow> int \<Rightarrow> Id \<Rightarrow> u64 \<Rightarrow> Error option \<Rightarrow> TunnelReconciler \<times> Database \<Rightarrow>
   unit Result \<times> TunnelReconciler \<times> Database" where
  "end_generation sq now server_id generation error = (\<lambda>(t, db).
     if id_kind server_id \<noteq> IK_server \<or> generation = 0
     then (failure EC_invalid_argument ''ending a tunnel generation requires valid identifiers'', t, db)
     else if \<not> found_current server_id generation t then (Inr (), t, db)
     else (case mark_active_pending_by_server sq server_id error now db of
             (Inl e, db') \<Rightarrow> (Inl e, t, db')
           | (Inr _, db') \<Rightarrow> (Inr (), t, db')))"

definition invalidate ::
  "Sqlite \<Rightarrow> int \<Rightarrow> Id \<Rightarrow> Error option \<Rightarrow> TunnelReconciler \<times> Database \<Rightarrow>
   unit Result \<times> TunnelReconciler \<times> Database" where
  "invalidate sq now server_id error = (\<lambda>(t, db).
     if id_kind server_id \<noteq> IK_server
     then (failure EC_invalid_argument ''invalidating tunnel state requires a server ID'', t, db)
     else (let (_, t') = next_generation_locked (id_text server_id) t
           in (case mark_active_pending_by_server sq server_id error now db of
                 (Inl e, db') \<Rightarrow> (Inl e, t', db')
               | (Inr _, db') \<Rightarrow> (Inr (), t', db'))))"

definition reconciler_transition ::
  "Sqlite \<Rightarrow> int \<Rightarrow> Id \<Rightarrow> Id \<Rightarrow> u64 \<Rightarrow> u64 \<Rightarrow> TunnelActualState \<Rightarrow> Error option \<Rightarrow> bool \<Rightarrow>
   TunnelReconciler \<times> Database \<Rightarrow> bool Result \<times> TunnelReconciler \<times> Database" where
  "reconciler_transition sq now server_id tunnel_id generation expected_revision state error synchronized =
     (\<lambda>(t, db).
       if id_kind server_id \<noteq> IK_server \<or> id_kind tunnel_id \<noteq> IK_tunnel \<or> generation = 0 \<or> expected_revision = 0
       then (failure EC_invalid_argument ''tunnel transition requires valid generation identifiers'', t, db)
       else if \<not> found_current server_id generation t then (Inr False, t, db)
       else (case update_runtime_state_if_revision sq tunnel_id server_id expected_revision state error now
                    synchronized db of
               (r, db') \<Rightarrow> (r, t, db')))"

definition reconciler_is_current :: "Id \<Rightarrow> u64 \<Rightarrow> TunnelReconciler \<Rightarrow> bool" where
  "reconciler_is_current server_id generation t \<longleftrightarrow>
     id_kind server_id = IK_server \<and> generation \<noteq> 0 \<and> found_current server_id generation t"

interpretation tunnel_generations: generation_fence rt_generations
  "\<lambda>s g t. map_of (rt_generations t) s = Some g" "\<lambda>s g t. t\<lparr>rt_generations := AList.update s g (rt_generations t)\<rparr>"
  by unfold_locales simp_all

section \<open>Histories\<close>

datatype ReconcilerOp =
    BeginGeneration Id
  | EndGeneration Id u64 "Error option"
  | Invalidate Id "Error option"
  | Transition Id Id u64 u64 TunnelActualState "Error option" bool

primrec reconciler_step ::
  "Sqlite \<Rightarrow> int \<Rightarrow> ReconcilerOp \<Rightarrow> TunnelReconciler \<times> Database \<Rightarrow> TunnelReconciler \<times> Database" where
  "reconciler_step sq now (BeginGeneration s) c = snd (begin_generation sq now s c)"
| "reconciler_step sq now (EndGeneration s g e) c = snd (end_generation sq now s g e c)"
| "reconciler_step sq now (Invalidate s e) c = snd (invalidate sq now s e c)"
| "reconciler_step sq now (Transition s i g n a e b) c = snd (reconciler_transition sq now s i g n a e b c)"

definition reconciler_run ::
  "(Sqlite \<times> int \<times> ReconcilerOp) list \<Rightarrow> TunnelReconciler \<times> Database \<Rightarrow> TunnelReconciler \<times> Database" where
  "reconciler_run ops c = fold (\<lambda>(sq, now, op). reconciler_step sq now op) ops c"

primrec supersedes :: "string \<Rightarrow> ReconcilerOp \<Rightarrow> bool" where
  "supersedes s (BeginGeneration i) = (id_kind i = IK_server \<and> id_text i = s)"
| "supersedes s (EndGeneration i g e) = False"
| "supersedes s (Invalidate i e) = (id_kind i = IK_server \<and> id_text i = s)"
| "supersedes s (Transition i j g n a e b) = False"

definition superseded_times :: "string \<Rightarrow> (Sqlite \<times> int \<times> ReconcilerOp) list \<Rightarrow> nat" where
  "superseded_times s ops = length (filter (\<lambda>(sq, now, op). supersedes s op) ops)"

lemma reconciler_step_generation:
  "map_of (rt_generations (fst (reconciler_step sq now op (t, db)))) s =
     (if supersedes s op
      then Some (following_generation (case map_of (rt_generations t) s of None \<Rightarrow> 0 | Some g \<Rightarrow> g))
      else map_of (rt_generations t) s)"
  by (cases op)
     (auto simp: begin_generation_def end_generation_def invalidate_def reconciler_transition_def
       next_generation_locked_def Let_def split: prod.splits sum.splits)

lemma reconciler_run_generation:
  assumes "map_of (rt_generations t) s = Some g"
  shows "map_of (rt_generations (fst (reconciler_run ops (t, db)))) s =
    Some ((following_generation ^^ superseded_times s ops) g)"
  using assms
proof (induction ops arbitrary: t db g)
  case Nil
  then show ?case by (simp add: reconciler_run_def superseded_times_def)
next
  case (Cons c ops)
  obtain sq now op where c: "c = (sq, now, op)" by (metis prod_cases3)
  obtain t1 db1 where s1: "reconciler_step sq now op (t, db) = (t1, db1)" by fastforce
  have g1: "map_of (rt_generations t1) s = Some (if supersedes s op then following_generation g else g)"
    using reconciler_step_generation [of sq now op t db s] s1 Cons.prems by simp
  have "reconciler_run (c # ops) (t, db) = reconciler_run ops (t1, db1)"
    by (simp add: reconciler_run_def c s1)
  moreover have "superseded_times s (c # ops) = (if supersedes s op then 1 else 0) + superseded_times s ops"
    by (simp add: superseded_times_def c)
  ultimately show ?case using Cons.IH [OF g1, of db1] by (simp add: funpow_swap1)
qed

section \<open>Generations do not come back\<close>

lemma generation_index: "g \<noteq> 0 \<Longrightarrow> unat (g :: u64) - 1 < 18446744073709551615"
proof -
  assume "g \<noteq> 0"
  moreover have "unat g < 18446744073709551616" using unsigned_less [of g] by simp
  ultimately show ?thesis by (simp add: unat_gt_0)
qed

lemma following_unat:
  "g \<noteq> 0 \<Longrightarrow> following_generation g \<noteq> 0 \<and>
    unat (following_generation g) - 1 = (unat g - 1 + 1) mod 18446744073709551615"
proof -
  assume g: "g \<noteq> 0"
  have b: "unat g < 18446744073709551616" using unsigned_less [of g] by simp
  have pos: "0 < unat g" using g by (simp add: unat_gt_0)
  show ?thesis
  proof (cases "g = 0xFFFFFFFFFFFFFFFF")
    case True
    then show ?thesis by (simp add: following_generation_def)
  next
    case False
    have "unat g \<noteq> 18446744073709551615"
    proof
      assume "unat g = 18446744073709551615"
      then have "unat g = unat (0xFFFFFFFFFFFFFFFF :: u64)" by simp
      then show False using False word_unat_eq_iff by blast
    qed
    then have "unat g + 1 < 2 ^ 64" using b by simp
    then have s: "unat (g + 1) = unat g + 1" by (simp add: unat_word_ariths)
    then have "g + 1 \<noteq> 0" by (metis add_is_0 unat_0 zero_neq_one)
    then show ?thesis using False s pos \<open>unat g + 1 < 2 ^ 64\<close> by (simp add: following_generation_def Let_def)
  qed
qed

lemma following_funpow:
  "g \<noteq> 0 \<Longrightarrow> (following_generation ^^ k) g \<noteq> 0 \<and>
    unat ((following_generation ^^ k) g) - 1 = (unat g - 1 + k) mod 18446744073709551615"
proof (induction k)
  case 0
  then show ?case using generation_index [of g] by simp
next
  case (Suc k)
  then show ?case
    using following_unat [of "(following_generation ^^ k) g"] by (simp add: mod_simps)
qed

lemma mod_shift: "a < m \<Longrightarrow> 0 < k \<Longrightarrow> k < m \<Longrightarrow> (a + k) mod m \<noteq> (a :: nat)"
  by (cases "a + k < m") (simp_all add: le_mod_geq not_less)

lemma following_distinct:
  assumes "g \<noteq> 0" "0 < k" "k < 18446744073709551615"
  shows "(following_generation ^^ k) g \<noteq> g"
  using mod_shift [OF generation_index [OF assms(1)] assms(2,3)] following_funpow [OF assms(1), of k] by auto

text \<open>
  once a generation of a server was superseded, by a new session or by \<open>invalidate\<close>, a transition
  that still carries it is refused: it reports that nothing changed and touches neither the database
  nor the generations, whatever other operations ran in between.  The 64-bit counter wraps around, so
  this holds for fewer than \<open>2^64 - 1\<close> supersessions.
\<close>

theorem stale_generation_refused:
  assumes "map_of (rt_generations t) (id_text s) = Some g" "g \<noteq> 0" "n \<noteq> 0"
    and "id_kind s = IK_server" "id_kind i = IK_tunnel"
    and "0 < superseded_times (id_text s) ops" "superseded_times (id_text s) ops < 18446744073709551615"
  shows "reconciler_transition sq now s i g n a e b (reconciler_run ops (t, db)) =
    (Inr False, reconciler_run ops (t, db))"
proof -
  obtain t' db' where run: "reconciler_run ops (t, db) = (t', db')" by fastforce
  have "map_of (rt_generations t') (id_text s) \<noteq> Some g"
    using reconciler_run_generation [OF assms(1), of ops db] following_distinct [OF assms(2,6,7)] run by simp
  then show ?thesis
    using assms(2-5) by (simp add: run reconciler_transition_def found_current_def)
qed

definition sample_reconciler :: TunnelReconciler where
  "sample_reconciler = \<lparr>rt_generations = [(sample_id IK_server, 7)]\<rparr>"

theorem stale_generation_refused_witness:
  "fst (reconciler_transition no_faults 9 (sv_id sample_server) (tn_id sample_tunnel) 7 1 TAS_active None True
     (reconciler_run [(no_faults, 8, BeginGeneration (sv_id sample_server))] (sample_reconciler, sample_full_database))) =
   Inr False"
proof -
  have "superseded_times (id_text (sv_id sample_server)) [(no_faults, 8, BeginGeneration (sv_id sample_server))] = 1"
    by (simp add: superseded_times_def sample_server_def)
  then show ?thesis
    using stale_generation_refused [of sample_reconciler "sv_id sample_server" 7 1 "tn_id sample_tunnel"
        "[(no_faults, 8, BeginGeneration (sv_id sample_server))]" no_faults 9 TAS_active None True sample_full_database]
    by (simp add: sample_reconciler_def) (simp add: sample_server_def sample_tunnel_def)
qed

section \<open>What a transition may change\<close>

lemma runtime_matches_bindings:
  assumes "storable_tunnel parse x" "n \<noteq> 0" "n \<le> 9223372036854775807"
  shows "runtime_matches i s n a (tunnel_bindings x) \<longleftrightarrow>
    id_text (tn_id x) = id_text i \<and> id_text (tn_server_id x) = id_text s \<and> tn_config_revision x = n \<and>
    tn_desired_state x = (if a = TAS_disabled then TDS_disabled else TDS_active)"
proof -
  have v: "valid_revision (tn_config_revision x)"
    using assms(1) by (simp add: storable_tunnel_def validate_tunnel_record_iff)
  have n: "valid_revision n" using assms(2,3) by (simp add: valid_revision_def)
  have "(sint (tn_config_revision x) = sint n) = (tn_config_revision x = n)"
    using revision_column(3) [OF v] revision_column(3) [OF n] by (simp add: word_uint_eq_iff)
  then show ?thesis
    by (cases "tn_desired_state x")
       (auto simp: runtime_matches_def tunnel_bindings_def state_literals)
qed

lemma plain_statement_success:
  assumes ready: "db_ready db" and run: "with_transaction sq (plain_statement op) db = (Inr n, db')"
  shows "op (db_durable db) = Inr (n, db_durable db')"
proof -
  from with_transaction_atomic [OF plain_statement_ok [of op] ready, of sq] run
  obtain tx db1 tx2 db2 where b: "plain_statement op tx db1 = (Inr n, tx2, db2)"
    "db_tables db1 = db_tables db" "db_durable db' = db_tables db2" "\<not> db_poisoned db" by auto
  then have "op (db_tables db) = Inr (n, db_tables db2)"
    by (auto simp: plain_statement_def split: sum.splits prod.splits)
  then show ?thesis using b(3,4) durable_tables [OF ready] by simp
qed

lemma plain_statement_failure:
  assumes ready: "db_ready db" and run: "with_transaction sq (plain_statement op) db = (Inl e, db')"
  shows "db_durable db' = db_durable db"
  using with_transaction_atomic [OF plain_statement_ok [of op] ready, of sq] run by simp

lemma distinct_mapD: "distinct (map k l) \<Longrightarrow> distinct l"
  by (simp add: distinct_map)

lemma tables_eqI: "tb_servers t' = tb_servers t \<Longrightarrow> tb_identity t' = tb_identity t \<Longrightarrow> tb_tunnels t' = tb_tunnels t \<Longrightarrow> t' = (t :: Tables)"
  by simp

lemma matching_rows:
  assumes ok: "tables_ok parse t" and n: "n \<noteq> 0" "n \<le> 9223372036854775807"
  shows "filter (runtime_matches i s n a) (tb_tunnels t) = [] \<or>
    (\<exists>x. storable_tunnel parse x \<and> tunnel_bindings x \<in> set (tb_tunnels t) \<and>
       filter (runtime_matches i s n a) (tb_tunnels t) = [tunnel_bindings x] \<and>
       id_text (tn_id x) = id_text i \<and> id_text (tn_server_id x) = id_text s \<and> tn_config_revision x = n \<and>
       tn_desired_state x = (if a = TAS_disabled then TDS_disabled else TDS_active) \<and>
       (\<forall>r \<in> set (tb_tunnels t). runtime_matches i s n a r \<longleftrightarrow> r = tunnel_bindings x))"
proof (cases "filter (runtime_matches i s n a) (tb_tunnels t)")
  case (Cons r rest)
  then have "r \<in> set (filter (runtime_matches i s n a) (tb_tunnels t))" by simp
  then have r: "r \<in> set (tb_tunnels t)" "runtime_matches i s n a r" by simp_all
  note row = tables_okD(2) [OF ok, rule_format, OF r(1)]
  then obtain x where x: "storable_tunnel parse x" "r = tunnel_bindings x" by (elim exE conjE)
  have same: "q = r" if q: "q \<in> set (tb_tunnels t)" "runtime_matches i s n a q" for q
    by (rule distinct_key_eq [OF tables_okD(4) [OF ok] q(1) r(1)]) (use q(2) r(2) in \<open>simp add: runtime_matches_def\<close>)
  have "distinct (r # rest)"
    unfolding Cons [symmetric] using distinct_mapD [OF tables_okD(4) [OF ok]] by (rule distinct_filter)
  moreover have "q = r" if q: "q \<in> set rest" for q
  proof -
    have "q \<in> set (filter (runtime_matches i s n a) (tb_tunnels t))" using q by (simp add: Cons)
    then show ?thesis by (intro same) simp_all
  qed
  ultimately have "rest = []" by (cases rest) (simp_all, metis)
  have all: "\<forall>q \<in> set (tb_tunnels t). runtime_matches i s n a q \<longleftrightarrow> q = r"
    by (intro ballI iffI) (rule same, assumption+, simp only: r(2))
  have "id_text (tn_id x) = id_text i \<and> id_text (tn_server_id x) = id_text s \<and> tn_config_revision x = n \<and>
      tn_desired_state x = (if a = TAS_disabled then TDS_disabled else TDS_active)"
    using runtime_matches_bindings [OF x(1) n, of i s a] r(2) unfolding x(2) by blast
  then show ?thesis
    using x(1) r(1) all Cons \<open>rest = []\<close> unfolding x(2) by (intro disjI2 exI [of _ x]) (simp only: simp_thms)
qed simp

lemma update_runtime_durable:
  assumes db: "db_ready db" "tables_ok parse (db_durable db)"
    and run: "update_runtime_state_if_revision sq i s n a e u b db = (r, db')"
  shows "if r = Inr True
    then \<exists>x. storable_tunnel parse x \<and> tunnel_bindings x \<in> set (tb_tunnels (db_durable db)) \<and>
      id_text (tn_id x) = id_text i \<and> id_text (tn_server_id x) = id_text s \<and> tn_config_revision x = n \<and>
      tn_desired_state x = (if a = TAS_disabled then TDS_disabled else TDS_active) \<and>
      tb_servers (db_durable db') = tb_servers (db_durable db) \<and>
      tb_tunnels (db_durable db') =
        map (\<lambda>q. if q = tunnel_bindings x then tunnel_bindings (runtime_record a e u b x) else q) (tb_tunnels (db_durable db))
    else db_durable db' = db_durable db"
  using run
proof (cases rule: update_runtime_cases)
  case (refused e)
  then show ?thesis by simp
next
  case (stored c)
  have n: "n \<noteq> 0" "n \<le> 9223372036854775807" if "has_value r"
    using run that by (auto simp: update_runtime_state_if_revision_def not_less has_value_iff split: if_splits)
  show ?thesis
  proof (cases c)
    case (Inl e')
    then show ?thesis using plain_statement_failure [OF db(1)] stored by auto
  next
    case (Inr k)
    then have r: "r = Inr (k = 1)" using stored(2) by simp
    have n: "n \<noteq> 0" "n \<le> 9223372036854775807" using n r by (simp_all add: has_value_iff)
    have "update_tunnels (runtime_matches i s n a) (runtime_row a e u b) (db_durable db) = Inr (k, db_durable db')"
      using plain_statement_success [OF db(1) stored(1) [unfolded Inr]] by (simp add: run_statement_Inr)
    then have upd: "db_durable db' = (db_durable db)\<lparr>tb_tunnels :=
        update_where (runtime_matches i s n a) (runtime_row a e u b) (tb_tunnels (db_durable db))\<rparr>"
      "k = length (filter (runtime_matches i s n a) (tb_tunnels (db_durable db)))"
      by (simp_all add: update_tunnels_def Let_def split: if_splits)
    from matching_rows [OF db(2) n, of i s a] show ?thesis
    proof
      assume none: "filter (runtime_matches i s n a) (tb_tunnels (db_durable db)) = []"
      then have "update_where (runtime_matches i s n a) (runtime_row a e u b) (tb_tunnels (db_durable db)) =
          tb_tunnels (db_durable db)"
        by (intro update_where_none) (simp add: filter_empty_conv)
      then show ?thesis using none upd r by simp
    next
      assume "\<exists>x. storable_tunnel parse x \<and> tunnel_bindings x \<in> set (tb_tunnels (db_durable db)) \<and>
       filter (runtime_matches i s n a) (tb_tunnels (db_durable db)) = [tunnel_bindings x] \<and>
       id_text (tn_id x) = id_text i \<and> id_text (tn_server_id x) = id_text s \<and> tn_config_revision x = n \<and>
       tn_desired_state x = (if a = TAS_disabled then TDS_disabled else TDS_active) \<and>
       (\<forall>r \<in> set (tb_tunnels (db_durable db)). runtime_matches i s n a r \<longleftrightarrow> r = tunnel_bindings x)"
      then obtain x where x: "storable_tunnel parse x" "tunnel_bindings x \<in> set (tb_tunnels (db_durable db))"
        "filter (runtime_matches i s n a) (tb_tunnels (db_durable db)) = [tunnel_bindings x]"
        "id_text (tn_id x) = id_text i" "id_text (tn_server_id x) = id_text s" "tn_config_revision x = n"
        "tn_desired_state x = (if a = TAS_disabled then TDS_disabled else TDS_active)"
        and all: "\<And>r. r \<in> set (tb_tunnels (db_durable db)) \<Longrightarrow> runtime_matches i s n a r \<longleftrightarrow> r = tunnel_bindings x"
        by (elim exE conjE) blast
      have "tb_tunnels (db_durable db') =
          map (\<lambda>q. if q = tunnel_bindings x then tunnel_bindings (runtime_record a e u b x) else q) (tb_tunnels (db_durable db))"
        unfolding upd(1) update_where_def
        by (simp add: row_assignments(2) [symmetric] all cong: map_cong)
      moreover have "tb_servers (db_durable db') = tb_servers (db_durable db)" by (simp add: upd(1))
      moreover have "r = Inr True" using x(3) upd(2) r by simp
      ultimately show ?thesis using x(1,2,4-7) by (simp only: if_True simp_thms) blast
    qed
  qed
qed

text \<open>
  a transition never touches the generations, and it changes the stored tables only when it
  reports success.  Then the session's generation was the current one and exactly one tunnel was
  changed: the one with this identifier that belongs to this server, has the expected configuration
  revision, and wants to be in a state the transition fits.  Its runtime fields are set, its update
  time does not move backward, everything else is as before.
\<close>

theorem transition_changes_one_tunnel:
  assumes "db_ready db" "tables_ok parse (db_durable db)"
    and "reconciler_transition sq now s i g n a e b (t, db) = (r, t', db')"
  shows "t' = t \<and> (if r = Inr True
    then reconciler_is_current s g t \<and> (\<exists>x. storable_tunnel parse x \<and> tunnel_bindings x \<in> set (tb_tunnels (db_durable db)) \<and>
      id_text (tn_id x) = id_text i \<and> id_text (tn_server_id x) = id_text s \<and> tn_config_revision x = n \<and>
      tn_desired_state x = (if a = TAS_disabled then TDS_disabled else TDS_active) \<and>
      tb_servers (db_durable db') = tb_servers (db_durable db) \<and>
      tb_tunnels (db_durable db') =
        map (\<lambda>q. if q = tunnel_bindings x then tunnel_bindings (runtime_record a e now b x) else q) (tb_tunnels (db_durable db)))
    else db_durable db' = db_durable db)"
proof (cases "id_kind s \<noteq> IK_server \<or> id_kind i \<noteq> IK_tunnel \<or> g = 0 \<or> n = 0 \<or> \<not> found_current s g t")
  case True
  then have "t' = t \<and> db' = db \<and> r \<noteq> Inr True"
    using assms(3) by (auto simp: reconciler_transition_def split: if_splits)
  then show ?thesis by simp
next
  case False
  then have "t' = t" and u: "update_runtime_state_if_revision sq i s n a e now b db = (r, db')"
    using assms(3) by (auto simp: reconciler_transition_def split: if_splits prod.splits)
  moreover have "reconciler_is_current s g t" using False by (simp add: reconciler_is_current_def)
  ultimately show ?thesis using update_runtime_durable [OF assms(1,2) u] by (simp only: simp_thms split: if_split)
qed

theorem transition_changes_one_tunnel_witness:
  "\<exists>r db'. reconciler_transition no_faults 9 (sv_id sample_server) (tn_id sample_tunnel) 7 1 TAS_failed None True
      (sample_reconciler, sample_full_database) = (r, sample_reconciler, db') \<and>
    (r = Inr True \<longrightarrow> reconciler_is_current (sv_id sample_server) 7 sample_reconciler)"
proof -
  obtain r t' db' where run: "reconciler_transition no_faults 9 (sv_id sample_server) (tn_id sample_tunnel) 7 1 TAS_failed None True
      (sample_reconciler, sample_full_database) = (r, t', db')" by (metis prod_cases3)
  have "tables_ok sample_parse (db_durable sample_full_database)"
    using sample_full_ok(2) by (simp add: sample_full_database_def opened_database_def db_durable_def)
  from transition_changes_one_tunnel [OF sample_full_ok(1) this run] run show ?thesis by (auto split: if_splits)
qed

end
