(* ===== verification/Owned_Registries.thy ===== *)
theory Owned_Registries
  imports Hash_Maps
begin

text \<open>
  The contract that \<open>TunnelRegistry\<close> and the server's \<open>WorkerPool\<close> share: entries belong to a
  session of a client, and whole sessions, whole clients and everything can be removed.  What is
  removed is reported, because each removed entry has something to stop or to call.
\<close>

definition erase_matching ::
  "(('k \<times> 'e) list \<Rightarrow> ('k \<times> 'e) list) \<Rightarrow> ('e \<Rightarrow> bool) \<Rightarrow> ('k, 'e) umap \<Rightarrow> 'e list \<times> ('k, 'e) umap" where
  "erase_matching order matches m =
     (map snd (filter (\<lambda>(_, e). matches e) (order m)), filter (\<lambda>(_, e). \<not> matches e) m)"

lemma erase_matching_conserves:
  assumes "arranges order"
  shows "mset (map snd m) = mset (fst (erase_matching order matches m)) + mset (map snd (snd (erase_matching order matches m)))"
proof -
  have "mset (filter (\<lambda>(_, e). matches e) (order m)) = filter_mset (\<lambda>(_, e). matches e) (mset m)"
    using assms by (simp add: arranges_def)
  then show ?thesis
    by (simp add: erase_matching_def case_prod_beta' flip: image_mset_union multiset_partition)
qed

locale owned_registry =
  fixes entries :: "'s \<Rightarrow> ('k \<times> 'e) list"
    and owner :: "'e \<Rightarrow> string \<times> u64"
    and remove_session :: "string \<Rightarrow> u64 \<Rightarrow> 's \<Rightarrow> 's"
    and remove_client :: "string \<Rightarrow> 's \<Rightarrow> 's"
    and clear :: "'s \<Rightarrow> 's"
  assumes remove_session_entries:
      "entries (remove_session client generation s) =
         filter (\<lambda>(_, e). owner e \<noteq> (client, generation)) (entries s)"
    and remove_client_entries:
      "entries (remove_client client s) = filter (\<lambda>(_, e). fst (owner e) \<noteq> client) (entries s)"
    and clear_entries: "entries (clear s) = []"
begin

definition owned_by :: "string \<Rightarrow> u64 \<Rightarrow> 's \<Rightarrow> ('k \<times> 'e) list" where
  "owned_by client generation s = filter (\<lambda>(_, e). owner e = (client, generation)) (entries s)"

lemma session_removed:
  "owned_by client generation (remove_session client generation s) = []"
  by (auto simp: owned_by_def remove_session_entries filter_empty_conv)

lemma other_session_kept:
  assumes "(client', generation') \<noteq> (client, generation)"
  shows "owned_by client' generation' (remove_session client generation s) = owned_by client' generation' s"
  using assms
  by (auto simp: owned_by_def remove_session_entries filter_filter intro!: filter_cong)

lemma client_removed: "owned_by client generation (remove_client client s) = []"
  by (auto simp: owned_by_def remove_client_entries filter_empty_conv)

lemma other_client_kept:
  "client' \<noteq> client \<Longrightarrow> owned_by client' generation (remove_client client s) = owned_by client' generation s"
  by (auto simp: owned_by_def remove_client_entries filter_filter intro!: filter_cong)

lemma removals_compose:
  "entries (remove_session c g (remove_client c s)) = entries (remove_client c s)"
  by (auto simp: remove_session_entries remove_client_entries filter_filter intro!: filter_cong)

end

end
