(* ===== verification/Tunnel_Registry.thy ===== *)
theory Tunnel_Registry
  imports Owned_Registries Ids Port_Range Messages
begin

text \<open>
  \<open>include/minitun/server/tunnel_registry.hpp\<close> and the registry part of
  \<open>src/server/tunnel_registry.cpp\<close>: which public listeners the server runs.  Parsing of numeric
  addresses belongs to asio and is the parameter \<open>make_address\<close>, which returns whether a parsed
  address is a loopback address; the socket calls of one \<open>start\<close> are the parameter \<open>os\<close>, which
  returns the error of each call.  A listener is represented by its binding.  Operations return the
  listeners they start and stop as events in order.
\<close>

record TunnelBinding =
  tb_client_id :: string
  tb_session_generation :: u64
  tb_tunnel_id :: string
  tb_bind_host :: string
  tb_bind_port :: u16
  tb_config_revision :: u64
  tb_mode :: TunnelMode

definition kMaximumTotalTunnels :: nat where
  "kMaximumTotalTunnels = 100000"

definition binding_key :: "string \<Rightarrow> string \<Rightarrow> string" where
  "binding_key client_id tunnel_id = client_id @ ''/'' @ tunnel_id"

definition validate_binding ::
  "(string \<Rightarrow> bool option) \<Rightarrow> TunnelBinding \<Rightarrow> PortRange \<Rightarrow> unit Result" where
  "validate_binding make_address b allowed_ports =
     (if \<not> has_value (id_parse_kind (tb_client_id b) IK_client) \<or>
         \<not> has_value (id_parse_kind (tb_tunnel_id b) IK_tunnel) \<or>
         tb_session_generation b = 0 \<or> tb_config_revision b = 0 \<or>
         tb_bind_host b = [] \<or> tb_bind_port b = 0
      then failure EC_invalid_argument ''tunnel binding is invalid''
      else if \<not> range_contains (tb_bind_port b) allowed_ports
      then failure EC_permission_denied ''remote tunnel port is outside the allowlist''
      else (case make_address (tb_bind_host b) of
              None \<Rightarrow> failure EC_invalid_argument ''remote tunnel bind host must be numeric''
            | Some is_loopback \<Rightarrow>
                if tb_mode b = TM_socks5 \<and> \<not> is_loopback
                then failure EC_permission_denied
                       ''SOCKS5 tunnels must bind a numeric loopback address''
                else Inr ()))"

section \<open>Starting a listener\<close>

datatype SocketError = SE_address_in_use | SE_access_denied | SE_no_permission | SE_other

datatype SocketCall = SC_open | SC_reuse_address | SC_bind | SC_listen

type_synonym socket_calls = "SocketCall \<Rightarrow> SocketError option"

text \<open>The calls are made in order until one fails.\<close>

fun first_error :: "socket_calls \<Rightarrow> SocketCall list \<Rightarrow> SocketError option" where
  "first_error os [] = None"
| "first_error os (c # cs) = (case os c of None \<Rightarrow> first_error os cs | Some e \<Rightarrow> Some e)"

fun listener_error_code :: "SocketError \<Rightarrow> ErrorCode" where
  "listener_error_code SE_address_in_use = EC_remote_port_in_use"
| "listener_error_code SE_access_denied = EC_permission_denied"
| "listener_error_code SE_no_permission = EC_permission_denied"
| "listener_error_code SE_other = EC_connection_failed"

definition tcp_listener_start ::
  "(string \<Rightarrow> bool option) \<Rightarrow> socket_calls \<Rightarrow> TunnelBinding \<Rightarrow> unit Result" where
  "tcp_listener_start make_address os b =
     (case make_address (tb_bind_host b) of
        None \<Rightarrow> failure EC_invalid_argument ''remote tunnel bind host is invalid''
      | Some _ \<Rightarrow>
          (case first_error os [SC_open, SC_reuse_address, SC_bind, SC_listen] of
             Some e \<Rightarrow> failure (listener_error_code e) ''remote tunnel listener could not be created''
           | None \<Rightarrow> Inr ()))"

definition udp_listener_start ::
  "(string \<Rightarrow> bool option) \<Rightarrow> socket_calls \<Rightarrow> TunnelBinding \<Rightarrow> unit Result" where
  "udp_listener_start make_address os b =
     (case make_address (tb_bind_host b) of
        None \<Rightarrow> failure EC_invalid_argument ''remote UDP bind host is invalid''
      | Some _ \<Rightarrow>
          (case first_error os [SC_open, SC_reuse_address, SC_bind] of
             Some e \<Rightarrow> failure (listener_error_code e) ''remote UDP listener could not be created''
           | None \<Rightarrow> Inr ()))"

definition listener_start ::
  "(string \<Rightarrow> bool option) \<Rightarrow> socket_calls \<Rightarrow> TunnelBinding \<Rightarrow> unit Result" where
  "listener_start make_address os b =
     (if tb_mode b = TM_udp then udp_listener_start make_address os b
      else tcp_listener_start make_address os b)"

section \<open>The registry\<close>

datatype ListenerEvent = Started TunnelBinding | Stopped TunnelBinding

record TunnelRegistry =
  tr_allowed_ports :: PortRange
  tr_max_tunnels_per_client :: nat
  tr_max_total_tunnels :: nat
  tr_listeners :: "(string, TunnelBinding) umap"

definition new_tunnel_registry :: "PortRange \<Rightarrow> nat \<Rightarrow> nat \<Rightarrow> TunnelRegistry" where
  "new_tunnel_registry allowed_ports per_client total_tunnels =
     \<lparr>tr_allowed_ports = allowed_ports, tr_max_tunnels_per_client = per_client,
      tr_max_total_tunnels = total_tunnels, tr_listeners = []\<rparr>"

definition registry_size :: "TunnelRegistry \<Rightarrow> nat" where
  "registry_size r = length (tr_listeners r)"

definition client_size :: "string \<Rightarrow> TunnelRegistry \<Rightarrow> nat" where
  "client_size client_id r = length (filter (\<lambda>(_, b). tb_client_id b = client_id) (tr_listeners r))"

text \<open>The part of \<open>register_tunnel\<close> after a different listener of the same tunnel was stopped.\<close>

definition start_tunnel ::
  "(string \<Rightarrow> bool option) \<Rightarrow> socket_calls \<Rightarrow> TunnelBinding \<Rightarrow> nat \<Rightarrow> TunnelRegistry \<Rightarrow>
   unit Result \<times> ListenerEvent list \<times> TunnelRegistry" where
  "start_tunnel make_address os b max_for_client r =
     (let effective_client_limit =
            (if max_for_client = 0 then tr_max_tunnels_per_client r
             else min max_for_client (tr_max_tunnels_per_client r))
      in if effective_client_limit = 0 \<or> effective_client_limit \<le> client_size (tb_client_id b) r
         then (failure EC_resource_exhausted ''client tunnel limit has been reached'', [], r)
         else if tr_max_total_tunnels r \<le> length (tr_listeners r)
         then (failure EC_resource_exhausted ''global tunnel limit has been reached'', [], r)
         else (case listener_start make_address os b of
                 Inl e \<Rightarrow> (Inl e, [], r)
               | Inr _ \<Rightarrow> (Inr (), [Started b],
                   r\<lparr>tr_listeners := AList.update (binding_key (tb_client_id b) (tb_tunnel_id b)) b
                       (tr_listeners r)\<rparr>)))"

definition register_tunnel ::
  "(string \<Rightarrow> bool option) \<Rightarrow> socket_calls \<Rightarrow> TunnelBinding \<Rightarrow> nat \<Rightarrow> TunnelRegistry \<Rightarrow>
   unit Result \<times> ListenerEvent list \<times> TunnelRegistry" where
  "register_tunnel make_address os b max_for_client r =
     (case validate_binding make_address b (tr_allowed_ports r) of
        Inl e \<Rightarrow> (Inl e, [], r)
      | Inr _ \<Rightarrow>
          if tr_max_tunnels_per_client r = 0 \<or> kMaximumTotalTunnels < tr_max_tunnels_per_client r \<or>
             tr_max_total_tunnels r = 0 \<or> kMaximumTotalTunnels < tr_max_total_tunnels r
          then (failure EC_invalid_argument ''tunnel limits are invalid'', [], r)
          else (let key = binding_key (tb_client_id b) (tb_tunnel_id b)
                in case map_of (tr_listeners r) key of
                     None \<Rightarrow> start_tunnel make_address os b max_for_client r
                   | Some existing \<Rightarrow>
                       if existing = b then (Inr (), [], r)
                       else apsnd (apfst (Cons (Stopped existing)))
                              (start_tunnel make_address os b max_for_client
                                (r\<lparr>tr_listeners := AList.delete key (tr_listeners r)\<rparr>))))"

definition unregister_tunnel ::
  "string \<Rightarrow> u64 \<Rightarrow> string \<Rightarrow> u64 \<Rightarrow> TunnelRegistry \<Rightarrow> ListenerEvent list \<times> TunnelRegistry" where
  "unregister_tunnel client_id session_generation tunnel_id config_revision r =
     (let key = binding_key client_id tunnel_id
      in case map_of (tr_listeners r) key of
           None \<Rightarrow> ([], r)
         | Some b \<Rightarrow>
             if tb_session_generation b \<noteq> session_generation \<or>
                config_revision \<noteq> 0 \<and> tb_config_revision b \<noteq> config_revision
             then ([], r)
             else ([Stopped b], r\<lparr>tr_listeners := AList.delete key (tr_listeners r)\<rparr>))"

definition registry_erase_matching ::
  "((string \<times> TunnelBinding) list \<Rightarrow> (string \<times> TunnelBinding) list) \<Rightarrow> (TunnelBinding \<Rightarrow> bool) \<Rightarrow>
   TunnelRegistry \<Rightarrow> ListenerEvent list \<times> TunnelRegistry" where
  "registry_erase_matching order matches r =
     (case erase_matching order matches (tr_listeners r) of
        (gone, kept) \<Rightarrow> (map Stopped gone, r\<lparr>tr_listeners := kept\<rparr>))"

definition registry_remove_session ::
  "((string \<times> TunnelBinding) list \<Rightarrow> (string \<times> TunnelBinding) list) \<Rightarrow> string \<Rightarrow> u64 \<Rightarrow>
   TunnelRegistry \<Rightarrow> ListenerEvent list \<times> TunnelRegistry" where
  "registry_remove_session order client_id session_generation =
     registry_erase_matching order
       (\<lambda>b. tb_client_id b = client_id \<and> tb_session_generation b = session_generation)"

definition registry_remove_client ::
  "((string \<times> TunnelBinding) list \<Rightarrow> (string \<times> TunnelBinding) list) \<Rightarrow> string \<Rightarrow>
   TunnelRegistry \<Rightarrow> ListenerEvent list \<times> TunnelRegistry" where
  "registry_remove_client order client_id =
     registry_erase_matching order (\<lambda>b. tb_client_id b = client_id)"

definition registry_clear ::
  "((string \<times> TunnelBinding) list \<Rightarrow> (string \<times> TunnelBinding) list) \<Rightarrow>
   TunnelRegistry \<Rightarrow> ListenerEvent list \<times> TunnelRegistry" where
  "registry_clear order r =
     (map (\<lambda>(_, b). Stopped b) (order (tr_listeners r)), r\<lparr>tr_listeners := []\<rparr>)"

section \<open>Ownership\<close>

definition binding_owner :: "TunnelBinding \<Rightarrow> string \<times> u64" where
  "binding_owner b = (tb_client_id b, tb_session_generation b)"

interpretation tunnels: owned_registry tr_listeners binding_owner
  "\<lambda>c g r. snd (registry_remove_session order c g r)" "\<lambda>c r. snd (registry_remove_client order c r)"
  "\<lambda>r. snd (registry_clear order r)" for order
  by unfold_locales
     (auto simp: registry_remove_session_def registry_remove_client_def registry_clear_def
       registry_erase_matching_def erase_matching_def binding_owner_def intro!: filter_cong)

section \<open>Running listeners\<close>

text \<open>
  The listeners that run after a sequence of events; stopping a listener that does not run is not
  possible.
\<close>

fun running :: "ListenerEvent list \<Rightarrow> TunnelBinding multiset \<Rightarrow> TunnelBinding multiset option" where
  "running [] M = Some M"
| "running (Started b # es) M = running es (add_mset b M)"
| "running (Stopped b # es) M = (if b \<in># M then running es (M - {#b#}) else None)"

inductive registry_run ::
  "(string \<Rightarrow> bool option) \<Rightarrow> TunnelRegistry \<Rightarrow> ListenerEvent list \<Rightarrow> TunnelRegistry \<Rightarrow> bool"
  for make_address r0 where
  start: "registry_run make_address r0 [] r0"
| registered: "registry_run make_address r0 es r \<Longrightarrow>
    register_tunnel make_address os b max_for_client r = (result, es', r') \<Longrightarrow>
    registry_run make_address r0 (es @ es') r'"
| unregistered: "registry_run make_address r0 es r \<Longrightarrow> unregister_tunnel c g t v r = (es', r') \<Longrightarrow>
    registry_run make_address r0 (es @ es') r'"
| session_removed: "registry_run make_address r0 es r \<Longrightarrow> arranges order \<Longrightarrow>
    registry_remove_session order c g r = (es', r') \<Longrightarrow> registry_run make_address r0 (es @ es') r'"
| client_removed: "registry_run make_address r0 es r \<Longrightarrow> arranges order \<Longrightarrow>
    registry_remove_client order c r = (es', r') \<Longrightarrow> registry_run make_address r0 (es @ es') r'"
| cleared: "registry_run make_address r0 es r \<Longrightarrow> arranges order \<Longrightarrow>
    registry_clear order r = (es', r') \<Longrightarrow> registry_run make_address r0 (es @ es') r'"

definition listening :: "TunnelRegistry \<Rightarrow> TunnelBinding multiset" where
  "listening r = mset (map snd (tr_listeners r))"

definition same_limits :: "TunnelRegistry \<Rightarrow> TunnelRegistry \<Rightarrow> bool" where
  "same_limits r r' \<longleftrightarrow> tr_allowed_ports r' = tr_allowed_ports r \<and>
     tr_max_tunnels_per_client r' = tr_max_tunnels_per_client r \<and>
     tr_max_total_tunnels r' = tr_max_total_tunnels r"

definition registry_ok :: "(string \<Rightarrow> bool option) \<Rightarrow> TunnelRegistry \<Rightarrow> bool" where
  "registry_ok make_address r \<longleftrightarrow> keys_ok (tr_listeners r) \<and>
     length (tr_listeners r) \<le> tr_max_total_tunnels r \<and>
     (\<forall>c. client_size c r \<le> tr_max_tunnels_per_client r) \<and>
     (\<forall>(k, b) \<in> set (tr_listeners r). k = binding_key (tb_client_id b) (tb_tunnel_id b) \<and>
        has_value (validate_binding make_address b (tr_allowed_ports r)))"

lemma running_append:
  "running (es @ es') M = (case running es M of None \<Rightarrow> None | Some M' \<Rightarrow> running es' M')"
  by (induction es M rule: running.induct) auto

lemma running_Stopped: "running (map Stopped bs) (mset bs + M) = Some M"
  by (induction bs) auto

text \<open>What every operation keeps: its events take the running listeners to the listed ones.\<close>

definition keeps :: "(string \<Rightarrow> bool option) \<Rightarrow> TunnelRegistry \<Rightarrow> ListenerEvent list \<Rightarrow> TunnelRegistry \<Rightarrow> bool" where
  "keeps make_address r es r' \<longleftrightarrow>
     (registry_ok make_address r \<longrightarrow> registry_ok make_address r' \<and> same_limits r r' \<and>
        running es (listening r) = Some (listening r'))"

lemma keeps_same: "keeps make_address r [] r"
  by (simp add: keeps_def same_limits_def)

lemma keeps_trans: "keeps a r es r' \<Longrightarrow> keeps a r' es' r'' \<Longrightarrow> keeps a r (es @ es') r''"
  by (simp add: keeps_def same_limits_def running_append)

lemma filter_filter_le: "length (filter P (filter Q m)) \<le> length (filter P m)"
  by (induction m) auto

lemma registry_ok_filter:
  assumes "registry_ok make_address r" "tr_listeners r' = filter Q (tr_listeners r)" "same_limits r r'"
  shows "registry_ok make_address r'"
proof -
  have "client_size c r' \<le> tr_max_tunnels_per_client r'" for c
  proof -
    have "client_size c r' \<le> client_size c r"
      by (simp only: client_size_def assms(2) filter_filter_le)
    also have "\<dots> \<le> tr_max_tunnels_per_client r" using assms(1) by (simp add: registry_ok_def)
    finally show ?thesis using assms(3) by (simp add: same_limits_def)
  qed
  then show ?thesis
    using assms by (auto simp: registry_ok_def same_limits_def intro: order.trans [OF length_filter_le])
qed

lemma erase_keeps:
  assumes "arranges order" "registry_erase_matching order matches r = (es, r')"
  shows "keeps make_address r es r'"
proof -
  have es: "es = map Stopped (fst (erase_matching order matches (tr_listeners r)))"
    and r': "r' = r\<lparr>tr_listeners := snd (erase_matching order matches (tr_listeners r))\<rparr>"
    using assms(2) by (auto simp: registry_erase_matching_def split: prod.splits)
  have "running es (listening r) = Some (listening r')"
    using erase_matching_conserves [OF assms(1), of "tr_listeners r" matches]
    by (simp add: es r' listening_def running_Stopped)
  moreover have "registry_ok make_address r \<Longrightarrow> registry_ok make_address r'"
    by (erule registry_ok_filter [where Q = "\<lambda>(_, b). \<not> matches b"])
       (simp_all add: r' same_limits_def erase_matching_def)
  ultimately show ?thesis by (simp add: keeps_def r' same_limits_def)
qed

lemma clear_keeps:
  assumes "arranges order" "registry_clear order r = (es, r')"
  shows "keeps make_address r es r'"
proof (rule erase_keeps [OF assms(1)])
  show "registry_erase_matching order (\<lambda>_. True) r = (es, r')"
    using assms(2)
    by (auto simp: registry_clear_def registry_erase_matching_def erase_matching_def case_prod_beta')
qed

lemma delete_keeps:
  assumes "map_of (tr_listeners r) k = Some b" "r' = r\<lparr>tr_listeners := AList.delete k (tr_listeners r)\<rparr>"
  shows "keeps make_address r [Stopped b] r'"
proof -
  have "registry_ok make_address r \<Longrightarrow> registry_ok make_address r'"
    by (erule registry_ok_filter [where Q = "\<lambda>(k', _). k' \<noteq> k"])
       (simp_all add: assms(2) same_limits_def delete_as_filter)
  moreover have "registry_ok make_address r \<Longrightarrow> listening r = add_mset b (listening r')"
    using delete_conserves [OF _ assms(1)] by (simp add: assms(2) listening_def registry_ok_def)
  ultimately show ?thesis by (auto simp: keeps_def same_limits_def assms(2))
qed

lemma start_keeps:
  assumes "map_of (tr_listeners r) (binding_key (tb_client_id b) (tb_tunnel_id b)) = None"
    and "has_value (validate_binding make_address b (tr_allowed_ports r))"
    and "start_tunnel make_address os b max_for_client r = (result, es, r')"
  shows "keeps make_address r es r'"
proof (cases "r' = r")
  case True
  then have "es = []"
    using assms(1,3)
    by (auto simp: start_tunnel_def Let_def update_fresh split: if_splits sum.splits)
       (metis (no_types, lifting) TunnelRegistry.select_convs(4) TunnelRegistry.surjective
         TunnelRegistry.update_convs(4) append_self_conv list.distinct(1))+
  with True keeps_same show ?thesis by simp
next
  case False
  let ?k = "binding_key (tb_client_id b) (tb_tunnel_id b)"
  have es: "es = [Started b]" and r': "r' = r\<lparr>tr_listeners := tr_listeners r @ [(?k, b)]\<rparr>"
    and room: "client_size (tb_client_id b) r < tr_max_tunnels_per_client r"
      "length (tr_listeners r) < tr_max_total_tunnels r"
    using assms(1,3) False
    by (auto simp: start_tunnel_def Let_def update_fresh split: if_splits sum.splits)
  have "client_size c r' = client_size c r + (if c = tb_client_id b then 1 else 0)" for c
    by (simp add: r' client_size_def)
  then have "registry_ok make_address r \<Longrightarrow> registry_ok make_address r'"
    using assms(1,2) room
    by (auto simp: registry_ok_def r' keys_ok_def map_of_eq_None_iff)
  then show ?thesis by (simp add: keeps_def same_limits_def es r' listening_def)
qed

lemma register_keeps:
  assumes "register_tunnel make_address os b max_for_client r = (result, es, r')"
  shows "keeps make_address r es r'"
proof -
  let ?k = "binding_key (tb_client_id b) (tb_tunnel_id b)"
  show ?thesis
  proof (cases "map_of (tr_listeners r) ?k")
    case None
    then show ?thesis
      using assms start_keeps [OF None]
      by (auto simp: register_tunnel_def Let_def keeps_same split: if_splits sum.splits)
  next
    case (Some existing)
    let ?r = "r\<lparr>tr_listeners := AList.delete ?k (tr_listeners r)\<rparr>"
    show ?thesis
    proof (cases "es = [] \<and> r' = r")
      case True
      then show ?thesis by (simp add: keeps_same)
    next
      case False
      then obtain es' where "es = Stopped existing # es'"
        and started: "start_tunnel make_address os b max_for_client ?r = (result, es', r')"
        and "has_value (validate_binding make_address b (tr_allowed_ports r))"
        using assms Some
        by (auto simp: register_tunnel_def Let_def has_value_iff apsnd_def apfst_def map_prod_def
            split: if_splits sum.splits prod.splits)
      then show ?thesis
        using keeps_trans [OF delete_keeps [OF Some refl] start_keeps [OF _ _ started]] by simp
    qed
  qed
qed

lemma unregister_keeps:
  "unregister_tunnel c g t v r = (es, r') \<Longrightarrow> keeps make_address r es r'"
  by (auto simp: unregister_tunnel_def Let_def keeps_same intro: delete_keeps
      split: option.splits if_splits)

lemma registry_run_keeps: "registry_run make_address r0 es r \<Longrightarrow> keeps make_address r0 es r"
proof (induction rule: registry_run.induct)
  case start
  show ?case by (rule keeps_same)
next
  case registered
  then show ?case using keeps_trans register_keeps by blast
next
  case unregistered
  then show ?case using keeps_trans unregister_keeps by blast
next
  case session_removed
  then show ?case using keeps_trans erase_keeps unfolding registry_remove_session_def by blast
next
  case client_removed
  then show ?case using keeps_trans erase_keeps unfolding registry_remove_client_def by blast
next
  case cleared
  then show ?case using keeps_trans clear_keeps by blast
qed

text \<open>
  C27: Listeners do not leak.  However registrations, removals and failures interleave and in
  whatever order the table is iterated, only running listeners are stopped, and the listeners that
  run are exactly the registered ones; each stands under the key of its client and tunnel, on an
  allowed port, SOCKS5 on a loopback address only, and within the limits per client and in total.
\<close>

theorem tunnel_listeners_exact:
  assumes "registry_run make_address (new_tunnel_registry allowed per_client total_tunnels) es r"
  shows "running es {#} = Some (listening r) \<and> registry_size r \<le> total_tunnels \<and>
    client_size c r \<le> per_client \<and>
    (\<forall>k b. map_of (tr_listeners r) k = Some b \<longrightarrow>
       k = binding_key (tb_client_id b) (tb_tunnel_id b) \<and> range_contains (tb_bind_port b) allowed \<and>
       (tb_mode b = TM_socks5 \<longrightarrow> make_address (tb_bind_host b) = Some True))"
proof -
  let ?r0 = "new_tunnel_registry allowed per_client total_tunnels"
  have "registry_ok make_address ?r0" "listening ?r0 = {#}"
    by (simp_all add: registry_ok_def new_tunnel_registry_def client_size_def listening_def)
  with registry_run_keeps [OF assms] have ok: "registry_ok make_address r"
    and run: "running es {#} = Some (listening r)" and limits: "same_limits ?r0 r"
    by (simp_all add: keeps_def)
  have "k = binding_key (tb_client_id b) (tb_tunnel_id b) \<and> range_contains (tb_bind_port b) allowed \<and>
      (tb_mode b = TM_socks5 \<longrightarrow> make_address (tb_bind_host b) = Some True)"
    if "map_of (tr_listeners r) k = Some b" for k b
  proof -
    from map_of_SomeD [OF that] ok limits
    have "k = binding_key (tb_client_id b) (tb_tunnel_id b)"
      and "has_value (validate_binding make_address b allowed)"
      by (auto simp: registry_ok_def same_limits_def new_tunnel_registry_def)
    then show ?thesis
      by (auto simp: validate_binding_def split: if_splits option.splits)
  qed
  then show ?thesis
    using ok run limits
    by (auto simp: registry_ok_def same_limits_def new_tunnel_registry_def registry_size_def)
qed

definition sample_binding :: TunnelBinding where
  "sample_binding = \<lparr>tb_client_id = sample_id IK_client, tb_session_generation = 5,
     tb_tunnel_id = sample_id IK_tunnel, tb_bind_host = ''127.0.0.1'', tb_bind_port = 6000,
     tb_config_revision = 1, tb_mode = TM_socks5\<rparr>"

definition sample_address :: "string \<Rightarrow> bool option" where
  "sample_address host = (if host = ''127.0.0.1'' then Some True else None)"

definition sample_registry :: TunnelRegistry where
  "sample_registry = new_tunnel_registry \<lparr>pr_start = 6000, pr_end = 6999\<rparr> 2 4"

lemmas sample_registry_simps = sample_registry_def new_tunnel_registry_def sample_binding_def
  sample_address_def validate_binding_def range_contains_def kMaximumTotalTunnels_def

lemma sample_register:
  "register_tunnel sample_address (\<lambda>_. None) sample_binding 0 sample_registry =
     (Inr (), [Started sample_binding], sample_registry\<lparr>tr_listeners :=
        [(binding_key (sample_id IK_client) (sample_id IK_tunnel), sample_binding)]\<rparr>)"
  by (simp add: register_tunnel_def start_tunnel_def listener_start_def tcp_listener_start_def
      client_size_def TM_socks5_def TM_udp_def sample_registry_simps)

theorem tunnel_listeners_exact_witness:
  "listening (sample_registry\<lparr>tr_listeners :=
      [(binding_key (sample_id IK_client) (sample_id IK_tunnel), sample_binding)]\<rparr>) =
     {#sample_binding#} \<and> running [Started sample_binding] {#} = Some {#sample_binding#}"
proof -
  have "registry_run sample_address sample_registry ([] @ [Started sample_binding])
      (sample_registry\<lparr>tr_listeners :=
        [(binding_key (sample_id IK_client) (sample_id IK_tunnel), sample_binding)]\<rparr>)"
    by (rule registry_run.registered [OF registry_run.start sample_register])
  then show ?thesis
    using tunnel_listeners_exact [of sample_address "\<lparr>pr_start = 6000, pr_end = 6999\<rparr>" 2 4
      "[Started sample_binding]"]
    by (simp add: sample_registry_def)
qed

text \<open>The checks of a registration that come before anything is changed.\<close>

definition registration_valid :: "(string \<Rightarrow> bool option) \<Rightarrow> TunnelBinding \<Rightarrow> TunnelRegistry \<Rightarrow> bool" where
  "registration_valid make_address b r \<longleftrightarrow>
     has_value (validate_binding make_address b (tr_allowed_ports r)) \<and>
     0 < tr_max_tunnels_per_client r \<and> tr_max_tunnels_per_client r \<le> kMaximumTotalTunnels \<and>
     0 < tr_max_total_tunnels r \<and> tr_max_total_tunnels r \<le> kMaximumTotalTunnels"

definition client_limit :: "nat \<Rightarrow> TunnelRegistry \<Rightarrow> nat" where
  "client_limit max_for_client r =
     (if max_for_client = 0 then tr_max_tunnels_per_client r
      else min max_for_client (tr_max_tunnels_per_client r))"

lemma start_tunnel_cases:
  assumes "start_tunnel make_address os b max_for_client r = (result, es, r')"
  shows "has_value result \<longleftrightarrow> client_size (tb_client_id b) r < client_limit max_for_client r \<and>
      length (tr_listeners r) < tr_max_total_tunnels r \<and> has_value (listener_start make_address os b)"
    and "es = (if has_value result then [Started b] else [])"
    and "r' = (if has_value result
           then r\<lparr>tr_listeners := AList.update (binding_key (tb_client_id b) (tb_tunnel_id b)) b (tr_listeners r)\<rparr>
           else r)"
  using assms
  by (auto simp: start_tunnel_def Let_def client_limit_def has_value_iff split: if_splits sum.splits)

text \<open>
  C28: What a registration does, and what it leaves.  If the binding or the limits are invalid
  nothing happens.  If the tunnel already has a listener with this very binding the registration
  succeeds and nothing happens.  Otherwise a listener of the tunnel with another binding is stopped,
  and the registration succeeds exactly if without it the client and the registry are below their
  limits and the new listener starts; then the new listener is the tunnel's, and if not, the tunnel
  has none.  Other tunnels keep their listeners in every case.
\<close>

theorem register_tunnel_outcome:
  assumes "register_tunnel make_address os b max_for_client r = (result, es, r')"
  defines "key \<equiv> binding_key (tb_client_id b) (tb_tunnel_id b)"
  defines "rest \<equiv> r\<lparr>tr_listeners := AList.delete key (tr_listeners r)\<rparr>"
  shows "(if \<not> registration_valid make_address b r then \<not> has_value result \<and> es = [] \<and> r' = r
     else if map_of (tr_listeners r) key = Some b then has_value result \<and> es = [] \<and> r' = r
     else es = (case map_of (tr_listeners r) key of None \<Rightarrow> [] | Some old \<Rightarrow> [Stopped old]) @
               (if has_value result then [Started b] else []) \<and>
          map_of (tr_listeners r') key = (if has_value result then Some b else None) \<and>
          (has_value result \<longleftrightarrow>
             client_size (tb_client_id b) rest < client_limit max_for_client r \<and>
             length (tr_listeners rest) < tr_max_total_tunnels r \<and>
             has_value (listener_start make_address os b))) \<and>
    (\<forall>k. k \<noteq> key \<longrightarrow> map_of (tr_listeners r') k = map_of (tr_listeners r) k)"
proof (cases "registration_valid make_address b r \<and> map_of (tr_listeners r) key \<noteq> Some b")
  case True
  have rest: "client_limit max_for_client rest = client_limit max_for_client r"
    "tr_max_total_tunnels rest = tr_max_total_tunnels r" "tr_listeners rest = AList.delete key (tr_listeners r)"
    by (simp_all add: rest_def client_limit_def)
  obtain es1 where started: "start_tunnel make_address os b max_for_client rest = (result, es1, r')"
    and es: "es = (case map_of (tr_listeners r) key of None \<Rightarrow> [] | Some old \<Rightarrow> [Stopped old]) @ es1"
  proof (cases "map_of (tr_listeners r) key")
    case None
    then have "rest = r" by (simp add: rest_def delete_absent)
    with None True assms(1) show ?thesis
      by (intro that [of es]) (auto simp: register_tunnel_def registration_valid_def has_value_iff key_def Let_def)
  next
    case (Some old)
    with True assms(1) have "apsnd (apfst (Cons (Stopped old))) (start_tunnel make_address os b max_for_client rest) =
        (result, es, r')"
      by (auto simp: register_tunnel_def registration_valid_def has_value_iff key_def rest_def Let_def)
    then show ?thesis
      using Some by (cases "start_tunnel make_address os b max_for_client rest") (auto intro: that)
  qed
  show ?thesis
    using True start_tunnel_cases [OF started] es unfolding rest
    by (simp add: key_def [symmetric] rest)
next
  case False
  then show ?thesis
    using assms(1)
    by (auto simp: register_tunnel_def registration_valid_def has_value_iff key_def Let_def split: sum.splits if_splits)
qed

theorem register_tunnel_outcome_witness:
  "\<exists>es r'. register_tunnel sample_address (\<lambda>_. Some SE_address_in_use)
       (sample_binding\<lparr>tb_bind_port := 6001\<rparr>) 0
       (sample_registry\<lparr>tr_listeners :=
          [(binding_key (sample_id IK_client) (sample_id IK_tunnel), sample_binding)]\<rparr>) =
     (Inl (Error EC_remote_port_in_use ''remote tunnel listener could not be created''), es, r') \<and>
     es = [Stopped sample_binding] \<and>
     map_of (tr_listeners r') (binding_key (sample_id IK_client) (sample_id IK_tunnel)) = None"
proof -
  let ?r = "sample_registry\<lparr>tr_listeners :=
      [(binding_key (sample_id IK_client) (sample_id IK_tunnel), sample_binding)]\<rparr>"
  let ?b = "sample_binding\<lparr>tb_bind_port := 6001\<rparr>"
  obtain es r' where reg: "register_tunnel sample_address (\<lambda>_. Some SE_address_in_use) ?b 0 ?r =
      (Inl (Error EC_remote_port_in_use ''remote tunnel listener could not be created''), es, r')"
    by (simp add: register_tunnel_def start_tunnel_def listener_start_def tcp_listener_start_def
        client_size_def TM_socks5_def TM_udp_def sample_registry_simps)
  have "registration_valid sample_address ?b ?r"
    by (simp add: registration_valid_def sample_registry_simps)
  moreover have "map_of (tr_listeners ?r) (binding_key (tb_client_id ?b) (tb_tunnel_id ?b)) = Some sample_binding"
    "sample_binding \<noteq> ?b" "binding_key (tb_client_id ?b) (tb_tunnel_id ?b) = binding_key (sample_id IK_client) (sample_id IK_tunnel)"
    by (simp_all add: sample_registry_simps)
  ultimately have "es = [Stopped sample_binding]"
    "map_of (tr_listeners r') (binding_key (sample_id IK_client) (sample_id IK_tunnel)) = None"
    using register_tunnel_outcome [OF reg] by simp_all
  with reg show ?thesis by blast
qed

text \<open>
  An UNREGISTER of an earlier session, or of an earlier revision of the tunnel, does not stop the
  listener that replaced it.
\<close>

lemma unregister_fenced:
  assumes "map_of (tr_listeners r) (binding_key c t) = Some b"
    and "tb_session_generation b \<noteq> g \<or> v \<noteq> 0 \<and> tb_config_revision b \<noteq> v"
  shows "unregister_tunnel c g t v r = ([], r)"
  using assms by (auto simp: unregister_tunnel_def Let_def)

end
