(* ===== verification/Relay.thy ===== *)
theory Relay
  imports Error_Result Clock "HOL-Library.Sublist"
begin

text \<open>
  \<open>include/minitun/protocol/relay.hpp\<close> and \<open>src/protocol/relay.cpp\<close>: the relay of bytes between a TLS
  stream and a TCP socket.  The two pumps and the inactivity monitor are coroutines on one strand,
  so an execution is a sequence of completions of their pending operations; each operation of the
  model is what the coroutine does from one completion to its next suspension.  What the sockets
  deliver and accept is given by the events.
\<close>

section \<open>State\<close>

datatype IoError =
  Io_ok | Io_eof | Io_stream_truncated | Io_connection_reset | Io_broken_pipe |
  Io_operation_aborted | Io_other

definition is_end_of_stream :: "IoError \<Rightarrow> bool" where
  "is_end_of_stream e \<longleftrightarrow> e = Io_eof \<or> e = Io_stream_truncated"

definition is_normal_disconnect :: "IoError \<Rightarrow> bool" where
  "is_normal_disconnect e \<longleftrightarrow> is_end_of_stream e \<or> e = Io_connection_reset \<or> e = Io_broken_pipe \<or>
     e = Io_operation_aborted"

definition kRelayBufferSize :: nat where
  "kRelayBufferSize = 16 * 1024"

datatype RelayDirection = TlsToTcp | TcpToTls

text \<open>
  Where a pump is suspended: in a read, in the write of a chunk together with the error its read
  reported, or finished.
\<close>

datatype PumpPhase = Reading | Writing bytes IoError | Finished

text \<open>
  \<open>pump_read\<close> and \<open>pump_written\<close> are the bytes taken from the source and passed to the destination so
  far, \<open>pump_shut\<close> whether sending to the destination was shut down, and \<open>pump_bytes\<close> the statistics.
\<close>

record Pump =
  pump_phase :: PumpPhase
  pump_read :: bytes
  pump_written :: bytes
  pump_shut :: bool
  pump_bytes :: u64

record RelayOperation =
  ro_pump :: "RelayDirection \<Rightarrow> Pump"
  ro_inactivity_timeout :: int
  ro_deadline :: time_point
  ro_watching :: bool
  ro_closed :: bool
  ro_failure :: "Error option"
  ro_finished_directions :: nat
  ro_done :: bool
  ro_started :: time_point

record RelayStats =
  rs_tls_to_tcp_bytes :: u64
  rs_tcp_to_tls_bytes :: u64
  rs_duration :: int

definition kMaximumRelayTimeout :: int where
  "kMaximumRelayTimeout = 24 * 60 * 60"

definition new_pump :: Pump where
  "new_pump = \<lparr>pump_phase = Reading, pump_read = [], pump_written = [], pump_shut = False, pump_bytes = 0\<rparr>"

text \<open>The timeout is in seconds; the operation starts with both pumps reading.\<close>

definition start_relay_operation :: "int \<Rightarrow> time_point \<Rightarrow> RelayOperation" where
  "start_relay_operation timeout now =
     \<lparr>ro_pump = (\<lambda>_. new_pump), ro_inactivity_timeout = timeout, ro_deadline = now + seconds timeout,
      ro_watching = True, ro_closed = False, ro_failure = None, ro_finished_directions = 0,
      ro_done = False, ro_started = now\<rparr>"

definition relay_tls_and_tcp :: "int \<Rightarrow> time_point \<Rightarrow> RelayOperation Result" where
  "relay_tls_and_tcp timeout now =
     (if timeout \<le> 0 \<or> kMaximumRelayTimeout < timeout
      then failure EC_invalid_argument ''TCP relay timeout is invalid''
      else Inr (start_relay_operation timeout now))"

section \<open>Operations\<close>

definition set_failure :: "Error \<Rightarrow> RelayOperation \<Rightarrow> RelayOperation" where
  "set_failure e r = (if ro_failure r = None then r\<lparr>ro_failure := Some e\<rparr> else r)"

definition close_both :: "RelayOperation \<Rightarrow> RelayOperation" where
  "close_both r = r\<lparr>ro_closed := True\<rparr>"

definition note_activity :: "time_point \<Rightarrow> RelayOperation \<Rightarrow> RelayOperation" where
  "note_activity now r =
     (if \<not> ro_done r then r\<lparr>ro_deadline := now + seconds (ro_inactivity_timeout r)\<rparr> else r)"

definition finish_direction :: "Error option \<Rightarrow> RelayOperation \<Rightarrow> RelayOperation" where
  "finish_direction failed r =
     (if ro_done r then r
      else (let r1 = (case failed of None \<Rightarrow> r | Some e \<Rightarrow> close_both (set_failure e r));
                r2 = r1\<lparr>ro_finished_directions := ro_finished_directions r1 + 1\<rparr>
            in if 2 \<le> ro_finished_directions r2 then r2\<lparr>ro_done := True\<rparr> else r2))"

definition finish_direction_and_close :: "RelayOperation \<Rightarrow> RelayOperation" where
  "finish_direction_and_close r = finish_direction None (close_both r)"

definition finish_write_error :: "IoError \<Rightarrow> string \<Rightarrow> RelayOperation \<Rightarrow> RelayOperation" where
  "finish_write_error e message_text r =
     (if is_normal_disconnect e then finish_direction_and_close r
      else finish_direction (Some (Error EC_connection_failed message_text)) r)"

definition set_pump :: "RelayDirection \<Rightarrow> Pump \<Rightarrow> RelayOperation \<Rightarrow> RelayOperation" where
  "set_pump d p r = r\<lparr>ro_pump := (ro_pump r)(d := p)\<rparr>"

fun read_failed_text :: "RelayDirection \<Rightarrow> string" where
  "read_failed_text TlsToTcp = ''TLS relay read failed''"
| "read_failed_text TcpToTls = ''local TCP relay read failed''"

fun write_failed_text :: "RelayDirection \<Rightarrow> string" where
  "write_failed_text TlsToTcp = ''local TCP relay write failed''"
| "write_failed_text TcpToTls = ''TLS relay write failed''"

fun unexpected_text :: "RelayDirection \<Rightarrow> string" where
  "unexpected_text TlsToTcp = ''TLS-to-TCP relay direction failed unexpectedly''"
| "unexpected_text TcpToTls = ''TCP-to-TLS relay direction failed unexpectedly''"

text \<open>The end of a round of a pump: the error of its read ends the pump, otherwise it reads again.\<close>

definition after_chunk :: "RelayDirection \<Rightarrow> IoError \<Rightarrow> RelayOperation \<Rightarrow> RelayOperation" where
  "after_chunk d e r =
     (let p = ro_pump r d
      in if e = Io_ok then set_pump d (p\<lparr>pump_phase := Reading\<rparr>) r
         else if is_end_of_stream e
         then finish_direction None (set_pump d (p\<lparr>pump_phase := Finished, pump_shut := True\<rparr>) r)
         else if is_normal_disconnect e
         then finish_direction_and_close (set_pump d (p\<lparr>pump_phase := Finished\<rparr>) r)
         else finish_direction (Some (Error EC_connection_failed (read_failed_text d)))
                (set_pump d (p\<lparr>pump_phase := Finished\<rparr>) r))"

definition on_read :: "RelayDirection \<Rightarrow> bytes \<Rightarrow> IoError \<Rightarrow> RelayOperation \<Rightarrow> RelayOperation" where
  "on_read d bs e r =
     (let p = (ro_pump r d)\<lparr>pump_read := pump_read (ro_pump r d) @ bs\<rparr>
      in if bs \<noteq> [] then set_pump d (p\<lparr>pump_phase := Writing bs e\<rparr>) r
         else after_chunk d e (set_pump d p r))"

text \<open>\<open>written\<close> of the bytes of the chunk were written, at time \<open>now\<close>.\<close>

definition on_write :: "RelayDirection \<Rightarrow> nat \<Rightarrow> IoError \<Rightarrow> time_point \<Rightarrow> RelayOperation \<Rightarrow> RelayOperation" where
  "on_write d written e now r =
     (case pump_phase (ro_pump r d) of
        Writing bs read_error \<Rightarrow>
          (let p = (ro_pump r d)\<lparr>pump_written := pump_written (ro_pump r d) @ take written bs\<rparr>
           in if e \<noteq> Io_ok \<or> written \<noteq> length bs
              then finish_write_error e (write_failed_text d) (set_pump d (p\<lparr>pump_phase := Finished\<rparr>) r)
              else after_chunk d read_error
                     (note_activity now
                       (set_pump d (p\<lparr>pump_bytes := pump_bytes p + of_nat written\<rparr>) r)))
      | _ \<Rightarrow> r)"

definition on_pump_exception :: "RelayDirection \<Rightarrow> RelayOperation \<Rightarrow> RelayOperation" where
  "on_pump_exception d r =
     finish_direction (Some (Error EC_internal_error (unexpected_text d)))
       (set_pump d ((ro_pump r d)\<lparr>pump_phase := Finished\<rparr>) r)"

text \<open>The wait on the inactivity timer ends; rearming the timer aborts it.\<close>

definition on_timer :: "IoError \<Rightarrow> RelayOperation \<Rightarrow> RelayOperation" where
  "on_timer e r =
     (if ro_done r then r\<lparr>ro_watching := False\<rparr>
      else if e = Io_operation_aborted then r
      else close_both (set_failure
             (if e = Io_ok then Error EC_connection_timeout ''TCP relay inactivity timeout expired''
              else Error EC_internal_error ''TCP relay inactivity timer failed'')
             (r\<lparr>ro_watching := False\<rparr>)))"

text \<open>The handler of an exception that ended the inactivity monitor.\<close>

definition on_monitor_exception :: "RelayOperation \<Rightarrow> RelayOperation" where
  "on_monitor_exception r =
     close_both (set_failure (Error EC_internal_error ''relay inactivity monitor failed unexpectedly'')
       (r\<lparr>ro_watching := False\<rparr>))"

text \<open>What \<open>run\<close> returns once the operation is done.\<close>

definition relay_result :: "time_point \<Rightarrow> RelayOperation \<Rightarrow> RelayStats Result" where
  "relay_result now r =
     (case ro_failure r of
        Some e \<Rightarrow> Inl e
      | None \<Rightarrow> Inr \<lparr>rs_tls_to_tcp_bytes = pump_bytes (ro_pump r TlsToTcp),
                  rs_tcp_to_tls_bytes = pump_bytes (ro_pump r TcpToTls),
                  rs_duration = (now - ro_started r) div milliseconds 1\<rparr>)"

section \<open>Executions\<close>

datatype RelayEvent =
  ReadDone RelayDirection bytes IoError
| WriteDone RelayDirection nat IoError time_point
| PumpException RelayDirection
| TimerDone IoError
| MonitorException

text \<open>An event can occur when its operation is pending; a write reports at most the chunk's size.\<close>

fun relay_enabled :: "RelayEvent \<Rightarrow> RelayOperation \<Rightarrow> bool" where
  "relay_enabled (ReadDone d bs e) r \<longleftrightarrow>
     pump_phase (ro_pump r d) = Reading \<and> length bs \<le> kRelayBufferSize"
| "relay_enabled (WriteDone d n e now) r \<longleftrightarrow>
     (case pump_phase (ro_pump r d) of Writing bs _ \<Rightarrow> n \<le> length bs | _ \<Rightarrow> False)"
| "relay_enabled (PumpException d) r \<longleftrightarrow> pump_phase (ro_pump r d) \<noteq> Finished"
| "relay_enabled (TimerDone e) r \<longleftrightarrow> ro_watching r"
| "relay_enabled MonitorException r \<longleftrightarrow> ro_watching r"

fun relay_step :: "RelayEvent \<Rightarrow> RelayOperation \<Rightarrow> RelayOperation" where
  "relay_step (ReadDone d bs e) r = on_read d bs e r"
| "relay_step (WriteDone d n e now) r = on_write d n e now r"
| "relay_step (PumpException d) r = on_pump_exception d r"
| "relay_step (TimerDone e) r = on_timer e r"
| "relay_step MonitorException r = on_monitor_exception r"

inductive relay_run :: "RelayOperation \<Rightarrow> RelayEvent list \<Rightarrow> RelayOperation \<Rightarrow> bool" where
  nil: "relay_run r [] r"
| cons: "relay_enabled ev r \<Longrightarrow> relay_run (relay_step ev r) evs r' \<Longrightarrow> relay_run r (ev # evs) r'"

inductive_simps relay_run_Nil [simp]: "relay_run r [] r'"
inductive_simps relay_run_Cons [simp]: "relay_run r (ev # evs) r'"

section \<open>Invariant\<close>

text \<open>
  A pump passes on what it read: everything but the chunk being written, and everything when it
  ended by the end of its source.
\<close>

definition pump_ok :: "Pump \<Rightarrow> bool" where
  "pump_ok p \<longleftrightarrow>
     (case pump_phase p of
        Reading \<Rightarrow> pump_written p = pump_read p
      | Writing bs _ \<Rightarrow> pump_read p = pump_written p @ bs \<and> bs \<noteq> []
      | Finished \<Rightarrow> prefix (pump_written p) (pump_read p)) \<and>
     (if pump_shut p then pump_phase p = Finished \<and> pump_written p = pump_read p else True) \<and>
     (if pump_phase p \<noteq> Finished \<or> pump_shut p then pump_bytes p = of_nat (length (pump_written p)) else True)"

definition finished_count :: "(RelayDirection \<Rightarrow> Pump) \<Rightarrow> nat" where
  "finished_count ps = (if pump_phase (ps TlsToTcp) = Finished then 1 else 0) +
     (if pump_phase (ps TcpToTls) = Finished then 1 else 0)"

definition relay_ok :: "RelayOperation \<Rightarrow> bool" where
  "relay_ok r \<longleftrightarrow> (\<forall>d. pump_ok (ro_pump r d)) \<and>
     ro_finished_directions r = finished_count (ro_pump r) \<and>
     (ro_done r \<longleftrightarrow> ro_finished_directions r = 2) \<and>
     (\<forall>d. pump_phase (ro_pump r d) = Finished \<longrightarrow> pump_shut (ro_pump r d) \<or> ro_closed r) \<and>
     (ro_failure r \<noteq> None \<longrightarrow> ro_closed r)"

lemma all_Direction: "(\<forall>d. P d) \<longleftrightarrow> P TlsToTcp \<and> P TcpToTls"
  by (metis RelayDirection.exhaust)

lemma finished_count_less:
  "pump_phase (ps d) \<noteq> Finished \<Longrightarrow> finished_count ps \<noteq> 2"
  by (cases d) (auto simp: finished_count_def)

lemma finished_count_upd:
  "pump_phase (ps d) \<noteq> Finished \<Longrightarrow> pump_phase p = Finished \<Longrightarrow>
     finished_count (ps(d := p)) = finished_count ps + 1"
  "pump_phase (ps d) \<noteq> Finished \<Longrightarrow> pump_phase p \<noteq> Finished \<Longrightarrow>
     finished_count (ps(d := p)) = finished_count ps"
  by (cases d; simp add: finished_count_def)+

lemma finished_count_le: "finished_count ps \<le> 2"
  by (simp add: finished_count_def)

lemmas relay_update_defs = set_pump_def set_failure_def close_both_def note_activity_def
  finish_direction_def finish_direction_and_close_def finish_write_error_def

lemma set_pump_set_pump [simp]: "set_pump d p (set_pump d p' r) = set_pump d p r"
  by (simp add: set_pump_def)

lemma ro_pump_set_pump [simp]: "ro_pump (set_pump d p r) = (ro_pump r)(d := p)"
  by (simp add: set_pump_def)

text \<open>A pump that goes on, and the three ways to end one.\<close>

lemma set_pump_ok:
  assumes "relay_ok r" "pump_phase (ro_pump r d) \<noteq> Finished" "pump_ok p" "pump_phase p \<noteq> Finished"
  shows "relay_ok (set_pump d p r)"
  using assms finished_count_upd(2) [where ps = "ro_pump r" and d = d and p = p]
  by (simp add: relay_ok_def set_pump_def)

lemma relay_pump_ok: "relay_ok r \<Longrightarrow> pump_ok (ro_pump r d)"
  by (simp add: relay_ok_def)

lemma relay_open:
  assumes "relay_ok r" "pump_phase (ro_pump r d) \<noteq> Finished"
  shows "\<not> ro_done r" "finished_count (ro_pump r) \<le> 1"
  using assms finished_count_less [where ps = "ro_pump r" and d = d] finished_count_le [of "ro_pump r"]
  by (auto simp: relay_ok_def)

lemma finish_ok:
  assumes "relay_ok r" "pump_phase (ro_pump r d) \<noteq> Finished" "pump_ok p" "pump_phase p = Finished"
  shows "pump_shut p \<Longrightarrow> relay_ok (finish_direction None (set_pump d p r))"
    and "relay_ok (finish_direction_and_close (set_pump d p r))"
    and "relay_ok (finish_direction (Some e) (set_pump d p r))"
proof -
  let ?ps = "(ro_pump r)(d := p)"
  have count: "finished_count ?ps = ro_finished_directions r + 1" "ro_finished_directions r \<le> 1"
    and pumps: "\<forall>d'. pump_ok (?ps d')" and not_done: "\<not> ro_done r"
    and shut: "\<forall>d'. pump_phase (?ps d') = Finished \<longrightarrow> pump_shut (?ps d') \<or> ro_closed r \<or> d' = d"
    and failed: "ro_failure r \<noteq> None \<longrightarrow> ro_closed r"
    using assms relay_open [OF assms(1,2)] finished_count_upd(1) [where ps = "ro_pump r" and d = d and p = p]
    by (simp_all add: relay_ok_def)
  note facts = relay_ok_def relay_update_defs Let_def not_done count pumps
  show "relay_ok (finish_direction None (set_pump d p r))" if "pump_shut p"
    using count pumps shut failed that by (simp add: facts del: fun_upd_apply) (auto split: if_splits)
  show "relay_ok (finish_direction_and_close (set_pump d p r))"
    using count pumps by (simp add: facts del: fun_upd_apply)
  show "relay_ok (finish_direction (Some e) (set_pump d p r))"
    using count pumps by (simp add: facts del: fun_upd_apply)
qed

lemma after_chunk_ok:
  assumes "relay_ok (set_pump d (p\<lparr>pump_phase := Reading\<rparr>) r)" "ro_pump r d = p"
  shows "relay_ok (after_chunk d e r)"
proof -
  let ?r = "set_pump d (p\<lparr>pump_phase := Reading\<rparr>) r"
  have "pump_ok (p\<lparr>pump_phase := Reading\<rparr>)"
    using relay_pump_ok [OF assms(1), of d] by simp
  then have ends: "pump_ok (p\<lparr>pump_phase := Finished, pump_shut := True\<rparr>)"
    "pump_ok (p\<lparr>pump_phase := Finished\<rparr>)"
    by (auto simp: pump_ok_def split: if_splits)
  have reading: "pump_phase (ro_pump ?r d) \<noteq> Finished" by simp
  note finish_ok [OF assms(1) reading ends(1)] finish_ok [OF assms(1) reading ends(2)]
  then show ?thesis
    using assms by (simp add: after_chunk_def Let_def)
qed

lemma on_read_ok:
  assumes "relay_ok r" "pump_phase (ro_pump r d) = Reading"
  shows "relay_ok (on_read d bs e r)"
proof -
  let ?p = "(ro_pump r d)\<lparr>pump_read := pump_read (ro_pump r d) @ bs\<rparr>"
  note ok = relay_pump_ok [OF assms(1), of d]
  show ?thesis
  proof (cases "bs = []")
    case True
    have "relay_ok (set_pump d (?p\<lparr>pump_phase := Reading\<rparr>) (set_pump d ?p r))"
      using assms ok True by (auto intro!: set_pump_ok simp: pump_ok_def split: if_splits)
    from after_chunk_ok [OF this] True show ?thesis by (simp add: on_read_def)
  next
    case False
    have "pump_ok (?p\<lparr>pump_phase := Writing bs e\<rparr>)" using ok assms(2) False by (auto simp: pump_ok_def split: if_splits)
    then show ?thesis
      using assms False by (simp add: on_read_def set_pump_ok)
  qed
qed

lemma note_activity_ok [simp]: "relay_ok (note_activity now r) \<longleftrightarrow> relay_ok r"
  by (simp add: relay_ok_def note_activity_def)

lemma note_activity_set_pump:
  "set_pump d p (note_activity now r) = note_activity now (set_pump d p r)"
  "ro_pump (note_activity now r) = ro_pump r"
  by (simp_all add: note_activity_def set_pump_def)

lemma pump_write_ok:
  assumes "pump_ok p" "pump_phase p = Writing bs read_error"
  shows "pump_ok (p\<lparr>pump_written := pump_written p @ take n bs, pump_phase := Finished\<rparr>)"
    and "pump_ok (p\<lparr>pump_written := pump_written p @ bs,
           pump_bytes := pump_bytes p + of_nat (length bs), pump_phase := Reading\<rparr>)"
proof -
  have p: "pump_read p = pump_written p @ bs" "\<not> pump_shut p" "pump_bytes p = of_nat (length (pump_written p))"
    using assms by (auto simp: pump_ok_def split: if_splits)
  then show "pump_ok (p\<lparr>pump_written := pump_written p @ take n bs, pump_phase := Finished\<rparr>)"
    by (simp add: pump_ok_def take_is_prefix)
  show "pump_ok (p\<lparr>pump_written := pump_written p @ bs,
           pump_bytes := pump_bytes p + of_nat (length bs), pump_phase := Reading\<rparr>)"
    using p by (simp add: pump_ok_def)
qed

lemma on_write_ok:
  assumes "relay_ok r" "pump_phase (ro_pump r d) = Writing bs read_error"
  shows "relay_ok (on_write d n e now r)"
proof -
  define p where "p = ro_pump r d"
  note ok = pump_write_ok [OF relay_pump_ok [OF assms(1), of d] assms(2), folded p_def]
  have writing: "pump_phase (ro_pump r d) \<noteq> Finished" using assms(2) by simp
  show ?thesis
  proof (cases "e \<noteq> Io_ok \<or> n \<noteq> length bs")
    case True
    from finish_ok(2,3) [OF assms(1) writing ok(1)] True assms(2) show ?thesis
      by (simp add: on_write_def finish_write_error_def p_def Let_def)
  next
    case False
    let ?q = "p\<lparr>pump_written := pump_written p @ bs, pump_bytes := pump_bytes p + of_nat (length bs)\<rparr>"
    have "relay_ok (set_pump d (?q\<lparr>pump_phase := Reading\<rparr>) r)"
      by (rule set_pump_ok [OF assms(1) writing]) (use ok(2) in simp_all)
    then have "relay_ok (set_pump d (?q\<lparr>pump_phase := Reading\<rparr>) (note_activity now (set_pump d ?q r)))"
      by (simp add: note_activity_set_pump)
    then have "relay_ok (after_chunk d read_error (note_activity now (set_pump d ?q r)))"
      by (rule after_chunk_ok) (simp add: note_activity_set_pump)
    then show ?thesis using False assms(2) by (simp add: on_write_def p_def Let_def)
  qed
qed

lemma relay_step_ok:
  assumes "relay_ok r" "relay_enabled ev r"
  shows "relay_ok (relay_step ev r)"
proof (cases ev)
  case (ReadDone d bs e)
  then show ?thesis using assms on_read_ok by simp
next
  case (WriteDone d n e now)
  then show ?thesis using assms on_write_ok by (simp split: PumpPhase.splits)
next
  case (PumpException d)
  have "pump_ok ((ro_pump r d)\<lparr>pump_phase := Finished\<rparr>)"
    using relay_pump_ok [OF assms(1), of d] PumpException assms(2)
    by (auto simp: pump_ok_def split: if_splits PumpPhase.splits)
  then show ?thesis
    using assms finish_ok(3) PumpException by (simp add: on_pump_exception_def)
next
  case (TimerDone e)
  then show ?thesis
    using assms by (auto simp: on_timer_def relay_ok_def close_both_def set_failure_def)
next
  case MonitorException
  then show ?thesis
    using assms by (auto simp: on_monitor_exception_def relay_ok_def close_both_def set_failure_def)
qed

lemma relay_run_ok: "relay_run r evs r' \<Longrightarrow> relay_ok r \<Longrightarrow> relay_ok r'"
  by (induction rule: relay_run.induct) (simp_all add: relay_step_ok)

lemma start_ok: "relay_ok (start_relay_operation timeout now)"
  by (simp add: relay_ok_def start_relay_operation_def new_pump_def finished_count_def pump_ok_def)

section \<open>What the events say\<close>

text \<open>The bytes the source of a direction delivered.\<close>

fun received :: "RelayDirection \<Rightarrow> RelayEvent list \<Rightarrow> bytes" where
  "received d [] = []"
| "received d (ReadDone d' bs e # evs) = (if d' = d then bs else []) @ received d evs"
| "received d (_ # evs) = received d evs"

text \<open>
  An execution in which nothing goes wrong: reads deliver bytes or the end of the stream, writes
  succeed in full, no exception is thrown and the inactivity timer does not expire.
\<close>

fun orderly :: "RelayEvent \<Rightarrow> RelayOperation \<Rightarrow> bool" where
  "orderly (ReadDone d bs e) r \<longleftrightarrow> e = Io_ok \<or> is_end_of_stream e"
| "orderly (WriteDone d n e now) r \<longleftrightarrow>
     e = Io_ok \<and> (case pump_phase (ro_pump r d) of Writing bs _ \<Rightarrow> n = length bs | _ \<Rightarrow> False)"
| "orderly (PumpException d) r \<longleftrightarrow> False"
| "orderly (TimerDone e) r \<longleftrightarrow> e = Io_operation_aborted \<or> ro_done r"
| "orderly MonitorException r \<longleftrightarrow> False"

fun orderly_run :: "RelayOperation \<Rightarrow> RelayEvent list \<Rightarrow> bool" where
  "orderly_run r [] \<longleftrightarrow> True"
| "orderly_run r (ev # evs) \<longleftrightarrow> orderly ev r \<and> orderly_run (relay_step ev r) evs"

text \<open>The source of a direction ended.\<close>

fun source_ended :: "RelayDirection \<Rightarrow> RelayEvent list \<Rightarrow> bool" where
  "source_ended d evs \<longleftrightarrow> (\<exists>bs e. ReadDone d bs e \<in> set evs \<and> is_end_of_stream e)"

lemma finish_direction_pump [simp]:
  "ro_pump (finish_direction failed r) = ro_pump r" "ro_pump (close_both r) = ro_pump r"
  "ro_pump (note_activity now r) = ro_pump r" "ro_pump (finish_direction_and_close r) = ro_pump r"
  "ro_pump (finish_write_error e t r) = ro_pump r" "ro_pump (set_failure f r) = ro_pump r"
  by (auto simp: relay_update_defs Let_def split: option.splits)

lemma after_chunk_pump:
  "pump_read (ro_pump (after_chunk d e r) d') = pump_read (ro_pump r d')"
  "pump_phase (ro_pump (after_chunk d e r) d') =
     (if d' = d then if e = Io_ok then Reading else Finished else pump_phase (ro_pump r d'))"
  by (auto simp: after_chunk_def Let_def)

lemma relay_step_read:
  assumes "relay_enabled ev r"
  shows "pump_read (ro_pump (relay_step ev r) d) = pump_read (ro_pump r d) @ received d [ev]"
proof (cases ev)
  case (WriteDone d' n e now)
  with assms show ?thesis
    by (auto simp: on_write_def Let_def after_chunk_pump split: PumpPhase.splits)
qed (use assms in \<open>auto simp: on_read_def Let_def after_chunk_pump on_pump_exception_def on_timer_def
    on_monitor_exception_def\<close>)

lemma received_Cons: "received d (ev # evs) = received d [ev] @ received d evs"
  by (cases ev) auto

lemma relay_run_read:
  "relay_run r evs r' \<Longrightarrow> pump_read (ro_pump r' d) = pump_read (ro_pump r d) @ received d evs"
proof (induction rule: relay_run.induct)
  case (cons ev r evs r')
  then show ?case using relay_step_read [OF cons(1), of d] received_Cons [of d ev evs] by simp
qed simp

text \<open>
  In an orderly execution the sockets stay open, and a direction ends only by the end of its own
  source, then with sending to its destination shut down.
\<close>

definition pump_orderly :: "bool \<Rightarrow> Pump \<Rightarrow> bool" where
  "pump_orderly ended p \<longleftrightarrow>
     (case pump_phase p of
        Reading \<Rightarrow> \<not> ended
      | Writing bs e \<Rightarrow> if ended then is_end_of_stream e else e = Io_ok
      | Finished \<Rightarrow> ended \<and> pump_shut p)"

definition orderly_state :: "(RelayDirection \<Rightarrow> bool) \<Rightarrow> RelayOperation \<Rightarrow> bool" where
  "orderly_state ended r \<longleftrightarrow> \<not> ro_closed r \<and> (\<forall>d. pump_orderly (ended d) (ro_pump r d))"

lemma end_of_stream_neq [simp]: "is_end_of_stream e \<Longrightarrow> e \<noteq> Io_ok" "\<not> is_end_of_stream Io_ok"
  by (auto simp: is_end_of_stream_def)

lemma finish_direction_closed [simp]: "ro_closed (finish_direction None r) = ro_closed r"
  by (simp add: finish_direction_def Let_def)

lemma set_pump_closed [simp]:
  "ro_closed (set_pump d p r) = ro_closed r" "ro_closed (note_activity now r) = ro_closed r"
  by (simp_all add: set_pump_def note_activity_def)

lemma after_chunk_orderly:
  assumes "\<not> ro_closed r" "e = Io_ok \<or> is_end_of_stream e"
    and "\<And>d'. d' \<noteq> d \<Longrightarrow> pump_orderly (ended d') (ro_pump r d')" "ended d \<longleftrightarrow> is_end_of_stream e"
  shows "orderly_state ended (after_chunk d e r)"
proof -
  have "\<not> ro_closed (after_chunk d e r)"
    using assms(1,2) by (auto simp: after_chunk_def Let_def)
  moreover have "pump_orderly (ended d') (ro_pump (after_chunk d e r) d')" for d'
  proof (cases "d' = d")
    case True
    then show ?thesis using assms(2,4) by (auto simp: after_chunk_def Let_def pump_orderly_def)
  next
    case False
    then have "ro_pump (after_chunk d e r) d' = ro_pump r d'" by (simp add: after_chunk_def Let_def)
    then show ?thesis using assms(3) [OF False] by simp
  qed
  ultimately show ?thesis by (simp add: orderly_state_def)
qed

lemma relay_step_orderly:
  assumes "relay_enabled ev r" "orderly ev r" "orderly_state ended r"
  shows "orderly_state (\<lambda>d. ended d \<or> source_ended d [ev]) (relay_step ev r)"
proof (cases ev)
  case (ReadDone d bs e)
  have others: "pump_orderly (ended d') (ro_pump r d')" and "\<not> ro_closed r" for d'
    using assms(3) by (simp_all add: orderly_state_def)
  moreover have here: "pump_phase (ro_pump r d) = Reading" "\<not> ended d"
    using assms(1) others [of d] ReadDone by (simp_all add: pump_orderly_def)
  ultimately show ?thesis
  proof (cases "bs = []")
    case True
    let ?r = "set_pump d ((ro_pump r d)\<lparr>pump_read := pump_read (ro_pump r d) @ bs\<rparr>) r"
    have "orderly_state (\<lambda>d. ended d \<or> source_ended d [ev]) (after_chunk d e ?r)"
      by (rule after_chunk_orderly) (use here others \<open>\<not> ro_closed r\<close> assms(2) ReadDone in simp_all)
    then show ?thesis using ReadDone True by (simp add: on_read_def)
  next
    case False
    have "pump_orderly (ended d \<or> source_ended d [ev])
        ((ro_pump r d)\<lparr>pump_read := pump_read (ro_pump r d) @ bs, pump_phase := Writing bs e\<rparr>)"
      using here assms(2) ReadDone by (auto simp: pump_orderly_def)
    then show ?thesis
      using False others \<open>\<not> ro_closed r\<close> ReadDone by (auto simp: orderly_state_def on_read_def Let_def)
  qed
next
  case (WriteDone d n e now)
  obtain bs re where here: "pump_phase (ro_pump r d) = Writing bs re" "n = length bs" "e = Io_ok"
    using assms(2) WriteDone by (auto split: PumpPhase.splits)
  have others: "pump_orderly (ended d') (ro_pump r d')" and opened: "\<not> ro_closed r" for d'
    using assms(3) by (simp_all add: orderly_state_def)
  have re: "ended d \<longleftrightarrow> is_end_of_stream re" "re = Io_ok \<or> is_end_of_stream re"
    using others [of d] here by (auto simp: pump_orderly_def split: if_splits)
  let ?p = "(ro_pump r d)\<lparr>pump_written := pump_written (ro_pump r d) @ bs,
      pump_bytes := pump_bytes (ro_pump r d) + of_nat (length bs)\<rparr>"
  have "orderly_state ended (after_chunk d re (note_activity now (set_pump d ?p r)))"
    by (rule after_chunk_orderly) (use re others opened in simp_all)
  then show ?thesis using WriteDone here by (simp add: on_write_def Let_def)
next
  case (TimerDone e)
  then show ?thesis using assms(2,3) by (auto simp: orderly_state_def on_timer_def)
qed (use assms(2) in simp_all)

lemma source_ended_Cons: "source_ended d (ev # evs) \<longleftrightarrow> source_ended d [ev] \<or> source_ended d evs"
  by auto

lemma relay_run_orderly:
  "relay_run r evs r' \<Longrightarrow> orderly_run r evs \<Longrightarrow> relay_ok r \<Longrightarrow> orderly_state ended r \<Longrightarrow>
   orderly_state (\<lambda>d. ended d \<or> source_ended d evs) r'"
proof (induction arbitrary: ended rule: relay_run.induct)
  case (cons ev r evs r')
  have "orderly_state (\<lambda>d. (ended d \<or> source_ended d [ev]) \<or> source_ended d evs) r'"
    by (rule cons.IH) (use cons.prems cons.hyps relay_step_ok relay_step_orderly in simp_all)
  moreover have "(\<lambda>d. (ended d \<or> source_ended d [ev]) \<or> source_ended d evs) = (\<lambda>d. ended d \<or> source_ended d (ev # evs))"
    by (simp only: source_ended_Cons [of _ ev evs] disj_assoc)
  ultimately show ?case by simp
qed simp

lemma start_orderly: "orderly_state (\<lambda>_. False) (start_relay_operation timeout now)"
  by (simp add: orderly_state_def pump_orderly_def start_relay_operation_def new_pump_def)

text \<open>
  C32: The relay passes bytes on in order, and half-closes.  In every execution, what a direction
  passed on is a prefix of what its source delivered, and all of it once sending to the destination
  was shut down; the relay is done exactly when both directions ended.  In an execution in which
  nothing goes wrong the sockets are never closed by the relay and no failure is recorded; a direction
  ends only after the end of its own source, and then everything was passed on and sending was shut
  down, so the other direction goes on; and when both ended, the result is a success whose counts are
  the numbers of bytes the two sources delivered.
\<close>

theorem relay_delivers:
  assumes "relay_run (start_relay_operation timeout t0) evs r"
  shows "prefix (pump_written (ro_pump r d)) (received d evs) \<and>
    (pump_shut (ro_pump r d) \<longrightarrow> pump_written (ro_pump r d) = received d evs) \<and>
    (ro_done r \<longleftrightarrow> (\<forall>d'. pump_phase (ro_pump r d') = Finished)) \<and>
    (orderly_run (start_relay_operation timeout t0) evs \<longrightarrow>
       \<not> ro_closed r \<and> ro_failure r = None \<and>
       (pump_phase (ro_pump r d) = Finished \<longrightarrow> source_ended d evs \<and> pump_shut (ro_pump r d)) \<and>
       (ro_done r \<longrightarrow>
          relay_result now r = Inr \<lparr>rs_tls_to_tcp_bytes = of_nat (length (received TlsToTcp evs)),
            rs_tcp_to_tls_bytes = of_nat (length (received TcpToTls evs)),
            rs_duration = (now - ro_started r) div milliseconds 1\<rparr>))"
proof -
  have ok: "relay_ok r" using relay_run_ok [OF assms start_ok] .
  have read: "pump_read (ro_pump r d) = received d evs" for d
    using relay_run_read [OF assms, of d] by (simp add: start_relay_operation_def new_pump_def)
  have p: "prefix (pump_written (ro_pump r d)) (received d evs)"
    "pump_shut (ro_pump r d) \<Longrightarrow> pump_written (ro_pump r d) = received d evs \<and>
       pump_bytes (ro_pump r d) = of_nat (length (received d evs))" for d
    using relay_pump_ok [OF ok, of d] by (auto simp: pump_ok_def read split: PumpPhase.splits if_splits)
  have done_iff: "ro_done r \<longleftrightarrow> (\<forall>d'. pump_phase (ro_pump r d') = Finished)"
    using ok by (auto simp: relay_ok_def finished_count_def all_Direction)
  have "\<not> ro_closed r \<and> ro_failure r = None \<and>
      (\<forall>d. pump_phase (ro_pump r d) = Finished \<longrightarrow> source_ended d evs \<and> pump_shut (ro_pump r d))"
    if "orderly_run (start_relay_operation timeout t0) evs"
    using relay_run_orderly [OF assms that start_ok start_orderly] ok
    by (auto simp: orderly_state_def pump_orderly_def relay_ok_def simp del: source_ended.simps split: PumpPhase.splits)
  then show ?thesis
    using p done_iff by (simp add: relay_result_def del: source_ended.simps)
qed

section \<open>The end of a closed relay\<close>

text \<open>Work left before a pump ends; \<open>old\<close> says that its pending write was started before the close.\<close>

fun phase_work :: "bool \<Rightarrow> PumpPhase \<Rightarrow> nat" where
  "phase_work old Reading = 2"
| "phase_work old (Writing _ e) = (if old \<and> e = Io_ok then 3 else 1)"
| "phase_work old Finished = 0"

definition relay_work :: "(RelayDirection \<Rightarrow> bool) \<Rightarrow> RelayOperation \<Rightarrow> nat" where
  "relay_work old r =
     phase_work (old TlsToTcp) (pump_phase (ro_pump r TlsToTcp)) +
     phase_work (old TcpToTls) (pump_phase (ro_pump r TcpToTls))"

fun pump_event :: "RelayEvent \<Rightarrow> bool" where
  "pump_event (TimerDone _) \<longleftrightarrow> False"
| "pump_event MonitorException \<longleftrightarrow> False"
| "pump_event _ \<longleftrightarrow> True"

text \<open>
  What a closed socket does: a write that is started on it fails, while a write that was started
  before, and any read, may still complete with success; and a read that succeeds delivers a byte.
  \<open>old d\<close> says that the pending write of direction \<open>d\<close> was started before the close.
\<close>

fun sockets_closed :: "(RelayDirection \<Rightarrow> bool) \<Rightarrow> RelayEvent list \<Rightarrow> bool" where
  "sockets_closed old [] \<longleftrightarrow> True"
| "sockets_closed old (ReadDone d bs e # evs) \<longleftrightarrow> (e = Io_ok \<longrightarrow> bs \<noteq> []) \<and> sockets_closed old evs"
| "sockets_closed old (WriteDone d n e now # evs) \<longleftrightarrow>
     (e = Io_ok \<longrightarrow> old d) \<and> sockets_closed (old(d := False)) evs"
| "sockets_closed old (_ # evs) \<longleftrightarrow> sockets_closed old evs"

definition pump_writing :: "RelayOperation \<Rightarrow> RelayDirection \<Rightarrow> bool" where
  "pump_writing r d \<longleftrightarrow> (case pump_phase (ro_pump r d) of Writing _ _ \<Rightarrow> True | _ \<Rightarrow> False)"

lemma relay_work_le: "relay_work old r \<le> 6"
proof -
  have "phase_work b ph \<le> 3" for b ph by (cases ph) auto
  from this [of "old TlsToTcp" "pump_phase (ro_pump r TlsToTcp)"] this [of "old TcpToTls" "pump_phase (ro_pump r TcpToTls)"]
  show ?thesis by (simp add: relay_work_def)
qed

lemma relay_work_step:
  assumes "\<And>d'. d' \<noteq> d \<Longrightarrow> pump_phase (ro_pump r' d') = pump_phase (ro_pump r d') \<and> old' d' = old d'"
    and "phase_work (old' d) (pump_phase (ro_pump r' d)) < phase_work (old d) (pump_phase (ro_pump r d))"
  shows "relay_work old' r' < relay_work old r"
  by (cases d) (use assms(1) [of TlsToTcp] assms(1) [of TcpToTls] assms(2) in \<open>simp_all add: relay_work_def\<close>)

text \<open>A pump that reads has no old write pending.\<close>

definition old_writes :: "(RelayDirection \<Rightarrow> bool) \<Rightarrow> RelayOperation \<Rightarrow> bool" where
  "old_writes old r \<longleftrightarrow> (\<forall>d. old d \<longrightarrow> pump_phase (ro_pump r d) \<noteq> Reading)"

lemma relay_run_work:
  "relay_run r evs r' \<Longrightarrow> sockets_closed old evs \<Longrightarrow> old_writes old r \<Longrightarrow>
     length (filter pump_event evs) \<le> relay_work old r"
proof (induction arbitrary: old rule: relay_run.induct)
  case (cons ev r evs r')
  show ?case
  proof (cases ev)
    case (ReadDone d bs e)
    have here: "pump_phase (ro_pump r d) = Reading" using cons.hyps ReadDone by simp
    have "\<not> old d" using cons.prems(2) here by (auto simp: old_writes_def)
    then have less: "relay_work old (relay_step ev r) < relay_work old r" and "old_writes old (relay_step ev r)"
      using here ReadDone cons.prems
      by (auto intro!: relay_work_step [of d] simp: on_read_def Let_def after_chunk_pump old_writes_def)
    then show ?thesis using cons.IH [of old] cons.prems(1) ReadDone by simp
  next
    case (WriteDone d n e now)
    obtain bs re where here: "pump_phase (ro_pump r d) = Writing bs re"
      using cons.hyps WriteDone by (auto split: PumpPhase.splits)
    have less: "relay_work (old(d := False)) (relay_step ev r) < relay_work old r"
      and "old_writes (old(d := False)) (relay_step ev r)"
      using here WriteDone cons.prems
      by (auto intro!: relay_work_step [of d] simp: on_write_def Let_def after_chunk_pump old_writes_def)
    then show ?thesis
      using cons.IH [of "old(d := False)"] cons.prems(1) WriteDone by (simp del: fun_upd_apply)
  next
    case (PumpException d)
    have phase: "pump_phase (ro_pump r d) \<noteq> Finished" using cons.hyps PumpException by simp
    then have "0 < phase_work (old d) (pump_phase (ro_pump r d))"
      by (cases "pump_phase (ro_pump r d)") auto
    then have less: "relay_work old (relay_step ev r) < relay_work old r" and "old_writes old (relay_step ev r)"
      using PumpException cons.prems
      by (auto intro!: relay_work_step [of d] simp: on_pump_exception_def old_writes_def)
    then show ?thesis using cons.IH [of old] cons.prems(1) PumpException by simp
  next
    case (TimerDone e)
    have "ro_pump (relay_step ev r) = ro_pump r" using TimerDone by (simp add: on_timer_def)
    then show ?thesis
      using cons.IH [of old] cons.prems TimerDone by (simp add: relay_work_def old_writes_def)
  next
    case MonitorException
    have "ro_pump (relay_step ev r) = ro_pump r" using MonitorException by (simp add: on_monitor_exception_def)
    then show ?thesis
      using cons.IH [of old] cons.prems MonitorException by (simp add: relay_work_def old_writes_def)
  qed
qed simp

text \<open>
  C33: A relay that closed its sockets ends.  Suppose that every write started after the close fails,
  that a successful read delivers at least one byte, and nothing else: a write that was under way, and
  any read, may still succeed.  Then at most six more operations of the pumps complete, and until the
  relay is done some operation of a pump is pending.
\<close>

theorem relay_ends_after_close:
  assumes "relay_run (start_relay_operation timeout t0) before r" "ro_closed r"
    and "relay_run r after r'" "sockets_closed (pump_writing r) after"
  shows "length (filter pump_event after) \<le> 6 \<and>
    (ro_done r' \<or> (\<exists>d. relay_enabled (ReadDone d [] Io_operation_aborted) r' \<or>
       relay_enabled (WriteDone d 0 Io_operation_aborted now) r'))"
proof -
  have ok: "relay_ok r'" using relay_run_ok assms(1,3) start_ok by blast
  have "\<exists>d. relay_enabled (ReadDone d [] Io_operation_aborted) r' \<or>
      relay_enabled (WriteDone d 0 Io_operation_aborted now) r'" if not_done: "\<not> ro_done r'"
  proof -
    have "finished_count (ro_pump r') \<noteq> 2" using ok not_done by (simp add: relay_ok_def)
    then obtain d where d: "pump_phase (ro_pump r' d) \<noteq> Finished"
      by (auto simp: finished_count_def split: if_splits)
    then show ?thesis by (intro exI [of _ d]) (cases "pump_phase (ro_pump r' d)"; simp)
  qed
  moreover have "old_writes (pump_writing r) r"
    by (auto simp: old_writes_def pump_writing_def)
  ultimately show ?thesis
    using relay_run_work [OF assms(3,4)] relay_work_le [of "pump_writing r" r] by fastforce
qed

definition sample_relay_events :: "RelayEvent list" where
  "sample_relay_events =
     [ReadDone TlsToTcp [1, 2] Io_eof, ReadDone TcpToTls [] Io_eof, WriteDone TlsToTcp 2 Io_ok 5]"

lemma sample_relay_run:
  "relay_run (start_relay_operation 300 0) sample_relay_events
     (fold relay_step sample_relay_events (start_relay_operation 300 0))"
  by (simp add: sample_relay_events_def start_relay_operation_def new_pump_def on_read_def
      after_chunk_def Let_def is_end_of_stream_def relay_update_defs kRelayBufferSize_def)

theorem relay_delivers_witness:
  "relay_result 7000000 (fold relay_step sample_relay_events (start_relay_operation 300 0)) =
     Inr \<lparr>rs_tls_to_tcp_bytes = 2, rs_tcp_to_tls_bytes = 0, rs_duration = 7\<rparr>"
proof -
  let ?r = "fold relay_step sample_relay_events (start_relay_operation 300 0)"
  have "ro_done ?r" "orderly_run (start_relay_operation 300 0) sample_relay_events"
    "received TlsToTcp sample_relay_events = [1, 2]" "received TcpToTls sample_relay_events = []" "ro_started ?r = 0"
    by (simp_all add: sample_relay_events_def start_relay_operation_def new_pump_def on_read_def
        on_write_def after_chunk_def Let_def is_end_of_stream_def relay_update_defs)
  with relay_delivers [OF sample_relay_run, of TlsToTcp 7000000] show ?thesis
    by (simp add: milliseconds_def)
qed

theorem relay_ends_after_close_witness:
  "length (filter pump_event [ReadDone TcpToTls [7] Io_ok, WriteDone TcpToTls 0 Io_other 9]) \<le> 6 \<and>
   ro_done (fold relay_step [TimerDone Io_ok, ReadDone TlsToTcp [] Io_operation_aborted,
     ReadDone TcpToTls [7] Io_ok, WriteDone TcpToTls 0 Io_other 9] (start_relay_operation 300 0))"
proof -
  let ?before = "[TimerDone Io_ok, ReadDone TlsToTcp [] Io_operation_aborted]"
  let ?after = "[ReadDone TcpToTls [7] Io_ok, WriteDone TcpToTls 0 Io_other 9]"
  let ?r = "fold relay_step ?before (start_relay_operation 300 0)"
  note evaluate = start_relay_operation_def new_pump_def on_read_def on_write_def on_timer_def after_chunk_def
    Let_def is_end_of_stream_def is_normal_disconnect_def relay_update_defs kRelayBufferSize_def
  have "relay_run (start_relay_operation 300 0) ?before ?r" "ro_closed ?r"
    "relay_run ?r ?after (fold relay_step ?after ?r)" "sockets_closed (pump_writing ?r) ?after"
    by (simp_all add: evaluate)
  from relay_ends_after_close [OF this, of 0] show ?thesis by (simp add: evaluate)
qed

end
