(* ===== verification/Datagrams.thy ===== *)
theory Datagrams
  imports Relay Wire_Words
begin

text \<open>
  \<open>include/minitun/protocol/datagram.hpp\<close> and \<open>src/protocol/datagram.cpp\<close>: UDP payloads as records on a
  byte stream, and the relay between such a stream and a UDP socket.  As in \<open>Relay\<close>, the coroutines
  share one strand and the model goes from one completion to the next.  Running out of memory while
  a record is built is not modelled.
\<close>

section \<open>Records\<close>

definition kMaximumUdpPayloadSize :: nat where
  "kMaximumUdpPayloadSize = 65507"

definition kDatagramRecordHeaderSize :: nat where
  "kDatagramRecordHeaderSize = 2"

definition encode_datagram_record :: "bytes \<Rightarrow> bytes Result" where
  "encode_datagram_record payload =
     (if kMaximumUdpPayloadSize < length payload
      then failure EC_invalid_argument ''UDP payload exceeds the protocol limit''
      else Inr (write_u16 (of_nat (length payload)) @ payload))"

section \<open>The relay operation\<close>

datatype StreamPhase = ReadHeader | ReadPayload nat | SendDatagram bytes | StreamEnded

datatype UdpPhase = ReceiveDatagram | WriteRecord bytes | UdpEnded

text \<open>
  \<open>dr_consumed\<close> are the bytes read from the stream and \<open>dr_sent\<close> the datagrams sent to the UDP socket;
  \<open>dr_received\<close> are the datagrams received there and \<open>dr_produced\<close> the bytes written to the stream.
\<close>

record DatagramRelay =
  dr_stream_phase :: StreamPhase
  dr_udp_phase :: UdpPhase
  dr_consumed :: bytes
  dr_sent :: "bytes list"
  dr_received :: "bytes list"
  dr_produced :: bytes
  dr_tls_to_udp_bytes :: u64
  dr_udp_to_tls_bytes :: u64
  dr_tls_to_udp_datagrams :: u64
  dr_udp_to_tls_datagrams :: u64
  dr_inactivity_timeout :: int
  dr_deadline :: time_point
  dr_watching :: bool
  dr_failure :: "Error option"
  dr_done :: bool

definition start_datagram_relay :: "int \<Rightarrow> time_point \<Rightarrow> DatagramRelay" where
  "start_datagram_relay timeout now =
     \<lparr>dr_stream_phase = ReadHeader, dr_udp_phase = ReceiveDatagram, dr_consumed = [], dr_sent = [],
      dr_received = [], dr_produced = [], dr_tls_to_udp_bytes = 0, dr_udp_to_tls_bytes = 0,
      dr_tls_to_udp_datagrams = 0, dr_udp_to_tls_datagrams = 0, dr_inactivity_timeout = timeout,
      dr_deadline = now + seconds timeout, dr_watching = True, dr_failure = None, dr_done = False\<rparr>"

definition relay_tls_and_udp :: "bool \<Rightarrow> int \<Rightarrow> time_point \<Rightarrow> DatagramRelay Result" where
  "relay_tls_and_udp udp_open timeout now =
     (if timeout \<le> 0 \<or> kMaximumRelayTimeout < timeout \<or> \<not> udp_open
      then failure EC_invalid_argument ''UDP relay options or socket are invalid''
      else Inr (start_datagram_relay timeout now))"

definition relay_tcp_and_udp :: "bool \<Rightarrow> bool \<Rightarrow> int \<Rightarrow> time_point \<Rightarrow> DatagramRelay Result" where
  "relay_tcp_and_udp tcp_open udp_open timeout now =
     (if timeout \<le> 0 \<or> kMaximumRelayTimeout < timeout \<or> \<not> udp_open \<or> \<not> tcp_open
      then failure EC_invalid_argument ''UDP relay options or socket are invalid''
      else Inr (start_datagram_relay timeout now))"

definition is_graceful_eof :: "IoError \<Rightarrow> bool" where
  "is_graceful_eof e \<longleftrightarrow> e = Io_eof \<or> e = Io_stream_truncated \<or> e = Io_connection_reset \<or>
     e = Io_broken_pipe \<or> e = Io_operation_aborted"

definition datagram_finish :: "DatagramRelay \<Rightarrow> DatagramRelay" where
  "datagram_finish r = (if dr_done r then r else r\<lparr>dr_done := True\<rparr>)"

definition datagram_fail :: "ErrorCode \<Rightarrow> string \<Rightarrow> DatagramRelay \<Rightarrow> DatagramRelay" where
  "datagram_fail c message_text r =
     datagram_finish (if dr_failure r = None then r\<lparr>dr_failure := Some (Error c message_text)\<rparr> else r)"

definition finish_transport :: "IoError \<Rightarrow> string \<Rightarrow> DatagramRelay \<Rightarrow> DatagramRelay" where
  "finish_transport e message_text r =
     (if e = Io_ok \<or> is_graceful_eof e then datagram_finish r
      else datagram_fail EC_connection_failed message_text r)"

definition datagram_note_activity :: "time_point \<Rightarrow> DatagramRelay \<Rightarrow> DatagramRelay" where
  "datagram_note_activity now r =
     (if \<not> dr_done r then r\<lparr>dr_deadline := now + seconds (dr_inactivity_timeout r)\<rparr> else r)"

text \<open>
  The stream-to-UDP pump.  \<open>async_read\<close> completes with the requested number of bytes, or with fewer
  and an error.
\<close>

definition on_header :: "bytes \<Rightarrow> IoError \<Rightarrow> DatagramRelay \<Rightarrow> DatagramRelay" where
  "on_header header e r =
     (let r1 = r\<lparr>dr_consumed := dr_consumed r @ header\<rparr>
      in if e \<noteq> Io_ok \<or> length header \<noteq> kDatagramRecordHeaderSize
         then finish_transport e ''UDP relay record header read failed'' (r1\<lparr>dr_stream_phase := StreamEnded\<rparr>)
         else (let len = unat (read_u16 header)
               in if kMaximumUdpPayloadSize < len
                  then finish_transport Io_other ''UDP relay record length exceeds the protocol limit''
                         (r1\<lparr>dr_stream_phase := StreamEnded\<rparr>)
                  else r1\<lparr>dr_stream_phase := (if len \<noteq> 0 then ReadPayload len else SendDatagram [])\<rparr>))"

definition on_payload :: "bytes \<Rightarrow> IoError \<Rightarrow> DatagramRelay \<Rightarrow> DatagramRelay" where
  "on_payload payload e r =
     (case dr_stream_phase r of
        ReadPayload len \<Rightarrow>
          (let r1 = r\<lparr>dr_consumed := dr_consumed r @ payload\<rparr>
           in if e \<noteq> Io_ok \<or> length payload \<noteq> len
              then finish_transport e ''UDP relay record payload read failed''
                     (r1\<lparr>dr_stream_phase := StreamEnded\<rparr>)
              else r1\<lparr>dr_stream_phase := SendDatagram payload\<rparr>)
      | _ \<Rightarrow> r)"

text \<open>A datagram is sent as a whole when \<open>async_send\<close> reports its length.\<close>

definition on_sent :: "nat \<Rightarrow> IoError \<Rightarrow> time_point \<Rightarrow> DatagramRelay \<Rightarrow> DatagramRelay" where
  "on_sent sent e now r =
     (case dr_stream_phase r of
        SendDatagram payload \<Rightarrow>
          if e \<noteq> Io_ok \<or> sent \<noteq> length payload
          then finish_transport e ''local UDP send failed'' (r\<lparr>dr_stream_phase := StreamEnded\<rparr>)
          else datagram_note_activity now
                 (r\<lparr>dr_sent := dr_sent r @ [payload],
                    dr_tls_to_udp_bytes := dr_tls_to_udp_bytes r + of_nat sent,
                    dr_tls_to_udp_datagrams := dr_tls_to_udp_datagrams r + 1,
                    dr_stream_phase := ReadHeader\<rparr>)
      | _ \<Rightarrow> r)"

text \<open>The UDP-to-stream pump.\<close>

definition on_received :: "bytes \<Rightarrow> IoError \<Rightarrow> DatagramRelay \<Rightarrow> DatagramRelay" where
  "on_received payload e r =
     (if e \<noteq> Io_ok
      then finish_transport e ''local UDP receive failed'' (r\<lparr>dr_udp_phase := UdpEnded\<rparr>)
      else r\<lparr>dr_received := dr_received r @ [payload], dr_udp_phase := WriteRecord payload\<rparr>)"

definition on_record_written :: "nat \<Rightarrow> IoError \<Rightarrow> time_point \<Rightarrow> DatagramRelay \<Rightarrow> DatagramRelay" where
  "on_record_written written e now r =
     (case dr_udp_phase r of
        WriteRecord payload \<Rightarrow>
          (let record = write_u16 (of_nat (length payload)) @ payload;
               r1 = r\<lparr>dr_produced := dr_produced r @ take written record\<rparr>
           in if e \<noteq> Io_ok \<or> written \<noteq> length payload + kDatagramRecordHeaderSize
              then finish_transport e ''UDP relay record write failed'' (r1\<lparr>dr_udp_phase := UdpEnded\<rparr>)
              else datagram_note_activity now
                     (r1\<lparr>dr_udp_to_tls_bytes := dr_udp_to_tls_bytes r + of_nat (length payload),
                         dr_udp_to_tls_datagrams := dr_udp_to_tls_datagrams r + 1,
                         dr_udp_phase := ReceiveDatagram\<rparr>))
      | _ \<Rightarrow> r)"

definition on_datagram_timer :: "IoError \<Rightarrow> DatagramRelay \<Rightarrow> DatagramRelay" where
  "on_datagram_timer e r =
     (if dr_done r then r\<lparr>dr_watching := False\<rparr>
      else if e = Io_operation_aborted then r
      else datagram_fail (if e \<noteq> Io_ok then EC_internal_error else EC_connection_timeout)
             (if e \<noteq> Io_ok then ''UDP relay inactivity timer failed''
              else ''UDP relay inactivity timeout expired'') (r\<lparr>dr_watching := False\<rparr>))"

definition on_stream_exception :: "DatagramRelay \<Rightarrow> DatagramRelay" where
  "on_stream_exception r =
     datagram_fail EC_internal_error ''stream-to-UDP relay failed unexpectedly''
       (r\<lparr>dr_stream_phase := StreamEnded\<rparr>)"

definition on_udp_exception :: "DatagramRelay \<Rightarrow> DatagramRelay" where
  "on_udp_exception r =
     datagram_fail EC_internal_error ''UDP-to-stream relay failed unexpectedly''
       (r\<lparr>dr_udp_phase := UdpEnded\<rparr>)"

section \<open>Executions\<close>

text \<open>
  An execution from a fresh relay; the operating system does not deliver datagrams longer than the
  receive buffer, and a write reports at most the record's size.
\<close>

inductive datagram_run :: "DatagramRelay \<Rightarrow> bool" where
  start: "datagram_run (start_datagram_relay timeout now)"
| header: "datagram_run r \<Longrightarrow> dr_stream_phase r = ReadHeader \<Longrightarrow> datagram_run (on_header header e r)"
| payload: "datagram_run r \<Longrightarrow> dr_stream_phase r = ReadPayload len \<Longrightarrow> datagram_run (on_payload payload e r)"
| sent: "datagram_run r \<Longrightarrow> dr_stream_phase r = SendDatagram payload \<Longrightarrow> datagram_run (on_sent n e now r)"
| received: "datagram_run r \<Longrightarrow> dr_udp_phase r = ReceiveDatagram \<Longrightarrow>
    length payload \<le> kMaximumUdpPayloadSize \<Longrightarrow> datagram_run (on_received payload e r)"
| written: "datagram_run r \<Longrightarrow> dr_udp_phase r = WriteRecord payload \<Longrightarrow>
    datagram_run (on_record_written n e now r)"
| timer: "datagram_run r \<Longrightarrow> dr_watching r \<Longrightarrow> datagram_run (on_datagram_timer e r)"
| stream_exception: "datagram_run r \<Longrightarrow> dr_stream_phase r \<noteq> StreamEnded \<Longrightarrow> datagram_run (on_stream_exception r)"
| udp_exception: "datagram_run r \<Longrightarrow> dr_udp_phase r \<noteq> UdpEnded \<Longrightarrow> datagram_run (on_udp_exception r)"

section \<open>Streams of records\<close>

definition datagram_record :: "bytes \<Rightarrow> bytes" where
  "datagram_record payload = write_u16 (of_nat (length payload)) @ payload"

definition datagram_stream :: "bytes list \<Rightarrow> bytes" where
  "datagram_stream ds = concat (map datagram_record ds)"

definition udp_sized :: "bytes list \<Rightarrow> bool" where
  "udp_sized ds \<longleftrightarrow> (\<forall>d \<in> set ds. length d \<le> kMaximumUdpPayloadSize)"

lemma encode_datagram_record_Inr_iff:
  "encode_datagram_record d = Inr bs \<longleftrightarrow> length d \<le> kMaximumUdpPayloadSize \<and> bs = datagram_record d"
  by (auto simp: encode_datagram_record_def datagram_record_def)

lemma unat_record_length: "length d \<le> kMaximumUdpPayloadSize \<Longrightarrow> unat (of_nat (length d) :: u16) = length d"
  by (simp add: kMaximumUdpPayloadSize_def unsigned_of_nat take_bit_nat_eq_self)

lemma datagram_stream_simps [simp]:
  "datagram_stream [] = []" "datagram_stream (d # ds) = datagram_record d @ datagram_stream ds"
  "datagram_stream (ds @ es) = datagram_stream ds @ datagram_stream es"
  by (simp_all add: datagram_stream_def)

lemma udp_sized_simps [simp]:
  "udp_sized []" "udp_sized (d # ds) \<longleftrightarrow> length d \<le> kMaximumUdpPayloadSize \<and> udp_sized ds"
  "udp_sized (ds @ es) \<longleftrightarrow> udp_sized ds \<and> udp_sized es"
  by (auto simp: udp_sized_def)

lemma datagram_record_prefix_free:
  assumes "length d \<le> kMaximumUdpPayloadSize" "length e \<le> kMaximumUdpPayloadSize"
    and "datagram_record d @ xs = datagram_record e @ ys"
  shows "d = e \<and> xs = ys"
proof -
  have header: "write_u16 (of_nat (length d)) = write_u16 (of_nat (length e))"
    and rest: "d @ xs = e @ ys"
    using assms(3) by (simp_all add: datagram_record_def)
  from arg_cong [OF header, of read_u16] have "(of_nat (length d) :: u16) = of_nat (length e)" by simp
  then have "length d = length e"
    using unat_record_length [OF assms(1)] unat_record_length [OF assms(2)] by metis
  with rest show ?thesis by simp
qed

text \<open>A stream of records determines the datagrams.\<close>

lemma datagram_record_not_Nil: "datagram_record d \<noteq> []"
  using length_be(1) [of "of_nat (length d)"] by (auto simp: datagram_record_def)

lemma datagram_stream_prefix:
  assumes "udp_sized ds" "udp_sized es" "datagram_stream es = datagram_stream ds @ zs"
  shows "prefix ds es"
  using assms
proof (induction ds arbitrary: es)
  case (Cons d ds)
  show ?case
  proof (cases es)
    case Nil
    then show ?thesis using Cons.prems(3) datagram_record_not_Nil by simp
  next
    case es: (Cons e es')
    have "datagram_record e @ datagram_stream es' = datagram_record d @ (datagram_stream ds @ zs)"
      using Cons.prems(3) by (simp add: es)
    then have "e = d \<and> datagram_stream es' = datagram_stream ds @ zs"
      using Cons.prems(1,2) es by (intro datagram_record_prefix_free) simp_all
    then show ?thesis
      using Cons.IH [of es'] Cons.prems(1,2) es by simp
  qed
qed simp

section \<open>Invariant\<close>

text \<open>What the stream pump consumed beyond the datagrams it sent.\<close>

fun stream_partial :: "StreamPhase \<Rightarrow> bytes \<Rightarrow> bool" where
  "stream_partial ReadHeader bs \<longleftrightarrow> bs = []"
| "stream_partial (ReadPayload len) bs \<longleftrightarrow> bs = write_u16 (of_nat len) \<and> 0 < len \<and> len \<le> kMaximumUdpPayloadSize"
| "stream_partial (SendDatagram d) bs \<longleftrightarrow> bs = datagram_record d \<and> length d \<le> kMaximumUdpPayloadSize"
| "stream_partial StreamEnded bs \<longleftrightarrow> True"

fun udp_partial :: "UdpPhase \<Rightarrow> bytes list \<Rightarrow> bytes \<Rightarrow> bool" where
  "udp_partial ReceiveDatagram ds bs \<longleftrightarrow> bs = datagram_stream ds"
| "udp_partial (WriteRecord d) ds bs \<longleftrightarrow> (\<exists>es. ds = es @ [d] \<and> bs = datagram_stream es)"
| "udp_partial UdpEnded ds bs \<longleftrightarrow> prefix bs (datagram_stream ds)"

definition stream_ok :: "DatagramRelay \<Rightarrow> bool" where
  "stream_ok r \<longleftrightarrow>
     (\<exists>bs. dr_consumed r = datagram_stream (dr_sent r) @ bs \<and> stream_partial (dr_stream_phase r) bs) \<and>
     udp_sized (dr_sent r) \<and>
     dr_tls_to_udp_datagrams r = of_nat (length (dr_sent r)) \<and>
     dr_tls_to_udp_bytes r = of_nat (length (concat (dr_sent r)))"

definition udp_ok :: "DatagramRelay \<Rightarrow> bool" where
  "udp_ok r \<longleftrightarrow> udp_sized (dr_received r) \<and>
     udp_partial (dr_udp_phase r) (dr_received r) (dr_produced r)"

definition failure_ends :: "DatagramRelay \<Rightarrow> bool" where
  "failure_ends r \<longleftrightarrow> (dr_failure r \<noteq> None \<longrightarrow> dr_done r)"

text \<open>Finishing, failing and rearming the timer do not touch what was transferred.\<close>

lemma datagram_control [simp]:
  "dr_stream_phase (finish_transport e m r) = dr_stream_phase r"
  "dr_udp_phase (finish_transport e m r) = dr_udp_phase r"
  "dr_consumed (finish_transport e m r) = dr_consumed r"
  "dr_sent (finish_transport e m r) = dr_sent r"
  "dr_received (finish_transport e m r) = dr_received r"
  "dr_produced (finish_transport e m r) = dr_produced r"
  "dr_tls_to_udp_bytes (finish_transport e m r) = dr_tls_to_udp_bytes r"
  "dr_tls_to_udp_datagrams (finish_transport e m r) = dr_tls_to_udp_datagrams r"
  "dr_udp_to_tls_bytes (finish_transport e m r) = dr_udp_to_tls_bytes r"
  "dr_udp_to_tls_datagrams (finish_transport e m r) = dr_udp_to_tls_datagrams r"
  "dr_stream_phase (datagram_fail c m r) = dr_stream_phase r"
  "dr_udp_phase (datagram_fail c m r) = dr_udp_phase r"
  "dr_consumed (datagram_fail c m r) = dr_consumed r"
  "dr_sent (datagram_fail c m r) = dr_sent r"
  "dr_received (datagram_fail c m r) = dr_received r"
  "dr_produced (datagram_fail c m r) = dr_produced r"
  "dr_tls_to_udp_bytes (datagram_fail c m r) = dr_tls_to_udp_bytes r"
  "dr_tls_to_udp_datagrams (datagram_fail c m r) = dr_tls_to_udp_datagrams r"
  "dr_udp_to_tls_bytes (datagram_fail c m r) = dr_udp_to_tls_bytes r"
  "dr_udp_to_tls_datagrams (datagram_fail c m r) = dr_udp_to_tls_datagrams r"
  "dr_stream_phase (datagram_note_activity now r) = dr_stream_phase r"
  "dr_udp_phase (datagram_note_activity now r) = dr_udp_phase r"
  "dr_consumed (datagram_note_activity now r) = dr_consumed r"
  "dr_sent (datagram_note_activity now r) = dr_sent r"
  "dr_received (datagram_note_activity now r) = dr_received r"
  "dr_produced (datagram_note_activity now r) = dr_produced r"
  "dr_tls_to_udp_bytes (datagram_note_activity now r) = dr_tls_to_udp_bytes r"
  "dr_tls_to_udp_datagrams (datagram_note_activity now r) = dr_tls_to_udp_datagrams r"
  "dr_udp_to_tls_bytes (datagram_note_activity now r) = dr_udp_to_tls_bytes r"
  "dr_udp_to_tls_datagrams (datagram_note_activity now r) = dr_udp_to_tls_datagrams r"
  by (simp_all add: finish_transport_def datagram_fail_def datagram_finish_def datagram_note_activity_def)

lemma datagram_control_ok [simp]:
  "stream_ok (finish_transport e m r) = stream_ok r" "udp_ok (finish_transport e m r) = udp_ok r"
  "stream_ok (datagram_fail c m r) = stream_ok r" "udp_ok (datagram_fail c m r) = udp_ok r"
  "stream_ok (datagram_note_activity now r) = stream_ok r" "udp_ok (datagram_note_activity now r) = udp_ok r"
  by (simp_all add: stream_ok_def udp_ok_def)

lemma failure_ends_control [simp]:
  "failure_ends r \<Longrightarrow> failure_ends (finish_transport e m r)" "failure_ends (datagram_fail c m r)"
  "failure_ends (datagram_note_activity now r) = failure_ends r"
  by (simp_all add: failure_ends_def finish_transport_def datagram_fail_def datagram_finish_def
      datagram_note_activity_def)

lemma on_header_ok:
  assumes "stream_ok r" "dr_stream_phase r = ReadHeader"
  shows "stream_ok (on_header header e r)"
proof -
  have consumed: "dr_consumed r = datagram_stream (dr_sent r)" using assms by (auto simp: stream_ok_def)
  have going: "stream_partial (if len \<noteq> 0 then ReadPayload len else SendDatagram []) header"
    if "length header = 2" "len = unat (read_u16 header)" "len \<le> kMaximumUdpPayloadSize" for len
  proof -
    have "write_u16 (read_u16 header) = header" using that(1) write_u16_read_u16 [of header] by simp
    then have "write_u16 (of_nat len) = header" using that(2) by simp
    then show ?thesis using that(3) by (auto simp: datagram_record_def)
  qed
  show ?thesis
    using assms(1) going [OF _ refl] consumed
    by (auto simp: on_header_def Let_def kDatagramRecordHeaderSize_def stream_ok_def)
qed

lemma on_payload_ok:
  assumes "stream_ok r" "dr_stream_phase r = ReadPayload len"
  shows "stream_ok (on_payload payload e r)"
  using assms by (auto simp: on_payload_def Let_def stream_ok_def datagram_record_def)

lemma on_sent_ok:
  assumes "stream_ok r" "dr_stream_phase r = SendDatagram payload"
  shows "stream_ok (on_sent n e now r)"
  using assms by (auto simp: on_sent_def stream_ok_def)

lemma on_record_written_ok:
  assumes "udp_ok r" "dr_udp_phase r = WriteRecord payload"
  shows "udp_ok (on_record_written n e now r)"
proof -
  obtain es where es: "dr_received r = es @ [payload]" "dr_produced r = datagram_stream es"
    using assms by (auto simp: udp_ok_def)
  have "prefix (dr_produced r @ take n (datagram_record payload)) (datagram_stream (dr_received r))"
    by (simp add: es take_is_prefix)
  then show ?thesis
    using assms es
    by (auto simp: on_record_written_def Let_def udp_ok_def datagram_record_def kDatagramRecordHeaderSize_def)
qed

text \<open>Each operation changes one side of the relay only.\<close>

lemma datagram_sides [simp]:
  "udp_ok (on_header header e r) = udp_ok r" "udp_ok (on_payload payload e r) = udp_ok r"
  "udp_ok (on_sent n e now r) = udp_ok r" "udp_ok (on_stream_exception r) = udp_ok r"
  "stream_ok (on_received payload e r) = stream_ok r" "stream_ok (on_record_written n e now r) = stream_ok r"
  "stream_ok (on_udp_exception r) = stream_ok r"
  "udp_ok (on_datagram_timer e r) = udp_ok r" "stream_ok (on_datagram_timer e r) = stream_ok r"
  by (simp_all add: on_header_def on_payload_def on_sent_def on_stream_exception_def on_received_def
      on_record_written_def on_udp_exception_def on_datagram_timer_def Let_def split: StreamPhase.split UdpPhase.split)
     (simp_all add: udp_ok_def stream_ok_def)

lemma failure_ends_ops:
  assumes "failure_ends r"
  shows "failure_ends (on_header header e r)" "failure_ends (on_payload payload e r)"
    "failure_ends (on_sent n e now r)" "failure_ends (on_received payload e r)"
    "failure_ends (on_record_written n e now r)" "failure_ends (on_datagram_timer e r)"
    "failure_ends (on_stream_exception r)" "failure_ends (on_udp_exception r)"
proof -
  have upd: "failure_ends (r\<lparr>dr_stream_phase := a\<rparr>)" "failure_ends (r\<lparr>dr_udp_phase := b\<rparr>)"
    "failure_ends (r\<lparr>dr_consumed := c, dr_stream_phase := a\<rparr>)"
    "failure_ends (r\<lparr>dr_received := f, dr_udp_phase := b\<rparr>)"
    "failure_ends (r\<lparr>dr_produced := c, dr_udp_phase := b\<rparr>)"
    "failure_ends (r\<lparr>dr_sent := f, dr_tls_to_udp_bytes := g, dr_tls_to_udp_datagrams := h, dr_stream_phase := a\<rparr>)"
    "failure_ends (r\<lparr>dr_produced := c, dr_udp_to_tls_bytes := g, dr_udp_to_tls_datagrams := h, dr_udp_phase := b\<rparr>)"
    "failure_ends (r\<lparr>dr_watching := w\<rparr>)"
    for a b c f g h w
    using assms by (simp_all add: failure_ends_def)
  show "failure_ends (on_header header e r)" "failure_ends (on_payload payload e r)"
    "failure_ends (on_sent n e now r)" "failure_ends (on_received payload e r)"
    "failure_ends (on_record_written n e now r)" "failure_ends (on_datagram_timer e r)"
    "failure_ends (on_stream_exception r)" "failure_ends (on_udp_exception r)"
    using assms
    by (simp_all add: on_header_def on_payload_def on_sent_def on_stream_exception_def on_received_def
        on_record_written_def on_udp_exception_def on_datagram_timer_def Let_def upd
        split: StreamPhase.split UdpPhase.split)
qed

lemma on_received_ok:
  assumes "udp_ok r" "dr_udp_phase r = ReceiveDatagram" "length payload \<le> kMaximumUdpPayloadSize"
  shows "udp_ok (on_received payload e r)"
  using assms by (auto simp: on_received_def udp_ok_def)

lemma exceptions_ok:
  "stream_ok r \<Longrightarrow> stream_ok (on_stream_exception r)"
  "udp_ok r \<Longrightarrow> dr_udp_phase r \<noteq> UdpEnded \<Longrightarrow> udp_ok (on_udp_exception r)"
  by (auto simp: on_stream_exception_def on_udp_exception_def stream_ok_def udp_ok_def)
     (cases "dr_udp_phase r"; auto)

lemma datagram_run_ok: "datagram_run r \<Longrightarrow> stream_ok r \<and> udp_ok r \<and> failure_ends r"
proof (induction rule: datagram_run.induct)
  case (start timeout now)
  show ?case by (simp add: start_datagram_relay_def stream_ok_def udp_ok_def failure_ends_def)
qed (auto simp: on_header_ok on_payload_ok on_sent_ok on_received_ok on_record_written_ok
    exceptions_ok failure_ends_ops)

text \<open>
  C34: Datagrams survive the stream.  If one relay reads what another relay wrote, or a beginning of
  it, then the datagrams it sends are the first of the datagrams the other received: unchanged, in
  order, with their boundaries.  Between two records all of them have been sent, and the statistics
  count datagrams and bytes.
\<close>

theorem datagram_relay_end_to_end:
  assumes "datagram_run a" "datagram_run b" "prefix (dr_consumed b) (dr_produced a)"
  shows "prefix (dr_sent b) (dr_received a) \<and>
    (dr_stream_phase b = ReadHeader \<and> dr_consumed b = datagram_stream (dr_received a) \<longrightarrow>
       dr_sent b = dr_received a) \<and>
    dr_tls_to_udp_datagrams b = of_nat (length (dr_sent b)) \<and>
    dr_tls_to_udp_bytes b = of_nat (length (concat (dr_sent b)))"
proof -
  have ok: "stream_ok b" "udp_ok a" using assms(1,2) datagram_run_ok by auto
  from ok(1) obtain bs where consumed: "dr_consumed b = datagram_stream (dr_sent b) @ bs"
    and part: "stream_partial (dr_stream_phase b) bs" and sized: "udp_sized (dr_sent b)"
    by (auto simp: stream_ok_def)
  have sized': "udp_sized (dr_received a)" and produced: "prefix (dr_produced a) (datagram_stream (dr_received a))"
    using ok(2) by (cases "dr_udp_phase a"; auto simp: udp_ok_def)+
  obtain zs where "datagram_stream (dr_received a) = datagram_stream (dr_sent b) @ zs"
    using prefix_order.trans [OF assms(3) produced] consumed by (auto elim!: prefixE)
  then have pre: "prefix (dr_sent b) (dr_received a)"
    by (rule datagram_stream_prefix [OF sized sized'])
  have "dr_sent b = dr_received a"
    if "dr_stream_phase b = ReadHeader" "dr_consumed b = datagram_stream (dr_received a)"
  proof -
    have "datagram_stream (dr_sent b) = datagram_stream (dr_received a) @ []"
      using that consumed part by simp
    from datagram_stream_prefix [OF sized' sized this] pre show ?thesis
      by (simp add: prefix_order.antisym)
  qed
  with pre ok(1) show ?thesis by (simp add: stream_ok_def)
qed

definition sample_sender :: DatagramRelay where
  "sample_sender = on_record_written 4 Io_ok 1 (on_received [7, 8] Io_ok (start_datagram_relay 300 0))"

definition sample_receiver :: DatagramRelay where
  "sample_receiver = on_sent 2 Io_ok 2 (on_payload [7, 8] Io_ok (on_header [0, 2] Io_ok (start_datagram_relay 300 0)))"

lemma write_u16_2: "write_u16 2 = [0, 2]"
  by code_simp

lemma read_u16_2: "read_u16 [0, 2] = 2"
  using read_u16_write_u16 [of 2 "[]"] by (simp add: write_u16_2)

lemmas sample_datagram_defs = sample_sender_def sample_receiver_def start_datagram_relay_def
  on_received_def on_record_written_def on_header_def on_payload_def on_sent_def Let_def
  datagram_note_activity_def kDatagramRecordHeaderSize_def kMaximumUdpPayloadSize_def
  write_u16_2 read_u16_2

theorem datagram_relay_end_to_end_witness:
  "dr_consumed sample_receiver = dr_produced sample_sender \<and> dr_sent sample_receiver = [[7, 8]]"
proof -
  have "datagram_run sample_sender"
    unfolding sample_sender_def
    by (rule datagram_run.written [where payload = "[7, 8]"], rule datagram_run.received, rule datagram_run.start)
       (simp_all add: sample_datagram_defs)
  moreover have "datagram_run sample_receiver"
    unfolding sample_receiver_def
    by (rule datagram_run.sent [where payload = "[7, 8]"], rule datagram_run.payload [where len = 2],
        rule datagram_run.header, rule datagram_run.start)
       (simp_all add: sample_datagram_defs)
  moreover have same: "dr_consumed sample_receiver = dr_produced sample_sender"
    "dr_received sample_sender = [[7, 8]]" "dr_stream_phase sample_receiver = ReadHeader"
    "dr_consumed sample_receiver = datagram_stream [[7, 8]]"
    by (simp_all add: sample_datagram_defs datagram_record_def)
  ultimately have "dr_sent sample_receiver = dr_received sample_sender"
    using datagram_relay_end_to_end [of sample_sender sample_receiver] by simp
  with same show ?thesis by simp
qed

end
