(* ===== verification/Udp_Listener.thy ===== *)
theory Udp_Listener
  imports Datagrams Hash_Maps Decimal
begin

text \<open>
  The UDP listener of \<open>src/server/tunnel_registry.cpp\<close>: a public UDP socket whose peers each have a
  session that carries their datagrams as records over a bridge socket.  The listener runs on one
  strand and every session on its own; they call each other by posting tasks.  The model keeps the
  posted tasks in a multiset, so that they may run in any order, which includes every order the
  executors allow.  A session is named by its position in the list of sessions ever created.
\<close>

section \<open>Ingress budget of the process\<close>

definition kBudgetMaximumDatagrams :: nat where
  "kBudgetMaximumDatagrams = 8192"

definition kBudgetMaximumBytes :: nat where
  "kBudgetMaximumBytes = 64 * 1024 * 1024"

record UdpIngressBudget =
  ub_queued_datagrams :: nat
  ub_queued_bytes :: nat

definition budget_reserve :: "nat \<Rightarrow> UdpIngressBudget \<Rightarrow> bool \<times> UdpIngressBudget" where
  "budget_reserve n g =
     (if kBudgetMaximumDatagrams \<le> ub_queued_datagrams g \<or>
         kBudgetMaximumBytes - min (ub_queued_bytes g) kBudgetMaximumBytes < n
      then (False, g)
      else (True, g\<lparr>ub_queued_datagrams := ub_queued_datagrams g + 1,
                   ub_queued_bytes := ub_queued_bytes g + n\<rparr>))"

definition budget_release :: "nat \<Rightarrow> nat \<Rightarrow> UdpIngressBudget \<Rightarrow> UdpIngressBudget" where
  "budget_release datagrams n g =
     g\<lparr>ub_queued_datagrams := ub_queued_datagrams g - min (ub_queued_datagrams g) datagrams,
       ub_queued_bytes := ub_queued_bytes g - min (ub_queued_bytes g) n\<rparr>"

section \<open>Sessions and the listener\<close>

definition kMaximumPeerSessions :: nat where
  "kMaximumPeerSessions = 128"

definition kMaximumQueuedDatagrams :: nat where
  "kMaximumQueuedDatagrams = 1024"

definition kMaximumQueuedBytes :: nat where
  "kMaximumQueuedBytes = 8 * 1024 * 1024"

definition kMaximumPeerQueuedDatagrams :: nat where
  "kMaximumPeerQueuedDatagrams = 64"

definition kMaximumPeerQueuedBytes :: nat where
  "kMaximumPeerQueuedBytes = 512 * 1024"

type_synonym UdpEndpoint = "string \<times> u16"

definition peer_key :: "UdpEndpoint \<Rightarrow> string" where
  "peer_key peer = fst peer @ '':'' @ decimal (unat (snd peer))"

record PeerSession =
  ps_peer :: UdpEndpoint
  ps_write_queue :: "bytes list"
  ps_queued_bytes :: nat
  ps_writing :: bool
  ps_stopped :: bool

datatype UdpTask =
  TaskEnqueue nat bytes
| TaskClose nat
| TaskRelease nat nat
| TaskFinished string nat
| TaskQueueSend UdpEndpoint bytes

text \<open>\<open>ul_alive\<close> is whether the weak pointers of the sessions to the listener can be locked.\<close>

record UdpListener =
  ul_open :: bool
  ul_alive :: bool
  ul_max_peer_sessions :: nat
  ul_peers :: "(string, nat) umap"
  ul_sessions :: "PeerSession list"
  ul_send_queue :: "(UdpEndpoint \<times> bytes) list"
  ul_queued_ingress_datagrams :: nat
  ul_queued_ingress_bytes :: nat
  ul_queued_send_bytes :: nat
  ul_sending :: bool
  ul_tasks :: "UdpTask multiset"

definition new_udp_listener :: "nat \<Rightarrow> UdpListener" where
  "new_udp_listener max_peer_sessions =
     \<lparr>ul_open = True, ul_alive = True,
      ul_max_peer_sessions = (if max_peer_sessions = 0 then kMaximumPeerSessions else max_peer_sessions),
      ul_peers = [], ul_sessions = [], ul_send_queue = [], ul_queued_ingress_datagrams = 0,
      ul_queued_ingress_bytes = 0, ul_queued_send_bytes = 0, ul_sending = False, ul_tasks = {#}\<rparr>"

definition post :: "UdpTask \<Rightarrow> UdpListener \<Rightarrow> UdpListener" where
  "post t l = l\<lparr>ul_tasks := add_mset t (ul_tasks l)\<rparr>"

definition set_session :: "nat \<Rightarrow> PeerSession \<Rightarrow> UdpListener \<Rightarrow> UdpListener" where
  "set_session i s l = l\<lparr>ul_sessions := (ul_sessions l)[i := s]\<rparr>"

subsection \<open>Operations of a session\<close>

definition session_release_ingress :: "nat \<Rightarrow> nat \<Rightarrow> UdpListener \<Rightarrow> UdpListener" where
  "session_release_ingress datagrams n l =
     (if datagrams = 0 then l else if ul_alive l then post (TaskRelease datagrams n) l else l)"

definition session_write_next :: "nat \<Rightarrow> UdpListener \<Rightarrow> UdpListener" where
  "session_write_next i l =
     (let s = ul_sessions l ! i
      in set_session i (s\<lparr>ps_writing := \<not> (ps_stopped s \<or> ps_write_queue s = [])\<rparr>) l)"

definition session_enqueue :: "nat \<Rightarrow> bytes \<Rightarrow> UdpListener \<Rightarrow> UdpListener" where
  "session_enqueue i rec l =
     (let s = ul_sessions l ! i
      in if ps_stopped s \<or> kMaximumPeerQueuedDatagrams \<le> length (ps_write_queue s) \<or>
            kMaximumPeerQueuedBytes - min (ps_queued_bytes s) kMaximumPeerQueuedBytes < length rec
         then session_release_ingress 1 (length rec) l
         else (let l1 = set_session i (s\<lparr>ps_queued_bytes := ps_queued_bytes s + length rec,
                                         ps_write_queue := ps_write_queue s @ [rec]\<rparr>) l
               in if \<not> ps_writing s then session_write_next i l1 else l1))"

definition peer_session_close :: "nat \<Rightarrow> UdpListener \<Rightarrow> UdpListener" where
  "peer_session_close i l =
     (let s = ul_sessions l ! i
      in if ps_stopped s then l
         else (let l1 = set_session i (s\<lparr>ps_stopped := True, ps_write_queue := [], ps_queued_bytes := 0\<rparr>) l;
                   l2 = session_release_ingress (length (ps_write_queue s)) (ps_queued_bytes s) l1
               in if ul_alive l2 then post (TaskFinished (peer_key (ps_peer s)) i) l2 else l2))"

text \<open>The completion of the write of the first record of the queue.\<close>

definition on_session_written :: "nat \<Rightarrow> bool \<Rightarrow> nat \<Rightarrow> UdpListener \<Rightarrow> UdpListener" where
  "on_session_written i failed written l =
     (let s = ul_sessions l ! i
      in case ps_write_queue s of
           [] \<Rightarrow> peer_session_close i l
         | rec # queue \<Rightarrow>
             if failed \<or> written \<noteq> length rec then peer_session_close i l
             else session_write_next i
                    (session_release_ingress 1 (length rec)
                      (set_session i (s\<lparr>ps_queued_bytes := ps_queued_bytes s - length rec,
                                        ps_write_queue := queue\<rparr>) l)))"

definition session_deliver :: "nat \<Rightarrow> bytes \<Rightarrow> UdpListener \<Rightarrow> UdpListener" where
  "session_deliver i payload l =
     (if ul_alive l then post (TaskQueueSend (ps_peer (ul_sessions l ! i)) payload) l
      else peer_session_close i l)"

text \<open>The header of a record was read; a payload follows unless it is empty or too long.\<close>

definition on_session_header :: "nat \<Rightarrow> bool \<Rightarrow> bytes \<Rightarrow> UdpListener \<Rightarrow> UdpListener" where
  "on_session_header i failed header l =
     (if failed \<or> length header \<noteq> kDatagramRecordHeaderSize then peer_session_close i l
      else (let len = unat (read_u16 header)
            in if kMaximumUdpPayloadSize < len then peer_session_close i l
               else if len = 0 then session_deliver i [] l
               else l))"

definition on_session_payload :: "nat \<Rightarrow> bool \<Rightarrow> nat \<Rightarrow> bytes \<Rightarrow> UdpListener \<Rightarrow> UdpListener" where
  "on_session_payload i failed len payload l =
     (if failed \<or> length payload \<noteq> len then peer_session_close i l else session_deliver i payload l)"

subsection \<open>Operations of the listener\<close>

definition reserve_ingress ::
  "nat \<Rightarrow> UdpIngressBudget \<times> UdpListener \<Rightarrow> bool \<times> UdpIngressBudget \<times> UdpListener" where
  "reserve_ingress n = (\<lambda>(g, l).
     if kMaximumQueuedDatagrams \<le> ul_queued_ingress_datagrams l \<or>
        kMaximumQueuedBytes - min (ul_queued_ingress_bytes l) kMaximumQueuedBytes < n
     then (False, g, l)
     else (case budget_reserve n g of
             (False, g1) \<Rightarrow> (False, g1, l)
           | (True, g1) \<Rightarrow> (True, g1, l\<lparr>ul_queued_ingress_datagrams := ul_queued_ingress_datagrams l + 1,
                                     ul_queued_ingress_bytes := ul_queued_ingress_bytes l + n\<rparr>)))"

definition release_ingress_now ::
  "nat \<Rightarrow> nat \<Rightarrow> UdpIngressBudget \<times> UdpListener \<Rightarrow> UdpIngressBudget \<times> UdpListener" where
  "release_ingress_now datagrams n = (\<lambda>(g, l).
     let released_datagrams = min (ul_queued_ingress_datagrams l) datagrams;
         released_bytes = min (ul_queued_ingress_bytes l) n
     in (budget_release released_datagrams released_bytes g,
         l\<lparr>ul_queued_ingress_datagrams := ul_queued_ingress_datagrams l - released_datagrams,
           ul_queued_ingress_bytes := ul_queued_ingress_bytes l - released_bytes\<rparr>))"

text \<open>\<open>pair_ok\<close> is whether the socket pair of a new session could be created.\<close>

definition handle_datagram ::
  "UdpEndpoint \<Rightarrow> bytes \<Rightarrow> bool \<Rightarrow> UdpIngressBudget \<times> UdpListener \<Rightarrow> UdpIngressBudget \<times> UdpListener" where
  "handle_datagram peer payload pair_ok gl =
     (case encode_datagram_record payload of
        Inl _ \<Rightarrow> gl
      | Inr rec \<Rightarrow>
          (case reserve_ingress (length rec) gl of
             (False, gl1) \<Rightarrow> gl1
           | (True, g1, l1) \<Rightarrow>
               (case map_of (ul_peers l1) (peer_key peer) of
                  Some i \<Rightarrow> (g1, post (TaskEnqueue i rec) l1)
                | None \<Rightarrow>
                    if ul_max_peer_sessions l1 \<le> length (ul_peers l1) \<or> \<not> pair_ok
                    then release_ingress_now 1 (length rec) (g1, l1)
                    else (let i = length (ul_sessions l1);
                              s = \<lparr>ps_peer = peer, ps_write_queue = [], ps_queued_bytes = 0,
                                   ps_writing = False, ps_stopped = False\<rparr>
                          in (g1, post (TaskEnqueue i rec)
                                (l1\<lparr>ul_sessions := ul_sessions l1 @ [s],
                                    ul_peers := AList.update (peer_key peer) i (ul_peers l1)\<rparr>))))))"

definition peer_finished :: "string \<Rightarrow> nat \<Rightarrow> UdpListener \<Rightarrow> UdpListener" where
  "peer_finished key i l =
     (if map_of (ul_peers l) key = Some i then l\<lparr>ul_peers := AList.delete key (ul_peers l)\<rparr> else l)"

definition send_next :: "UdpListener \<Rightarrow> UdpListener" where
  "send_next l = l\<lparr>ul_sending := ul_open l \<and> ul_send_queue l \<noteq> []\<rparr>"

definition queue_send :: "UdpEndpoint \<Rightarrow> bytes \<Rightarrow> UdpListener \<Rightarrow> UdpListener" where
  "queue_send peer payload l =
     (if \<not> ul_open l \<or> kMaximumQueuedDatagrams \<le> length (ul_send_queue l) \<or>
         kMaximumQueuedBytes - min (ul_queued_send_bytes l) kMaximumQueuedBytes < length payload
      then l
      else (let l1 = l\<lparr>ul_queued_send_bytes := ul_queued_send_bytes l + length payload,
                       ul_send_queue := ul_send_queue l @ [(peer, payload)]\<rparr>
            in if \<not> ul_sending l then send_next l1 else l1))"

definition on_send_done :: "UdpListener \<Rightarrow> UdpListener" where
  "on_send_done l =
     send_next (case ul_send_queue l of
        [] \<Rightarrow> l
      | (_, payload) # queue \<Rightarrow>
          l\<lparr>ul_queued_send_bytes := ul_queued_send_bytes l - length payload, ul_send_queue := queue\<rparr>)"

text \<open>Stopping posts a stop to every session of the table.\<close>

definition udp_stop :: "UdpIngressBudget \<times> UdpListener \<Rightarrow> UdpIngressBudget \<times> UdpListener" where
  "udp_stop = (\<lambda>(g, l).
     let l1 = l\<lparr>ul_open := False, ul_peers := [],
                ul_tasks := ul_tasks l + mset (map (\<lambda>(_, i). TaskClose i) (ul_peers l))\<rparr>;
         (g2, l2) = release_ingress_now (ul_queued_ingress_datagrams l1) (ul_queued_ingress_bytes l1) (g, l1)
     in (g2, l2\<lparr>ul_send_queue := [], ul_queued_send_bytes := 0, ul_sending := False\<rparr>))"

definition udp_destroy :: "UdpIngressBudget \<times> UdpListener \<Rightarrow> UdpIngressBudget \<times> UdpListener" where
  "udp_destroy gl = apsnd (\<lambda>l. l\<lparr>ul_alive := False\<rparr>) (udp_stop gl)"

subsection \<open>Running a posted task\<close>

fun run_task :: "UdpTask \<Rightarrow> UdpIngressBudget \<times> UdpListener \<Rightarrow> UdpIngressBudget \<times> UdpListener" where
  "run_task (TaskEnqueue i rec) (g, l) = (g, session_enqueue i rec l)"
| "run_task (TaskClose i) (g, l) = (g, peer_session_close i l)"
| "run_task (TaskRelease datagrams n) (g, l) = release_ingress_now datagrams n (g, l)"
| "run_task (TaskFinished key i) (g, l) = (g, peer_finished key i l)"
| "run_task (TaskQueueSend peer payload) (g, l) = (g, queue_send peer payload l)"

text \<open>
  One step of a listener: a datagram arrives, a posted task runs, or an operation of a session or of
  the socket completes.  A datagram can still be handled after the socket was closed, when its
  completion was already queued.
\<close>

inductive udp_step :: "UdpIngressBudget \<times> UdpListener \<Rightarrow> UdpIngressBudget \<times> UdpListener \<Rightarrow> bool" where
  datagram: "ul_alive l \<Longrightarrow> udp_step (g, l) (handle_datagram peer payload pair_ok (g, l))"
| task: "t \<in># ul_tasks l \<Longrightarrow> udp_step (g, l) (run_task t (g, l\<lparr>ul_tasks := ul_tasks l - {#t#}\<rparr>))"
| written: "i < length (ul_sessions l) \<Longrightarrow> udp_step (g, l) (g, on_session_written i failed n l)"
| header: "i < length (ul_sessions l) \<Longrightarrow> udp_step (g, l) (g, on_session_header i failed header l)"
| payload: "i < length (ul_sessions l) \<Longrightarrow> udp_step (g, l) (g, on_session_payload i failed len payload l)"
| send_done: "udp_step (g, l) (g, on_send_done l)"
| stop: "udp_step (g, l) (udp_stop (g, l))"
| destroy: "udp_step (g, l) (udp_destroy (g, l))"

section \<open>Accounting\<close>

text \<open>Datagrams and bytes a task or a session stands for.\<close>

fun task_datagrams :: "UdpTask \<Rightarrow> nat" where
  "task_datagrams (TaskEnqueue _ _) = 1"
| "task_datagrams (TaskRelease datagrams _) = datagrams"
| "task_datagrams _ = 0"

fun task_bytes :: "UdpTask \<Rightarrow> nat" where
  "task_bytes (TaskEnqueue _ rec) = length rec"
| "task_bytes (TaskRelease _ n) = n"
| "task_bytes _ = 0"

definition flight_datagrams :: "UdpListener \<Rightarrow> nat" where
  "flight_datagrams l = (\<Sum>t\<in>#ul_tasks l. task_datagrams t) +
     (\<Sum>s\<leftarrow>ul_sessions l. length (ps_write_queue s))"

definition flight_bytes :: "UdpListener \<Rightarrow> nat" where
  "flight_bytes l = (\<Sum>t\<in>#ul_tasks l. task_bytes t) +
     (\<Sum>s\<leftarrow>ul_sessions l. ps_queued_bytes s)"

definition session_ok :: "PeerSession \<Rightarrow> bool" where
  "session_ok s \<longleftrightarrow> ps_queued_bytes s = sum_list (map length (ps_write_queue s)) \<and>
     length (ps_write_queue s) \<le> kMaximumPeerQueuedDatagrams \<and>
     ps_queued_bytes s \<le> kMaximumPeerQueuedBytes \<and> (ps_stopped s \<longrightarrow> ps_write_queue s = [])"

fun task_ok :: "nat \<Rightarrow> UdpTask \<Rightarrow> bool" where
  "task_ok n (TaskEnqueue i _) \<longleftrightarrow> i < n"
| "task_ok n (TaskClose i) \<longleftrightarrow> i < n"
| "task_ok n _ \<longleftrightarrow> True"

text \<open>
  What holds of the sessions, tasks and queues, and what holds of the ingress counters: they count
  the datagrams in flight, until \<open>stop\<close> gives the whole reservation back.
\<close>

definition parts_ok :: "UdpListener \<Rightarrow> bool" where
  "parts_ok l \<longleftrightarrow> (\<forall>s \<in> set (ul_sessions l). session_ok s) \<and>
     (\<forall>t \<in># ul_tasks l. task_ok (length (ul_sessions l)) t) \<and>
     (\<forall>(_, i) \<in> set (ul_peers l). i < length (ul_sessions l)) \<and>
     length (ul_peers l) \<le> ul_max_peer_sessions l \<and>
     ul_queued_send_bytes l = sum_list (map (length \<circ> snd) (ul_send_queue l)) \<and>
     length (ul_send_queue l) \<le> kMaximumQueuedDatagrams \<and> ul_queued_send_bytes l \<le> kMaximumQueuedBytes \<and>
     ul_queued_ingress_datagrams l \<le> kMaximumQueuedDatagrams \<and>
     ul_queued_ingress_bytes l \<le> kMaximumQueuedBytes"

text \<open>With \<open>d\<close> datagrams of \<open>b\<close> bytes more in flight than tasks and sessions show.\<close>

definition counters_ok :: "nat \<Rightarrow> nat \<Rightarrow> UdpListener \<Rightarrow> bool" where
  "counters_ok d b l \<longleftrightarrow>
     ul_queued_ingress_datagrams l \<le> flight_datagrams l + d \<and>
     ul_queued_ingress_bytes l \<le> flight_bytes l + b \<and>
     (ul_open l \<longrightarrow> ul_alive l \<and> ul_queued_ingress_datagrams l = flight_datagrams l + d \<and>
        ul_queued_ingress_bytes l = flight_bytes l + b) \<and>
     (\<not> ul_alive l \<longrightarrow> ul_queued_ingress_datagrams l = 0 \<and> ul_queued_ingress_bytes l = 0)"

lemma sum_list_map_update:
  "i < length xs \<Longrightarrow> sum_list (map f (xs[i := v])) + f (xs ! i) = sum_list (map f xs) + (f v :: nat)"
  by (induction xs arbitrary: i) (auto split: nat.splits)

text \<open>
  \<open>moves d b l l'\<close>: from \<open>l\<close> to \<open>l'\<close> the counters stay, and \<open>d\<close> datagrams of \<open>b\<close> bytes were put in
  flight; once the listener is gone nobody counts any more.
\<close>

definition moves :: "nat \<Rightarrow> nat \<Rightarrow> UdpListener \<Rightarrow> UdpListener \<Rightarrow> bool" where
  "moves d b l l' \<longleftrightarrow> ul_open l' = ul_open l \<and> ul_alive l' = ul_alive l \<and>
     ul_queued_ingress_datagrams l' = ul_queued_ingress_datagrams l \<and>
     ul_queued_ingress_bytes l' = ul_queued_ingress_bytes l \<and>
     (ul_alive l \<longrightarrow> flight_datagrams l' = flight_datagrams l + d \<and> flight_bytes l' = flight_bytes l + b)"

lemma moves_refl: "moves 0 0 l l"
  by (simp add: moves_def)

lemma moves_trans: "moves d b l l' \<Longrightarrow> moves d' b' l' l'' \<Longrightarrow> moves (d + d') (b + b') l l''"
  by (simp add: moves_def)

lemma post_fields [simp]:
  "ul_open (post t l) = ul_open l" "ul_alive (post t l) = ul_alive l"
  "ul_queued_ingress_datagrams (post t l) = ul_queued_ingress_datagrams l"
  "ul_queued_ingress_bytes (post t l) = ul_queued_ingress_bytes l"
  "ul_sessions (post t l) = ul_sessions l"
  by (simp_all add: post_def)

lemma set_session_fields [simp]:
  "ul_open (set_session i s l) = ul_open l" "ul_alive (set_session i s l) = ul_alive l"
  "ul_queued_ingress_datagrams (set_session i s l) = ul_queued_ingress_datagrams l"
  "ul_queued_ingress_bytes (set_session i s l) = ul_queued_ingress_bytes l"
  "ul_sessions (set_session i s l) = (ul_sessions l)[i := s]"
  by (simp_all add: set_session_def)

lemma flight_post [simp]:
  "flight_datagrams (post t l) = flight_datagrams l + task_datagrams t"
  "flight_bytes (post t l) = flight_bytes l + task_bytes t"
  by (simp_all add: post_def flight_datagrams_def flight_bytes_def)

lemma flight_set_session:
  assumes "i < length (ul_sessions l)"
  shows "flight_datagrams (set_session i s l) + length (ps_write_queue (ul_sessions l ! i)) =
      flight_datagrams l + length (ps_write_queue s)"
    and "flight_bytes (set_session i s l) + ps_queued_bytes (ul_sessions l ! i) =
      flight_bytes l + ps_queued_bytes s"
  using sum_list_map_update [OF assms, of "\<lambda>s. length (ps_write_queue s)" s]
    sum_list_map_update [OF assms, of ps_queued_bytes s]
  by (simp_all add: set_session_def flight_datagrams_def flight_bytes_def)

lemma moves_post: "moves (task_datagrams t) (task_bytes t) l (post t l)"
  by (simp add: moves_def)

lemma moves_set_session:
  assumes "i < length (ul_sessions l)"
    and "length (ps_write_queue s) = length (ps_write_queue (ul_sessions l ! i)) + d"
    and "ps_queued_bytes s = ps_queued_bytes (ul_sessions l ! i) + b"
  shows "moves d b l (set_session i s l)"
  using flight_set_session [OF assms(1), of s] assms(2,3) by (simp add: moves_def)

lemma moves_write_next:
  "i < length (ul_sessions l) \<Longrightarrow> moves 0 0 l (session_write_next i l)"
  by (simp add: session_write_next_def Let_def moves_set_session)

lemma length_sessions [simp]:
  "length (ul_sessions (session_write_next i l)) = length (ul_sessions l)"
  "length (ul_sessions (session_release_ingress d n l)) = length (ul_sessions l)"
  "length (ul_sessions (peer_session_close i l)) = length (ul_sessions l)"
  by (simp_all add: session_write_next_def session_release_ingress_def peer_session_close_def Let_def)

lemma moves_release:
  "(d = 0 \<Longrightarrow> n = 0) \<Longrightarrow> moves d n l (session_release_ingress d n l)"
  by (auto simp: session_release_ingress_def moves_def)

lemma moves_enqueue:
  assumes "i < length (ul_sessions l)"
  shows "moves 1 (length rec) l (session_enqueue i rec l)"
proof -
  let ?s = "ul_sessions l ! i"
  let ?l = "set_session i (?s\<lparr>ps_queued_bytes := ps_queued_bytes ?s + length rec,
      ps_write_queue := ps_write_queue ?s @ [rec]\<rparr>) l"
  have "moves 1 (length rec) l ?l" using assms by (intro moves_set_session) simp_all
  moreover from this have "moves 1 (length rec) l (session_write_next i ?l)"
    using moves_trans [OF _ moves_write_next [of i ?l]] assms by simp
  moreover have "moves 1 (length rec) l (session_release_ingress 1 (length rec) l)"
    by (rule moves_release) simp
  ultimately show ?thesis by (simp add: session_enqueue_def Let_def)
qed

text \<open>Records that leave the queue of a session are released by a posted task.\<close>

lemma moves_unqueue:
  assumes "i < length (ul_sessions l)"
    and "length (ps_write_queue (ul_sessions l ! i)) = length (ps_write_queue s) + d"
    and "ps_queued_bytes (ul_sessions l ! i) = ps_queued_bytes s + b" "d = 0 \<Longrightarrow> b = 0"
  shows "moves 0 0 l (session_release_ingress d b (set_session i s l))"
  using flight_set_session [OF assms(1), of s] assms(2-4)
  by (auto simp: moves_def session_release_ingress_def)

lemma moves_close:
  assumes "i < length (ul_sessions l)" "session_ok (ul_sessions l ! i)"
  shows "moves 0 0 l (peer_session_close i l)"
proof -
  let ?s = "ul_sessions l ! i"
  let ?l = "session_release_ingress (length (ps_write_queue ?s)) (ps_queued_bytes ?s)
      (set_session i (?s\<lparr>ps_stopped := True, ps_write_queue := [], ps_queued_bytes := 0\<rparr>) l)"
  have "moves 0 0 l ?l"
    using assms by (intro moves_unqueue) (simp_all add: session_ok_def)
  moreover from this have "moves 0 0 l (post (TaskFinished (peer_key (ps_peer ?s)) i) ?l)"
    using moves_trans [OF _ moves_post [of "TaskFinished (peer_key (ps_peer ?s)) i" ?l]] by simp
  ultimately show ?thesis by (simp add: peer_session_close_def Let_def moves_refl)
qed

lemma moves_written:
  assumes "i < length (ul_sessions l)" "session_ok (ul_sessions l ! i)"
  shows "moves 0 0 l (on_session_written i failed n l)"
proof (cases "ps_write_queue (ul_sessions l ! i)")
  case Nil
  then show ?thesis using moves_close [OF assms] by (simp add: on_session_written_def)
next
  case (Cons rec queue)
  let ?s = "ul_sessions l ! i"
  let ?l = "session_release_ingress 1 (length rec) (set_session i
      (?s\<lparr>ps_queued_bytes := ps_queued_bytes ?s - length rec, ps_write_queue := queue\<rparr>) l)"
  have "moves 0 0 l ?l"
    using assms Cons by (intro moves_unqueue) (simp_all add: session_ok_def)
  from moves_trans [OF this moves_write_next [of i ?l]] assms(1)
  have "moves 0 0 l (session_write_next i ?l)" by simp
  then show ?thesis
    using Cons moves_close [OF assms] by (simp add: on_session_written_def Let_def)
qed

lemma moves_deliver:
  assumes "i < length (ul_sessions l)" "session_ok (ul_sessions l ! i)"
  shows "moves 0 0 l (session_deliver i payload l)"
  using moves_close [OF assms] moves_post [of "TaskQueueSend (ps_peer (ul_sessions l ! i)) payload" l]
  by (simp add: session_deliver_def)

lemma counters_moves:
  "moves d b l l' \<Longrightarrow> counters_ok (d + d') (b + b') l \<Longrightarrow> counters_ok d' b' l'"
  by (cases "ul_alive l") (auto simp: moves_def counters_ok_def)

lemma counters_take:
  assumes "counters_ok 0 0 l" "t \<in># ul_tasks l"
  shows "counters_ok (task_datagrams t) (task_bytes t) (l\<lparr>ul_tasks := ul_tasks l - {#t#}\<rparr>)"
proof -
  obtain ts where "ul_tasks l = add_mset t ts" using assms(2) by (rule mset_add)
  then show ?thesis
    using assms(1) by (simp add: counters_ok_def flight_datagrams_def flight_bytes_def add.commute add.left_commute)
qed

text \<open>Giving back what is in flight no longer.\<close>

definition budget_ok :: "UdpIngressBudget \<Rightarrow> bool" where
  "budget_ok g \<longleftrightarrow> ub_queued_datagrams g \<le> kBudgetMaximumDatagrams \<and> ub_queued_bytes g \<le> kBudgetMaximumBytes"

text \<open>The budget of the process changes exactly as the reservation of the listener.\<close>

definition same_change :: "UdpIngressBudget \<times> UdpListener \<Rightarrow> UdpIngressBudget \<times> UdpListener \<Rightarrow> bool" where
  "same_change gl gl' \<longleftrightarrow>
     ub_queued_datagrams (fst gl') + ul_queued_ingress_datagrams (snd gl) =
       ub_queued_datagrams (fst gl) + ul_queued_ingress_datagrams (snd gl') \<and>
     ub_queued_bytes (fst gl') + ul_queued_ingress_bytes (snd gl) =
       ub_queued_bytes (fst gl) + ul_queued_ingress_bytes (snd gl') \<and>
     (budget_ok (fst gl) \<longrightarrow> budget_ok (fst gl'))"

definition covered :: "UdpIngressBudget \<Rightarrow> UdpListener \<Rightarrow> bool" where
  "covered g l \<longleftrightarrow> ul_queued_ingress_datagrams l \<le> ub_queued_datagrams g \<and>
     ul_queued_ingress_bytes l \<le> ub_queued_bytes g"

lemma moves_same_change: "moves d b l l' \<Longrightarrow> same_change (g, l) (g, l')"
  by (simp add: moves_def same_change_def)

lemma same_change_tasks [simp]: "same_change (g, l\<lparr>ul_tasks := ts\<rparr>) gl' = same_change (g, l) gl'"
  by (simp add: same_change_def)

lemma release_same_change:
  "covered g l \<Longrightarrow> same_change (g, l) (release_ingress_now d n (g, l))"
  by (auto simp: covered_def same_change_def release_ingress_now_def budget_release_def Let_def budget_ok_def)

lemma release_counters:
  assumes "counters_ok d n l" "release_ingress_now d n (g, l) = (g', l')"
  shows "counters_ok 0 0 l'"
proof -
  have l': "l' = l\<lparr>ul_queued_ingress_datagrams := ul_queued_ingress_datagrams l - min (ul_queued_ingress_datagrams l) d,
      ul_queued_ingress_bytes := ul_queued_ingress_bytes l - min (ul_queued_ingress_bytes l) n\<rparr>"
    using assms(2) by (simp add: release_ingress_now_def Let_def)
  show ?thesis
    using assms(1) by (auto simp: counters_ok_def l' flight_datagrams_def flight_bytes_def)
qed

lemma reserve_ingress_True:
  assumes "reserve_ingress n (g, l) = (True, g', l')"
  shows "l' = l\<lparr>ul_queued_ingress_datagrams := ul_queued_ingress_datagrams l + 1,
      ul_queued_ingress_bytes := ul_queued_ingress_bytes l + n\<rparr>"
    and "g' = g\<lparr>ub_queued_datagrams := ub_queued_datagrams g + 1, ub_queued_bytes := ub_queued_bytes g + n\<rparr>"
    and "ul_queued_ingress_datagrams l < kMaximumQueuedDatagrams"
    and "ul_queued_ingress_bytes l \<le> kMaximumQueuedBytes \<Longrightarrow> ul_queued_ingress_bytes l + n \<le> kMaximumQueuedBytes"
    and "same_change (g, l) (g', l')"
  using assms
  by (auto simp: reserve_ingress_def budget_reserve_def same_change_def budget_ok_def split: if_splits)

lemma reserve_ingress_False: "reserve_ingress n (g, l) = (False, g', l') \<Longrightarrow> g' = g \<and> l' = l"
  by (auto simp: reserve_ingress_def budget_reserve_def split: if_splits)

section \<open>Sessions, tasks and queues\<close>

lemma parts_set_session:
  "parts_ok l \<Longrightarrow> session_ok s \<Longrightarrow> parts_ok (set_session i s l)"
  by (auto simp: parts_ok_def set_session_def dest!: set_update_subset_insert [THEN subsetD])

lemma parts_post: "parts_ok l \<Longrightarrow> task_ok (length (ul_sessions l)) t \<Longrightarrow> parts_ok (post t l)"
  by (simp add: parts_ok_def post_def)

lemma parts_session: "parts_ok l \<Longrightarrow> i < length (ul_sessions l) \<Longrightarrow> session_ok (ul_sessions l ! i)"
  by (simp add: parts_ok_def)

lemma parts_release: "parts_ok l \<Longrightarrow> parts_ok (session_release_ingress d n l)"
  by (simp add: session_release_ingress_def parts_post)

lemma parts_write_next:
  assumes "parts_ok l" "i < length (ul_sessions l)"
  shows "parts_ok (session_write_next i l)"
  using parts_set_session [OF assms(1)] parts_session [OF assms]
  by (simp add: session_write_next_def Let_def session_ok_def)

lemma parts_enqueue:
  assumes "parts_ok l" "i < length (ul_sessions l)"
  shows "parts_ok (session_enqueue i rec l)"
proof -
  let ?s = "ul_sessions l ! i"
  let ?s' = "?s\<lparr>ps_queued_bytes := ps_queued_bytes ?s + length rec, ps_write_queue := ps_write_queue ?s @ [rec]\<rparr>"
  note ok = parts_session [OF assms]
  show ?thesis
  proof (cases "ps_stopped ?s \<or> kMaximumPeerQueuedDatagrams \<le> length (ps_write_queue ?s) \<or>
      kMaximumPeerQueuedBytes - min (ps_queued_bytes ?s) kMaximumPeerQueuedBytes < length rec")
    case True
    then show ?thesis using parts_release [OF assms(1)] by (auto simp: session_enqueue_def Let_def)
  next
    case False
    then have "session_ok ?s'" using ok by (auto simp: session_ok_def)
    then have "parts_ok (set_session i ?s' l)" by (rule parts_set_session [OF assms(1)])
    then show ?thesis
      using False parts_write_next [of "set_session i ?s' l" i] assms(2)
      by (simp add: session_enqueue_def Let_def)
  qed
qed

lemma parts_close:
  assumes "parts_ok l"
  shows "parts_ok (peer_session_close i l)"
proof -
  let ?s = "(ul_sessions l ! i)\<lparr>ps_stopped := True, ps_write_queue := [], ps_queued_bytes := 0\<rparr>"
  have "parts_ok (set_session i ?s l)"
    by (rule parts_set_session [OF assms]) (simp add: session_ok_def)
  from parts_release [OF this] show ?thesis
    using assms by (auto simp: peer_session_close_def Let_def intro: parts_post)
qed

lemma parts_written:
  assumes "parts_ok l" "i < length (ul_sessions l)"
  shows "parts_ok (on_session_written i failed n l)"
proof (cases "ps_write_queue (ul_sessions l ! i)")
  case Nil
  then show ?thesis using parts_close [OF assms(1)] by (simp add: on_session_written_def)
next
  case (Cons rec queue)
  let ?s = "ul_sessions l ! i"
  let ?s' = "?s\<lparr>ps_queued_bytes := ps_queued_bytes ?s - length rec, ps_write_queue := queue\<rparr>"
  have "session_ok ?s'" using parts_session [OF assms] Cons by (auto simp: session_ok_def)
  then have "parts_ok (session_release_ingress 1 (length rec) (set_session i ?s' l))"
    using parts_set_session [OF assms(1)] parts_release by blast
  then have "parts_ok (session_write_next i (session_release_ingress 1 (length rec) (set_session i ?s' l)))"
    using assms(2) by (intro parts_write_next) simp_all
  then show ?thesis
    using Cons parts_close [OF assms(1)] by (simp add: on_session_written_def Let_def)
qed

lemma parts_deliver:
  "parts_ok l \<Longrightarrow> parts_ok (session_deliver i payload l)"
  by (simp add: session_deliver_def parts_post parts_close)

lemma parts_queue_send: "parts_ok l \<Longrightarrow> parts_ok (queue_send peer payload l)"
  by (auto simp: queue_send_def Let_def send_next_def parts_ok_def)

lemma parts_send_done: "parts_ok l \<Longrightarrow> parts_ok (on_send_done l)"
  by (auto simp: on_send_done_def send_next_def parts_ok_def split: list.splits)

lemma parts_finished: "parts_ok l \<Longrightarrow> parts_ok (peer_finished key i l)"
  using set_delete_umap [of key "ul_peers l"] size_delete_le [of key "ul_peers l"]
  by (auto simp: peer_finished_def parts_ok_def)

lemma parts_release_now: "parts_ok l \<Longrightarrow> parts_ok (snd (release_ingress_now d n (g, l)))"
  by (auto simp: release_ingress_now_def Let_def parts_ok_def)

lemma parts_stop: "parts_ok l \<Longrightarrow> parts_ok (snd (udp_stop (g, l)))"
  by (auto simp: udp_stop_def release_ingress_now_def Let_def parts_ok_def)

section \<open>Steps\<close>

definition listener_ok :: "UdpListener \<Rightarrow> bool" where
  "listener_ok l \<longleftrightarrow> parts_ok l \<and> counters_ok 0 0 l"

definition step_ok :: "UdpIngressBudget \<times> UdpListener \<Rightarrow> UdpIngressBudget \<times> UdpListener \<Rightarrow> bool" where
  "step_ok gl gl' \<longleftrightarrow> listener_ok (snd gl') \<and> same_change gl gl'"

lemma moves_step_ok:
  "parts_ok l' \<Longrightarrow> moves 0 0 l l' \<Longrightarrow> counters_ok 0 0 l \<Longrightarrow> step_ok (g, l) (g, l')"
  using counters_moves [of 0 0 l l' 0 0] by (simp add: step_ok_def listener_ok_def moves_same_change)

lemma moves_send_side: "moves 0 0 l (queue_send peer payload l)" "moves 0 0 l (on_send_done l)"
  "moves 0 0 l (peer_finished key i l)"
  by (auto simp: moves_def queue_send_def on_send_done_def peer_finished_def send_next_def Let_def
      flight_datagrams_def flight_bytes_def split: list.splits)

lemma task_step_ok:
  assumes ok: "listener_ok l" and t: "t \<in># ul_tasks l" and cov: "covered g l"
  shows "step_ok (g, l) (run_task t (g, l\<lparr>ul_tasks := ul_tasks l - {#t#}\<rparr>))"
proof -
  let ?l = "l\<lparr>ul_tasks := ul_tasks l - {#t#}\<rparr>"
  have parts: "parts_ok ?l" and good: "task_ok (length (ul_sessions l)) t"
    using ok t by (auto simp: listener_ok_def parts_ok_def dest: in_diffD)
  have counters: "counters_ok (task_datagrams t) (task_bytes t) ?l"
    using counters_take [OF _ t] ok by (simp add: listener_ok_def)
  have cov': "covered g ?l" using cov by (simp add: covered_def)
  have quiet: "step_ok (g, l) (g, l')"
    if "parts_ok l'" "moves (task_datagrams t) (task_bytes t) ?l l'" for l'
    using that counters_moves [OF that(2), of 0 0] counters moves_same_change [OF that(2), of g]
    by (simp add: step_ok_def listener_ok_def)
  show ?thesis
  proof (cases t)
    case (TaskEnqueue i rec)
    with good show ?thesis
      using quiet [OF parts_enqueue [OF parts, of i rec]] moves_enqueue [of i ?l rec] by simp
  next
    case (TaskClose i)
    with good show ?thesis
      using quiet [OF parts_close [OF parts, of i]] moves_close [of i ?l] parts_session [OF parts, of i] by simp
  next
    case (TaskRelease d n)
    obtain g' l' where rel: "release_ingress_now d n (g, ?l) = (g', l')" by force
    have "counters_ok 0 0 l'" using release_counters [OF _ rel] counters TaskRelease by simp
    moreover have "parts_ok l'" using parts_release_now [OF parts, of d n g] rel by simp
    moreover have "same_change (g, ?l) (g', l')" using release_same_change [OF cov', of d n] rel by simp
    ultimately show ?thesis using rel TaskRelease by (simp add: step_ok_def listener_ok_def)
  next
    case (TaskFinished key i)
    then show ?thesis using quiet [OF parts_finished [OF parts, of key i]] moves_send_side(3) by simp
  next
    case (TaskQueueSend peer payload)
    then show ?thesis using quiet [OF parts_queue_send [OF parts, of peer payload]] moves_send_side(1) by simp
  qed
qed

lemma stop_step_ok:
  assumes "listener_ok l" "covered g l"
  shows "step_ok (g, l) (udp_stop (g, l))" "step_ok (g, l) (udp_destroy (g, l))"
proof -
  obtain g' l' where stop: "udp_stop (g, l) = (g', l')" by force
  have parts: "parts_ok l'" using parts_stop [of l g] assms(1) stop by (simp add: listener_ok_def)
  have zero: "ul_queued_ingress_datagrams l' = 0" "ul_queued_ingress_bytes l' = 0" "\<not> ul_open l'"
    and change: "same_change (g, l) (g', l')"
    using stop assms(2)
    by (auto simp: udp_stop_def release_ingress_now_def Let_def same_change_def covered_def
        budget_release_def budget_ok_def)
  show "step_ok (g, l) (udp_stop (g, l))"
    using stop parts zero change by (simp add: step_ok_def listener_ok_def counters_ok_def)
  have "parts_ok (l'\<lparr>ul_alive := False\<rparr>)" "same_change (g, l) (g', l'\<lparr>ul_alive := False\<rparr>)"
    using parts change by (simp_all add: parts_ok_def same_change_def)
  then show "step_ok (g, l) (udp_destroy (g, l))"
    using stop zero by (simp add: udp_destroy_def step_ok_def listener_ok_def counters_ok_def)
qed

text \<open>A reservation that is given back at once leaves no trace.\<close>

lemma reserve_release:
  assumes "reserve_ingress n (g, l) = (True, g1, l1)"
  shows "release_ingress_now 1 n (g1, l1) = (g, l)"
  unfolding reserve_ingress_True(1,2) [OF assms]
  by (simp add: release_ingress_now_def budget_release_def Let_def)

lemma reserve_enqueue_ok:
  assumes ok: "listener_ok l" and alive: "ul_alive l"
    and res: "reserve_ingress (length rec) (g, l) = (True, g1, l1)" and i: "i < length (ul_sessions l)"
  shows "step_ok (g, l) (g1, post (TaskEnqueue i rec) l1)"
proof -
  note reserve = reserve_ingress_True [OF res]
  have "parts_ok l1" using ok reserve(3,4) by (simp add: reserve(1) listener_ok_def parts_ok_def)
  then have "parts_ok (post (TaskEnqueue i rec) l1)" using i by (intro parts_post) (simp_all add: reserve(1))
  moreover have "counters_ok 0 0 (post (TaskEnqueue i rec) l1)"
    using ok alive by (simp add: listener_ok_def counters_ok_def reserve(1) flight_datagrams_def flight_bytes_def post_def)
  moreover have "same_change (g, l) (g1, post (TaskEnqueue i rec) l1)"
    using reserve(5) by (simp add: same_change_def)
  ultimately show ?thesis by (simp add: step_ok_def listener_ok_def)
qed

lemma new_session_ok:
  assumes "listener_ok l" "length (ul_peers l) < ul_max_peer_sessions l"
    and "map_of (ul_peers l) (peer_key peer) = None"
  shows "listener_ok (l\<lparr>ul_sessions := ul_sessions l @ [\<lparr>ps_peer = peer, ps_write_queue = [],
      ps_queued_bytes = 0, ps_writing = False, ps_stopped = False\<rparr>],
      ul_peers := AList.update (peer_key peer) (length (ul_sessions l)) (ul_peers l)\<rparr>)"
proof -
  have more: "task_ok (Suc n) t" if "task_ok n t" for n t using that by (cases t) simp_all
  show ?thesis
    using assms
    by (auto simp: listener_ok_def parts_ok_def counters_ok_def flight_datagrams_def flight_bytes_def
        session_ok_def update_fresh more less_Suc_eq)
qed

lemma handle_step_ok:
  assumes ok: "listener_ok l" and alive: "ul_alive l" and cov: "covered g l"
  shows "step_ok (g, l) (handle_datagram peer payload pair_ok (g, l))"
proof (cases "encode_datagram_record payload")
  case (Inl e)
  then show ?thesis using ok by (simp add: handle_datagram_def step_ok_def same_change_def)
next
  case (Inr rec)
  obtain r g1 l1 where res: "reserve_ingress (length rec) (g, l) = (r, g1, l1)" by (metis prod_cases3)
  show ?thesis
  proof (cases r)
    case False
    with res reserve_ingress_False [of "length rec" g l g1 l1] Inr ok show ?thesis
      by (simp add: handle_datagram_def step_ok_def same_change_def)
  next
    case True
    then have res': "reserve_ingress (length rec) (g, l) = (True, g1, l1)" using res by simp
    note l1 = reserve_ingress_True(1) [OF res']
    show ?thesis
    proof (cases "map_of (ul_peers l) (peer_key peer)")
      case (Some i)
      then have "i < length (ul_sessions l)"
        using ok by (auto simp: listener_ok_def parts_ok_def dest: map_of_SomeD)
      from reserve_enqueue_ok [OF ok alive res' this] show ?thesis
        using Some Inr res' by (simp add: handle_datagram_def l1)
    next
      case None
      let ?s = "\<lparr>ps_peer = peer, ps_write_queue = [], ps_queued_bytes = 0, ps_writing = False, ps_stopped = False\<rparr>"
      let ?l = "l\<lparr>ul_sessions := ul_sessions l @ [?s],
          ul_peers := AList.update (peer_key peer) (length (ul_sessions l)) (ul_peers l)\<rparr>"
      show ?thesis
      proof (cases "ul_max_peer_sessions l \<le> length (ul_peers l) \<or> \<not> pair_ok")
        case True
        then show ?thesis
          using None Inr res' reserve_release [OF res'] ok
          by (simp add: handle_datagram_def l1 step_ok_def same_change_def)
      next
        case False
        have "listener_ok ?l" using False by (intro new_session_ok [OF ok _ None]) simp
        moreover have "reserve_ingress (length rec) (g, ?l) =
            (True, g1, l1\<lparr>ul_sessions := ul_sessions l @ [?s],
               ul_peers := AList.update (peer_key peer) (length (ul_sessions l)) (ul_peers l)\<rparr>)"
          using res' by (auto simp: reserve_ingress_def l1 split: if_splits prod.splits bool.splits)
        ultimately have "step_ok (g, ?l) (g1, post (TaskEnqueue (length (ul_sessions l)) rec)
            (l1\<lparr>ul_sessions := ul_sessions l @ [?s],
               ul_peers := AList.update (peer_key peer) (length (ul_sessions l)) (ul_peers l)\<rparr>))"
          using alive by (intro reserve_enqueue_ok) simp_all
        then show ?thesis
          using None Inr res' False
          by (simp add: handle_datagram_def l1 step_ok_def same_change_def Let_def)
      qed
    qed
  qed
qed

lemma udp_step_ok:
  assumes "udp_step (g, l) (g', l')" "listener_ok l" "covered g l"
  shows "step_ok (g, l) (g', l')"
  using assms(1)
proof cases
  case (datagram peer payload pair_ok)
  then show ?thesis using handle_step_ok [OF assms(2) _ assms(3)] by metis
next
  case (task t)
  then show ?thesis using task_step_ok [OF assms(2) _ assms(3)] by metis
next
  case (written i failed n)
  then show ?thesis
    using assms(2) parts_session by (simp add: listener_ok_def moves_step_ok parts_written moves_written)
next
  case (header i failed header)
  then show ?thesis
    using assms(2) parts_session moves_step_ok [OF _ moves_refl]
    by (auto simp: listener_ok_def on_session_header_def Let_def
        intro!: moves_step_ok parts_close parts_deliver moves_close moves_deliver moves_refl)
next
  case (payload i failed len payload)
  then show ?thesis
    using assms(2) parts_session
    by (auto simp: listener_ok_def on_session_payload_def
        intro!: moves_step_ok parts_close parts_deliver moves_close moves_deliver)
next
  case send_done
  then show ?thesis
    using assms(2) by (simp add: listener_ok_def moves_step_ok parts_send_done moves_send_side)
next
  case stop
  then show ?thesis using stop_step_ok(1) [OF assms(2,3)] by simp
next
  case destroy
  then show ?thesis using stop_step_ok(2) [OF assms(2,3)] by simp
qed

section \<open>All listeners of the process\<close>

text \<open>The budget and the listeners, in the order they were created.\<close>

inductive udp_process :: "UdpIngressBudget \<Rightarrow> UdpListener list \<Rightarrow> bool" where
  empty: "udp_process \<lparr>ub_queued_datagrams = 0, ub_queued_bytes = 0\<rparr> []"
| created: "udp_process g ls \<Longrightarrow> udp_process g (ls @ [new_udp_listener n])"
| step: "udp_process g ls \<Longrightarrow> k < length ls \<Longrightarrow> udp_step (g, ls ! k) (g', l') \<Longrightarrow>
    udp_process g' (ls[k := l'])"

definition total_datagrams :: "UdpListener list \<Rightarrow> nat" where
  "total_datagrams ls = (\<Sum>l\<leftarrow>ls. ul_queued_ingress_datagrams l)"

definition total_bytes :: "UdpListener list \<Rightarrow> nat" where
  "total_bytes ls = (\<Sum>l\<leftarrow>ls. ul_queued_ingress_bytes l)"

lemma member_le_total:
  assumes "k < length ls"
  shows "ul_queued_ingress_datagrams (ls ! k) \<le> total_datagrams ls" "ul_queued_ingress_bytes (ls ! k) \<le> total_bytes ls"
  using assms
  by (auto simp: total_datagrams_def total_bytes_def intro!: member_le_sum_list)

lemma udp_process_ok:
  "udp_process g ls \<Longrightarrow> (\<forall>l \<in> set ls. listener_ok l) \<and> budget_ok g \<and>
     ub_queued_datagrams g = total_datagrams ls \<and> ub_queued_bytes g = total_bytes ls"
proof (induction rule: udp_process.induct)
  case empty
  show ?case by (simp add: budget_ok_def total_datagrams_def total_bytes_def)
next
  case (created g ls n)
  have "listener_ok (new_udp_listener n)"
    by (simp add: listener_ok_def parts_ok_def counters_ok_def new_udp_listener_def flight_datagrams_def flight_bytes_def)
  then show ?case
    using created.IH by (auto simp: total_datagrams_def total_bytes_def new_udp_listener_def)
next
  case (step g ls k g' l')
  have "covered g (ls ! k)" using member_le_total [OF step.hyps(2)] step.IH by (simp add: covered_def)
  with step have ok: "step_ok (g, ls ! k) (g', l')" by (simp add: udp_step_ok)
  then have change: "ub_queued_datagrams g' + ul_queued_ingress_datagrams (ls ! k) =
      ub_queued_datagrams g + ul_queued_ingress_datagrams l'"
    "ub_queued_bytes g' + ul_queued_ingress_bytes (ls ! k) = ub_queued_bytes g + ul_queued_ingress_bytes l'"
    "budget_ok g'" "listener_ok l'"
    using step.IH by (simp_all add: step_ok_def same_change_def)
  have "\<forall>l \<in> set (ls[k := l']). listener_ok l"
    using change(4) step.IH set_update_subset_insert [of ls k l'] by blast
  then show ?case
    using change step.IH step.hyps(2)
      sum_list_map_update [of k ls ul_queued_ingress_datagrams l'] sum_list_map_update [of k ls ul_queued_ingress_bytes l']
    by (simp add: total_datagrams_def total_bytes_def)
qed

lemma stop_hands_back:
  assumes "covered g l"
  shows "ul_queued_ingress_datagrams (snd (udp_stop (g, l))) = 0 \<and>
    ul_queued_ingress_bytes (snd (udp_stop (g, l))) = 0 \<and>
    ub_queued_datagrams (fst (udp_stop (g, l))) + ul_queued_ingress_datagrams l = ub_queued_datagrams g \<and>
    ub_queued_bytes (fst (udp_stop (g, l))) + ul_queued_ingress_bytes l = ub_queued_bytes g"
  using assms by (simp add: udp_stop_def release_ingress_now_def Let_def covered_def budget_release_def)

text \<open>
  C30: Accounting of the ingress budget.  However datagrams, posted tasks, completions, stops and
  destructions of all UDP listeners interleave, the budget of the process is the sum of the
  reservations of its listeners and stays within its limits.  The reservation of an open listener is
  exactly the datagrams and bytes in flight in its posted tasks and in its sessions; so while every
  listener is open the budget is exactly what is in flight.  Stopping a listener hands its whole
  reservation back at once, although records of its sessions may still wait: from then on its
  reservation is at most what it has in flight, nothing once it is destroyed, and so the budget is
  never more than what is in flight.
\<close>

theorem udp_budget_exact:
  assumes "udp_process g ls" "l \<in> set ls"
  shows "ub_queued_datagrams g = total_datagrams ls \<and> ub_queued_bytes g = total_bytes ls \<and>
    ub_queued_datagrams g \<le> kBudgetMaximumDatagrams \<and> ub_queued_bytes g \<le> kBudgetMaximumBytes \<and>
    (ul_open l \<longrightarrow> ul_queued_ingress_datagrams l = flight_datagrams l \<and>
       ul_queued_ingress_bytes l = flight_bytes l) \<and>
    ((\<forall>k \<in> set ls. ul_open k) \<longrightarrow>
       ub_queued_datagrams g = (\<Sum>k\<leftarrow>ls. flight_datagrams k) \<and> ub_queued_bytes g = (\<Sum>k\<leftarrow>ls. flight_bytes k)) \<and>
    ul_queued_ingress_datagrams l \<le> flight_datagrams l \<and> ul_queued_ingress_bytes l \<le> flight_bytes l \<and>
    ub_queued_datagrams g \<le> (\<Sum>k\<leftarrow>ls. flight_datagrams k) \<and> ub_queued_bytes g \<le> (\<Sum>k\<leftarrow>ls. flight_bytes k) \<and>
    (\<not> ul_alive l \<longrightarrow> ul_queued_ingress_datagrams l = 0 \<and> ul_queued_ingress_bytes l = 0) \<and>
    ul_queued_ingress_datagrams (snd (udp_stop (g, l))) = 0 \<and>
    ul_queued_ingress_bytes (snd (udp_stop (g, l))) = 0 \<and>
    ub_queued_datagrams (fst (udp_stop (g, l))) + ul_queued_ingress_datagrams l = ub_queued_datagrams g \<and>
    ub_queued_bytes (fst (udp_stop (g, l))) + ul_queued_ingress_bytes l = ub_queued_bytes g"
proof -
  note process = udp_process_ok [OF assms(1)]
  then have each: "counters_ok 0 0 k" if "k \<in> set ls" for k using that by (auto simp: listener_ok_def)
  obtain i where "i < length ls" "ls ! i = l" using assms(2) by (auto simp: in_set_conv_nth)
  then have "covered g l" using member_le_total [of i ls] process by (simp add: covered_def)
  note given = stop_hands_back [OF this]
  have le: "total_datagrams ls \<le> (\<Sum>k\<leftarrow>ls. flight_datagrams k)" "total_bytes ls \<le> (\<Sum>k\<leftarrow>ls. flight_bytes k)"
    unfolding total_datagrams_def total_bytes_def
    by (intro sum_list_mono; use each in \<open>simp add: counters_ok_def\<close>)+
  have "total_datagrams ls = (\<Sum>k\<leftarrow>ls. flight_datagrams k)" "total_bytes ls = (\<Sum>k\<leftarrow>ls. flight_bytes k)"
    if "\<forall>k \<in> set ls. ul_open k"
    unfolding total_datagrams_def total_bytes_def
    by (intro arg_cong [where f = sum_list] map_cong refl; use each that in \<open>simp add: counters_ok_def\<close>)+
  with given le process each [OF assms(2)] show ?thesis by (simp add: counters_ok_def budget_ok_def)
qed

text \<open>
  C31: Every queue of a UDP listener is bounded: the reservation and the queue towards the public
  socket, the number of peers, and the queue of each peer, with byte counters equal to the queued
  bytes.
\<close>

theorem udp_queues_bounded:
  assumes "udp_process g ls" "l \<in> set ls" "s \<in> set (ul_sessions l)"
  shows "ul_queued_ingress_datagrams l \<le> kMaximumQueuedDatagrams \<and>
    ul_queued_ingress_bytes l \<le> kMaximumQueuedBytes \<and> length (ul_peers l) \<le> ul_max_peer_sessions l \<and>
    length (ul_send_queue l) \<le> kMaximumQueuedDatagrams \<and>
    sum_list (map (length \<circ> snd) (ul_send_queue l)) \<le> kMaximumQueuedBytes \<and>
    length (ps_write_queue s) \<le> kMaximumPeerQueuedDatagrams \<and>
    sum_list (map length (ps_write_queue s)) \<le> kMaximumPeerQueuedBytes"
proof -
  have "parts_ok l" using udp_process_ok [OF assms(1)] assms(2) by (simp add: listener_ok_def)
  moreover from this have "session_ok s" using assms(3) by (simp add: parts_ok_def)
  ultimately show ?thesis by (simp add: parts_ok_def session_ok_def)
qed

definition sample_udp :: "UdpIngressBudget \<times> UdpListener" where
  "sample_udp = run_task (TaskEnqueue 0 [0, 1, 9])
     (apsnd (\<lambda>l. l\<lparr>ul_tasks := {#}\<rparr>)
       (handle_datagram (''10.0.0.1'', 53) [9] True
         (\<lparr>ub_queued_datagrams = 0, ub_queued_bytes = 0\<rparr>, new_udp_listener 2)))"

lemma write_u16_1: "write_u16 1 = [0, 1]"
  by code_simp

lemmas sample_udp_defs = handle_datagram_def encode_datagram_record_def reserve_ingress_def
  budget_reserve_def new_udp_listener_def post_def Let_def kMaximumUdpPayloadSize_def
  kMaximumQueuedDatagrams_def kMaximumQueuedBytes_def kBudgetMaximumDatagrams_def
  kBudgetMaximumBytes_def write_u16_1 session_enqueue_def session_write_next_def set_session_def
  kMaximumPeerQueuedDatagrams_def kMaximumPeerQueuedBytes_def

lemma sample_udp_run:
  "udp_process (fst sample_udp) [snd sample_udp]" "ul_open (snd sample_udp)"
  "ps_write_queue (ul_sessions (snd sample_udp) ! 0) = [[0, 1, 9]]" "length (ul_sessions (snd sample_udp)) = 1"
  "flight_datagrams (snd sample_udp) = 1" "ub_queued_datagrams (fst sample_udp) = 1"
proof -
  let ?g0 = "\<lparr>ub_queued_datagrams = 0, ub_queued_bytes = 0\<rparr>"
  let ?gl = "handle_datagram (''10.0.0.1'', 53) [9] True (?g0, new_udp_listener 2)"
  have start: "udp_process ?g0 ([] @ [new_udp_listener 2])" by (rule udp_process.created [OF udp_process.empty])
  have "udp_process (fst ?gl) ([new_udp_listener 2][0 := snd ?gl])"
    by (rule udp_process.step) (use start in \<open>auto simp: new_udp_listener_def intro!: udp_step.datagram\<close>)
  then have received: "udp_process (fst ?gl) [snd ?gl]" by simp
  have tasks: "ul_tasks (snd ?gl) = {#TaskEnqueue 0 [0, 1, 9]#}" by (simp add: sample_udp_defs)
  have "udp_step (fst ?gl, snd ?gl) (run_task (TaskEnqueue 0 [0, 1, 9])
      (fst ?gl, (snd ?gl)\<lparr>ul_tasks := ul_tasks (snd ?gl) - {#TaskEnqueue 0 [0, 1, 9]#}\<rparr>))"
    by (rule udp_step.task) (simp add: tasks)
  then have "udp_step (fst ?gl, snd ?gl) (fst sample_udp, snd sample_udp)"
    by (simp add: sample_udp_def tasks apsnd_def map_prod_def case_prod_beta')
  then have "udp_process (fst sample_udp) ([snd ?gl][0 := snd sample_udp])"
    by (intro udp_process.step [OF received]) simp_all
  then show "udp_process (fst sample_udp) [snd sample_udp]" by simp
  show "ul_open (snd sample_udp)" "ps_write_queue (ul_sessions (snd sample_udp) ! 0) = [[0, 1, 9]]"
    "length (ul_sessions (snd sample_udp)) = 1"
    "flight_datagrams (snd sample_udp) = 1" "ub_queued_datagrams (fst sample_udp) = 1"
    by (simp_all add: sample_udp_def sample_udp_defs flight_datagrams_def)
qed

theorem udp_budget_exact_witness:
  "ub_queued_datagrams (fst sample_udp) = 1 \<and> ul_queued_ingress_datagrams (snd sample_udp) = 1"
  using udp_budget_exact [OF sample_udp_run(1), of "snd sample_udp"] sample_udp_run(2,5,6) by simp

theorem udp_queues_bounded_witness:
  "\<exists>s \<in> set (ul_sessions (snd sample_udp)). ps_write_queue s = [[0, 1, 9]] \<and>
     length (ps_write_queue s) \<le> kMaximumPeerQueuedDatagrams"
proof -
  let ?s = "ul_sessions (snd sample_udp) ! 0"
  have "?s \<in> set (ul_sessions (snd sample_udp))" using sample_udp_run(4) by simp
  with udp_queues_bounded [OF sample_udp_run(1), of "snd sample_udp" ?s] sample_udp_run(3)
  show ?thesis by (intro bexI [of _ ?s]) simp_all
qed

end
