(* ===== verification/Worker_Pool.thy ===== *)
theory Worker_Pool
  imports Owned_Registries Ids
begin

text \<open>
  \<open>include/minitun/server/worker_pool.hpp\<close> and \<open>src/server/worker_pool.cpp\<close>: the idle Workers of
  the server.  The handlers are values of a type \<open>'h\<close>; an operation returns the handlers it calls,
  in the order it calls them.  What a handler does is outside the pool: the code swallows its
  exceptions, and handlers do not call back into the pool.  The public socket and the quota lease
  that \<open>assign\<close> moves into the handler are passed on unchanged and are not part of the pool.
\<close>

record WorkerRegistration =
  wr_client_id :: string
  wr_session_generation :: u64
  wr_worker_id :: string
  wr_max_idle_workers :: nat

record 'h WorkerEntry =
  we_registration :: WorkerRegistration
  we_assignment_handler :: 'h
  we_removal_handler :: "'h option"

record 'h WorkerPool =
  wp_max_idle_workers_per_session :: nat
  wp_max_total_idle_workers :: nat
  wp_entries :: "(string, 'h WorkerEntry) umap"

definition new_worker_pool :: "nat \<Rightarrow> nat \<Rightarrow> 'h WorkerPool" where
  "new_worker_pool per_session total_workers =
     \<lparr>wp_max_idle_workers_per_session = per_session, wp_max_total_idle_workers = total_workers,
      wp_entries = []\<rparr>"

definition validate_registration :: "WorkerRegistration \<Rightarrow> unit Result" where
  "validate_registration r =
     (if \<not> has_value (id_parse_kind (wr_client_id r) IK_client) \<or>
         \<not> has_value (id_parse_kind (wr_worker_id r) IK_connection) \<or> wr_session_generation r = 0
      then failure EC_invalid_argument ''worker registration identity is invalid''
      else Inr ())"

definition belongs_to :: "string \<Rightarrow> u64 \<Rightarrow> 'h WorkerEntry \<Rightarrow> bool" where
  "belongs_to client_id session_generation e \<longleftrightarrow>
     wr_client_id (we_registration e) = client_id \<and>
     wr_session_generation (we_registration e) = session_generation"

definition idle_count :: "string \<Rightarrow> u64 \<Rightarrow> 'h WorkerPool \<Rightarrow> nat" where
  "idle_count client_id session_generation p =
     length (filter (\<lambda>(_, e). belongs_to client_id session_generation e) (wp_entries p))"

definition worker_add ::
  "WorkerRegistration \<Rightarrow> 'h option \<Rightarrow> 'h option \<Rightarrow> 'h WorkerPool \<Rightarrow> unit Result \<times> 'h WorkerPool" where
  "worker_add r assignment_handler removal_handler p =
     (case validate_registration r of
        Inl e \<Rightarrow> (Inl e, p)
      | Inr _ \<Rightarrow>
          (case assignment_handler of
             None \<Rightarrow> (failure EC_invalid_argument ''worker assignment handler is empty'', p)
           | Some handler \<Rightarrow>
               if map_of (wp_entries p) (wr_worker_id r) \<noteq> None
               then (failure EC_already_exists ''worker ID is already registered'', p)
               else (let effective_session_limit =
                           (if wr_max_idle_workers r = 0 then wp_max_idle_workers_per_session p
                            else min (wr_max_idle_workers r) (wp_max_idle_workers_per_session p))
                     in if effective_session_limit = 0 \<or>
                           wp_max_total_idle_workers p \<le> length (wp_entries p) \<or>
                           effective_session_limit \<le>
                             idle_count (wr_client_id r) (wr_session_generation r) p
                        then (failure EC_resource_exhausted ''idle worker limit has been reached'', p)
                        else (Inr (), p\<lparr>wp_entries := AList.update (wr_worker_id r)
                               \<lparr>we_registration = r, we_assignment_handler = handler,
                                we_removal_handler = removal_handler\<rparr> (wp_entries p)\<rparr>))))"

text \<open>The entry that is assigned and its handler, or nothing when no Worker of the session is idle.\<close>

definition worker_assign ::
  "((string \<times> 'h WorkerEntry) list \<Rightarrow> (string \<times> 'h WorkerEntry) list) \<Rightarrow> string \<Rightarrow> u64 \<Rightarrow>
   'h WorkerPool \<Rightarrow> 'h WorkerEntry option \<times> 'h WorkerPool" where
  "worker_assign order client_id session_generation p =
     (case find (\<lambda>(_, e). belongs_to client_id session_generation e) (order (wp_entries p)) of
        None \<Rightarrow> (None, p)
      | Some (k, e) \<Rightarrow> (Some e, p\<lparr>wp_entries := AList.delete k (wp_entries p)\<rparr>))"

definition removal_calls :: "'h WorkerEntry list \<Rightarrow> 'h list" where
  "removal_calls es = List.map_filter we_removal_handler es"

definition worker_remove :: "string \<Rightarrow> 'h WorkerPool \<Rightarrow> 'h WorkerEntry list \<times> 'h WorkerPool" where
  "worker_remove worker_id p =
     (case map_of (wp_entries p) worker_id of
        None \<Rightarrow> ([], p)
      | Some e \<Rightarrow> ([e], p\<lparr>wp_entries := AList.delete worker_id (wp_entries p)\<rparr>))"

definition worker_remove_session ::
  "((string \<times> 'h WorkerEntry) list \<Rightarrow> (string \<times> 'h WorkerEntry) list) \<Rightarrow> string \<Rightarrow> u64 \<Rightarrow>
   'h WorkerPool \<Rightarrow> 'h WorkerEntry list \<times> 'h WorkerPool" where
  "worker_remove_session order client_id session_generation p =
     (case erase_matching order (belongs_to client_id session_generation) (wp_entries p) of
        (gone, kept) \<Rightarrow> (gone, p\<lparr>wp_entries := kept\<rparr>))"

definition worker_remove_client ::
  "((string \<times> 'h WorkerEntry) list \<Rightarrow> (string \<times> 'h WorkerEntry) list) \<Rightarrow> string \<Rightarrow>
   'h WorkerPool \<Rightarrow> 'h WorkerEntry list \<times> 'h WorkerPool" where
  "worker_remove_client order client_id p =
     (case erase_matching order (\<lambda>e. wr_client_id (we_registration e) = client_id) (wp_entries p) of
        (gone, kept) \<Rightarrow> (gone, p\<lparr>wp_entries := kept\<rparr>))"

definition worker_clear ::
  "((string \<times> 'h WorkerEntry) list \<Rightarrow> (string \<times> 'h WorkerEntry) list) \<Rightarrow>
   'h WorkerPool \<Rightarrow> 'h WorkerEntry list \<times> 'h WorkerPool" where
  "worker_clear order p = (map snd (order (wp_entries p)), p\<lparr>wp_entries := []\<rparr>)"

definition worker_size :: "'h WorkerPool \<Rightarrow> nat" where
  "worker_size p = length (wp_entries p)"

section \<open>Ownership\<close>

definition worker_owner :: "'h WorkerEntry \<Rightarrow> string \<times> u64" where
  "worker_owner e = (wr_client_id (we_registration e), wr_session_generation (we_registration e))"

interpretation idle_workers: owned_registry wp_entries worker_owner
  "\<lambda>c g p. snd (worker_remove_session order c g p)" "\<lambda>c p. snd (worker_remove_client order c p)"
  "\<lambda>p. snd (worker_clear order p)" for order
  by unfold_locales
     (auto simp: worker_remove_session_def worker_remove_client_def worker_clear_def
       erase_matching_def worker_owner_def belongs_to_def intro!: filter_cong)

section \<open>Sequences of operations\<close>

text \<open>
  \<open>pool_run limits p added assigned removed\<close>: the pool \<open>p\<close> is reached from an empty one, and the
  entries that were added, handed out and removed on the way.  Every iteration may see the table in
  any order.
\<close>

inductive pool_run ::
  "nat \<times> nat \<Rightarrow> 'h WorkerPool \<Rightarrow> 'h WorkerEntry multiset \<Rightarrow> 'h WorkerEntry multiset \<Rightarrow>
   'h WorkerEntry multiset \<Rightarrow> bool" for limits where
  empty: "pool_run limits (new_worker_pool (fst limits) (snd limits)) {#} {#} {#}"
| added: "pool_run limits p A S R \<Longrightarrow> worker_add r (Some h) h' p = (Inr (), p') \<Longrightarrow>
    pool_run limits p' (add_mset \<lparr>we_registration = r, we_assignment_handler = h,
      we_removal_handler = h'\<rparr> A) S R"
| assigned: "pool_run limits p A S R \<Longrightarrow> arranges order \<Longrightarrow> worker_assign order c g p = (Some e, p') \<Longrightarrow>
    pool_run limits p' A (add_mset e S) R"
| removed: "pool_run limits p A S R \<Longrightarrow> worker_remove w p = (es, p') \<Longrightarrow>
    pool_run limits p' A S (mset es + R)"
| session_removed: "pool_run limits p A S R \<Longrightarrow> arranges order \<Longrightarrow>
    worker_remove_session order c g p = (es, p') \<Longrightarrow> pool_run limits p' A S (mset es + R)"
| client_removed: "pool_run limits p A S R \<Longrightarrow> arranges order \<Longrightarrow>
    worker_remove_client order c p = (es, p') \<Longrightarrow> pool_run limits p' A S (mset es + R)"
| cleared: "pool_run limits p A S R \<Longrightarrow> arranges order \<Longrightarrow>
    worker_clear order p = (es, p') \<Longrightarrow> pool_run limits p' A S (mset es + R)"

definition present :: "'h WorkerPool \<Rightarrow> 'h WorkerEntry multiset" where
  "present p = mset (map snd (wp_entries p))"

definition pool_ok :: "nat \<times> nat \<Rightarrow> 'h WorkerPool \<Rightarrow> bool" where
  "pool_ok limits p \<longleftrightarrow> keys_ok (wp_entries p) \<and>
     wp_max_idle_workers_per_session p = fst limits \<and> wp_max_total_idle_workers p = snd limits \<and>
     length (wp_entries p) \<le> snd limits \<and> (\<forall>c g. idle_count c g p \<le> fst limits) \<and>
     (\<forall>k e. (k, e) \<in> set (wp_entries p) \<longrightarrow> k = wr_worker_id (we_registration e) \<and>
        has_value (validate_registration (we_registration e)))"

lemma worker_add_Inr:
  assumes "worker_add r h h' p = (Inr u, p')"
  shows "has_value (validate_registration r) \<and> map_of (wp_entries p) (wr_worker_id r) = None \<and>
    length (wp_entries p) < wp_max_total_idle_workers p \<and>
    idle_count (wr_client_id r) (wr_session_generation r) p < wp_max_idle_workers_per_session p \<and>
    (wr_max_idle_workers r \<noteq> 0 \<longrightarrow>
      idle_count (wr_client_id r) (wr_session_generation r) p < wr_max_idle_workers r) \<and>
    (\<exists>handler. h = Some handler \<and> p' = p\<lparr>wp_entries := wp_entries p @ [(wr_worker_id r,
      \<lparr>we_registration = r, we_assignment_handler = handler, we_removal_handler = h'\<rparr>)]\<rparr>)"
  using assms
  by (auto simp: worker_add_def Let_def update_fresh split: sum.splits option.splits if_splits)

lemma idle_count_filter_le:
  "length (filter P (filter Q m)) \<le> length (filter P m)"
  by (induction m) auto

lemma pool_ok_filter:
  assumes "pool_ok limits p" "wp_entries p' = filter Q (wp_entries p)"
    and "wp_max_idle_workers_per_session p' = wp_max_idle_workers_per_session p"
      "wp_max_total_idle_workers p' = wp_max_total_idle_workers p"
  shows "pool_ok limits p'"
proof -
  have "length (wp_entries p') \<le> length (wp_entries p)" by (simp add: assms(2))
  moreover have "idle_count c g p' \<le> fst limits" for c g
  proof -
    have "idle_count c g p' \<le> idle_count c g p"
      by (simp only: idle_count_def assms(2) idle_count_filter_le)
    also have "\<dots> \<le> fst limits" using assms(1) by (simp add: pool_ok_def)
    finally show ?thesis .
  qed
  moreover have "keys_ok (wp_entries p')"
    using assms(1) by (simp add: assms(2) pool_ok_def keys_ok_filter)
  ultimately show ?thesis
    using assms(1,3,4) unfolding pool_ok_def by (auto simp: assms(2) intro: order.trans [OF length_filter_le])
qed

lemma pool_ok_add:
  assumes "pool_ok limits p" "worker_add r h h' p = (Inr u, p')"
  shows "pool_ok limits p'"
proof -
  note add = worker_add_Inr [OF assms(2)]
  then obtain handler where p': "p' = p\<lparr>wp_entries := wp_entries p @ [(wr_worker_id r,
      \<lparr>we_registration = r, we_assignment_handler = handler, we_removal_handler = h'\<rparr>)]\<rparr>" by blast
  have "idle_count c g p' \<le> fst limits" for c g
  proof (cases "c = wr_client_id r \<and> g = wr_session_generation r")
    case True
    then show ?thesis using add assms(1) by (auto simp: p' idle_count_def belongs_to_def pool_ok_def)
  next
    case False
    then have "idle_count c g p' = idle_count c g p" by (auto simp: p' idle_count_def belongs_to_def)
    then show ?thesis using assms(1) by (simp add: pool_ok_def)
  qed
  moreover have "keys_ok (wp_entries p')"
    using add assms(1) by (auto simp: p' pool_ok_def keys_ok_def map_of_eq_None_iff)
  ultimately show ?thesis using add assms(1) by (auto simp: p' pool_ok_def)
qed

lemma worker_assign_Some:
  assumes "arranges order" "keys_ok (wp_entries p)" "worker_assign order c g p = (Some e, p')"
  obtains k where "map_of (wp_entries p) k = Some e" "belongs_to c g e"
    "p' = p\<lparr>wp_entries := AList.delete k (wp_entries p)\<rparr>"
proof -
  obtain k where "find (\<lambda>(_, e). belongs_to c g e) (order (wp_entries p)) = Some (k, e)"
    and p': "p' = p\<lparr>wp_entries := AList.delete k (wp_entries p)\<rparr>"
    using assms(3) by (auto simp: worker_assign_def split: option.splits)
  then have "(k, e) \<in> set (order (wp_entries p)) \<and> belongs_to c g e"
    unfolding List.find_Some_iff by (metis (no_types, lifting) case_prod_conv nth_mem)
  then show ?thesis
    using that [of k] p' assms(1,2) by (simp add: arranges_set Hash_Maps.find_Some_iff)
qed

lemma worker_assign_None:
  assumes "arranges order"
  shows "fst (worker_assign order c g p) = None \<longleftrightarrow> idle_count c g p = 0"
proof -
  have "fst (worker_assign order c g p) = None \<longleftrightarrow>
      find (\<lambda>(_, e). belongs_to c g e) (order (wp_entries p)) = None"
    by (auto simp: worker_assign_def split: option.split)
  then show ?thesis
    using arranges_set [OF assms, of "wp_entries p"]
    by (auto simp: idle_count_def List.find_None_iff filter_empty_conv)
qed

lemma pool_run_ok:
  assumes "pool_run limits p A S R"
  shows "pool_ok limits p \<and> A = S + R + present p"
  using assms
proof (induction rule: pool_run.induct)
  case empty
  show ?case by (simp add: pool_ok_def new_worker_pool_def present_def idle_count_def)
next
  case (added p A S R r h h' p')
  have "present p' = add_mset \<lparr>we_registration = r, we_assignment_handler = h, we_removal_handler = h'\<rparr> (present p)"
    using worker_add_Inr [OF added.hyps(2)] by (auto simp: present_def)
  then show ?case using added.IH pool_ok_add [OF _ added.hyps(2)] by simp
next
  case (assigned p A S R order c g e p')
  then have ok: "keys_ok (wp_entries p)" by (simp add: pool_ok_def)
  obtain k where k: "map_of (wp_entries p) k = Some e" "p' = p\<lparr>wp_entries := AList.delete k (wp_entries p)\<rparr>"
    using worker_assign_Some [OF assigned.hyps(2) ok assigned.hyps(3)] by blast
  have "pool_ok limits p'"
    using assigned.IH by (intro pool_ok_filter [of limits p p' "\<lambda>(k', _). k' \<noteq> k"]) (simp_all add: k(2) delete_as_filter)
  moreover have "present p = add_mset e (present p')"
    using delete_conserves [OF ok k(1)] by (simp add: present_def k(2))
  ultimately show ?case using assigned.IH by simp
next
  case (removed p A S R w es p')
  then have ok: "keys_ok (wp_entries p)" by (simp add: pool_ok_def)
  show ?case
  proof (cases "map_of (wp_entries p) w")
    case None
    then show ?thesis using removed by (simp add: worker_remove_def)
  next
    case (Some e)
    then have p': "es = [e]" "p' = p\<lparr>wp_entries := AList.delete w (wp_entries p)\<rparr>"
      using removed.hyps(2) by (simp_all add: worker_remove_def)
    have "pool_ok limits p'"
      using removed.IH by (intro pool_ok_filter [of limits p p' "\<lambda>(k', _). k' \<noteq> w"]) (simp_all add: p' delete_as_filter)
    moreover have "present p = add_mset e (present p')"
      using delete_conserves [OF ok Some] by (simp add: present_def p')
    ultimately show ?thesis using removed.IH p' by simp
  qed
next
  case (session_removed p A S R order c g es p')
  then have "pool_ok limits p'"
    by (intro pool_ok_filter [of limits p p' "\<lambda>(_, e). \<not> belongs_to c g e"])
       (auto simp: worker_remove_session_def erase_matching_def)
  moreover have "present p = mset es + present p'"
    using session_removed.hyps erase_matching_conserves [of order "wp_entries p" "belongs_to c g"]
    by (auto simp: worker_remove_session_def present_def split: prod.splits)
  ultimately show ?case using session_removed.IH by simp
next
  case (client_removed p A S R order c es p')
  then have "pool_ok limits p'"
    by (intro pool_ok_filter [of limits p p' "\<lambda>(_, e). wr_client_id (we_registration e) \<noteq> c"])
       (auto simp: worker_remove_client_def erase_matching_def)
  moreover have "present p = mset es + present p'"
    using client_removed.hyps
      erase_matching_conserves [of order "wp_entries p" "\<lambda>e. wr_client_id (we_registration e) = c"]
    by (auto simp: worker_remove_client_def present_def split: prod.splits)
  ultimately show ?case using client_removed.IH by simp
next
  case (cleared p A S R order es p')
  then have p': "p' = p\<lparr>wp_entries := []\<rparr>" "es = map snd (order (wp_entries p))"
    by (simp_all add: worker_clear_def)
  have "pool_ok limits p'"
    using cleared.IH by (intro pool_ok_filter [of limits p p' "\<lambda>_. False"]) (simp_all add: p')
  moreover have "present p = mset es + present p'"
    using cleared.hyps(2) by (simp add: p' present_def arranges_def)
  ultimately show ?case using cleared.IH by simp
qed

text \<open>
  C26: Workers are neither lost nor handed out twice.  However operations on the pool interleave and
  in whatever order its table is iterated, every Worker that was added is either still idle, or was
  handed out exactly once, or was removed exactly once; the idle Workers respect the limits in
  total and per session, and each is stored under its own valid identifier.
\<close>

theorem worker_pool_conserves:
  assumes "pool_run (per_session, total_workers) p A S R"
  shows "A = S + R + present p \<and> worker_size p \<le> total_workers \<and> idle_count c g p \<le> per_session \<and>
    (\<forall>k e. map_of (wp_entries p) k = Some e \<longrightarrow>
       wr_worker_id (we_registration e) = k \<and> has_value (validate_registration (we_registration e)))"
  using pool_run_ok [OF assms]
  by (auto simp: pool_ok_def worker_size_def dest!: map_of_SomeD)

text \<open>
  An idle Worker is always found.  \<open>assign\<close> returns false exactly when the session has no idle
  Worker; otherwise it hands out one Worker of that session and leaves all the others.
\<close>

theorem worker_assign_progress:
  assumes "pool_run limits p A S R" "arranges order"
  shows "case worker_assign order c g p of
      (None, p') \<Rightarrow> idle_count c g p = 0 \<and> p' = p
    | (Some e, p') \<Rightarrow> 0 < idle_count c g p \<and> belongs_to c g e \<and> present p = add_mset e (present p')"
proof -
  have ok: "keys_ok (wp_entries p)" using pool_run_ok [OF assms(1)] by (simp add: pool_ok_def)
  show ?thesis
  proof (cases "worker_assign order c g p")
    case (Pair r p')
    then show ?thesis
    proof (cases r)
      case None
      then show ?thesis
        using Pair worker_assign_None [OF assms(2), of c g p]
        by (auto simp: worker_assign_def split: option.splits)
    next
      case (Some e)
      with Pair obtain k where "map_of (wp_entries p) k = Some e" "belongs_to c g e"
        "p' = p\<lparr>wp_entries := AList.delete k (wp_entries p)\<rparr>"
        using worker_assign_Some [OF assms(2) ok] by blast
      then show ?thesis
        using Some Pair worker_assign_None [OF assms(2), of c g p] delete_conserves [OF ok]
        by (simp add: present_def)
    qed
  qed
qed

definition sample_worker :: WorkerRegistration where
  "sample_worker = \<lparr>wr_client_id = sample_id IK_client, wr_session_generation = 3,
     wr_worker_id = sample_id IK_connection, wr_max_idle_workers = 1\<rparr>"

lemma sample_pool:
  obtains p where "worker_add sample_worker (Some (7 :: nat)) None (new_worker_pool 2 4) = (Inr (), p)"
    "pool_run (2, 4) p {#\<lparr>we_registration = sample_worker, we_assignment_handler = 7,
       we_removal_handler = None\<rparr>#} {#} {#}"
proof -
  obtain p where p: "worker_add sample_worker (Some (7 :: nat)) None (new_worker_pool 2 4) = (Inr (), p)"
    by (simp add: worker_add_def validate_registration_def sample_worker_def new_worker_pool_def
        idle_count_def)
  have "pool_run (2, 4) (new_worker_pool 2 4) {#} {#} ({#} :: nat WorkerEntry multiset)"
    using pool_run.empty [of "(2, 4)"] by simp
  from pool_run.added [OF this p] p that show ?thesis by blast
qed

theorem worker_pool_conserves_witness:
  "\<exists>p :: nat WorkerPool. worker_size p = 1 \<and> present p = {#\<lparr>we_registration = sample_worker,
     we_assignment_handler = 7, we_removal_handler = None\<rparr>#}"
proof -
  obtain p where run: "pool_run (2, 4) p {#\<lparr>we_registration = sample_worker,
      we_assignment_handler = 7 :: nat, we_removal_handler = None\<rparr>#} {#} {#}"
    by (rule sample_pool)
  from worker_pool_conserves [OF run] have "present p = {#\<lparr>we_registration = sample_worker,
      we_assignment_handler = 7, we_removal_handler = None\<rparr>#}" by simp
  moreover from arg_cong [OF this, of size] have "worker_size p = 1"
    by (simp add: present_def worker_size_def)
  ultimately show ?thesis by blast
qed

theorem worker_assign_progress_witness:
  "\<exists>p e p'. worker_assign id (sample_id IK_client) 3 (p :: nat WorkerPool) = (Some e, p') \<and>
     we_assignment_handler e = 7"
proof -
  obtain p where add: "worker_add sample_worker (Some (7 :: nat)) None (new_worker_pool 2 4) = (Inr (), p)"
    and run: "pool_run (2, 4) p {#\<lparr>we_registration = sample_worker, we_assignment_handler = 7,
      we_removal_handler = None\<rparr>#} {#} {#}"
    by (rule sample_pool)
  have p: "wp_entries p = [(sample_id IK_connection, \<lparr>we_registration = sample_worker,
      we_assignment_handler = 7, we_removal_handler = None\<rparr>)]"
    using worker_add_Inr [OF add] by (auto simp: new_worker_pool_def sample_worker_def)
  have "idle_count (sample_id IK_client) 3 p \<noteq> 0"
    by (simp add: idle_count_def p belongs_to_def sample_worker_def)
  with worker_assign_progress [OF run, of id "sample_id IK_client" 3]
  obtain e p' where "worker_assign id (sample_id IK_client) 3 p = (Some e, p')" "present p = add_mset e (present p')"
    by (auto simp: arranges_def split: prod.splits option.splits)
  moreover from this(2) have "e = \<lparr>we_registration = sample_worker, we_assignment_handler = 7,
      we_removal_handler = None\<rparr>" by (simp add: present_def p)
  ultimately show ?thesis by (intro exI [of _ p] exI [of _ e] exI [of _ p']) simp
qed

end
